(* ===== verification/Prelude.thy ===== *)
theory Prelude
  imports Main "HOL-Library.Word"
begin

text \<open>
  Shared vocabulary of the development: the machine types of the runtime, the ways in which
  a call into it can stop without a value, the collections of simplification rules that the
  component theories fill, and the generic facts on words, lists and sums that they share.

  Every fallible operation is a value of a sum type: \<open>Inl\<close> carries the reason for stopping,
  \<open>Inr\<close> the result. A reason is \<open>Abort\<close> of a \<open>fatal\<close> condition (the process, or at least the
  Rust call stack up to the nearest \<open>catch_unwind\<close>, is gone) or \<open>Raise\<close> of an ordinary error
  value of the component (a Rust \<open>Err\<close>).
\<close>

unbundle bit_operations_syntax

section \<open>Machine types\<close>

type_synonym u8 = "8 word"
type_synonym u32 = "32 word"
type_synonym u64 = "64 word"

text \<open>
  \<open>i64\<close> and \<open>i32\<close> are the same bit patterns, read with \<open>sint\<close>. Collection lengths
  (\<open>usize\<close> in the source) are \<open>nat\<close>.
\<close>

type_synonym i64 = "64 word"
type_synonym i32 = "32 word"

section \<open>Stopping without a value\<close>

text \<open>
  \<open>Process_Exit status code a b\<close>: \<open>wsm_fail_win64(code, a, b)\<close> ended the process with the
  given exit status. \<open>Wild_Read a\<close>: a raw accessor dereferenced address \<open>a\<close>, which does not
  lie in the arena (undefined behaviour of the native code). \<open>Rust_Panic\<close>: a Rust panic
  started to unwind. \<open>Dangling_Session p\<close>: a call was given a non-null session pointer that
  \<open>wsm_session_init\<close> has not returned or that has been freed (undefined behaviour).
  \<open>Dangling_String s\<close>: the same for a result string of \<open>wsm_eval_string\<close>.
  \<open>Process_Abort\<close>: a panic reached an \<open>extern "C"\<close> frame, out of which nothing unwinds.
  \<open>Out_Of_Fuel\<close> belongs to the model alone: the bound on a recursion was too small; the
  component theories prove that it never occurs.
\<close>

datatype fatal =
    Process_Exit int u32 u64 u64
  | Wild_Read u64
  | Rust_Panic
  | Process_Abort
  | Dangling_Session u64
  | Dangling_String u64
  | Out_Of_Fuel

datatype 'e stop = Abort fatal | Raise 'e

text \<open>Rust's \<open>?\<close>: go on with the value, or stop with the reason.\<close>

primrec and_then :: "'e + 'a \<Rightarrow> ('a \<Rightarrow> 'e + 'b) \<Rightarrow> 'e + 'b" where
  "and_then (Inl e) f = Inl e"
| "and_then (Inr a) f = f a"

lemma and_then_Inr_iff: "and_then r f = Inr b \<longleftrightarrow> (\<exists>a. r = Inr a \<and> f a = Inr b)"
  by (cases r) auto

lemma and_then_Inl_iff: "and_then r f = Inl e \<longleftrightarrow> r = Inl e \<or> (\<exists>a. r = Inr a \<and> f a = Inl e)"
  by (cases r) auto

lemma and_then_cong [fundef_cong]:
  "r = r' \<Longrightarrow> (\<And>a. r' = Inr a \<Longrightarrow> f a = g a) \<Longrightarrow> and_then r f = and_then r' g"
  by (cases r') auto

section \<open>Collections of rules\<close>

named_theorems tag_defs \<open>definitions of the tag constants\<close>
named_theorems word_layout \<open>tag and payload of encoded words\<close>
named_theorems arena_simps \<open>effects of the nucleus primitives on a well-formed arena\<close>
named_theorems table_simps \<open>lookups in the symbol and boxed-value tables\<close>

section \<open>Words\<close>

lemma less_8_cases:
  fixes t :: u64
  assumes "t < 8"
  shows "take_bit 3 t = t" and "drop_bit 3 t = 0"
proof -
  show "take_bit 3 t = t" using assms by (simp add: take_bit_eq_mod mod_word_less)
  show "drop_bit 3 t = 0" using assms by (simp add: drop_bit_eq_div div_word_less)
qed

lemma bit_less_8:
  fixes t :: u64
  assumes "t < 8" and "bit t n"
  shows "n < 3"
proof (rule ccontr)
  assume "\<not> n < 3"
  then have "bit (drop_bit 3 t) (n - 3)"
    using assms(2) by (simp add: bit_drop_bit_eq)
  then show False using less_8_cases(2) [OF assms(1)] by simp
qed

lemma unat_and_7: "unat (w AND (7::u64)) = unat w mod 8"
proof -
  have "(7::u64) = mask 3" by (simp add: mask_eq_exp_minus_1)
  then have "w AND 7 = take_bit 3 w" by (simp add: take_bit_eq_mask)
  then show ?thesis by (simp add: take_bit_eq_mod unat_mod)
qed

lemma unat_and_15: "unat (w AND (15::u64)) = unat w mod 16"
proof -
  have "(15::u64) = mask 4" by (simp add: mask_eq_exp_minus_1)
  then have "w AND 15 = take_bit 4 w" by (simp add: take_bit_eq_mask)
  then show ?thesis by (simp add: take_bit_eq_mod unat_mod)
qed

lemma and_7_eq_0_iff: "w AND (7::u64) = 0 \<longleftrightarrow> unat w mod 8 = 0"
  by (simp add: unat_and_7 flip: unat_eq_0)

lemma and_15_eq_0_iff: "w AND (15::u64) = 0 \<longleftrightarrow> unat w mod 16 = 0"
  by (simp add: unat_and_15 flip: unat_eq_0)

lemma unat_plus_small:
  fixes a :: u64
  assumes "unat a + n < 2 ^ 64"
  shows "unat (a + of_nat n) = unat a + n"
proof -
  have "n < 2 ^ 64" using assms by simp
  then have n: "unat (of_nat n :: u64) = n"
    by (simp add: unat_of_nat take_bit_nat_eq_self_iff)
  then show ?thesis using assms by (simp add: unat_add_lem [THEN iffD1])
qed

section \<open>Lists\<close>

lemma dropWhile_length_less:
  "\<not> P x \<Longrightarrow> length (dropWhile P xs) < Suc (length xs)"
  by (simp add: length_dropWhile_le le_imp_less_Suc)

lemma all_set_takeWhile: "x \<in> set (takeWhile P xs) \<Longrightarrow> P x"
  by (rule set_takeWhileD [THEN conjunct2])

lemma map_of_eq_Some_distinct:
  assumes "distinct (map fst xs)"
  shows "map_of xs k = Some v \<longleftrightarrow> (k, v) \<in> set xs"
  using assms by (simp add: map_of_eq_Some_iff)

end
