(* ===== verification/Word_Encoding.thy ===== *)
theory Word_Encoding
  imports Prelude
begin

text \<open>
  The word encoding of \<open>host-runtime/src/word.rs\<close> (lines 45 to 86): a 64-bit word holds a
  3-bit tag in its low bits and a 61-bit payload above it. The numbers of the tags come from
  the crate \<open>wsm_os_target\<close>, whose values the header of \<open>word.rs\<close> and the \<open>.equ\<close> lines of
  \<open>asm/nucleus-win64.s\<close> repeat: Cons 0, Nil 1, Fixnum 3, Symbol 4, Boxed 7.
\<close>

section \<open>Tags\<close>

definition TAG_BITS :: nat where [tag_defs]: "TAG_BITS = 3"
definition TAG_MASK :: u64 where [tag_defs]: "TAG_MASK = 7"
definition TAG_CONS :: u64 where [tag_defs]: "TAG_CONS = 0"
definition TAG_NIL :: u64 where [tag_defs]: "TAG_NIL = 1"
definition TAG_FIXNUM :: u64 where [tag_defs]: "TAG_FIXNUM = 3"
definition TAG_SYMBOL :: u64 where [tag_defs]: "TAG_SYMBOL = 4"
definition TAG_BOXED :: u64 where [tag_defs]: "TAG_BOXED = 7"

definition WORD_NIL :: u64 where [tag_defs]: "WORD_NIL = TAG_NIL"

text \<open>
  The sentinel id of canonical \<open>t\<close>: the largest 61-bit payload, as the assembly states it.
\<close>

definition SYM_T_ID :: u64 where [tag_defs]: "SYM_T_ID = 0x1FFFFFFFFFFFFFFF"
definition SYM_T_WORD :: u64 where
  [tag_defs]: "SYM_T_WORD = push_bit TAG_BITS SYM_T_ID OR TAG_SYMBOL"

definition tag_of :: "u64 \<Rightarrow> u64" where
  "tag_of word = word AND TAG_MASK"

definition is_truthy :: "u64 \<Rightarrow> bool" where
  "is_truthy word \<longleftrightarrow> word \<noteq> WORD_NIL"

definition encode_fixnum :: "i64 \<Rightarrow> u64" where
  "encode_fixnum v = push_bit 3 v OR TAG_FIXNUM"

text \<open>
  \<open>(word as i64) >> 3\<close> is the arithmetic shift. The \<open>debug_assert_eq!\<close> on the tag has no
  effect in the release build; every caller of the modelled code checks the tag first.
\<close>

definition decode_fixnum :: "u64 \<Rightarrow> i64" where
  "decode_fixnum word = signed_drop_bit 3 word"

section \<open>Layout\<close>

lemma tag_of_take_bit: "tag_of w = take_bit 3 w"
proof -
  have "TAG_MASK = mask 3" by (simp add: tag_defs mask_eq_exp_minus_1)
  then show ?thesis by (simp add: tag_of_def take_bit_eq_mask)
qed

lemma unat_tag_of: "unat (tag_of w) = unat w mod 8"
  by (simp add: tag_of_def tag_defs unat_and_7)

lemma tag_of_less_8: "tag_of w < 8"
  by (simp add: word_less_nat_alt unat_tag_of)

lemma tag_of_encoded [word_layout]:
  fixes t :: u64
  assumes "t < 8"
  shows "tag_of (push_bit 3 p OR t) = t"
  by (simp add: tag_of_take_bit take_bit_push_bit less_8_cases [OF assms])

lemma drop_bit_encoded [word_layout]:
  fixes t p :: u64
  assumes "t < 8"
  shows "drop_bit 3 (push_bit 3 p OR t) = take_bit 61 p"
proof (rule bit_word_eqI)
  fix n assume "n < LENGTH(64)"
  then show "bit (drop_bit 3 (push_bit 3 p OR t)) n = bit (take_bit 61 p) n"
    by (auto simp: bit_simps dest: bit_less_8 [OF assms])
qed

lemma tag_of_cons_iff: "tag_of w = TAG_CONS \<longleftrightarrow> unat w mod 8 = 0"
  by (simp add: tag_of_def tag_defs and_7_eq_0_iff)

lemma tag_of_WORD_NIL [simp]: "tag_of WORD_NIL = TAG_NIL"
  by (simp add: tag_of_def tag_defs)

lemma tag_of_SYM_T_WORD [simp]: "tag_of SYM_T_WORD = TAG_SYMBOL"
  by (simp add: tag_of_def tag_defs)

lemma tag_of_encode_fixnum [simp]: "tag_of (encode_fixnum v) = TAG_FIXNUM"
  unfolding encode_fixnum_def by (rule tag_of_encoded) (simp add: tag_defs)

lemma tags_distinct [simp]:
  "TAG_CONS \<noteq> TAG_NIL" "TAG_CONS \<noteq> TAG_FIXNUM" "TAG_CONS \<noteq> TAG_SYMBOL" "TAG_CONS \<noteq> TAG_BOXED"
  "TAG_NIL \<noteq> TAG_CONS" "TAG_NIL \<noteq> TAG_FIXNUM" "TAG_NIL \<noteq> TAG_SYMBOL" "TAG_NIL \<noteq> TAG_BOXED"
  "TAG_FIXNUM \<noteq> TAG_CONS" "TAG_FIXNUM \<noteq> TAG_NIL" "TAG_FIXNUM \<noteq> TAG_SYMBOL" "TAG_FIXNUM \<noteq> TAG_BOXED"
  "TAG_SYMBOL \<noteq> TAG_CONS" "TAG_SYMBOL \<noteq> TAG_NIL" "TAG_SYMBOL \<noteq> TAG_FIXNUM" "TAG_SYMBOL \<noteq> TAG_BOXED"
  "TAG_BOXED \<noteq> TAG_CONS" "TAG_BOXED \<noteq> TAG_NIL" "TAG_BOXED \<noteq> TAG_FIXNUM" "TAG_BOXED \<noteq> TAG_SYMBOL"
  by (simp_all add: tag_defs)

section \<open>Fixnums\<close>

lemma sint_decode_encode: "sint (decode_fixnum (encode_fixnum v)) = signed_take_bit 60 (sint v)"
proof (rule bit_eqI)
  fix n :: nat
  have three: "\<not> bit (3::u64) (3 + m)" "\<not> bit (3::int) (3 + m)" for m
    using bit_less_8 [of 3 "3 + m"] by (auto simp: numeral_3_eq_3 bit_Suc)
  consider "n < 60" | "n = 60" | "60 < n" by linarith
  then show "bit (sint (decode_fixnum (encode_fixnum v))) n = bit (signed_take_bit 60 (sint v)) n"
    by cases
      (simp_all add: decode_fixnum_def encode_fixnum_def tag_defs bit_simps min_def three)
qed

lemma decode_encode_iff:
  "decode_fixnum (encode_fixnum v) = v \<longleftrightarrow> - (2 ^ 60) \<le> sint v \<and> sint v < 2 ^ 60"
  using sint_decode_encode [of v] signed_take_bit_int_eq_self_iff [of 60 "sint v"]
  by (metis signed_word_eqI)

lemma encode_fixnum_truthy: "is_truthy (encode_fixnum v)"
proof -
  have "tag_of (encode_fixnum v) \<noteq> tag_of WORD_NIL" by simp
  then show ?thesis unfolding is_truthy_def by metis
qed

end
