(* ===== verification/Rust_Text.thy ===== *)
theory Rust_Text
  imports Prelude
begin

text \<open>
  The part of Rust's standard library that the runtime uses on text: \<open>char\<close> and \<open>String\<close> as
  Unicode scalar values, \<open>char::is_whitespace\<close>, \<open>str::parse::<i64>\<close>, the formatting of
  integers (\<open>{}\<close> and \<open>{:#x}\<close>) and of strings (\<open>{:?}\<close>), and the conversion between UTF-8 bytes
  and text at the C boundary (\<open>CStr::to_str\<close>, \<open>CString::new\<close>).
\<close>

section \<open>Characters and strings\<close>

type_synonym rchar = nat
type_synonym rstring = "rchar list"

definition valid_scalar :: "rchar \<Rightarrow> bool" where
  "valid_scalar c \<longleftrightarrow> c < 0xD800 \<or> (0xE000 \<le> c \<and> c < 0x110000)"

text \<open>ASCII literals of the source, as text.\<close>

definition lit :: "string \<Rightarrow> rstring" where
  "lit s = map of_char s"

lemma lit_simps [simp]:
  "lit [] = []"
  "lit (c # s) = of_char c # lit s"
  by (simp_all add: lit_def)

lemma lit_append: "lit (s @ t) = lit s @ lit t"
  by (simp add: lit_def)

text \<open>Unicode's White_Space property, which \<open>char::is_whitespace\<close> tests.\<close>

definition is_whitespace :: "rchar \<Rightarrow> bool" where
  "is_whitespace c \<longleftrightarrow> (9 \<le> c \<and> c \<le> 13) \<or> c = 32 \<or> c = 0x85 \<or> c = 0xA0 \<or> c = 0x1680
     \<or> (0x2000 \<le> c \<and> c \<le> 0x200A) \<or> c = 0x2028 \<or> c = 0x2029 \<or> c = 0x202F \<or> c = 0x205F
     \<or> c = 0x3000"

section \<open>Integers\<close>

fun digits_of :: "nat \<Rightarrow> nat \<Rightarrow> nat list" where
  "digits_of base n =
     (if base < 2 \<or> n < base then [n] else digits_of base (n div base) @ [n mod base])"

declare digits_of.simps [simp del]

definition digit_char :: "nat \<Rightarrow> rchar" where
  "digit_char d = (if d < 10 then 48 + d else 87 + d)"

definition dec_nat :: "nat \<Rightarrow> rstring" where
  "dec_nat n = map digit_char (digits_of 10 n)"

definition dec_int :: "int \<Rightarrow> rstring" where
  "dec_int i = (if i < 0 then 45 # dec_nat (nat (- i)) else dec_nat (nat i))"

text \<open>\<open>{:#x}\<close> on a \<open>u64\<close>.\<close>

definition hex_u64 :: "u64 \<Rightarrow> rstring" where
  "hex_u64 w = lit ''0x'' @ map digit_char (digits_of 16 (unat w))"

fun digits_value :: "nat \<Rightarrow> rstring \<Rightarrow> nat option" where
  "digits_value acc [] = Some acc"
| "digits_value acc (c # cs) =
     (if 48 \<le> c \<and> c \<le> 57 then digits_value (10 * acc + (c - 48)) cs else None)"

text \<open>
  \<open>str::parse::<i64>\<close>: an optional sign, at least one ASCII digit, nothing else, and a value
  that fits. The source multiplies and adds with overflow checks; the prefixes of a digit
  string never decrease in magnitude, so checking the final value is the same test.
\<close>

definition parse_i64 :: "rstring \<Rightarrow> i64 option" where
  "parse_i64 s =
     (case s of
        [] \<Rightarrow> None
      | c # cs \<Rightarrow>
          (let negative = (c = 45);
               digits = (if c = 45 \<or> c = 43 then cs else s)
           in if digits = [] then None
              else case digits_value 0 digits of
                     None \<Rightarrow> None
                   | Some n \<Rightarrow>
                       (let v = (if negative then - int n else int n)
                        in if - (2 ^ 63) \<le> v \<and> v < 2 ^ 63 then Some (word_of_int v) else None)))"

lemma digits_of_less: "2 \<le> base \<Longrightarrow> d \<in> set (digits_of base n) \<Longrightarrow> d < base"
  by (induction base n rule: digits_of.induct)
    (subst (asm) (2) digits_of.simps, auto split: if_splits)

lemma digits_of_not_Nil [simp]: "digits_of base n \<noteq> []"
  by (subst digits_of.simps) simp

lemma dec_nat_digits: "c \<in> set (dec_nat n) \<Longrightarrow> 48 \<le> c \<and> c \<le> 57"
  using digits_of_less [of 10] by (fastforce simp: dec_nat_def digit_char_def)

lemma dec_nat_not_Nil [simp]: "dec_nat n \<noteq> []"
  by (simp add: dec_nat_def)

lemma digits_value_append:
  "digits_value acc (xs @ ys) =
     (case digits_value acc xs of None \<Rightarrow> None | Some n \<Rightarrow> digits_value n ys)"
  by (induction acc xs rule: digits_value.induct) auto

lemma digits_value_dec_nat: "digits_value 0 (dec_nat n) = Some n"
proof (induction n rule: less_induct)
  case (less n)
  show ?case
  proof (cases "n < 10")
    case True
    then show ?thesis by (simp add: dec_nat_def digits_of.simps [of 10 n] digit_char_def)
  next
    case False
    then have "digits_value 0 (dec_nat (n div 10)) = Some (n div 10)" by (intro less.IH) simp
    with False show ?thesis
      by (simp add: dec_nat_def digits_of.simps [of 10 n] digits_value_append digit_char_def)
  qed
qed

lemma dec_nat_hd: "dec_nat n = c # cs \<Longrightarrow> c \<noteq> 45 \<and> c \<noteq> 43"
  using dec_nat_digits [of c n] by auto

lemma parse_dec_int:
  assumes "- (2 ^ 63) \<le> v" and "v < 2 ^ 63"
  shows "parse_i64 (dec_int v) = Some (word_of_int v)"
proof (cases "v < 0")
  case True
  with assms show ?thesis by (simp add: parse_i64_def dec_int_def digits_value_dec_nat)
next
  case False
  obtain c cs where "dec_nat (nat v) = c # cs" by (cases "dec_nat (nat v)") auto
  with False assms digits_value_dec_nat [of "nat v"] dec_nat_hd [of "nat v" c cs] show ?thesis
    by (simp add: parse_i64_def dec_int_def)
qed

lemma parse_dec_sint: "parse_i64 (dec_int (sint (w::i64))) = Some w"
  using sint_ge [of w] sint_lt [of w] by (simp add: parse_dec_int)

lemma dec_int_not_Nil [simp]: "dec_int i \<noteq> []"
  by (simp add: dec_int_def)

lemma dec_int_chars: "c \<in> set (dec_int i) \<Longrightarrow> c = 45 \<or> (48 \<le> c \<and> c \<le> 57)"
  by (auto simp: dec_int_def dest: dec_nat_digits split: if_splits)

lemma digit_char_pos: "0 < digit_char d"
  by (simp add: digit_char_def)

lemma hex_u64_chars: "c \<in> set (hex_u64 w) \<Longrightarrow> c \<noteq> 0"
  using digit_char_pos by (auto simp: hex_u64_def)

section \<open>Debug formatting of strings\<close>

text \<open>
  \<open>{:?}\<close> on a \<open>str\<close>. Which scalars the standard library prints as \<open>\u{...}\<close> (the unprintable
  and the grapheme-extending ones) is a table of the Unicode version it was built with; it is
  the parameter \<open>unprintable\<close>.
\<close>

definition escape_debug :: "(rchar \<Rightarrow> bool) \<Rightarrow> rchar \<Rightarrow> rstring" where
  "escape_debug unprintable c =
     (if c = 0 then [92, 48]
      else if c = 9 then [92, 116]
      else if c = 13 then [92, 114]
      else if c = 10 then [92, 110]
      else if c = 34 then [92, 34]
      else if c = 92 then [92, 92]
      else if unprintable c
        then [92, 117, 123] @ map digit_char (digits_of 16 c) @ [125]
      else [c])"

definition str_debug :: "(rchar \<Rightarrow> bool) \<Rightarrow> rstring \<Rightarrow> rstring" where
  "str_debug unprintable s = [34] @ concat (map (escape_debug unprintable) s) @ [34]"

lemma escape_debug_no_NUL: "x \<in> set (escape_debug unprintable c) \<Longrightarrow> x \<noteq> 0"
  using digit_char_pos by (cases "unprintable c") (auto simp: escape_debug_def split: if_splits)

lemma str_debug_no_NUL: "0 \<notin> set (str_debug unprintable s)"
  using escape_debug_no_NUL by (fastforce simp: str_debug_def)

section \<open>Text without NUL\<close>

text \<open>Unicode text that \<open>CString::new\<close> accepts.\<close>

definition text_ok :: "rstring \<Rightarrow> bool" where
  "text_ok s \<longleftrightarrow> list_all valid_scalar s \<and> 0 \<notin> set s"

lemma text_ok_append [simp]: "text_ok (s @ t) \<longleftrightarrow> text_ok s \<and> text_ok t"
  by (auto simp: text_ok_def)

lemma text_ok_Nil [simp]: "text_ok []"
  by (simp add: text_ok_def)

lemma text_ok_Cons [simp]: "text_ok (x # s) \<longleftrightarrow> valid_scalar x \<and> x \<noteq> 0 \<and> text_ok s"
  by (auto simp: text_ok_def)

lemma text_ok_subset: "text_ok s \<Longrightarrow> set t \<subseteq> set s \<Longrightarrow> text_ok t"
  by (auto simp: text_ok_def list_all_iff)

lemma text_ok_ascii: "(\<And>x. x \<in> set s \<Longrightarrow> 0 < x \<and> x < 128) \<Longrightarrow> text_ok s"
  by (fastforce simp: text_ok_def list_all_iff valid_scalar_def)

lemma valid_ascii [simp]: "x < 128 \<Longrightarrow> valid_scalar x"
  by (simp add: valid_scalar_def)

lemma digits_16_ascii: "x \<in> set (map digit_char (digits_of 16 m)) \<Longrightarrow> 0 < x \<and> x < 128"
  using digits_of_less [of 16 _ m] by (fastforce simp: digit_char_def)

lemma text_ok_numbers [simp]:
  "text_ok (dec_int i)" "text_ok (dec_nat n)" "text_ok (map digit_char (digits_of 16 m))"
  "text_ok (hex_u64 w)"
proof -
  show "text_ok (dec_int i)" by (rule text_ok_ascii) (auto dest: dec_int_chars)
  show "text_ok (dec_nat n)" by (rule text_ok_ascii) (auto dest: dec_nat_digits)
  show hex: "text_ok (map digit_char (digits_of 16 m))" for m
    by (rule text_ok_ascii) (rule digits_16_ascii)
  show "text_ok (hex_u64 w)" by (simp add: hex_u64_def hex)
qed

lemma text_ok_debug: "list_all valid_scalar s \<Longrightarrow> text_ok (str_debug unprintable s)"
  by (induction s) (simp_all add: str_debug_def escape_debug_def)

end
