(* ===== verification/Boxed.thy ===== *)
theory Boxed
  imports Word_Encoding Rust_Text
begin

text \<open>
  \<open>BoxedTable\<close> of \<open>host-runtime/src/word.rs\<close> (lines 161 to 286): the append-only,
  session-local table of boxed values. The encoding of a handle in a word is
  \<open>wsm_os_target::encode_boxed\<close> / \<open>decode_boxed\<close>, a crate that is not part of the repository:
  it is the parameter \<open>codec\<close> of the operations, and \<open>codec_ok\<close> states what \<open>word.rs\<close> relies
  on.
\<close>

section \<open>Values, entries, tables\<close>

record codec =
  encode_boxed :: "u64 \<Rightarrow> u64 option"
  decode_boxed :: "u64 \<Rightarrow> u64 option"
  boxed_handle_max :: u64

text \<open>
  The contract: exactly the handles from 1 to \<open>BOXED_HANDLE_MAX\<close> have a word, the word has
  the Boxed tag and decodes to the handle, and no other word decodes.
\<close>

definition codec_ok :: "codec \<Rightarrow> bool" where
  "codec_ok c \<longleftrightarrow>
     (\<forall>h. 0 < h \<and> h \<le> boxed_handle_max c \<longrightarrow>
        (\<exists>w. encode_boxed c h = Some w \<and> decode_boxed c w = Some h \<and> tag_of w = TAG_BOXED))
     \<and> (\<forall>h. h = 0 \<or> boxed_handle_max c < h \<longrightarrow> encode_boxed c h = None)
     \<and> (\<forall>w h. decode_boxed c w = Some h \<longrightarrow> encode_boxed c h = Some w)"

datatype boxed_value = Str rstring | GameHandle u64 | Rational i64 i64

datatype boxed_lifetime = Persistent | Transient

record boxed_entry =
  entry_value :: boxed_value
  entry_lifetime :: boxed_lifetime

datatype boxed_kind = KStr | KGameHandle | KRational

type_synonym boxed_table = "boxed_entry option list"

definition boxed_new :: boxed_table where
  "boxed_new = []"

text \<open>
  \<open>BoxedTable::add\<close>. The entry is pushed before \<open>encode_boxed\<close> is asked, so the panic of the
  \<open>expect\<close> leaves it in the table.
\<close>

definition boxed_add :: "codec \<Rightarrow> boxed_table \<Rightarrow> boxed_entry \<Rightarrow> (fatal + u64) \<times> boxed_table" where
  "boxed_add c values e =
     (let index = length values; values' = values @ [Some e]
      in case encode_boxed c (of_nat index + 1) of
           Some w \<Rightarrow> (Inr w, values')
         | None \<Rightarrow> (Inl Rust_Panic, values'))"

definition add_string :: "codec \<Rightarrow> boxed_table \<Rightarrow> rstring \<Rightarrow> (fatal + u64) \<times> boxed_table" where
  "add_string c values s = boxed_add c values \<lparr>entry_value = Str s, entry_lifetime = Transient\<rparr>"

definition add_game_handle :: "codec \<Rightarrow> boxed_table \<Rightarrow> u64 \<Rightarrow> (fatal + u64) \<times> boxed_table" where
  "add_game_handle c values h =
     boxed_add c values \<lparr>entry_value = GameHandle h, entry_lifetime = Persistent\<rparr>"

definition boxed_get_entry :: "codec \<Rightarrow> boxed_table \<Rightarrow> u64 \<Rightarrow> boxed_entry option" where
  "boxed_get_entry c values word =
     (case decode_boxed c word of
        None \<Rightarrow> None
      | Some h \<Rightarrow>
          (let i = unat (h - 1) in if i < length values then values ! i else None))"

definition get_string :: "codec \<Rightarrow> boxed_table \<Rightarrow> u64 \<Rightarrow> rstring option" where
  "get_string c values word =
     (case boxed_get_entry c values word of
        None \<Rightarrow> None
      | Some e \<Rightarrow> (case entry_value e of Str s \<Rightarrow> Some s | _ \<Rightarrow> None))"

definition get_game_handle :: "codec \<Rightarrow> boxed_table \<Rightarrow> u64 \<Rightarrow> u64 option" where
  "get_game_handle c values word =
     (case boxed_get_entry c values word of
        None \<Rightarrow> None
      | Some e \<Rightarrow> (case entry_value e of GameHandle h \<Rightarrow> Some h | _ \<Rightarrow> None))"

definition get_rational :: "codec \<Rightarrow> boxed_table \<Rightarrow> u64 \<Rightarrow> (i64 \<times> i64) option" where
  "get_rational c values word =
     (case boxed_get_entry c values word of
        None \<Rightarrow> None
      | Some e \<Rightarrow> (case entry_value e of Rational n d \<Rightarrow> Some (n, d) | _ \<Rightarrow> None))"

definition kind_of :: "codec \<Rightarrow> boxed_table \<Rightarrow> u64 \<Rightarrow> boxed_kind option" where
  "kind_of c values word =
     (case boxed_get_entry c values word of
        None \<Rightarrow> None
      | Some e \<Rightarrow> Some (case entry_value e of
                            Str _ \<Rightarrow> KStr | GameHandle _ \<Rightarrow> KGameHandle | Rational _ _ \<Rightarrow> KRational))"

definition is_transient :: "boxed_entry option \<Rightarrow> bool" where
  "is_transient slot \<longleftrightarrow>
     (case slot of None \<Rightarrow> False | Some e \<Rightarrow> entry_lifetime e = Transient)"

definition clear_transient :: "boxed_table \<Rightarrow> boxed_table" where
  "clear_transient values = map (\<lambda>slot. if is_transient slot then None else slot) values"

definition transient_len :: "boxed_table \<Rightarrow> nat" where
  "transient_len values = length (filter is_transient values)"

section \<open>The interface of a table of handles\<close>

text \<open>
  What a client may assume of a table that hands out words for values: a new word is fresh,
  it resolves to its value, and adding a value changes nothing else. The limit of the handle
  space is \<open>room\<close>.
\<close>

locale handle_table =
  fixes put :: "'t \<Rightarrow> 'v \<Rightarrow> (fatal + u64) \<times> 't"
    and get :: "'t \<Rightarrow> u64 \<Rightarrow> 'v option"
    and room :: "'t \<Rightarrow> nat"
    and contract :: bool
  assumes put_some: "contract \<Longrightarrow> 0 < room t \<Longrightarrow> \<exists>w. put t v = (Inr w, snd (put t v))"
    and put_get: "contract \<Longrightarrow> 0 < room t \<Longrightarrow> put t v = (Inr w, t') \<Longrightarrow> get t' w = Some v"
    and put_fresh: "contract \<Longrightarrow> 0 < room t \<Longrightarrow> put t v = (Inr w, t') \<Longrightarrow> get t w = None"
    and put_other: "contract \<Longrightarrow> 0 < room t \<Longrightarrow> put t v = (Inr w, t') \<Longrightarrow> u \<noteq> w \<Longrightarrow> get t' u = get t u"
    and put_tag: "contract \<Longrightarrow> 0 < room t \<Longrightarrow> put t v = (Inr w, t') \<Longrightarrow> tag_of w = TAG_BOXED"
    and put_room: "put t v = (r, t') \<Longrightarrow> room t \<le> Suc (room t')"
begin

lemma put_keeps:
  assumes "contract" and "0 < room t" and "put t v = (Inr w, t')" and "get t u = Some x"
  shows "get t' u = Some x"
proof -
  have "u \<noteq> w" using put_fresh [OF assms(1-3)] assms(4) by auto
  then show ?thesis using put_other [OF assms(1-3)] assms(4) by simp
qed

fun put_all :: "'t \<Rightarrow> 'v list \<Rightarrow> (fatal + u64 list) \<times> 't" where
  "put_all t [] = (Inr [], t)"
| "put_all t (v # vs) =
     (case put t v of
        (Inl e, t1) \<Rightarrow> (Inl e, t1)
      | (Inr w, t1) \<Rightarrow>
          (case put_all t1 vs of
             (Inl e, t2) \<Rightarrow> (Inl e, t2)
           | (Inr ws, t2) \<Rightarrow> (Inr (w # ws), t2)))"

text \<open>Values put one after the other get pairwise distinct words, which all resolve.\<close>

lemma put_all_resolves:
  assumes "contract" and "length vs \<le> room t" and "put_all t vs = (Inr ws, t')"
  shows "map (get t') ws = map Some vs \<and> distinct ws \<and> (\<forall>w \<in> set ws. get t w = None)
     \<and> (\<forall>u x. get t u = Some x \<longrightarrow> get t' u = Some x)"
  using assms(2,3)
proof (induction vs arbitrary: t ws)
  case Nil
  then show ?case by auto
next
  case (Cons v vs)
  obtain w t1 us where w: "put t v = (Inr w, t1)" and us: "put_all t1 vs = (Inr us, t')"
    and ws: "ws = w # us"
    using Cons.prems(2) by (auto split: prod.splits sum.splits)
  have room: "0 < room t" "length vs \<le> room t1"
    using Cons.prems(1) put_room [OF w] by auto
  note IH = Cons.IH [OF room(2) us]
  have new: "get t1 w = Some v" by (rule put_get [OF assms(1) room(1) w])
  have "get t u = None" if "u \<in> set us" for u
  proof -
    have "u \<noteq> w" using IH that new by auto
    then show ?thesis using IH that put_other [OF assms(1) room(1) w] by auto
  qed
  moreover have "get t' u = Some x" if "get t u = Some x" for u x
    using put_keeps [OF assms(1) room(1) w that] IH by simp
  ultimately show ?case
    using IH new put_fresh [OF assms(1) room(1) w] by (auto simp: ws)
qed

end

text \<open>
  A table that can also drop the values of a class: dropping never moves a value, never frees
  room, and the words that were dropped stay dead whatever is put later.
\<close>

locale reclaiming_table = handle_table +
  fixes drop_class :: "'a \<Rightarrow> 'a"
    and in_class :: "'b \<Rightarrow> bool"
    and issued :: "'a \<Rightarrow> u64 \<Rightarrow> bool"
  assumes drop_get: "get (drop_class t) w =
      (case get t w of None \<Rightarrow> None | Some v \<Rightarrow> if in_class v then None else Some v)"
    and drop_room: "room (drop_class t) = room t"
    and drop_issued: "issued (drop_class t) w = issued t w"
    and get_issued: "get t w = Some v \<Longrightarrow> issued t w"
    and put_issued: "contract \<Longrightarrow> put t v = (r, t') \<Longrightarrow> issued t w \<Longrightarrow> issued t' w"
    and put_not_issued: "contract \<Longrightarrow> 0 < room t \<Longrightarrow> put t v = (Inr w, t') \<Longrightarrow> \<not> issued t w"
begin

lemma dead_word_stays_dead:
  assumes "contract" and "0 < room t" and "issued t w" and "get t w = None"
    and "put t v = (Inr u, t')"
  shows "get t' w = None \<and> issued t' w"
proof -
  have "w \<noteq> u" using put_not_issued [OF assms(1,2,5)] assms(3) by auto
  then show ?thesis
    using put_other [OF assms(1,2,5)] assms(4) put_issued [OF assms(1,5,3)] by auto
qed

lemma dropped_word_stays_dead:
  assumes "contract" and "get t w = Some v" and "in_class v" and "length vs \<le> room t"
    and "put_all (drop_class t) vs = (Inr ws, t')"
  shows "get t' w = None"
proof -
  have dead: "length vs \<le> room t0 \<Longrightarrow> issued t0 w \<Longrightarrow> get t0 w = None \<Longrightarrow>
    put_all t0 vs = (Inr ws, t') \<Longrightarrow> get t' w = None" for t0
  proof (induction vs arbitrary: t0 ws)
    case (Cons x vs)
    then obtain u t1 us where put: "put t0 x = (Inr u, t1)" "put_all t1 vs = (Inr us, t')"
      by (auto split: prod.splits sum.splits)
    have room: "0 < room t0" "length vs \<le> room t1"
      using Cons.prems(1) put_room [OF put(1)] by auto
    have "get t1 w = None \<and> issued t1 w"
      by (rule dead_word_stays_dead [OF assms(1) room(1) Cons.prems(2,3) put(1)])
    then show ?case using Cons.IH [OF room(2) _ _ put(2)] by simp
  qed auto
  show ?thesis
    by (rule dead [OF _ _ _ assms(5)])
      (simp_all add: drop_issued drop_get drop_room get_issued [OF assms(2)] assms(2-4))
qed

end

section \<open>The boxed table provides it\<close>

definition boxed_room :: "codec \<Rightarrow> boxed_table \<Rightarrow> nat" where
  "boxed_room c values = unat (boxed_handle_max c) - length values"

definition boxed_issued :: "codec \<Rightarrow> boxed_table \<Rightarrow> u64 \<Rightarrow> bool" where
  "boxed_issued c values word \<longleftrightarrow>
     (case decode_boxed c word of None \<Rightarrow> False | Some h \<Rightarrow> unat (h - 1) < length values)"

lemma unat_handle:
  assumes "length (values :: boxed_table) < unat (boxed_handle_max c)"
  shows "unat (of_nat (length values) + 1 :: u64) = Suc (length values)"
    and "unat (of_nat (length values) :: u64) = length values"
proof -
  have small: "length values < 2 ^ 64 - 1"
    using assms unsigned_less [of "boxed_handle_max c", where 'a = nat] by simp
  then show n: "unat (of_nat (length values) :: u64) = length values"
    by (simp add: unat_of_nat take_bit_nat_eq_self_iff)
  show "unat (of_nat (length values) + 1 :: u64) = Suc (length values)"
    using unat_plus_small [of "of_nat (length values)" 1] n small by simp
qed

lemma boxed_add_room:
  assumes "codec_ok c" and "0 < boxed_room c values"
  obtains w where "decode_boxed c w = Some (of_nat (length values) + 1)" "tag_of w = TAG_BOXED"
    "boxed_add c values e = (Inr w, values @ [Some e])"
proof -
  let ?h = "of_nat (length values) + 1 :: u64"
  have len: "length values < unat (boxed_handle_max c)" using assms(2) by (simp add: boxed_room_def)
  then have "0 < ?h" "?h \<le> boxed_handle_max c"
    using unat_handle(1) [OF len] by (simp_all add: word_less_nat_alt word_le_nat_alt)
  then obtain w where w: "encode_boxed c ?h = Some w" "decode_boxed c w = Some ?h"
    "tag_of w = TAG_BOXED"
    using assms(1) unfolding codec_ok_def by blast
  then show thesis using that [OF w(2,3)] by (simp add: boxed_add_def Let_def)
qed

lemma boxed_add_full:
  assumes "codec_ok c" and "length values < 2 ^ 64 - 1" and "boxed_room c values = 0"
  shows "boxed_add c values e = (Inl Rust_Panic, values @ [Some e])"
proof -
  have "unat (of_nat (length values) :: u64) = length values"
    using assms(2) by (simp add: unat_of_nat take_bit_nat_eq_self_iff)
  then have "unat (of_nat (length values) + 1 :: u64) = Suc (length values)"
    using unat_plus_small [of "of_nat (length values)" 1] assms(2) by simp
  then have "boxed_handle_max c < of_nat (length values) + 1"
    using assms(3) by (simp add: boxed_room_def word_less_nat_alt)
  then show ?thesis using assms(1) by (simp add: boxed_add_def codec_ok_def Let_def)
qed

lemma boxed_add_table: "boxed_add c values e = (r, values') \<Longrightarrow> values' = values @ [Some e]"
  by (auto simp: boxed_add_def Let_def split: option.splits)

lemma decode_index_inj:
  assumes "codec_ok c" and "decode_boxed c u = Some h" and "decode_boxed c w = Some g"
    and "unat (h - 1) = unat (g - 1)"
  shows "u = w"
proof -
  have "h = g" using assms(4) by (metis diff_add_cancel word_unat_eq_iff)
  moreover have "encode_boxed c h = Some u" "encode_boxed c g = Some w"
    using assms(1-3) by (auto simp: codec_ok_def)
  ultimately show ?thesis by simp
qed

text \<open>Where the word of a new entry points, and what the other words then see.\<close>

lemma boxed_add_Inr:
  assumes "codec_ok c" and "0 < boxed_room c values" and "boxed_add c values e = (Inr w, values')"
  shows "values' = values @ [Some e]" and "tag_of w = TAG_BOXED"
    and "boxed_get_entry c values' w = Some e"
    and "\<not> boxed_issued c values w"
    and "u \<noteq> w \<Longrightarrow> boxed_get_entry c values' u = boxed_get_entry c values u"
proof -
  obtain v where v: "decode_boxed c v = Some (of_nat (length values) + 1)" "tag_of v = TAG_BOXED"
    "boxed_add c values e = (Inr v, values @ [Some e])"
    by (rule boxed_add_room [OF assms(1,2)])
  then have w: "v = w" "values' = values @ [Some e]" using assms(3) by auto
  have len: "length values < unat (boxed_handle_max c)" using assms(2) by (simp add: boxed_room_def)
  note idx = unat_handle(2) [OF len]
  show "values' = values @ [Some e]" by (rule w(2))
  show "tag_of w = TAG_BOXED" using v(2) w(1) by simp
  show "boxed_get_entry c values' w = Some e"
    using v(1) w idx by (simp add: boxed_get_entry_def)
  show "\<not> boxed_issued c values w"
    using v(1) w idx by (simp add: boxed_issued_def)
  show "boxed_get_entry c values' u = boxed_get_entry c values u" if "u \<noteq> w"
  proof (cases "decode_boxed c u")
    case None
    then show ?thesis by (simp add: boxed_get_entry_def)
  next
    case (Some h)
    have "unat (h - 1) \<noteq> length values"
      using decode_index_inj [OF assms(1) Some v(1)] that w(1) idx by auto
    then show ?thesis using Some w(2) by (auto simp: boxed_get_entry_def nth_append Let_def)
  qed
qed

lemma boxed_get_entry_clear [table_simps]:
  "boxed_get_entry c (clear_transient values) w =
     (case boxed_get_entry c values w of
        None \<Rightarrow> None
      | Some e \<Rightarrow> if entry_lifetime e = Transient then None else Some e)"
  by (auto simp: boxed_get_entry_def clear_transient_def is_transient_def Let_def
      split: option.splits)

lemma clear_transient_length [simp]: "length (clear_transient values) = length values"
  by (simp add: clear_transient_def)

lemma transient_len_clear [simp]: "transient_len (clear_transient values) = 0"
  by (auto simp: transient_len_def clear_transient_def filter_empty_conv is_transient_def)

lemma clear_transient_idem [simp]: "clear_transient (clear_transient values) = clear_transient values"
  by (simp add: clear_transient_def is_transient_def)

lemma boxed_room_clear [simp]: "boxed_room c (clear_transient values) = boxed_room c values"
  by (simp add: boxed_room_def)

lemma boxed_get_issued: "boxed_get_entry c values w = Some e \<Longrightarrow> boxed_issued c values w"
  by (auto simp: boxed_get_entry_def boxed_issued_def Let_def split: option.splits if_splits)

lemma boxed_get_fresh: "\<not> boxed_issued c values w \<Longrightarrow> boxed_get_entry c values w = None"
  using boxed_get_issued by (cases "boxed_get_entry c values w") auto

lemma boxed_issued_add:
  "boxed_add c values e = (r, values') \<Longrightarrow> boxed_issued c values w \<Longrightarrow> boxed_issued c values' w"
  by (auto simp: boxed_issued_def dest!: boxed_add_table split: option.splits)

lemma boxed_issued_clear [simp]: "boxed_issued c (clear_transient values) = boxed_issued c values"
  by (auto simp: boxed_issued_def fun_eq_iff split: option.splits)

lemma boxed_add_room_le:
  "boxed_add c values e = (r, values') \<Longrightarrow> boxed_room c values \<le> Suc (boxed_room c values')"
  by (auto simp: boxed_room_def dest!: boxed_add_table)

interpretation boxes: reclaiming_table "boxed_add c" "boxed_get_entry c" "boxed_room c" "codec_ok c"
  clear_transient "\<lambda>e. entry_lifetime e = Transient" "boxed_issued c"
  for c
proof unfold_locales
  fix t :: boxed_table and v :: boxed_entry
  assume "codec_ok c" "0 < boxed_room c t"
  then show "\<exists>w. boxed_add c t v = (Inr w, snd (boxed_add c t v))"
    by (metis boxed_add_room snd_conv)
qed (simp_all add: boxed_add_Inr boxed_get_fresh boxed_get_entry_clear boxed_get_issued
    boxed_issued_add boxed_add_room_le)

section \<open>Strings as text\<close>

definition entry_text_ok :: "boxed_entry \<Rightarrow> bool" where
  "entry_text_ok e \<longleftrightarrow> (case entry_value e of Str s \<Rightarrow> text_ok s | _ \<Rightarrow> True)"

definition boxed_text_ok :: "boxed_table \<Rightarrow> bool" where
  "boxed_text_ok b \<longleftrightarrow> list_all (\<lambda>slot. case slot of Some e \<Rightarrow> entry_text_ok e | None \<Rightarrow> True) b"

lemma boxed_text_ok_append [simp]:
  "boxed_text_ok (b @ b') \<longleftrightarrow> boxed_text_ok b \<and> boxed_text_ok b'"
  by (simp add: boxed_text_ok_def)

lemma boxed_text_ok_simps [simp]:
  "boxed_text_ok []" "boxed_text_ok (Some e # b) \<longleftrightarrow> entry_text_ok e \<and> boxed_text_ok b"
  by (simp_all add: boxed_text_ok_def)

lemma boxed_text_ok_clear [simp]: "boxed_text_ok b \<Longrightarrow> boxed_text_ok (clear_transient b)"
  by (auto simp: boxed_text_ok_def clear_transient_def list_all_iff split: option.splits)

lemma get_entry_text_ok:
  assumes "boxed_text_ok b" and "boxed_get_entry c b w = Some e" and "entry_value e = Str s"
  shows "text_ok s"
proof -
  obtain i where "i < length b" "b ! i = Some e"
    using assms(2) by (auto simp: boxed_get_entry_def Let_def split: option.splits if_splits)
  then have "Some e \<in> set b" by (metis nth_mem)
  then show ?thesis using assms(1,3) by (fastforce simp: boxed_text_ok_def entry_text_ok_def list_all_iff)
qed

text \<open>Entries are only ever appended: what resolves goes on to resolve.\<close>

lemma boxed_get_append: "boxed_get_entry c b w = Some e \<Longrightarrow> boxed_get_entry c (b @ b') w = Some e"
  by (auto simp: boxed_get_entry_def nth_append Let_def split: option.splits if_splits)

lemma boxed_add_outcome:
  assumes "codec_ok c" and "boxed_add c b e = (r, b')"
  shows "b' = b @ [Some e]" and "r = Inl Rust_Panic \<or> (\<exists>w. r = Inr w \<and> tag_of w = TAG_BOXED)"
proof -
  show "b' = b @ [Some e]" by (rule boxed_add_table [OF assms(2)])
  have "tag_of w = TAG_BOXED" if "encode_boxed c h = Some w" for h w
  proof -
    have "0 < h \<and> h \<le> boxed_handle_max c"
      using assms(1) that unfolding codec_ok_def by (metis not_le option.discI word_gt_0)
    then show ?thesis using assms(1) that unfolding codec_ok_def by force
  qed
  then show "r = Inl Rust_Panic \<or> (\<exists>w. r = Inr w \<and> tag_of w = TAG_BOXED)"
    using assms(2) by (auto simp: boxed_add_def Let_def split: option.splits)
qed

end
