(* ===== verification/Rationals.thy ===== *)
theory Rationals
  imports Boxed "HOL-Library.Signed_Division"
begin

text \<open>
  \<open>reduce\<close> of \<open>host-runtime/src/word.rs\<close> (lines 287 to 304) and the two constructors of boxed
  fractions (lines 218 to 227), on 64-bit integers. Rust checks arithmetic overflow in a debug
  build (a panic) and wraps in a release build; the flag \<open>overflow_checks\<close> selects the profile.
  The remainder and the quotient of \<open>i64::MIN\<close> by \<open>-1\<close> panic in both.
\<close>

section \<open>Machine arithmetic\<close>

definition fits_i64 :: "int \<Rightarrow> bool" where
  "fits_i64 v \<longleftrightarrow> - (2 ^ 63) \<le> v \<and> v < 2 ^ 63"

definition checked_i64 :: "bool \<Rightarrow> int \<Rightarrow> fatal + i64" where
  "checked_i64 overflow_checks v =
     (if \<not> fits_i64 v \<and> overflow_checks then Inl Rust_Panic else Inr (word_of_int v))"

definition rem_i64 :: "i64 \<Rightarrow> i64 \<Rightarrow> fatal + i64" where
  "rem_i64 a b =
     (if b = 0 \<or> (sint a = - (2 ^ 63) \<and> sint b = -1) then Inl Rust_Panic
      else Inr (word_of_int (sint a smod sint b)))"

definition div_i64 :: "i64 \<Rightarrow> i64 \<Rightarrow> fatal + i64" where
  "div_i64 a b =
     (if b = 0 \<or> (sint a = - (2 ^ 63) \<and> sint b = -1) then Inl Rust_Panic
      else Inr (word_of_int (sint a sdiv sint b)))"

lemma sint_range: "- (2 ^ 63) \<le> sint (w::i64)" "sint (w::i64) < 2 ^ 63"
  using sint_ge [of w] sint_lt [of w] by simp_all

lemma sint_of_int [simp]: "fits_i64 v \<Longrightarrow> sint (word_of_int v :: i64) = v"
  unfolding fits_i64_def
  by (simp add: sint_sbintrunc' signed_take_bit_int_eq_self_iff)

lemma abs_smod_less: "b \<noteq> 0 \<Longrightarrow> \<bar>(a::int) smod b\<bar> < \<bar>b\<bar>"
  by (simp add: signed_modulo_int_def abs_mult sgn_if)

lemma sint_eq_0_iff: "sint (w::i64) = 0 \<longleftrightarrow> w = 0"
  by (rule signed_eq_0_iff)

section \<open>Euclid's algorithm\<close>

function gcd_i64 :: "i64 \<Rightarrow> i64 \<Rightarrow> fatal + i64" where
  "gcd_i64 a b =
     (if b = 0 then Inr a
      else case rem_i64 a b of Inl e \<Rightarrow> Inl e | Inr r \<Rightarrow> gcd_i64 b r)"
  by pat_completeness auto
termination
proof (relation "measure (\<lambda>(a, b). nat \<bar>sint b\<bar>)")
  fix a b r :: i64
  assume "b \<noteq> 0" and "rem_i64 a b = Inr r"
  then have r: "r = word_of_int (sint a smod sint b)" by (auto simp: rem_i64_def split: if_splits)
  have less: "\<bar>sint a smod sint b\<bar> < \<bar>sint b\<bar>" using \<open>b \<noteq> 0\<close> by (intro abs_smod_less) (simp add: sint_eq_0_iff)
  then have "fits_i64 (sint a smod sint b)" using sint_range [of b] by (auto simp: fits_i64_def)
  then have "sint r = sint a smod sint b" by (simp add: r)
  with less show "((b, r), (a, b)) \<in> measure (\<lambda>(a, b). nat \<bar>sint b\<bar>)" by simp
qed simp

declare gcd_i64.simps [simp del]

definition reduce :: "bool \<Rightarrow> i64 \<Rightarrow> i64 \<Rightarrow> fatal + (i64 \<times> i64)" where
  "reduce overflow_checks numerator denominator =
     (let sign = (if sint denominator < 0 then -1 else 1)
      in and_then (checked_i64 overflow_checks (sint numerator * sign)) (\<lambda>n.
         and_then (checked_i64 overflow_checks (sint denominator * sign)) (\<lambda>d.
         and_then (checked_i64 overflow_checks \<bar>sint n\<bar>) (\<lambda>n_abs.
         and_then (gcd_i64 n_abs d) (\<lambda>g.
           let divisor = (if sint g < 1 then 1 else g)
           in and_then (div_i64 n divisor) (\<lambda>qn.
              and_then (div_i64 d divisor) (\<lambda>qd. Inr (qn, qd))))))))"

text \<open>\<open>add_rational\<close> and \<open>add_transient_rational\<close>: the assertion, then the reduction.\<close>

definition add_rational_as ::
    "boxed_lifetime \<Rightarrow> bool \<Rightarrow> codec \<Rightarrow> boxed_table \<Rightarrow> i64 \<Rightarrow> i64 \<Rightarrow> (fatal + u64) \<times> boxed_table" where
  "add_rational_as lifetime overflow_checks c values n d =
     (if d = 0 then (Inl Rust_Panic, values)
      else case reduce overflow_checks n d of
             Inl e \<Rightarrow> (Inl e, values)
           | Inr (n', d') \<Rightarrow>
               boxed_add c values \<lparr>entry_value = Rational n' d', entry_lifetime = lifetime\<rparr>)"

definition add_rational :: "bool \<Rightarrow> codec \<Rightarrow> boxed_table \<Rightarrow> i64 \<Rightarrow> i64 \<Rightarrow> (fatal + u64) \<times> boxed_table"
where "add_rational = add_rational_as Persistent"

definition add_transient_rational ::
    "bool \<Rightarrow> codec \<Rightarrow> boxed_table \<Rightarrow> i64 \<Rightarrow> i64 \<Rightarrow> (fatal + u64) \<times> boxed_table"
where "add_transient_rational = add_rational_as Transient"

section \<open>Correctness within range\<close>

lemma smod_nonneg: "0 \<le> a \<Longrightarrow> 0 < b \<Longrightarrow> (a::int) smod b = a mod b"
  by (simp add: smod_mod_positive)

lemma gcd_i64_nonneg:
  assumes "0 \<le> sint a" and "0 \<le> sint b"
  shows "gcd_i64 a b = Inr (word_of_int (gcd (sint a) (sint b)))"
  using assms
proof (induction a b rule: gcd_i64.induct)
  case (1 a b)
  show ?case
  proof (cases "b = 0")
    case True
    with "1.prems" show ?thesis by (simp add: gcd_i64.simps [of a 0])
  next
    case False
    then have b: "0 < sint b" using "1.prems"(2) by (simp add: order_less_le sint_eq_0_iff)
    let ?r = "word_of_int (sint a mod sint b) :: i64"
    have rem: "rem_i64 a b = Inr ?r"
      using False b "1.prems"(1) by (simp add: rem_i64_def smod_nonneg)
    have "0 \<le> sint a mod sint b" "sint a mod sint b < sint b" using b by simp_all
    then have "fits_i64 (sint a mod sint b)" using sint_range [of b] by (auto simp: fits_i64_def)
    then have r: "sint ?r = sint a mod sint b" by simp
    have "gcd_i64 b ?r = Inr (word_of_int (gcd (sint b) (sint ?r)))"
      using "1.IH" [OF False rem] "1.prems"(2) r b by simp
    then show ?thesis
      using False rem r by (simp add: gcd_i64.simps [of a b] gcd_red_int [of "sint a" "sint b"])
  qed
qed

lemma sdiv_dvd:
  assumes "0 < g" and "g dvd x"
  shows "x sdiv g = x div (g::int)"
proof -
  obtain k where "x = g * k" using assms(2) by (elim dvdE)
  then show ?thesis using assms(1) by (simp add: signed_divide_int_def abs_mult sgn_mult mult_sgn_abs)
qed

lemma checked_i64_fits: "fits_i64 v \<Longrightarrow> checked_i64 oc v = Inr (word_of_int v)"
  by (simp add: checked_i64_def)

lemma div_i64_dvd:
  assumes "0 < sint g" and "sint g dvd sint a"
  shows "div_i64 a g = Inr (word_of_int (sint a div sint g))"
proof -
  have "g \<noteq> 0" using assms(1) by auto
  then show ?thesis using assms sdiv_dvd [OF assms] by (simp add: div_i64_def)
qed

lemma reduce_in_range:
  assumes "d \<noteq> 0" and "sint n \<noteq> - (2 ^ 63)" and "sint d \<noteq> - (2 ^ 63)"
  defines "g \<equiv> gcd (sint n) (sint d)"
  shows "reduce oc n d = Inr (word_of_int (sgn (sint d) * sint n div g),
                              word_of_int (\<bar>sint d\<bar> div g))"
proof -
  have d0: "sint d \<noteq> 0" using assms(1) by (simp add: sint_eq_0_iff)
  have sign: "(if sint d < 0 then -1 else 1) = sgn (sint d)" using d0 by auto
  define vn vd va vg :: i64 where "vn = word_of_int (sint n * sgn (sint d))"
    and "vd = word_of_int \<bar>sint d\<bar>" and "va = word_of_int \<bar>sint n\<bar>"
    and "vg = word_of_int g"
  note v_defs = this
  have abs: "sint d * sgn (sint d) = \<bar>sint d\<bar>" "\<bar>sint n * sgn (sint d)\<bar> = \<bar>sint n\<bar>"
    using d0 by (metis abs_sgn, simp add: abs_mult)
  have fits: "fits_i64 (sint n * sgn (sint d))" "fits_i64 \<bar>sint d\<bar>" "fits_i64 \<bar>sint n\<bar>"
    using sint_range [of n] sint_range [of d] assms(2,3) d0 by (auto simp: fits_i64_def sgn_if)
  have g: "0 < g" "g \<le> \<bar>sint d\<bar>" using d0 by (simp_all add: g_def zdvd_imp_le)
  then have fits_g: "fits_i64 g" using fits(2) by (auto simp: fits_i64_def)
  have sint: "sint vn = sint n * sgn (sint d)" "sint vd = \<bar>sint d\<bar>" "sint va = \<bar>sint n\<bar>"
    "sint vg = g"
    using fits fits_g unfolding v_defs by (simp_all del: of_int_mult)
  have "gcd_i64 va vd = Inr vg"
    using gcd_i64_nonneg [of va vd] unfolding sint by (simp add: g_def vg_def)
  moreover have "div_i64 vn vg = Inr (word_of_int (sgn (sint d) * sint n div g))"
    using div_i64_dvd [of vg vn] g(1) unfolding sint by (simp add: g_def mult.commute)
  moreover have "div_i64 vd vg = Inr (word_of_int (\<bar>sint d\<bar> div g))"
    using div_i64_dvd [of vg vd] g(1) unfolding sint by (simp add: g_def)
  ultimately show ?thesis
    using fits g(1) sint
    unfolding reduce_def Let_def sign
    by (simp add: checked_i64_fits abs flip: v_defs del: of_int_mult)
qed

lemma reduce_in_range_props:
  assumes "d \<noteq> 0" and "sint n \<noteq> - (2 ^ 63)" and "sint d \<noteq> - (2 ^ 63)"
  obtains n' d' where "reduce oc n d = Inr (n', d')" "0 < sint d'" "coprime (sint n') (sint d')"
    "sint n' * sint d = sint n * sint d'"
proof -
  define g where "g = gcd (sint n) (sint d)"
  let ?qn = "sgn (sint d) * sint n div g" and ?qd = "\<bar>sint d\<bar> div g"
  have d0: "sint d \<noteq> 0" using assms(1) by (simp add: sint_eq_0_iff)
  obtain a b where a: "sint n = g * a" and b: "sint d = g * b" and ab: "coprime a b"
    using gcd_coprime_exists [of "sint n" "sint d"] d0 unfolding g_def by (metis gcd_eq_0_iff mult.commute)
  have g: "0 < g" using d0 by (simp add: g_def)
  have qn: "?qn = sgn b * a" and qd: "?qd = \<bar>b\<bar>"
    using g by (simp_all add: a b sgn_mult abs_mult mult.left_commute)
  have b0: "b \<noteq> 0" using d0 b by auto
  have le: "\<bar>a\<bar> \<le> \<bar>sint n\<bar>" "\<bar>b\<bar> \<le> \<bar>sint d\<bar>"
    using g by (simp_all add: a b abs_mult mult_le_cancel_right1)
  have "\<bar>sgn b * a\<bar> = \<bar>a\<bar>" using b0 by (simp add: abs_mult)
  then have fits: "fits_i64 ?qn" "fits_i64 ?qd"
    using le sint_range [of n] sint_range [of d] assms(2,3) unfolding qn qd fits_i64_def by linarith+
  show thesis
  proof (rule that)
    show "reduce oc n d = Inr (word_of_int ?qn, word_of_int ?qd)"
      unfolding g_def by (rule reduce_in_range [OF assms])
    note sint = sint_of_int [OF fits(1) [unfolded qn]] sint_of_int [OF fits(2) [unfolded qd]]
    show "0 < sint (word_of_int ?qd :: i64)" using b0 sint(2) by (simp add: qd)
    show "coprime (sint (word_of_int ?qn :: i64)) (sint (word_of_int ?qd :: i64))"
      using ab b0 unfolding sint qn qd by (simp add: sgn_if)
    show "sint (word_of_int ?qn :: i64) * sint d = sint n * sint (word_of_int ?qd :: i64)"
      unfolding sint qn qd by (simp add: a b sgn_if abs_if)
  qed
qed

section \<open>Outcomes of the constructors\<close>

lemma gcd_i64_panics: "gcd_i64 a b = Inl e \<Longrightarrow> e = Rust_Panic"
proof (induction a b rule: gcd_i64.induct)
  case (1 a b)
  show ?case
  proof (cases "b = 0 \<or> (\<exists>f. rem_i64 a b = Inl f)")
    case True
    then show ?thesis
      using "1.prems" by (auto simp: gcd_i64.simps [of a b] rem_i64_def split: if_splits)
  next
    case False
    then obtain r where "rem_i64 a b = Inr r" by (cases "rem_i64 a b") auto
    then show ?thesis using "1.IH" [of r] "1.prems" False by (simp add: gcd_i64.simps [of a b])
  qed
qed

lemma reduce_panics: "reduce oc n d = Inl e \<Longrightarrow> e = Rust_Panic"
  by (auto simp: reduce_def Let_def and_then_Inl_iff checked_i64_def div_i64_def
      dest: gcd_i64_panics split: if_splits)

text \<open>Whatever happens, at most one entry is appended, and it is a fraction.\<close>

lemma add_rational_outcome:
  assumes "codec_ok c" and "add_rational_as lt oc c b n d = (r, b')"
  shows "\<exists>es. b' = b @ es \<and> boxed_text_ok es
    \<and> (r = Inl Rust_Panic \<or> (\<exists>w. r = Inr w \<and> tag_of w = TAG_BOXED))"
proof (cases "d = 0 \<or> (\<exists>e. reduce oc n d = Inl e)")
  case True
  then show ?thesis
    using assms(2) reduce_panics by (auto simp: add_rational_as_def split: if_splits)
next
  case False
  then obtain n' d' where "reduce oc n d = Inr (n', d')" by (cases "reduce oc n d") auto
  then have "boxed_add c b \<lparr>entry_value = Rational n' d', entry_lifetime = lt\<rparr> = (r, b')"
    using assms(2) False by (simp add: add_rational_as_def)
  from boxed_add_outcome [OF assms(1) this] show ?thesis by (simp add: entry_text_ok_def)
qed

end
