(* ===== verification/Utf8.thy ===== *)
theory Utf8
  imports Rust_Text
begin

text \<open>
  Text at the C boundary: \<open>str::as_bytes\<close> (encoding), \<open>CStr::to_str\<close> (validating decoding,
  after the table of \<open>core::str::validations\<close>), \<open>CStr::from_ptr\<close> (the bytes up to the first
  NUL) and \<open>CString::new\<close> (which refuses an interior NUL).
\<close>

section \<open>Encoding\<close>

definition utf8_char :: "rchar \<Rightarrow> nat list" where
  "utf8_char c =
     (if c < 0x80 then [c]
      else if c < 0x800 then [0xC0 + c div 64, 0x80 + c mod 64]
      else if c < 0x10000
        then [0xE0 + c div 4096, 0x80 + c div 64 mod 64, 0x80 + c mod 64]
      else [0xF0 + c div 262144, 0x80 + c div 4096 mod 64, 0x80 + c div 64 mod 64, 0x80 + c mod 64])"

definition utf8_encode :: "rstring \<Rightarrow> u8 list" where
  "utf8_encode s = map of_nat (concat (map utf8_char s))"

section \<open>Decoding\<close>

definition continuation :: "nat \<Rightarrow> bool" where
  "continuation b \<longleftrightarrow> 0x80 \<le> b \<and> b \<le> 0xBF"

definition valid_3 :: "nat \<Rightarrow> nat \<Rightarrow> bool" where
  "valid_3 b0 b1 \<longleftrightarrow> (b0 = 0xE0 \<and> 0xA0 \<le> b1 \<and> b1 \<le> 0xBF)
     \<or> (0xE1 \<le> b0 \<and> b0 \<le> 0xEC \<and> continuation b1)
     \<or> (b0 = 0xED \<and> 0x80 \<le> b1 \<and> b1 \<le> 0x9F)
     \<or> (0xEE \<le> b0 \<and> b0 \<le> 0xEF \<and> continuation b1)"

definition valid_4 :: "nat \<Rightarrow> nat \<Rightarrow> bool" where
  "valid_4 b0 b1 \<longleftrightarrow> (b0 = 0xF0 \<and> 0x90 \<le> b1 \<and> b1 \<le> 0xBF)
     \<or> (0xF1 \<le> b0 \<and> b0 \<le> 0xF3 \<and> continuation b1)
     \<or> (b0 = 0xF4 \<and> 0x80 \<le> b1 \<and> b1 \<le> 0x8F)"

fun utf8_step :: "nat list \<Rightarrow> (rchar \<times> nat list) option" where
  "utf8_step [] = None"
| "utf8_step (b0 # bs) =
     (if b0 < 0x80 then Some (b0, bs)
      else if 0xC2 \<le> b0 \<and> b0 \<le> 0xDF then
        (case bs of
           b1 # r \<Rightarrow> if continuation b1 then Some ((b0 - 0xC0) * 64 + (b1 - 0x80), r) else None
         | _ \<Rightarrow> None)
      else if 0xE0 \<le> b0 \<and> b0 \<le> 0xEF then
        (case bs of
           b1 # b2 # r \<Rightarrow>
             if valid_3 b0 b1 \<and> continuation b2
             then Some ((b0 - 0xE0) * 4096 + (b1 - 0x80) * 64 + (b2 - 0x80), r) else None
         | _ \<Rightarrow> None)
      else if 0xF0 \<le> b0 \<and> b0 \<le> 0xF4 then
        (case bs of
           b1 # b2 # b3 # r \<Rightarrow>
             if valid_4 b0 b1 \<and> continuation b2 \<and> continuation b3
             then Some ((b0 - 0xF0) * 262144 + (b1 - 0x80) * 4096 + (b2 - 0x80) * 64 + (b3 - 0x80), r)
             else None
         | _ \<Rightarrow> None)
      else None)"

lemma utf8_step_shorter: "utf8_step bs = Some (c, r) \<Longrightarrow> length r < length bs"
  by (cases bs) (auto split: if_splits list.splits)

function utf8_decode_nat :: "nat list \<Rightarrow> rstring option" where
  "utf8_decode_nat bs =
     (if bs = [] then Some []
      else case utf8_step bs of
             None \<Rightarrow> None
           | Some (c, r) \<Rightarrow> map_option ((#) c) (utf8_decode_nat r))"
  by pat_completeness auto
termination
  by (relation "measure length") (auto dest: utf8_step_shorter)

declare utf8_decode_nat.simps [simp del]

definition utf8_decode :: "u8 list \<Rightarrow> rstring option" where
  "utf8_decode bs = utf8_decode_nat (map unat bs)"

text \<open>\<open>CStr::from_ptr(p)\<close> on the memory at \<open>p\<close>: the bytes up to the first NUL.\<close>

definition c_str :: "u8 list \<Rightarrow> u8 list" where
  "c_str bytes = takeWhile (\<lambda>b. b \<noteq> 0) bytes"

definition c_to_str :: "u8 list \<Rightarrow> rstring option" where
  "c_to_str bytes = utf8_decode (c_str bytes)"

text \<open>\<open>CString::new\<close>: the bytes of the text, or an error if one of them is NUL.\<close>

definition cstring_new :: "rstring \<Rightarrow> u8 list option" where
  "cstring_new s = (let bytes = utf8_encode s in if 0 \<in> set bytes then None else Some bytes)"

section \<open>The two conversions are inverse\<close>

lemma base_64_digits:
  fixes c :: nat
  shows "c = c div 64 * 64 + c mod 64"
    and "c div 64 = c div 4096 * 64 + c div 64 mod 64"
    and "c div 4096 = c div 262144 * 64 + c div 4096 mod 64"
proof -
  have "c div 4096 = c div 64 div 64" and "c div 262144 = c div 4096 div 64"
    by (simp_all flip: div_mult2_eq)
  then show "c = c div 64 * 64 + c mod 64"
    and "c div 64 = c div 4096 * 64 + c div 64 mod 64"
    and "c div 4096 = c div 262144 * 64 + c div 4096 mod 64"
    by simp_all
qed

lemma utf8_char_bound: "valid_scalar c \<Longrightarrow> b \<in> set (utf8_char c) \<Longrightarrow> b < 256"
  unfolding utf8_char_def valid_scalar_def by (auto split: if_splits)

lemma utf8_step_char:
  assumes "valid_scalar c"
  shows "utf8_step (utf8_char c @ r) = Some (c, r)"
proof -
  consider "c < 0x80" | "0x80 \<le> c" "c < 0x800" | "0x800 \<le> c" "c < 0x10000"
    | "0x10000 \<le> c" "c < 0x110000"
    using assms unfolding valid_scalar_def by linarith
  then show ?thesis
  proof cases
    case 1
    then show ?thesis by (simp add: utf8_char_def)
  next
    case 2
    moreover have "2 \<le> c div 64" "c div 64 < 32" using 2 by auto
    ultimately show ?thesis by (simp add: utf8_char_def continuation_def)
  next
    case 3
    have q: "c div 4096 < 16" and m: "c div 64 mod 64 < 64" using 3 by auto
    have "32 \<le> c div 64" using 3 by auto
    then have "c div 4096 = 0 \<Longrightarrow> 32 \<le> c div 64 mod 64" using base_64_digits(2) [of c] by simp
    moreover have "c div 4096 = 13 \<Longrightarrow> c div 64 mod 64 < 32"
      using base_64_digits(1,2) [of c] assms unfolding valid_scalar_def by linarith
    moreover have "c div 4096 \<le> 12 \<or> c div 4096 = 13 \<or> 14 \<le> c div 4096" by arith
    ultimately have "valid_3 (0xE0 + c div 4096) (0x80 + c div 64 mod 64)"
      using q m unfolding valid_3_def continuation_def by auto
    moreover have "c div 4096 * 4096 + c div 64 mod 64 * 64 + c mod 64 = c"
      using base_64_digits(1,2) [of c] by linarith
    moreover have "c div 4096 \<le> 15" "c div 64 mod 64 \<le> 63" "c mod 64 \<le> 63"
      using q by auto
    ultimately show ?thesis using 3 by (simp add: utf8_char_def continuation_def)
  next
    case 4
    have q: "c div 262144 < 5" and m: "c div 4096 mod 64 < 64" using 4 by auto
    have "16 \<le> c div 4096" and "c div 4096 < 272" using 4 by auto
    then have "c div 262144 = 0 \<Longrightarrow> 16 \<le> c div 4096 mod 64"
      and "c div 262144 = 4 \<Longrightarrow> c div 4096 mod 64 < 16"
      using base_64_digits(3) [of c] by simp_all
    moreover have "c div 262144 \<le> 3 \<or> 4 \<le> c div 262144" by arith
    ultimately have "valid_4 (0xF0 + c div 262144) (0x80 + c div 4096 mod 64)"
      using q m unfolding valid_4_def continuation_def by auto
    moreover have "c div 262144 * 262144 + c div 4096 mod 64 * 4096 + c div 64 mod 64 * 64
        + c mod 64 = c"
      using base_64_digits [of c] by linarith
    moreover have "c div 262144 \<le> 4" "c div 64 mod 64 \<le> 63" "c mod 64 \<le> 63"
      using q by auto
    ultimately show ?thesis using 4 by (simp add: utf8_char_def continuation_def)
  qed
qed

lemma utf8_char_not_Nil [simp]: "utf8_char c \<noteq> []"
  by (simp add: utf8_char_def)

lemma utf8_decode_chars:
  "list_all valid_scalar s \<Longrightarrow> utf8_decode_nat (concat (map utf8_char s)) = Some s"
proof (induction s)
  case Nil
  then show ?case by (simp add: utf8_decode_nat.simps)
next
  case (Cons c s)
  then show ?case
    by (subst utf8_decode_nat.simps) (simp add: utf8_step_char)
qed

lemma utf8_decode_encode:
  assumes "list_all valid_scalar s"
  shows "utf8_decode (utf8_encode s) = Some s"
proof -
  have "map unat (utf8_encode s) = concat (map utf8_char s)"
    using assms utf8_char_bound
    by (fastforce simp: utf8_encode_def list_all_iff unat_of_nat intro!: map_idI)
  then show ?thesis using assms by (simp add: utf8_decode_def utf8_decode_chars)
qed

text \<open>Decoded text consists of scalar values, so it can be encoded again.\<close>

lemma four_byte_scalar:
  fixes b0 b1 b2 b3 :: nat
  assumes "0xF1 \<le> b0" "b0 \<le> 0xF3" "0x80 \<le> b1" "b1 \<le> 0xBF" "0x80 \<le> b2" "b2 \<le> 0xBF"
    "0x80 \<le> b3" "b3 \<le> 0xBF"
  shows "0xE000 \<le> (b0 - 0xF0) * 262144 + (b1 - 0x80) * 4096 + (b2 - 0x80) * 64 + b3 - 0x80"
    and "(b0 - 0xF0) * 262144 + (b1 - 0x80) * 4096 + (b2 - 0x80) * 64 + b3 - 0x80 < 0x110000"
proof -
  define d0 d1 d2 d3 where "d0 = b0 - 0xF0" and "d1 = b1 - 0x80" and "d2 = b2 - 0x80"
    and "d3 = b3 - 0x80"
  then have "b0 = d0 + 0xF0" "b1 = d1 + 0x80" "b2 = d2 + 0x80" "b3 = d3 + 0x80"
    using assms by simp_all
  with assms
  show "0xE000 \<le> (b0 - 0xF0) * 262144 + (b1 - 0x80) * 4096 + (b2 - 0x80) * 64 + b3 - 0x80"
    and "(b0 - 0xF0) * 262144 + (b1 - 0x80) * 4096 + (b2 - 0x80) * 64 + b3 - 0x80 < 0x110000"
    by simp_all
qed

lemma utf8_step_valid:
  assumes "utf8_step bs = Some (c, r)"
  shows "valid_scalar c"
proof -
  obtain b0 t where bs: "bs = b0 # t" using assms by (cases bs) auto
  consider "b0 < 0xE0" | "0xE0 \<le> b0" "b0 \<le> 0xEF" | "0xF0 \<le> b0" by linarith
  then show ?thesis
  proof cases
    case 1
    then show ?thesis
      using assms bs by (auto simp: valid_scalar_def continuation_def split: if_splits list.splits)
  next
    case 2
    then obtain b1 b2 where "c = (b0 - 0xE0) * 4096 + (b1 - 0x80) * 64 + (b2 - 0x80)"
      and "valid_3 b0 b1" "continuation b2"
      using assms bs by (auto split: if_splits list.splits)
    then show ?thesis
      unfolding valid_scalar_def valid_3_def continuation_def by auto
  next
    case 3
    then obtain b1 b2 b3
      where c: "c = (b0 - 0xF0) * 262144 + (b1 - 0x80) * 4096 + (b2 - 0x80) * 64 + (b3 - 0x80)"
      and v: "valid_4 b0 b1" "continuation b2" "continuation b3"
      using assms bs by (auto split: if_splits list.splits)
    then show ?thesis
      using four_byte_scalar [of b0 b1 b2 b3]
      unfolding valid_scalar_def valid_4_def continuation_def by auto
  qed
qed

lemma utf8_decode_nat_valid: "utf8_decode_nat bs = Some s \<Longrightarrow> list_all valid_scalar s"
proof (induction bs arbitrary: s rule: utf8_decode_nat.induct)
  case (1 bs)
  then show ?case
    by (subst (asm) (2) utf8_decode_nat.simps)
      (auto split: if_splits option.splits dest: utf8_step_valid)
qed

lemma c_to_str_valid: "c_to_str bytes = Some s \<Longrightarrow> list_all valid_scalar s"
  by (auto simp: c_to_str_def utf8_decode_def dest: utf8_decode_nat_valid)

section \<open>NUL\<close>

lemma utf8_char_NUL: "0 \<in> set (utf8_char c) \<longleftrightarrow> c = 0"
  by (auto simp: utf8_char_def)

lemma utf8_encode_NUL:
  assumes "list_all valid_scalar s"
  shows "0 \<in> set (utf8_encode s) \<longleftrightarrow> 0 \<in> set s"
proof -
  have "(of_nat b :: u8) = 0 \<longleftrightarrow> b = 0" if "b \<in> set (utf8_char c)" "c \<in> set s" for b c
    using that assms utf8_char_bound [of c b]
    by (auto simp: list_all_iff simp flip: unat_eq_0 simp: unat_of_nat)
  then show ?thesis
    by (auto simp: utf8_encode_def image_iff) (metis utf8_char_NUL)+
qed

lemma utf8_step_NUL: "utf8_step bs = Some (0, r) \<Longrightarrow> 0 \<in> set bs"
  by (cases bs) (auto simp: valid_3_def valid_4_def continuation_def split: if_splits list.splits)

lemma utf8_step_suffix: "utf8_step bs = Some (c, r) \<Longrightarrow> set r \<subseteq> set bs"
  by (cases bs) (auto split: if_splits list.splits)

lemma utf8_decode_nat_NUL: "utf8_decode_nat bs = Some s \<Longrightarrow> 0 \<in> set s \<Longrightarrow> 0 \<in> set bs"
proof (induction bs arbitrary: s rule: utf8_decode_nat.induct)
  case (1 bs)
  from "1.prems"(1) have "bs \<noteq> []"
    using "1.prems"(2) by (auto simp: utf8_decode_nat.simps [of "[]"])
  with "1.prems"(1) obtain c r t where step: "utf8_step bs = Some (c, r)"
    and t: "utf8_decode_nat r = Some t" "s = c # t"
    by (auto simp: utf8_decode_nat.simps [of bs] split: option.splits)
  show ?case
  proof (cases "c = 0")
    case True
    with step show ?thesis by (auto dest: utf8_step_NUL)
  next
    case False
    with t "1.prems"(2) have "0 \<in> set r" using "1.IH" [OF \<open>bs \<noteq> []\<close> step refl t(1)] by auto
    with step show ?thesis by (auto dest: utf8_step_suffix)
  qed
qed

lemma c_to_str_no_NUL: "c_to_str bytes = Some s \<Longrightarrow> 0 \<notin> set s"
proof
  assume "c_to_str bytes = Some s" and "0 \<in> set s"
  then have "0 \<in> set (map unat (c_str bytes))"
    by (auto simp: c_to_str_def utf8_decode_def dest: utf8_decode_nat_NUL)
  then show False
    by (auto simp: c_str_def unat_eq_0 dest: all_set_takeWhile)
qed

end
