(* ===== verification/Symbols.thy ===== *)
theory Symbols
  imports Word_Encoding Rust_Text
begin

text \<open>
  \<open>SymbolTable\<close> of \<open>host-runtime/src/word.rs\<close> (lines 94 to 134) and the interface of an
  interning table on which the reader and the evaluator rely.
\<close>

section \<open>The table\<close>

text \<open>
  The \<open>HashMap\<close> is a list of its entries with distinct keys; the order stands for the
  iteration order, which \<open>name_of\<close> uses and on which nothing may depend
  (\<open>name_of_order_irrelevant\<close>).
\<close>

record symbol_table =
  name_to_id :: "(rstring \<times> u64) list"
  next_id :: u64

definition symbols_new :: symbol_table where
  "symbols_new = \<lparr>name_to_id = [], next_id = 1\<rparr>"

definition intern :: "symbol_table \<Rightarrow> rstring \<Rightarrow> u64 \<times> symbol_table" where
  "intern st name =
     (if name = lit ''t'' then (SYM_T_WORD, st)
      else case map_of (name_to_id st) name of
             Some sid \<Rightarrow> (push_bit 3 sid OR TAG_SYMBOL, st)
           | None \<Rightarrow>
               (let sid = next_id st
                in (push_bit 3 sid OR TAG_SYMBOL,
                    st\<lparr>name_to_id := (name, sid) # name_to_id st, next_id := next_id st + 1\<rparr>)))"

definition name_of :: "symbol_table \<Rightarrow> u64 \<Rightarrow> rstring option" where
  "name_of st word =
     (if word = SYM_T_WORD then Some (lit ''t'')
      else let sid = drop_bit 3 word
           in map_option fst (find (\<lambda>(_, v). v = sid) (name_to_id st)))"

section \<open>Invariant\<close>

text \<open>
  Ids are handed out in order from 1 and stay below the sentinel sid of \<open>t\<close>; \<open>symbols_room\<close>
  is the number of fresh names for which that remains so (about \<open>2^61\<close>).
\<close>

definition symbols_ok :: "symbol_table \<Rightarrow> bool" where
  "symbols_ok st \<longleftrightarrow> distinct (map fst (name_to_id st)) \<and> distinct (map snd (name_to_id st))
     \<and> (\<forall>(n, sid) \<in> set (name_to_id st). n \<noteq> lit ''t'' \<and> 0 < sid \<and> sid < next_id st)
     \<and> 0 < next_id st \<and> next_id st \<le> SYM_T_ID"

definition symbols_room :: "symbol_table \<Rightarrow> nat" where
  "symbols_room st = unat SYM_T_ID - unat (next_id st)"

lemma symbols_new_ok [simp]: "symbols_ok symbols_new"
  by (simp add: symbols_ok_def symbols_new_def SYM_T_ID_def)

lemma symbols_new_room [simp]: "symbols_room symbols_new = 2305843009213693950"
  by (simp add: symbols_room_def symbols_new_def SYM_T_ID_def)

lemma take_bit_id: "sid \<le> SYM_T_ID \<Longrightarrow> take_bit 61 sid = sid"
  by (simp add: take_bit_eq_mod mod_word_less SYM_T_ID_def word_le_nat_alt word_less_nat_alt)

lemma symbol_word_payload:
  assumes "sid \<le> SYM_T_ID"
  shows "drop_bit 3 (push_bit 3 sid OR TAG_SYMBOL) = sid"
proof -
  have "TAG_SYMBOL < 8" by (simp add: TAG_SYMBOL_def)
  from drop_bit_encoded [OF this, of sid] show ?thesis
    unfolding take_bit_id [OF assms] .
qed

lemma symbol_word_tag: "tag_of (push_bit 3 sid OR TAG_SYMBOL) = TAG_SYMBOL"
  by (rule tag_of_encoded) (simp add: TAG_SYMBOL_def)

lemma symbol_word_not_t:
  assumes "sid < SYM_T_ID"
  shows "push_bit 3 sid OR TAG_SYMBOL \<noteq> SYM_T_WORD"
proof
  assume "push_bit 3 sid OR TAG_SYMBOL = SYM_T_WORD"
  then have "push_bit 3 sid OR TAG_SYMBOL = push_bit 3 SYM_T_ID OR TAG_SYMBOL"
    by (simp add: SYM_T_WORD_def TAG_BITS_def)
  then have "sid = SYM_T_ID"
    using symbol_word_payload [of sid] symbol_word_payload [of SYM_T_ID] assms by simp
  with assms show False by simp
qed

lemma find_snd_distinct:
  assumes "distinct (map snd xs)" and "(n, sid) \<in> set xs"
  shows "find (\<lambda>(_, v). v = sid) xs = Some (n, sid)"
  using assms by (induction xs) (auto simp: rev_image_eqI split: if_splits)

lemma find_snd_None: "find (\<lambda>(_, v). v = sid) xs = None \<longleftrightarrow> sid \<notin> snd ` set xs"
  by (auto simp: find_None_iff image_iff)

lemma name_of_Some_iff:
  assumes "distinct (map snd (name_to_id st))" and "w \<noteq> SYM_T_WORD"
  shows "name_of st w = Some n \<longleftrightarrow> (n, drop_bit 3 w) \<in> set (name_to_id st)"
proof
  assume "name_of st w = Some n"
  then obtain v where v: "find (\<lambda>(_, v). v = drop_bit 3 w) (name_to_id st) = Some (n, v)"
    using assms(2) by (auto simp: name_of_def Let_def)
  then have "(n, v) \<in> set (name_to_id st)" and "v = drop_bit 3 w"
    by (auto simp: find_Some_iff in_set_conv_nth)
  then show "(n, drop_bit 3 w) \<in> set (name_to_id st)" by simp
next
  assume "(n, drop_bit 3 w) \<in> set (name_to_id st)"
  then show "name_of st w = Some n"
    using find_snd_distinct [OF assms(1)] assms(2) by (simp add: name_of_def Let_def)
qed

lemma name_of_entry:
  assumes "symbols_ok st" and "(n, sid) \<in> set (name_to_id st)"
  shows "name_of st (push_bit 3 sid OR TAG_SYMBOL) = Some n"
proof -
  have sid: "sid < SYM_T_ID" using assms by (auto simp: symbols_ok_def)
  let ?w = "push_bit 3 sid OR TAG_SYMBOL"
  have "drop_bit 3 ?w = sid" using sid by (intro symbol_word_payload) simp
  with assms show ?thesis
    unfolding symbols_ok_def
    using name_of_Some_iff [OF _ symbol_word_not_t [OF sid], of st n] by metis
qed

lemma name_of_t [simp]: "name_of st SYM_T_WORD = Some (lit ''t'')"
  by (simp add: name_of_def)

section \<open>Interning\<close>

lemma intern_cases:
  assumes "intern st n = (w, st')"
  obtains (t) "n = lit ''t''" "w = SYM_T_WORD" "st' = st"
  | (old) sid where "n \<noteq> lit ''t''" "map_of (name_to_id st) n = Some sid"
      "w = push_bit 3 sid OR TAG_SYMBOL" "st' = st"
  | (fresh) "n \<noteq> lit ''t''" "map_of (name_to_id st) n = None"
      "w = push_bit 3 (next_id st) OR TAG_SYMBOL"
      "st' = st\<lparr>name_to_id := (n, next_id st) # name_to_id st, next_id := next_id st + 1\<rparr>"
  using assms by (auto simp: intern_def Let_def split: if_splits option.splits)

lemma next_id_step:
  assumes "0 < symbols_room st"
  shows "unat (next_id st + 1) = Suc (unat (next_id st))" and "next_id st < SYM_T_ID"
proof -
  show "next_id st < SYM_T_ID" using assms by (simp add: symbols_room_def word_less_nat_alt)
  then show "unat (next_id st + 1) = Suc (unat (next_id st))"
    using unat_plus_small [of "next_id st" 1] by (simp add: SYM_T_ID_def word_less_nat_alt)
qed

lemma intern_ok:
  assumes "symbols_ok st" and "0 < symbols_room st" and "intern st n = (w, st')"
  shows "symbols_ok st'"
  using assms(3)
proof (cases rule: intern_cases)
  case fresh
  have new: "n \<notin> fst ` set (name_to_id st)" using fresh(2) by (simp add: map_of_eq_None_iff)
  have ids: "sid < next_id st" if "(m, sid) \<in> set (name_to_id st)" for m sid
    using that assms(1) by (auto simp: symbols_ok_def)
  then have "next_id st \<notin> snd ` set (name_to_id st)" by fastforce
  moreover have "next_id st < next_id st + 1" "next_id st + 1 \<le> SYM_T_ID"
    using next_id_step [OF assms(2)] by (simp_all add: word_less_nat_alt word_le_nat_alt)
  moreover have "sid < next_id st + 1" if "(m, sid) \<in> set (name_to_id st)" for m sid
    using ids [OF that] calculation(2) by (rule less_trans)
  ultimately show ?thesis
    using assms(1) new fresh(1) unfolding fresh(4) symbols_ok_def
    by (auto simp: word_gt_0_no intro: order.strict_trans)
qed (use assms in simp_all)

lemma intern_name:
  assumes "symbols_ok st" and "0 < symbols_room st" and "intern st n = (w, st')"
  shows "name_of st' w = Some n" and "tag_of w = TAG_SYMBOL"
proof -
  note ok' = intern_ok [OF assms]
  from assms(3) show "name_of st' w = Some n"
  proof (cases rule: intern_cases)
    case (old sid)
    then show ?thesis using name_of_entry [OF assms(1)] by (simp add: map_of_SomeD)
  next
    case fresh
    then show ?thesis using name_of_entry [OF ok'] by simp
  qed simp
  from assms(3) show "tag_of w = TAG_SYMBOL"
    by (cases rule: intern_cases) (simp_all add: symbol_word_tag)
qed

lemma intern_keeps:
  assumes "symbols_ok st" and "0 < symbols_room st" and "intern st n = (w, st')"
    and "name_of st v = Some m"
  shows "name_of st' v = Some m"
  using assms(3)
proof (cases rule: intern_cases)
  case fresh
  note ok' = intern_ok [OF assms(1-3)]
  show ?thesis
  proof (cases "v = SYM_T_WORD")
    case False
    have "(m, drop_bit 3 v) \<in> set (name_to_id st)"
      using assms(1,4) False by (simp add: symbols_ok_def name_of_Some_iff)
    then have "(m, drop_bit 3 v) \<in> set (name_to_id st')" by (simp add: fresh(4))
    then show ?thesis using ok' False by (simp add: symbols_ok_def name_of_Some_iff)
  qed (use assms(4) in simp)
qed (use assms(4) in simp_all)

lemma intern_room:
  assumes "0 < symbols_room st" and "intern st n = (w, st')"
  shows "symbols_room st \<le> Suc (symbols_room st')"
  using assms(2) next_id_step(1) [OF assms(1)]
  by (cases rule: intern_cases) (simp_all add: symbols_room_def)

lemma intern_known:
  assumes "symbols_ok st" and "name_of st w = Some n" and "tag_of w = TAG_SYMBOL"
  shows "intern st n = (w, st)"
proof (cases "w = SYM_T_WORD")
  case True
  then show ?thesis using assms(2) by (simp add: intern_def)
next
  case False
  then obtain sid where sid: "drop_bit 3 w = sid" "(n, sid) \<in> set (name_to_id st)"
    using assms(1,2) by (simp add: symbols_ok_def name_of_Some_iff)
  have "w = push_bit 3 (drop_bit 3 w) OR take_bit 3 w"
    by (rule bit_word_eqI) (auto simp: bit_simps)
  then have "w = push_bit 3 sid OR TAG_SYMBOL"
    using assms(3) sid(1) by (simp add: tag_of_take_bit)
  moreover have "map_of (name_to_id st) n = Some sid" "n \<noteq> lit ''t''"
    using assms(1) sid(2) by (auto simp: symbols_ok_def)
  ultimately show ?thesis by (simp add: intern_def)
qed

text \<open>The iteration order of the hash map does not matter.\<close>

lemma name_of_order_irrelevant:
  assumes "symbols_ok st" and "set xs = set (name_to_id st)" and "distinct (map snd xs)"
  shows "name_of (st\<lparr>name_to_id := xs\<rparr>) w = name_of st w"
proof (cases "drop_bit 3 w \<in> snd ` set (name_to_id st)")
  case True
  then obtain n where "(n, drop_bit 3 w) \<in> set (name_to_id st)" by auto
  then show ?thesis
    using assms find_snd_distinct [of xs n] find_snd_distinct [of "name_to_id st" n]
    by (simp add: name_of_def symbols_ok_def)
next
  case False
  then show ?thesis
    using assms(2) find_snd_None [of "drop_bit 3 w" xs]
      find_snd_None [of "drop_bit 3 w" "name_to_id st"]
    by (simp add: name_of_def)
qed

section \<open>The interface of an interning table\<close>

text \<open>
  What a client may assume of a table with a limited number of fresh names: a word that was
  issued for a name resolves to that name, now and after any further interning, and a name
  that has a word keeps it.
\<close>

locale interner =
  fixes issue :: "'s \<Rightarrow> 'n \<Rightarrow> u64 \<times> 's"
    and resolve :: "'s \<Rightarrow> u64 \<Rightarrow> 'n option"
    and valid :: "'s \<Rightarrow> bool"
    and room :: "'s \<Rightarrow> nat"
  assumes issue_valid: "valid s \<Longrightarrow> 0 < room s \<Longrightarrow> issue s n = (w, s') \<Longrightarrow> valid s'"
    and issue_room: "valid s \<Longrightarrow> 0 < room s \<Longrightarrow> issue s n = (w, s') \<Longrightarrow> room s \<le> Suc (room s')"
    and issue_resolves: "valid s \<Longrightarrow> 0 < room s \<Longrightarrow> issue s n = (w, s') \<Longrightarrow> resolve s' w = Some n"
    and issue_tag: "valid s \<Longrightarrow> 0 < room s \<Longrightarrow> issue s n = (w, s') \<Longrightarrow> tag_of w = TAG_SYMBOL"
    and issue_keeps: "valid s \<Longrightarrow> 0 < room s \<Longrightarrow> issue s n = (w, s') \<Longrightarrow>
      resolve s v = Some m \<Longrightarrow> resolve s' v = Some m"
    and issue_known: "valid s \<Longrightarrow> resolve s w = Some n \<Longrightarrow> tag_of w = TAG_SYMBOL \<Longrightarrow>
      issue s n = (w, s)"
begin

fun issue_all :: "'s \<Rightarrow> 'n list \<Rightarrow> u64 list \<times> 's" where
  "issue_all s [] = ([], s)"
| "issue_all s (n # ns) =
     (let (w, s1) = issue s n; (ws, s2) = issue_all s1 ns in (w # ws, s2))"

lemma issue_all_resolves:
  assumes "valid s" and "length ns \<le> room s" and "issue_all s ns = (ws, s')"
  shows "valid s' \<and> map (resolve s') ws = map Some ns
     \<and> (\<forall>v m. resolve s v = Some m \<longrightarrow> resolve s' v = Some m)"
  using assms
proof (induction ns arbitrary: s ws)
  case Nil
  then show ?case by auto
next
  case (Cons n ns)
  obtain w s1 where w: "issue s n = (w, s1)" by (cases "issue s n")
  obtain vs where vs: "issue_all s1 ns = (vs, s')" "ws = w # vs"
    using Cons.prems(3) w by (auto simp: Let_def split: prod.splits)
  have room: "0 < room s" using Cons.prems(2) by auto
  note new = issue_valid [OF Cons.prems(1) room w] issue_room [OF Cons.prems(1) room w]
  have IH: "valid s' \<and> map (resolve s') vs = map Some ns
     \<and> (\<forall>v m. resolve s1 v = Some m \<longrightarrow> resolve s' v = Some m)"
    using Cons.IH [OF new(1) _ vs(1)] Cons.prems(2) new(2) by simp
  then show ?case
    using issue_resolves [OF Cons.prems(1) room w] issue_keeps [OF Cons.prems(1) room w] vs(2)
    by auto
qed

lemma issue_injective:
  assumes "valid s" "0 < room s" "issue s n = (w, s1)" "0 < room s1" "issue s1 m = (v, s2)"
  shows "v = w \<longleftrightarrow> m = n"
proof
  note v1 = issue_valid [OF assms(1-3)]
  assume "v = w"
  then show "m = n"
    using issue_keeps [OF v1 assms(4,5) issue_resolves [OF assms(1-3)]]
      issue_resolves [OF v1 assms(4,5)] by simp
next
  note v1 = issue_valid [OF assms(1-3)]
  assume "m = n"
  then show "v = w"
    using issue_known [OF v1 issue_resolves [OF assms(1-3)] issue_tag [OF assms(1-3)]] assms(5)
    by simp
qed

end

interpretation sym: interner intern name_of symbols_ok symbols_room
  by unfold_locales
    (auto intro: intern_ok intern_room intern_name intern_keeps intern_known)

section \<open>Names as text\<close>

definition names_text_ok :: "symbol_table \<Rightarrow> bool" where
  "names_text_ok st \<longleftrightarrow> list_all (\<lambda>(n, sid). text_ok n) (name_to_id st)"

lemma names_text_ok_new [simp]: "names_text_ok symbols_new"
  by (simp add: names_text_ok_def symbols_new_def)

lemma names_text_ok_intern:
  "names_text_ok st \<Longrightarrow> text_ok n \<Longrightarrow> intern st n = (w, st') \<Longrightarrow> names_text_ok st'"
  by (auto simp: names_text_ok_def intern_def Let_def split: if_splits option.splits)

lemma name_of_text_ok:
  assumes "names_text_ok st" and "name_of st w = Some n"
  shows "text_ok n"
proof (cases "w = SYM_T_WORD")
  case False
  then obtain v where "find (\<lambda>(_, v). v = drop_bit 3 w) (name_to_id st) = Some (n, v)"
    using assms(2) by (auto simp: name_of_def Let_def)
  then have "(n, v) \<in> set (name_to_id st)" by (auto simp: find_Some_iff in_set_conv_nth)
  then show ?thesis using assms(1) by (auto simp: names_text_ok_def list_all_iff)
qed (use assms(2) in auto)

end
