(* ===== verification/Nucleus.thy ===== *)
theory Nucleus
  imports Word_Encoding
begin

text \<open>
  The native primitives of \<open>host-runtime/asm/nucleus-win64.s\<close> and the fatal exit of
  \<open>host-runtime/src/lib.rs\<close>: one static arena of 256 cons cells of 16 bytes each, a bump
  pointer, and the raw accessors. A cons word is the address of its cell (tag 0). The load
  address of the arena is chosen by the linker and the loader: it is the field \<open>arena_base\<close>,
  which no operation changes.
\<close>

section \<open>State and operations\<close>

record arena =
  arena_base :: u64
  arena_next :: u64
  arena_mem :: "u64 \<Rightarrow> u64"

definition ARENA_CELLS :: nat where "ARENA_CELLS = 256"
definition ARENA_BYTES :: nat where "ARENA_BYTES = ARENA_CELLS * 16"

definition arena_end :: "arena \<Rightarrow> u64" where
  "arena_end A = arena_base A + of_nat ARENA_BYTES"

text \<open>The \<open>.bss\<close> section is zeroed when the library is loaded at \<open>base\<close>.\<close>

definition arena_load :: "u64 \<Rightarrow> arena" where
  "arena_load base = \<lparr>arena_base = base, arena_next = base, arena_mem = (\<lambda>_. 0)\<rparr>"

text \<open>\<open>wsm_fail_win64\<close> reports on stderr and calls \<open>std::process::exit(97)\<close>.\<close>

definition wsm_fail_win64 :: "u32 \<Rightarrow> u64 \<Rightarrow> u64 \<Rightarrow> fatal" where
  "wsm_fail_win64 code a b = Process_Exit 97 code a b"

text \<open>\<open>ja\<close> compares unsigned: out of memory when the new bump pointer passes the end.\<close>

definition wsm_cons :: "arena \<Rightarrow> u64 \<Rightarrow> u64 \<Rightarrow> fatal + (u64 \<times> arena)" where
  "wsm_cons A car cdr =
     (let rax = arena_next A; r9 = rax + 16
      in if arena_end A < r9 then Inl (wsm_fail_win64 1 0 0)
         else Inr (rax, A\<lparr>arena_mem := (arena_mem A)(rax := car, rax + 8 := cdr),
                          arena_next := r9\<rparr>))"

text \<open>
  An 8-byte load. Inside the arena it reads a slot; anywhere else the native code reads
  memory that is not its own, which the model reports as \<open>Wild_Read\<close>.
\<close>

definition load_slot :: "arena \<Rightarrow> u64 \<Rightarrow> fatal + u64" where
  "load_slot A a =
     (if arena_base A \<le> a \<and> a < arena_end A then Inr (arena_mem A a) else Inl (Wild_Read a))"

definition wsm_car :: "arena \<Rightarrow> u64 \<Rightarrow> fatal + u64" where
  "wsm_car A pair =
     (if pair AND TAG_MASK \<noteq> 0 then Inl (wsm_fail_win64 2 0 0) else load_slot A pair)"

definition wsm_cdr :: "arena \<Rightarrow> u64 \<Rightarrow> fatal + u64" where
  "wsm_cdr A pair =
     (if pair AND TAG_MASK \<noteq> 0 then Inl (wsm_fail_win64 2 0 0) else load_slot A (pair + 8))"

definition wsm_eq :: "u64 \<Rightarrow> u64 \<Rightarrow> u64" where
  "wsm_eq left right = (if left \<noteq> right then TAG_NIL else SYM_T_WORD)"

definition wsm_atom :: "u64 \<Rightarrow> u64" where
  "wsm_atom v = (if v AND TAG_MASK \<noteq> 0 then SYM_T_WORD else TAG_NIL)"

definition wsm_arena_reset :: "arena \<Rightarrow> arena" where
  "wsm_arena_reset A = A\<lparr>arena_next := arena_base A\<rparr>"

definition wsm_arena_capacity :: "arena \<Rightarrow> nat" where
  "wsm_arena_capacity A = ARENA_CELLS"

section \<open>Well-formed arenas\<close>

text \<open>
  The loader maps the 16-aligned arena into the user half of the address space (below \<open>2^47\<close>
  on 64-bit Windows) and never at address 0; the bump pointer is a whole number of cells above
  the base.
\<close>

definition base_ok :: "u64 \<Rightarrow> bool" where
  "base_ok b \<longleftrightarrow> 0 < unat b \<and> unat b mod 16 = 0 \<and> unat b < 2 ^ 47"

definition arena_used :: "arena \<Rightarrow> nat" where
  "arena_used A = (unat (arena_next A) - unat (arena_base A)) div 16"

definition arena_free :: "arena \<Rightarrow> nat" where
  "arena_free A = ARENA_CELLS - arena_used A"

definition arena_ok :: "arena \<Rightarrow> bool" where
  "arena_ok A \<longleftrightarrow> base_ok (arena_base A) \<and> arena_used A \<le> ARENA_CELLS
     \<and> unat (arena_next A) = unat (arena_base A) + 16 * arena_used A"

text \<open>An allocated cell: a cell address below the bump pointer.\<close>

definition is_cell :: "arena \<Rightarrow> u64 \<Rightarrow> bool" where
  "is_cell A w \<longleftrightarrow> arena_base A \<le> w \<and> w < arena_next A \<and> (unat w - unat (arena_base A)) mod 16 = 0"

lemma arena_consts [simp]: "ARENA_CELLS = 256" "ARENA_BYTES = 4096"
  by (simp_all add: ARENA_CELLS_def ARENA_BYTES_def)

lemma arena_okD:
  assumes "arena_ok A"
  shows "unat (arena_base A) mod 16 = 0" "unat (arena_base A) < 2 ^ 47"
    "0 < unat (arena_base A)" "arena_used A \<le> 256"
    "unat (arena_next A) = unat (arena_base A) + 16 * arena_used A"
  using assms by (auto simp: arena_ok_def base_ok_def)

lemma unat_arena_end: "arena_ok A \<Longrightarrow> unat (arena_end A) = unat (arena_base A) + 4096"
  using unat_plus_small [of "arena_base A" 4096] arena_okD(2) [of A] by (simp add: arena_end_def)

lemma arena_load_ok: "base_ok b \<Longrightarrow> arena_ok (arena_load b)"
  by (simp add: arena_ok_def arena_load_def arena_used_def)

lemma arena_reset_ok [simp]: "arena_ok A \<Longrightarrow> arena_ok (wsm_arena_reset A)"
  by (simp add: arena_ok_def wsm_arena_reset_def arena_used_def)

lemma arena_reset_fields [simp]:
  "arena_used (wsm_arena_reset A) = 0" "arena_free (wsm_arena_reset A) = 256"
  "arena_base (wsm_arena_reset A) = arena_base A" "arena_mem (wsm_arena_reset A) = arena_mem A"
  by (simp_all add: wsm_arena_reset_def arena_used_def arena_free_def)

lemma is_cell_index:
  assumes "arena_ok A"
  shows "is_cell A w \<longleftrightarrow> (\<exists>k < arena_used A. unat w = unat (arena_base A) + 16 * k)"
proof
  assume c: "is_cell A w"
  let ?d = "unat w - unat (arena_base A)"
  have "unat w = unat (arena_base A) + 16 * (?d div 16)"
    using c by (auto simp: is_cell_def word_le_nat_alt)
  moreover have "?d div 16 < arena_used A"
    using c arena_okD(5) [OF assms] by (auto simp: is_cell_def word_le_nat_alt word_less_nat_alt)
  ultimately show "\<exists>k < arena_used A. unat w = unat (arena_base A) + 16 * k" by blast
next
  assume "\<exists>k < arena_used A. unat w = unat (arena_base A) + 16 * k"
  then show "is_cell A w"
    using arena_okD(5) [OF assms] by (auto simp: is_cell_def word_le_nat_alt word_less_nat_alt)
qed

lemma is_cell_tag:
  assumes "arena_ok A" and "is_cell A w"
  shows "tag_of w = TAG_CONS"
proof -
  from assms obtain k where "unat w = unat (arena_base A) + 16 * k" by (auto simp: is_cell_index)
  then have "unat w mod 16 = 0" using arena_okD(1) [OF assms(1)] by simp
  then have "unat w mod 8 = 0" by presburger
  then show ?thesis by (simp add: tag_of_cons_iff)
qed

lemma cons_tag_and_mask: "tag_of w = TAG_CONS \<Longrightarrow> w AND TAG_MASK = 0"
  by (simp add: tag_of_def tag_defs)

section \<open>Effects of the primitives\<close>

lemma is_cell_unat:
  assumes "arena_ok A" and "is_cell A w"
  obtains k where "k < arena_used A" "unat w = unat (arena_base A) + 16 * k"
    "unat (w + 8) = unat (arena_base A) + 16 * k + 8"
proof -
  from assms obtain k where k: "k < arena_used A" "unat w = unat (arena_base A) + 16 * k"
    by (auto simp: is_cell_index)
  moreover have "unat (w + of_nat 8) = unat w + 8"
    by (rule unat_plus_small) (use k arena_okD [OF assms(1)] in simp)
  ultimately show thesis using that by simp
qed

lemma read_cell [arena_simps]:
  assumes "arena_ok A" and "is_cell A w"
  shows "wsm_car A w = Inr (arena_mem A w)" and "wsm_cdr A w = Inr (arena_mem A (w + 8))"
proof -
  from assms obtain k where "k < arena_used A" "unat w = unat (arena_base A) + 16 * k"
    "unat (w + 8) = unat (arena_base A) + 16 * k + 8" by (rule is_cell_unat)
  moreover have "w AND TAG_MASK = 0" using assms by (simp add: cons_tag_and_mask is_cell_tag)
  ultimately show "wsm_car A w = Inr (arena_mem A w)" "wsm_cdr A w = Inr (arena_mem A (w + 8))"
    using arena_okD [OF assms(1)] unat_arena_end [OF assms(1)]
    by (auto simp: wsm_car_def wsm_cdr_def load_slot_def word_le_nat_alt word_less_nat_alt)
qed

lemma next_unat:
  assumes "arena_ok A" and "arena_used A < 256"
  shows "unat (arena_next A + 16) = unat (arena_base A) + 16 * Suc (arena_used A)"
proof -
  have "unat (arena_next A + of_nat 16) = unat (arena_next A) + 16"
    by (rule unat_plus_small) (use assms arena_okD [OF assms(1)] in simp)
  then show ?thesis using arena_okD(5) [OF assms(1)] by simp
qed

lemma cons_ok [arena_simps]:
  assumes "arena_ok A" and "arena_used A < 256"
  shows "wsm_cons A a d = Inr (arena_next A,
           A\<lparr>arena_mem := (arena_mem A)(arena_next A := a, arena_next A + 8 := d),
             arena_next := arena_next A + 16\<rparr>)"
  using assms next_unat [OF assms] unat_arena_end [OF assms(1)]
  by (simp add: wsm_cons_def Let_def word_less_nat_alt)

lemma cons_full:
  assumes "arena_ok A" and "arena_used A = 256"
  shows "wsm_cons A a d = Inl (Process_Exit 97 1 0 0)"
proof -
  have "unat (arena_next A + of_nat 16) = unat (arena_next A) + 16"
    by (rule unat_plus_small) (use assms arena_okD [OF assms(1)] in simp)
  then have "arena_end A < arena_next A + 16"
    using assms arena_okD(5) [OF assms(1)] unat_arena_end [OF assms(1)]
    by (simp add: word_less_nat_alt)
  then show ?thesis by (simp add: wsm_cons_def wsm_fail_win64_def Let_def)
qed

lemma wsm_cons_Inr:
  assumes "arena_ok A" and "wsm_cons A a d = Inr (p, A')"
  shows "arena_used A < 256" and "p = arena_next A"
    and "A' = A\<lparr>arena_mem := (arena_mem A)(arena_next A := a, arena_next A + 8 := d),
                arena_next := arena_next A + 16\<rparr>"
proof -
  show u: "arena_used A < 256"
    using assms cons_full [of A a d] arena_okD(4) [OF assms(1)] by (cases "arena_used A = 256") auto
  show "p = arena_next A"
    and "A' = A\<lparr>arena_mem := (arena_mem A)(arena_next A := a, arena_next A + 8 := d),
                arena_next := arena_next A + 16\<rparr>"
    using assms(2) unfolding cons_ok [OF assms(1) u] by auto
qed

lemma wsm_cons_state:
  assumes "arena_ok A" and "wsm_cons A a d = Inr (p, A')"
  shows "arena_ok A'" "arena_used A' = Suc (arena_used A)" "arena_base A' = arena_base A"
    "is_cell A' p" "wsm_car A' p = Inr a" "wsm_cdr A' p = Inr d"
proof -
  note step = wsm_cons_Inr [OF assms]
  note n = next_unat [OF assms(1) step(1)]
  show used: "arena_used A' = Suc (arena_used A)"
    using n unfolding step(3) arena_used_def [of "_\<lparr>arena_mem := _\<rparr>\<lparr>arena_next := _\<rparr>"] by simp
  show base: "arena_base A' = arena_base A" by (simp add: step(3))
  have "unat (arena_next A') = unat (arena_base A) + 16 * Suc (arena_used A)"
    using n by (simp add: step(3))
  then show ok: "arena_ok A'"
    using assms(1) step(1) unfolding arena_ok_def used base by simp
  show cell: "is_cell A' p"
    using arena_okD(5) [OF assms(1)] by (auto simp: is_cell_index [OF ok] used base step(2))
  have "arena_next A \<noteq> arena_next A + 8" by simp
  then show "wsm_car A' p = Inr a" "wsm_cdr A' p = Inr d"
    using read_cell [OF ok cell] by (simp_all add: step(2,3))
qed

lemma wsm_cons_frame:
  assumes "arena_ok A" and "wsm_cons A a d = Inr (p, A')" and "is_cell A q"
  shows "is_cell A' q" "wsm_car A' q = wsm_car A q" "wsm_cdr A' q = wsm_cdr A q"
proof -
  note step = wsm_cons_Inr [OF assms(1,2)]
  note state = wsm_cons_state [OF assms(1,2)]
  from assms(1,3) obtain k where k: "k < arena_used A" "unat q = unat (arena_base A) + 16 * k"
    "unat (q + 8) = unat (arena_base A) + 16 * k + 8" by (rule is_cell_unat)
  show cell: "is_cell A' q"
    using k by (auto simp: is_cell_index [OF state(1)] state(2,3))
  have n: "unat (arena_next A) = unat (arena_base A) + 16 * arena_used A"
    using arena_okD(5) [OF assms(1)] .
  have n8: "unat (arena_next A + of_nat 8) = unat (arena_next A) + 8"
    by (rule unat_plus_small) (use n arena_okD [OF assms(1)] in simp)
  have "unat q < unat (arena_next A)" "unat (q + 8) < unat (arena_next A)"
    using k n by simp_all
  then have "q \<noteq> arena_next A" "q \<noteq> arena_next A + 8" "q + 8 \<noteq> arena_next A"
    "q + 8 \<noteq> arena_next A + 8"
    using n8 by auto
  then show "wsm_car A' q = wsm_car A q" "wsm_cdr A' q = wsm_cdr A q"
    using read_cell [OF assms(1,3)] read_cell [OF state(1) cell] by (simp_all add: step(3))
qed

end
