(* ===== verification/Evaluator.thy ===== *)
theory Evaluator
  imports Symbols Nucleus
begin

text \<open>
  \<open>host-runtime/src/eval.rs\<close>: the evaluator of one form. It never allocates and never changes
  the tables, so the arena, the environment and the symbols are one context; the only effects
  are those of the host primitives, which are functions on a world \<open>'w\<close> that the evaluator
  threads through. The recursion of the source is on pointers; the model counts the nested
  calls with fuel (\<open>Evaluator_Correct\<close> proves how much is enough).
\<close>

section \<open>Errors and the environment\<close>

datatype eval_error =
    UnknownSymbol rstring
  | NotCallable
  | InvalidForm rstring
  | TypeError rstring
  | HostPrimitiveFailed rstring rstring

text \<open>
  A registered closure: its result is \<open>Err(message)\<close>, \<open>Ok(word)\<close>, or no result because the host
  code behind it stopped fatally.
\<close>

type_synonym 'w host_primitive = "u64 list \<Rightarrow> 'w \<Rightarrow> (rstring stop + u64) \<times> 'w"

record 'w env =
  primitives :: "rstring \<Rightarrow> 'w host_primitive option"
  bindings :: "rstring \<Rightarrow> u64 option"

definition env_new :: "'w env" where
  "env_new = \<lparr>primitives = (\<lambda>_. None), bindings = (\<lambda>_. None)\<rparr>"

definition register_primitive :: "'w env \<Rightarrow> rstring \<Rightarrow> 'w host_primitive \<Rightarrow> 'w env" where
  "register_primitive env name f = env\<lparr>primitives := (primitives env)(name := Some f)\<rparr>"

definition bind_name :: "'w env \<Rightarrow> rstring \<Rightarrow> u64 \<Rightarrow> 'w env" where
  "bind_name env name v = env\<lparr>bindings := (bindings env)(name := Some v)\<rparr>"

text \<open>The constants that \<open>build.rs\<close> generates from the registry of surface spellings.\<close>

record spellings =
  QUOTE_SPELLINGS :: "rstring list"
  CAR_SPELLINGS :: "rstring list"
  CDR_SPELLINGS :: "rstring list"
  COND_SPELLINGS :: "rstring list"

record 'w eval_context =
  ctx_spellings :: spellings
  ctx_arena :: arena
  ctx_env :: "'w env"
  ctx_symbols :: symbol_table

definition is_quote_spelling :: "'w eval_context \<Rightarrow> rstring \<Rightarrow> bool" where
  "is_quote_spelling X name \<longleftrightarrow> name \<in> set (QUOTE_SPELLINGS (ctx_spellings X))"

definition is_car_spelling :: "'w eval_context \<Rightarrow> rstring \<Rightarrow> bool" where
  "is_car_spelling X name \<longleftrightarrow> name \<in> set (CAR_SPELLINGS (ctx_spellings X))"

definition is_cdr_spelling :: "'w eval_context \<Rightarrow> rstring \<Rightarrow> bool" where
  "is_cdr_spelling X name \<longleftrightarrow> name \<in> set (CDR_SPELLINGS (ctx_spellings X))"

definition is_cond_spelling :: "'w eval_context \<Rightarrow> rstring \<Rightarrow> bool" where
  "is_cond_spelling X name \<longleftrightarrow> name \<in> set (COND_SPELLINGS (ctx_spellings X))"

section \<open>Sequencing\<close>

text \<open>A raw accessor stops everything when it fails; \<open>step_then\<close> is \<open>?\<close> on a step with effects.\<close>

definition raw :: "fatal + 'a \<Rightarrow> 'e stop + 'a" where
  "raw r = (case r of Inl f \<Rightarrow> Inl (Abort f) | Inr a \<Rightarrow> Inr a)"

definition step_then :: "('e + 'a) \<times> 'w \<Rightarrow> ('a \<Rightarrow> 'w \<Rightarrow> ('e + 'b) \<times> 'w) \<Rightarrow> ('e + 'b) \<times> 'w" where
  "step_then r f = (case r of (Inl e, w) \<Rightarrow> (Inl e, w) | (Inr a, w) \<Rightarrow> f a w)"

lemma raw_simps [simp]: "raw (Inl f) = Inl (Abort f)" "raw (Inr a) = Inr a"
  by (simp_all add: raw_def)

lemma step_then_simps [simp]:
  "step_then (Inl e, w) f = (Inl e, w)" "step_then (Inr a, w) f = f a w"
  by (simp_all add: step_then_def)

lemma step_then_cong [fundef_cong]:
  "r = r' \<Longrightarrow> (\<And>a w. r' = (Inr a, w) \<Longrightarrow> f a w = g a w) \<Longrightarrow> step_then r f = step_then r' g"
  by (auto simp: step_then_def split: prod.splits sum.splits)

section \<open>The evaluator\<close>

definition eval_symbol :: "'w eval_context \<Rightarrow> u64 \<Rightarrow> eval_error stop + u64" where
  "eval_symbol X word =
     (case name_of (ctx_symbols X) word of
        None \<Rightarrow> Inl (Abort Rust_Panic)
      | Some name \<Rightarrow>
          if name = lit ''t'' then Inr word
          else case bindings (ctx_env X) name of
                 Some v \<Rightarrow> Inr v
               | None \<Rightarrow> Inl (Raise (UnknownSymbol name)))"

definition single_argument :: "arena \<Rightarrow> u64 \<Rightarrow> rstring \<Rightarrow> eval_error stop + u64" where
  "single_argument A list form =
     (if tag_of list \<noteq> TAG_CONS
      then Inl (Raise (InvalidForm (form @ lit '' takes exactly one argument'')))
      else and_then (raw (wsm_car A list)) (\<lambda>argument.
           and_then (raw (wsm_cdr A list)) (\<lambda>tail.
             if tail \<noteq> WORD_NIL
             then Inl (Raise (InvalidForm (form @ lit '' takes exactly one argument'')))
             else Inr argument)))"

definition bad_clause :: "eval_error stop" where
  "bad_clause = Raise (InvalidForm (lit ''cond clause takes exactly two forms''))"

definition cond_clause :: "arena \<Rightarrow> u64 \<Rightarrow> eval_error stop + (u64 \<times> u64)" where
  "cond_clause A clause =
     (if tag_of clause \<noteq> TAG_CONS then Inl bad_clause
      else and_then (raw (wsm_car A clause)) (\<lambda>test.
           and_then (raw (wsm_cdr A clause)) (\<lambda>body.
             if tag_of body \<noteq> TAG_CONS then Inl bad_clause
             else and_then (raw (wsm_car A body)) (\<lambda>result.
                  and_then (raw (wsm_cdr A body)) (\<lambda>tail.
                    if tail \<noteq> WORD_NIL then Inl bad_clause else Inr (test, result))))))"

text \<open>The last step of a call: the lookup of the primitive and its answer.\<close>

definition call_primitive ::
  "'w eval_context \<Rightarrow> rstring \<Rightarrow> u64 list \<Rightarrow> 'w \<Rightarrow> (eval_error stop + u64) \<times> 'w" where
  "call_primitive X name args w =
     (case primitives (ctx_env X) name of
        Some f \<Rightarrow>
          (case f args w of
             (Inl (Raise message), w') \<Rightarrow> (Inl (Raise (HostPrimitiveFailed name message)), w')
           | (Inl (Abort e), w') \<Rightarrow> (Inl (Abort e), w')
           | (Inr v, w') \<Rightarrow> (Inr v, w'))
      | None \<Rightarrow> (Inl (Raise (UnknownSymbol name)), w))"

function (sequential) eval :: "'w eval_context \<Rightarrow> nat \<Rightarrow> u64 \<Rightarrow> 'w \<Rightarrow> (eval_error stop + u64) \<times> 'w"
  and eval_list :: "'w eval_context \<Rightarrow> nat \<Rightarrow> u64 \<Rightarrow> 'w \<Rightarrow> (eval_error stop + u64) \<times> 'w"
  and eval_checked_accessor :: "'w eval_context \<Rightarrow> nat \<Rightarrow> u64 \<Rightarrow> rstring \<Rightarrow> (arena \<Rightarrow> u64 \<Rightarrow> fatal + u64) \<Rightarrow>
        'w \<Rightarrow> (eval_error stop + u64) \<times> 'w"
  and eval_args :: "'w eval_context \<Rightarrow> nat \<Rightarrow> u64 \<Rightarrow> 'w \<Rightarrow> (eval_error stop + u64 list) \<times> 'w"
  and eval_cond :: "'w eval_context \<Rightarrow> nat \<Rightarrow> u64 \<Rightarrow> 'w \<Rightarrow> (eval_error stop + u64) \<times> 'w"
where
  "eval X 0 word w = (Inl (Abort Out_Of_Fuel), w)"
| "eval X (Suc n) word w =
     (if tag_of word = TAG_FIXNUM \<or> tag_of word = TAG_NIL \<or> tag_of word = TAG_BOXED
      then (Inr word, w)
      else if tag_of word = TAG_SYMBOL then (eval_symbol X word, w)
      else if tag_of word = TAG_CONS then eval_list X n word w
      else (Inr word, w))"
| "eval_list X 0 word w = (Inl (Abort Out_Of_Fuel), w)"
| "eval_list X (Suc n) word w =
     step_then (raw (wsm_car (ctx_arena X) word), w) (\<lambda>head w.
     step_then (raw (wsm_cdr (ctx_arena X) word), w) (\<lambda>rest w.
       if tag_of head \<noteq> TAG_SYMBOL then (Inl (Raise NotCallable), w)
       else case name_of (ctx_symbols X) head of
              None \<Rightarrow> (Inl (Abort Rust_Panic), w)
            | Some name \<Rightarrow>
                if is_cond_spelling X name then eval_cond X n rest w
                else if is_quote_spelling X name
                  then (single_argument (ctx_arena X) rest (lit ''quote''), w)
                else if is_car_spelling X name
                  then eval_checked_accessor X n rest (lit ''car'') wsm_car w
                else if is_cdr_spelling X name
                  then eval_checked_accessor X n rest (lit ''cdr'') wsm_cdr w
                else step_then (eval_args X n rest w) (\<lambda>args w. call_primitive X name args w)))"
| "eval_checked_accessor X 0 list canonical_name accessor w = (Inl (Abort Out_Of_Fuel), w)"
| "eval_checked_accessor X (Suc n) list canonical_name accessor w =
     step_then (single_argument (ctx_arena X) list canonical_name, w) (\<lambda>argument w.
     step_then (eval X n argument w) (\<lambda>v w.
       if tag_of v \<noteq> TAG_CONS
       then (Inl (Raise (TypeError (canonical_name @ lit '' expects a non-empty list''))), w)
       else (raw (accessor (ctx_arena X) v), w)))"
| "eval_args X 0 list w = (Inl (Abort Out_Of_Fuel), w)"
| "eval_args X (Suc n) list w =
     (if list = WORD_NIL then (Inr [], w)
      else step_then (raw (wsm_car (ctx_arena X) list), w) (\<lambda>item w.
           step_then (eval X n item w) (\<lambda>v w.
           step_then (raw (wsm_cdr (ctx_arena X) list), w) (\<lambda>list' w.
           step_then (eval_args X n list' w) (\<lambda>vs w. (Inr (v # vs), w))))))"
| "eval_cond X 0 clauses w = (Inl (Abort Out_Of_Fuel), w)"
| "eval_cond X (Suc n) clauses w =
     (if clauses = WORD_NIL then (Inr WORD_NIL, w)
      else if tag_of clauses \<noteq> TAG_CONS
        then (Inl (Raise (InvalidForm (lit ''cond expects a list of clauses''))), w)
      else step_then (raw (wsm_car (ctx_arena X) clauses), w) (\<lambda>clause w.
           step_then (cond_clause (ctx_arena X) clause, w) (\<lambda>(test, result_expr) w.
           step_then (eval X n test w) (\<lambda>test_result w.
             if is_truthy test_result then eval X n result_expr w
             else step_then (raw (wsm_cdr (ctx_arena X) clauses), w) (\<lambda>clauses' w.
                    eval_cond X n clauses' w)))))"
  by pat_completeness auto

termination
  by (relation "measure (\<lambda>x. case x of Inl (Inl (_, n, _)) \<Rightarrow> n | Inl (Inr (_, n, _)) \<Rightarrow> n
     | Inr (Inl (_, n, _)) \<Rightarrow> n | Inr (Inr (Inl (_, n, _))) \<Rightarrow> n | Inr (Inr (Inr (_, n, _))) \<Rightarrow> n)") simp_all

end
