(* ===== verification/Host.thy ===== *)
theory Host
  imports Rationals Utf8 Evaluator
begin

text \<open>
  The value-carrying half of \<open>host-runtime/src/ffi.rs\<close>: the functions by which the host wraps a
  value into a boxed word of a session and reads it back, and the closure that
  \<open>wsm_register_primitive\<close> builds around a host callback. The callback itself is C++ outside
  this crate: it is a value of \<open>host_program\<close>, the sequence of the boundary calls it makes until
  it returns, each continuation depending on the reply.
\<close>

section \<open>What the build and the platform fix\<close>

record platform =
  pl_codec :: codec
  pl_overflow_checks :: bool
  pl_unprintable :: "rchar \<Rightarrow> bool"
  pl_spellings :: spellings

section \<open>Wrapping and unwrapping\<close>

text \<open>
  A session pointer is an address, 0 the null pointer; the boxed tables of the live sessions are
  a map from addresses. A call answers with its status code and the values it wrote through its
  out pointers (none when it wrote none).
\<close>

type_synonym tables = "u64 \<Rightarrow> boxed_table option"
type_synonym reply = "i32 \<times> u64 list"

text \<open>\<open>catch_unwind(...).unwrap_or(d)\<close>: a Rust panic becomes \<open>d\<close>, nothing else is caught.\<close>

definition catch_unwind_or :: "'a \<Rightarrow> fatal + 'a \<Rightarrow> fatal + 'a" where
  "catch_unwind_or d r = (if r = Inl Rust_Panic then Inr d else r)"

definition wrap_into ::
  "tables \<Rightarrow> u64 \<Rightarrow> (boxed_table \<Rightarrow> (fatal + u64) \<times> boxed_table) \<Rightarrow> (fatal + reply) \<times> tables" where
  "wrap_into T session add =
     (case T session of
        None \<Rightarrow> (Inl (Dangling_Session session), T)
      | Some b \<Rightarrow>
          (case add b of
             (r, b') \<Rightarrow> (catch_unwind_or (- 2, []) (and_then r (\<lambda>word. Inr (0, [word]))), T(session \<mapsto> b'))))"

definition wsm_wrap_game_handle ::
  "platform \<Rightarrow> tables \<Rightarrow> u64 \<Rightarrow> u64 \<Rightarrow> u64 \<Rightarrow> (fatal + reply) \<times> tables" where
  "wsm_wrap_game_handle pl T session handle out =
     (if session = 0 \<or> out = 0 then (Inr (- 1, []), T)
      else wrap_into T session (\<lambda>b. add_game_handle (pl_codec pl) b handle))"

text \<open>A C string argument: \<open>None\<close> is the null pointer, \<open>Some\<close> the bytes it points to.\<close>

definition wsm_wrap_transient_string ::
  "platform \<Rightarrow> tables \<Rightarrow> u64 \<Rightarrow> u8 list option \<Rightarrow> u64 \<Rightarrow> (fatal + reply) \<times> tables" where
  "wsm_wrap_transient_string pl T session str out =
     (if session = 0 \<or> out = 0 then (Inr (- 1, []), T)
      else case str of
             None \<Rightarrow> (Inr (- 1, []), T)
           | Some bytes \<Rightarrow>
               (case c_to_str bytes of
                  None \<Rightarrow> (Inr (- 1, []), T)
                | Some s \<Rightarrow> wrap_into T session (\<lambda>b. add_string (pl_codec pl) b s)))"

definition wsm_wrap_rational ::
  "platform \<Rightarrow> tables \<Rightarrow> u64 \<Rightarrow> i64 \<Rightarrow> i64 \<Rightarrow> u64 \<Rightarrow> (fatal + reply) \<times> tables" where
  "wsm_wrap_rational pl T session numerator denominator out =
     (if session = 0 \<or> out = 0 \<or> denominator = 0 then (Inr (- 1, []), T)
      else wrap_into T session
             (\<lambda>b. add_rational (pl_overflow_checks pl) (pl_codec pl) b numerator denominator))"

definition wsm_wrap_transient_rational ::
  "platform \<Rightarrow> tables \<Rightarrow> u64 \<Rightarrow> i64 \<Rightarrow> i64 \<Rightarrow> u64 \<Rightarrow> (fatal + reply) \<times> tables" where
  "wsm_wrap_transient_rational pl T session numerator denominator out =
     (if session = 0 \<or> out = 0 \<or> denominator = 0 then (Inr (- 1, []), T)
      else wrap_into T session
             (\<lambda>b. add_transient_rational (pl_overflow_checks pl) (pl_codec pl) b numerator denominator))"

definition wsm_unwrap_game_handle ::
  "platform \<Rightarrow> tables \<Rightarrow> u64 \<Rightarrow> u64 \<Rightarrow> u64 \<Rightarrow> fatal + reply" where
  "wsm_unwrap_game_handle pl T session word out =
     (if session = 0 \<or> out = 0 then Inr (- 1, [])
      else case T session of
             None \<Rightarrow> Inl (Dangling_Session session)
           | Some b \<Rightarrow>
               (case get_game_handle (pl_codec pl) b word of
                  Some handle \<Rightarrow> Inr (0, [handle])
                | None \<Rightarrow> Inr (1, [])))"

definition wsm_unwrap_rational ::
  "platform \<Rightarrow> tables \<Rightarrow> u64 \<Rightarrow> u64 \<Rightarrow> u64 \<Rightarrow> u64 \<Rightarrow> fatal + reply" where
  "wsm_unwrap_rational pl T session word out_numerator out_denominator =
     (if session = 0 \<or> out_numerator = 0 \<or> out_denominator = 0 then Inr (- 1, [])
      else case T session of
             None \<Rightarrow> Inl (Dangling_Session session)
           | Some b \<Rightarrow>
               (case get_rational (pl_codec pl) b word of
                  Some (n, d) \<Rightarrow> Inr (0, [n, d])
                | None \<Rightarrow> Inr (1, [])))"

section \<open>Callbacks\<close>

datatype boundary_call =
    Wrap_Game_Handle u64 u64 u64
  | Wrap_Transient_String u64 "u8 list option" u64
  | Wrap_Rational u64 i64 i64 u64
  | Wrap_Transient_Rational u64 i64 i64 u64
  | Unwrap_Game_Handle u64 u64 u64
  | Unwrap_Rational u64 u64 u64 u64

fun boundary :: "platform \<Rightarrow> boundary_call \<Rightarrow> tables \<Rightarrow> (fatal + reply) \<times> tables" where
  "boundary pl (Wrap_Game_Handle session handle out) T = wsm_wrap_game_handle pl T session handle out"
| "boundary pl (Wrap_Transient_String session str out) T = wsm_wrap_transient_string pl T session str out"
| "boundary pl (Wrap_Rational session n d out) T = wsm_wrap_rational pl T session n d out"
| "boundary pl (Wrap_Transient_Rational session n d out) T =
     wsm_wrap_transient_rational pl T session n d out"
| "boundary pl (Unwrap_Game_Handle session word out) T = (wsm_unwrap_game_handle pl T session word out, T)"
| "boundary pl (Unwrap_Rational session word out_n out_d) T =
     (wsm_unwrap_rational pl T session word out_n out_d, T)"

text \<open>
  \<open>Done rc out h\<close>: the callback returns \<open>rc\<close>, having written \<open>out\<close> (or not), and the host's own
  state is \<open>h\<close>. \<open>Crash f\<close>: it ends the process.
\<close>

datatype 'h host_program =
    Done i32 "u64 option" 'h
  | Crash fatal
  | Call boundary_call "reply \<Rightarrow> 'h host_program"

text \<open>A \<open>HostPrimitiveFn\<close>: the program for the arguments, from the host's present state.\<close>

type_synonym 'h callback = "u64 list \<Rightarrow> 'h \<Rightarrow> 'h host_program"

primrec run_program ::
  "platform \<Rightarrow> 'h host_program \<Rightarrow> tables \<Rightarrow> (fatal + (i32 \<times> u64 option \<times> 'h)) \<times> tables" where
  "run_program pl (Done rc out h) T = (Inr (rc, out, h), T)"
| "run_program pl (Crash f) T = (Inl f, T)"
| "run_program pl (Call q k) T =
     (case boundary pl q T of
        (Inl f, T') \<Rightarrow> (Inl f, T')
      | (Inr reply, T') \<Rightarrow> run_program pl (k reply) T')"

text \<open>The world that the evaluator threads: the tables and the host's own state.\<close>

record 'h world =
  w_tables :: tables
  w_host :: 'h

text \<open>The closure of \<open>wsm_register_primitive\<close>: \<open>out\<close> is initialised to 0 before the call.\<close>

definition host_closure :: "platform \<Rightarrow> 'h callback \<Rightarrow> 'h world host_primitive" where
  "host_closure pl f args w =
     (case run_program pl (f args (w_host w)) (w_tables w) of
        (Inl e, T) \<Rightarrow> (Inl (Abort e), w\<lparr>w_tables := T\<rparr>)
      | (Inr (rc, out, h), T) \<Rightarrow>
          (if rc \<noteq> 0
           then Inl (Raise (lit ''host primitive reported error code '' @ dec_int (sint rc)))
           else Inr (case out of None \<Rightarrow> 0 | Some v \<Rightarrow> v),
           \<lparr>w_tables = T, w_host = h\<rparr>))"

end
