(* ===== verification/Reader.thy ===== *)
theory Reader
  imports Symbols Boxed Nucleus
begin

text \<open>
  \<open>host-runtime/src/reader.rs\<close>: from text to cons structure. The tokenizer works on the text
  alone; the parser interns symbols, adds string literals to the boxed table and allocates
  cells in the arena, so it is a function on these three pieces of state, which it returns in
  every case, errors included. The position \<open>pos\<close> of the source is the list of the tokens that
  are left.
\<close>

section \<open>Errors and tokens\<close>

datatype read_error =
    UnexpectedEof
  | UnexpectedCloseParen
  | UnterminatedString
  | TrailingInput rstring
  | ArenaCapacityExceeded nat nat

datatype token = Open | Close | Atom rstring | StrLit rstring

section \<open>The tokenizer\<close>

text \<open>The loop that reads a string literal, entered after the opening quote.\<close>

fun string_body :: "rstring \<Rightarrow> rstring \<Rightarrow> (rstring \<times> rstring) option" where
  "string_body acc [] = None"
| "string_body acc (c # cs) =
     (if c = 34 then Some (acc, cs)
      else if c = 92 then
        (case cs of
           [] \<Rightarrow> None
         | e # cs' \<Rightarrow>
             if e = 34 then string_body (acc @ [34]) cs'
             else if e = 92 then string_body (acc @ [92]) cs'
             else string_body (acc @ [92, e]) cs')
      else string_body (acc @ [c]) cs)"

lemma string_body_shorter: "string_body acc cs = Some (v, r) \<Longrightarrow> length r < length cs"
  by (induction acc cs rule: string_body.induct) (fastforce split: if_splits list.splits)+

definition is_delimiter :: "rchar \<Rightarrow> bool" where
  "is_delimiter c \<longleftrightarrow> is_whitespace c \<or> c = 40 \<or> c = 41 \<or> c = 34"

function tokenize :: "rstring \<Rightarrow> read_error + token list" where
  "tokenize [] = Inr []"
| "tokenize (c # cs) =
     (if is_whitespace c then tokenize cs
      else if c = 40 then and_then (tokenize cs) (\<lambda>ts. Inr (Open # ts))
      else if c = 41 then and_then (tokenize cs) (\<lambda>ts. Inr (Close # ts))
      else if c = 34 then
        (case string_body [] cs of
           None \<Rightarrow> Inl UnterminatedString
         | Some (v, r) \<Rightarrow> and_then (tokenize r) (\<lambda>ts. Inr (StrLit v # ts)))
      else and_then (tokenize (dropWhile (\<lambda>x. \<not> is_delimiter x) cs))
             (\<lambda>ts. Inr (Atom (c # takeWhile (\<lambda>x. \<not> is_delimiter x) cs) # ts)))"
  by pat_completeness auto
termination
proof (relation "measure length")
  fix c :: rchar and cs r :: rstring and v :: rstring
  show "string_body [] cs = Some p \<Longrightarrow> (v, r) = p \<Longrightarrow> (r, c # cs) \<in> measure length" for p
    using string_body_shorter [of "[]" cs v r] by simp
qed (simp_all add: length_dropWhile_le less_Suc_eq_le)

section \<open>The parser\<close>

record read_state =
  rs_symbols :: symbol_table
  rs_boxed :: boxed_table
  rs_arena :: arena

definition atom_to_word :: "rstring \<Rightarrow> symbol_table \<Rightarrow> u64 \<times> symbol_table" where
  "atom_to_word atom symbols =
     (if atom = lit ''()'' then (WORD_NIL, symbols)
      else case parse_i64 atom of
             Some v \<Rightarrow> (encode_fixnum v, symbols)
           | None \<Rightarrow> intern symbols atom)"

fun parse_form :: "codec \<Rightarrow> nat \<Rightarrow> token list \<Rightarrow> read_state \<Rightarrow>
      (read_error stop + (u64 \<times> token list)) \<times> read_state"
  and parse_list :: "codec \<Rightarrow> nat \<Rightarrow> token list \<Rightarrow> read_state \<Rightarrow>
      (read_error stop + (u64 \<times> token list)) \<times> read_state" where
  "parse_form c 0 ts s = (Inl (Abort Out_Of_Fuel), s)"
| "parse_form c (Suc n) ts s =
     (case ts of
        [] \<Rightarrow> (Inl (Raise UnexpectedEof), s)
      | Close # _ \<Rightarrow> (Inl (Raise UnexpectedCloseParen), s)
      | Atom a # r \<Rightarrow>
          (let (w, st) = atom_to_word a (rs_symbols s) in (Inr (w, r), s\<lparr>rs_symbols := st\<rparr>))
      | StrLit v # r \<Rightarrow>
          (case add_string c (rs_boxed s) v of
             (Inl e, b) \<Rightarrow> (Inl (Abort e), s\<lparr>rs_boxed := b\<rparr>)
           | (Inr w, b) \<Rightarrow> (Inr (w, r), s\<lparr>rs_boxed := b\<rparr>))
      | Open # r \<Rightarrow> parse_list c n r s)"
| "parse_list c 0 ts s = (Inl (Abort Out_Of_Fuel), s)"
| "parse_list c (Suc n) ts s =
     (case ts of
        [] \<Rightarrow> (Inl (Raise UnexpectedEof), s)
      | Close # r \<Rightarrow> (Inr (WORD_NIL, r), s)
      | _ \<Rightarrow>
          (case parse_form c n ts s of
             (Inl e, s1) \<Rightarrow> (Inl e, s1)
           | (Inr (head, r1), s1) \<Rightarrow>
               (case parse_list c n r1 s1 of
                  (Inl e, s2) \<Rightarrow> (Inl e, s2)
                | (Inr (tail, r2), s2) \<Rightarrow>
                    (case wsm_cons (rs_arena s2) head tail of
                       Inl f \<Rightarrow> (Inl (Abort f), s2)
                     | Inr (p, A) \<Rightarrow> (Inr (p, r2), s2\<lparr>rs_arena := A\<rparr>)))))"

text \<open>\<open>required_cons_cells\<close>: the loop with its index, depth and count.\<close>

fun required_loop :: "nat \<Rightarrow> nat \<Rightarrow> nat \<Rightarrow> token list \<Rightarrow> nat option" where
  "required_loop index depth required [] = None"
| "required_loop index depth required (Open # ts) =
     required_loop (Suc index) (Suc depth) (if index \<noteq> 0 then Suc required else required) ts"
| "required_loop index depth required (Close # ts) =
     (if depth = 0 then None
      else if depth - 1 = 0 then Some required
      else required_loop (Suc index) (depth - 1) required ts)"
| "required_loop index depth required (Atom a # ts) =
     required_loop (Suc index) depth (Suc required) ts"
| "required_loop index depth required (StrLit v # ts) =
     required_loop (Suc index) depth (Suc required) ts"

definition required_cons_cells :: "token list \<Rightarrow> nat option" where
  "required_cons_cells tokens =
     (case tokens of Open # _ \<Rightarrow> required_loop 0 0 0 tokens | _ \<Rightarrow> Some 0)"

text \<open>The rendering of the left-over tokens in the \<open>TrailingInput\<close> error.\<close>

fun token_text :: "(rchar \<Rightarrow> bool) \<Rightarrow> token \<Rightarrow> rstring" where
  "token_text unprintable Open = lit ''(''"
| "token_text unprintable Close = lit '')''"
| "token_text unprintable (Atom a) = a"
| "token_text unprintable (StrLit v) = str_debug unprintable v"

fun join_spaces :: "rstring list \<Rightarrow> rstring" where
  "join_spaces [] = []"
| "join_spaces [x] = x"
| "join_spaces (x # y # xs) = x @ [32] @ join_spaces (y # xs)"

text \<open>
  A token costs at most two calls of the parser, so the fuel in \<open>read_one\<close> is never used up
  (\<open>parse_fuel_enough\<close> in \<open>Reader_Correct\<close>).
\<close>

definition parse_fuel :: "token list \<Rightarrow> nat" where
  "parse_fuel ts = 2 * length ts + 2"

definition read_one :: "codec \<Rightarrow> (rchar \<Rightarrow> bool) \<Rightarrow> rstring \<Rightarrow> read_state \<Rightarrow>
    (read_error stop + u64) \<times> read_state" where
  "read_one c unprintable source s =
     (case tokenize source of
        Inl e \<Rightarrow> (Inl (Raise e), s)
      | Inr tokens \<Rightarrow>
          (let capacity = wsm_arena_capacity (rs_arena s);
               too_large = (case required_cons_cells tokens of
                              None \<Rightarrow> None
                            | Some required \<Rightarrow> if required > capacity then Some required else None)
           in case too_large of
                Some required \<Rightarrow> (Inl (Raise (ArenaCapacityExceeded required capacity)), s)
              | None \<Rightarrow>
                  (case parse_form c (parse_fuel tokens) tokens s of
                     (Inl e, s') \<Rightarrow> (Inl e, s')
                   | (Inr (w, rest), s') \<Rightarrow>
                       if rest \<noteq> []
                       then (Inl (Raise (TrailingInput
                               (join_spaces (map (token_text unprintable) rest)))), s')
                       else (Inr w, s'))))"

end
