(* ===== verification/Cell_Store.thy ===== *)
theory Cell_Store
  imports Nucleus
begin

text \<open>
  The abstraction of words and cells as trees, and the interface of a store of pairs on which
  the reader (which allocates), the evaluator and the printer (which read) rely.
\<close>

section \<open>Trees of words\<close>

text \<open>A word that is not a cons, or the address of a cell with its two subtrees.\<close>

datatype node = Leaf u64 | Pair u64 node node

primrec word_of :: "node \<Rightarrow> u64" where
  "word_of (Leaf w) = w"
| "word_of (Pair p l r) = p"

primrec rep_by :: "(u64 \<Rightarrow> bool) \<Rightarrow> (u64 \<Rightarrow> fatal + u64) \<Rightarrow> (u64 \<Rightarrow> fatal + u64) \<Rightarrow> node \<Rightarrow> bool" where
  "rep_by cell left right (Leaf w) \<longleftrightarrow> tag_of w \<noteq> TAG_CONS"
| "rep_by cell left right (Pair p l r) \<longleftrightarrow> tag_of p = TAG_CONS \<and> cell p \<and> left p = Inr (word_of l)
     \<and> right p = Inr (word_of r) \<and> rep_by cell left right l \<and> rep_by cell left right r"

lemma rep_by_mono:
  assumes "rep_by cell left right t"
    and "\<And>q. cell q \<Longrightarrow> cell' q \<and> left' q = left q \<and> right' q = right q"
  shows "rep_by cell' left' right' t"
  using assms(1) by (induction t) (simp_all add: assms(2))

text \<open>The tree of a word is unique: a word determines everything that can be read from it.\<close>

lemma rep_by_unique:
  "rep_by cell left right t \<Longrightarrow> rep_by cell left right u \<Longrightarrow> word_of t = word_of u \<Longrightarrow> t = u"
proof (induction t arbitrary: u)
  case (Leaf w)
  then show ?case by (cases u) auto
next
  case (Pair p l r)
  then show ?case by (cases u) auto
qed

section \<open>The interface of a store of pairs\<close>

locale pair_store =
  fixes alloc :: "'s \<Rightarrow> u64 \<Rightarrow> u64 \<Rightarrow> fatal + (u64 \<times> 's)"
    and left :: "'s \<Rightarrow> u64 \<Rightarrow> fatal + u64"
    and right :: "'s \<Rightarrow> u64 \<Rightarrow> fatal + u64"
    and cell :: "'s \<Rightarrow> u64 \<Rightarrow> bool"
    and valid :: "'s \<Rightarrow> bool"
    and free :: "'s \<Rightarrow> nat"
    and full :: fatal
  assumes alloc_some: "valid s \<Longrightarrow> 0 < free s \<Longrightarrow> \<exists>p s'. alloc s a d = Inr (p, s')"
    and alloc_full: "valid s \<Longrightarrow> free s = 0 \<Longrightarrow> alloc s a d = Inl full"
    and alloc_valid: "valid s \<Longrightarrow> alloc s a d = Inr (p, s') \<Longrightarrow> valid s'"
    and alloc_free: "valid s \<Longrightarrow> alloc s a d = Inr (p, s') \<Longrightarrow> free s = Suc (free s')"
    and alloc_cell: "valid s \<Longrightarrow> alloc s a d = Inr (p, s') \<Longrightarrow> cell s' p"
    and alloc_left: "valid s \<Longrightarrow> alloc s a d = Inr (p, s') \<Longrightarrow> left s' p = Inr a"
    and alloc_right: "valid s \<Longrightarrow> alloc s a d = Inr (p, s') \<Longrightarrow> right s' p = Inr d"
    and alloc_frame: "valid s \<Longrightarrow> alloc s a d = Inr (p, s') \<Longrightarrow> cell s q \<Longrightarrow>
      cell s' q \<and> left s' q = left s q \<and> right s' q = right s q"
    and cell_tag: "valid s \<Longrightarrow> cell s q \<Longrightarrow> tag_of q = TAG_CONS"
begin

abbreviation rep :: "'s \<Rightarrow> node \<Rightarrow> bool" where
  "rep s \<equiv> rep_by (cell s) (left s) (right s)"

lemma alloc_keeps_rep:
  assumes "valid s" and "alloc s a d = Inr (p, s')" and "rep s t"
  shows "rep s' t"
  using assms(3) by (rule rep_by_mono) (simp add: alloc_frame [OF assms(1,2)])

lemma alloc_rep:
  assumes "valid s" and "alloc s (word_of l) (word_of r) = Inr (p, s')" and "rep s l" and "rep s r"
  shows "rep s' (Pair p l r)"
  using alloc_cell [OF assms(1,2)] alloc_left [OF assms(1,2)] alloc_right [OF assms(1,2)]
    alloc_keeps_rep [OF assms(1,2)] assms(3,4)
    cell_tag [OF alloc_valid [OF assms(1,2)] alloc_cell [OF assms(1,2)]]
  by simp

text \<open>Allocating succeeds exactly when there is room.\<close>

lemma alloc_iff: "valid s \<Longrightarrow> (\<exists>p s'. alloc s a d = Inr (p, s')) \<longleftrightarrow> 0 < free s"
  using alloc_some [of s a d] alloc_full [of s a d] by (cases "free s = 0") auto

text \<open>A list of words stored from its end, as the reader and the assembly tests build it.\<close>

fun alloc_words :: "'s \<Rightarrow> u64 \<Rightarrow> u64 list \<Rightarrow> fatal + (u64 \<times> 's)" where
  "alloc_words s tail [] = Inr (tail, s)"
| "alloc_words s tail (w # ws) = and_then (alloc s w tail) (\<lambda>(p, s'). alloc_words s' p ws)"

lemma alloc_words_full:
  assumes "valid s" and "free s < length ws"
  shows "alloc_words s tail ws = Inl full"
  using assms
proof (induction ws arbitrary: s tail)
  case (Cons w ws)
  show ?case
  proof (cases "free s = 0")
    case True
    then show ?thesis using alloc_full [OF Cons.prems(1)] by simp
  next
    case False
    then obtain p s' where p: "alloc s w tail = Inr (p, s')"
      using alloc_some [OF Cons.prems(1)] by blast
    then show ?thesis
      using Cons.IH [of s' p] alloc_valid [OF Cons.prems(1) p] alloc_free [OF Cons.prems(1) p]
        Cons.prems(2) by simp
  qed
qed simp

lemma alloc_words_ok:
  assumes "valid s" and "length ws \<le> free s"
  shows "\<exists>p s'. alloc_words s tail ws = Inr (p, s') \<and> valid s' \<and> free s = free s' + length ws"
  using assms
proof (induction ws arbitrary: s tail)
  case (Cons w ws)
  then have "0 < free s" by simp
  then obtain p s' where p: "alloc s w tail = Inr (p, s')"
    using alloc_some [OF Cons.prems(1)] by blast
  then show ?case
    using Cons.IH [of s' p] alloc_valid [OF Cons.prems(1) p] alloc_free [OF Cons.prems(1) p]
      Cons.prems(2) by auto
qed simp

end

section \<open>The arena provides it\<close>

interpretation cells: pair_store wsm_cons wsm_car wsm_cdr is_cell arena_ok arena_free
  "Process_Exit 97 1 0 0"
proof unfold_locales
  fix A A' :: arena and a d p :: u64
  assume ok: "arena_ok A"
  show "0 < arena_free A \<Longrightarrow> \<exists>p A'. wsm_cons A a d = Inr (p, A')"
    using cons_ok [OF ok] by (auto simp: arena_free_def)
  show "arena_free A = 0 \<Longrightarrow> wsm_cons A a d = Inl (Process_Exit 97 1 0 0)"
    using cons_full [OF ok] arena_okD(4) [OF ok] by (simp add: arena_free_def)
  assume step: "wsm_cons A a d = Inr (p, A')"
  show "arena_free A = Suc (arena_free A')"
    using wsm_cons_state(2) [OF ok step] wsm_cons_Inr(1) [OF ok step] by (simp add: arena_free_def)
qed (simp_all add: wsm_cons_state wsm_cons_frame is_cell_tag)

text \<open>The tree that a word denotes in an arena.\<close>

abbreviation repr :: "arena \<Rightarrow> node \<Rightarrow> bool" where
  "repr A \<equiv> rep_by (is_cell A) (wsm_car A) (wsm_cdr A)"

section \<open>Depth\<close>

text \<open>
  A tree can share subtrees, so its size is not bounded by the arena, but its height is: the
  cells on a path are different, because the tree of a word is unique.
\<close>

primrec height :: "node \<Rightarrow> nat" where
  "height (Leaf w) = 0"
| "height (Pair p l r) = Suc (max (height l) (height r))"

primrec cells_in :: "node \<Rightarrow> u64 set" where
  "cells_in (Leaf w) = {}"
| "cells_in (Pair p l r) = insert p (cells_in l \<union> cells_in r)"

lemma finite_cells_in [simp]: "finite (cells_in t)"
  by (induction t) simp_all

lemma cells_in_subtree:
  assumes "rep_by cell left right t" and "q \<in> cells_in t"
  shows "\<exists>u. rep_by cell left right u \<and> word_of u = q \<and> size u \<le> size t"
  using assms
proof (induction t)
  case (Pair p l r)
  then consider "q = p" | "q \<in> cells_in l" | "q \<in> cells_in r" by auto
  then show ?case
  proof cases
    case 1
    then show ?thesis using Pair.prems(1) by (intro exI [of _ "Pair p l r"]) simp
  qed (use Pair in \<open>fastforce simp: le_SucI trans_le_add1 trans_le_add2\<close>)+
qed simp

lemma rep_by_acyclic:
  assumes "rep_by cell left right (Pair p l r)"
  shows "p \<notin> cells_in l \<union> cells_in r"
proof
  assume "p \<in> cells_in l \<union> cells_in r"
  moreover have "rep_by cell left right l" "rep_by cell left right r" using assms by simp_all
  ultimately obtain u where u: "rep_by cell left right u" "word_of u = p"
      "size u \<le> size l \<or> size u \<le> size r"
    using cells_in_subtree [of cell left right _ p] by blast
  have "u = Pair p l r" by (rule rep_by_unique [OF u(1) assms]) (simp add: u(2))
  then show False using u(3) by auto
qed

lemma height_le_cells: "rep_by cell left right t \<Longrightarrow> height t \<le> card (cells_in t)"
proof (induction t)
  case (Pair p l r)
  have "card (cells_in l) \<le> card (cells_in l \<union> cells_in r)"
    and "card (cells_in r) \<le> card (cells_in l \<union> cells_in r)"
    by (intro card_mono; simp)+
  moreover have "height l \<le> card (cells_in l)" "height r \<le> card (cells_in r)"
    using Pair by simp_all
  ultimately show ?case using rep_by_acyclic [OF Pair.prems] by simp
qed simp

lemma cells_in_cell: "rep_by cell left right t \<Longrightarrow> cells_in t \<subseteq> {q. cell q}"
  by (induction t) auto

lemma card_cells:
  assumes "arena_ok A"
  shows "finite {q. is_cell A q}" and "card {q. is_cell A q} \<le> arena_used A"
proof -
  have "{q. is_cell A q} \<subseteq> (\<lambda>k. of_nat (unat (arena_base A) + 16 * k)) ` {..<arena_used A}"
  proof
    fix q
    assume "q \<in> {q. is_cell A q}"
    then obtain k where "k < arena_used A" "unat q = unat (arena_base A) + 16 * k"
      using is_cell_index [OF assms] by auto
    moreover have "q = of_nat (unat q)" by simp
    ultimately show "q \<in> (\<lambda>k. of_nat (unat (arena_base A) + 16 * k)) ` {..<arena_used A}"
      by (intro image_eqI [where x = k]) (simp_all only: lessThan_iff)
  qed
  then show "finite {q. is_cell A q}" and "card {q. is_cell A q} \<le> arena_used A"
    using surj_card_le [of "{..<arena_used A}"] finite_subset by (fastforce, fastforce)
qed

lemma repr_height:
  assumes "arena_ok A" and "repr A t"
  shows "height t \<le> arena_used A" and "height t \<le> ARENA_CELLS"
proof -
  have "card (cells_in t) \<le> card {q. is_cell A q}"
    by (rule card_mono) (use card_cells [OF assms(1)] cells_in_cell [OF assms(2)] in auto)
  then show "height t \<le> arena_used A"
    using height_le_cells [OF assms(2)] card_cells(2) [OF assms(1)] by linarith
  then show "height t \<le> ARENA_CELLS" using arena_okD(4) [OF assms(1)] by simp
qed

end
