(* ===== verification/Forms.thy ===== *)
theory Forms
  imports Reader Cell_Store
begin

text \<open>
  The abstract syntax that the reader is meant to accept (atoms, string literals and lists),
  its token sequence and its textual form, the number of cells it needs, and when a tree of
  words in the runtime's tables denotes a form.
\<close>

section \<open>Forms\<close>

datatype form = FAtom rstring | FStr rstring | FList "form list"

fun toks :: "form \<Rightarrow> token list" where
  "toks (FAtom a) = [Atom a]"
| "toks (FStr v) = [StrLit v]"
| "toks (FList fs) = Open # concat (map toks fs) @ [Close]"

abbreviation toks_list :: "form list \<Rightarrow> token list" where
  "toks_list fs \<equiv> concat (map toks fs)"

fun cells_of :: "form \<Rightarrow> nat" where
  "cells_of (FAtom a) = 0"
| "cells_of (FStr v) = 0"
| "cells_of (FList fs) = sum_list (map (\<lambda>f. Suc (cells_of f)) fs)"

abbreviation cells_list :: "form list \<Rightarrow> nat" where
  "cells_list fs \<equiv> sum_list (map (\<lambda>f. Suc (cells_of f)) fs)"

lemma toks_not_Nil [simp]: "toks f \<noteq> []"
  by (cases f) simp_all

lemma toks_hd_not_Close: "\<exists>t ts. toks f = t # ts \<and> t \<noteq> Close"
  by (cases f) simp_all

lemma length_toks_pos: "0 < length (toks f)"
  by simp

section \<open>Tokens of forms\<close>

text \<open>A maximal reading: every token list is a form and a rest, or it is not.\<close>

lemma toks_inj:
  "toks f @ r = toks g @ r' \<Longrightarrow> f = g \<and> r = r'"
proof (induction f arbitrary: g r r')
  case (FAtom a)
  then show ?case by (cases g) auto
next
  case (FStr v)
  then show ?case by (cases g) auto
next
  case (FList fs)
  obtain gs where g: "g = FList gs" using FList.prems by (cases g) auto
  have list: "toks_list fs @ Close # r = toks_list gs @ Close # r' \<Longrightarrow> fs = gs \<and> r = r'" for gs
    using FList.IH
  proof (induction fs arbitrary: gs)
    case Nil
    then show ?case using toks_hd_not_Close by (cases gs) (auto, metis append_Cons list.inject)
  next
    case (Cons f fs)
    then obtain g' gs' where gs: "gs = g' # gs'"
      using toks_hd_not_Close [of f] by (cases gs) auto
    have "f = g' \<and> toks_list fs @ Close # r = toks_list gs' @ Close # r'"
      using Cons.prems(2) [of f "toks_list fs @ Close # r" g' "toks_list gs' @ Close # r'"]
        Cons.prems(1) gs by simp
    then show ?case using Cons.IH [of gs'] Cons.prems(2) gs by auto
  qed
  then show ?case using FList.prems g by auto
qed

section \<open>Text of forms\<close>

definition escape_string :: "rstring \<Rightarrow> rstring" where
  "escape_string v = concat (map (\<lambda>c. if c = 34 \<or> c = 92 then [92, c] else [c]) v)"

fun render :: "form \<Rightarrow> rstring" where
  "render (FAtom a) = a"
| "render (FStr v) = [34] @ escape_string v @ [34]"
| "render (FList fs) = [40] @ join_spaces (map render fs) @ [41]"

text \<open>Atoms that the tokenizer gives back as one token.\<close>

definition atom_ok :: "rstring \<Rightarrow> bool" where
  "atom_ok a \<longleftrightarrow> a \<noteq> [] \<and> list_all (\<lambda>c. \<not> is_delimiter c) a"

fun form_ok :: "form \<Rightarrow> bool" where
  "form_ok (FAtom a) = atom_ok a"
| "form_ok (FStr v) = True"
| "form_ok (FList fs) = list_all form_ok fs"

lemma string_body_escape:
  "string_body acc (escape_string v @ 34 # r) = Some (acc @ v, r)"
  by (induction v arbitrary: acc) (auto simp: escape_string_def)

lemma whitespace_delimiter: "is_whitespace c \<Longrightarrow> is_delimiter c"
  by (simp add: is_delimiter_def)

text \<open>An atom ends at the end of the text or at a delimiter.\<close>

lemma tokenize_atom:
  assumes "atom_ok a" and "r = [] \<or> is_delimiter (hd r)"
  shows "tokenize (a @ r) = and_then (tokenize r) (\<lambda>ts. Inr (Atom a # ts))"
proof -
  obtain c cs where a: "a = c # cs" "\<not> is_delimiter c" "\<forall>x \<in> set cs. \<not> is_delimiter x"
    using assms(1) by (cases a) (auto simp: atom_ok_def list_all_iff)
  have "takeWhile (\<lambda>x. \<not> is_delimiter x) (cs @ r) = cs"
    and "dropWhile (\<lambda>x. \<not> is_delimiter x) (cs @ r) = r"
    using a(3) assms(2) by (cases r; simp)+
  then show ?thesis using a by (simp add: is_delimiter_def)
qed

lemma tokenize_blank [simp]: "tokenize (32 # r) = tokenize r"
  by (simp add: is_whitespace_def)

lemma tokenize_parens [simp]:
  "tokenize (40 # r) = and_then (tokenize r) (\<lambda>ts. Inr (Open # ts))"
  "tokenize (41 # r) = and_then (tokenize r) (\<lambda>ts. Inr (Close # ts))"
  by (simp_all add: is_whitespace_def)

lemma tokenize_string:
  "tokenize (34 # escape_string v @ 34 # r) = and_then (tokenize r) (\<lambda>ts. Inr (StrLit v # ts))"
  by (simp add: is_whitespace_def string_body_escape)

lemma and_then_assoc_Inr:
  "and_then (and_then m (\<lambda>ts. Inr (f ts))) (\<lambda>ts. Inr (g ts)) = and_then m (\<lambda>ts. Inr (g (f ts)))"
  by (cases m) auto

lemma join_spaces_Cons:
  "join_spaces (x # xs) = x @ (if xs = [] then [] else 32 # join_spaces xs)"
  by (cases xs) simp_all

lemma delimiters [simp]: "is_delimiter 32" "is_delimiter 40" "is_delimiter 41" "is_delimiter 34"
  by (simp_all add: is_delimiter_def is_whitespace_def)

lemma tokenize_render_append:
  assumes "form_ok f" and "r = [] \<or> is_delimiter (hd r)"
  shows "tokenize (render f @ r) = and_then (tokenize r) (\<lambda>ts. Inr (toks f @ ts))"
  using assms
proof (induction f arbitrary: r)
  case (FAtom a)
  then show ?case by (simp add: tokenize_atom)
next
  case (FStr v)
  then show ?case by (simp add: tokenize_string del: tokenize.simps)
next
  case (FList fs)
  have "tokenize (join_spaces (map render fs) @ 41 # r) =
      and_then (tokenize r) (\<lambda>ts. Inr (toks_list fs @ Close # ts))"
    using FList.IH FList.prems(1)
  proof (induction fs)
    case Nil
    then show ?case by (simp del: tokenize.simps)
  next
    case (Cons f fs)
    then have rest: "tokenize (join_spaces (map render fs) @ 41 # r) =
      and_then (tokenize r) (\<lambda>ts. Inr (toks_list fs @ Close # ts))" by simp
    have f: "is_delimiter (hd x) \<Longrightarrow>
        tokenize (render f @ x) = and_then (tokenize x) (\<lambda>ts. Inr (toks f @ ts))" for x
      using Cons.prems by simp
    show ?case
    proof (cases "fs = []")
      case True
      then show ?thesis using f [of "41 # r"] by (simp add: and_then_assoc_Inr del: tokenize.simps)
    next
      case False
      then show ?thesis
        using f [of "32 # join_spaces (map render fs) @ 41 # r"] rest
        by (simp add: join_spaces_Cons and_then_assoc_Inr del: tokenize.simps)
    qed
  qed
  then show ?case by (simp add: and_then_assoc_Inr del: tokenize.simps)
qed

lemma tokenize_render: "form_ok f \<Longrightarrow> tokenize (render f) = Inr (toks f)"
  using tokenize_render_append [of f "[]"] by simp

section \<open>What the tokenizer can produce\<close>

text \<open>
  Atoms are non-empty and contain no delimiter; in particular the tokenizer never produces the
  atom \<open>()\<close> that \<open>atom_to_word\<close> tests for.
\<close>

fun token_ok :: "token \<Rightarrow> bool" where
  "token_ok (Atom a) = atom_ok a"
| "token_ok _ = True"

lemma tokenize_tokens_ok: "tokenize s = Inr ts \<Longrightarrow> list_all token_ok ts"
proof (induction s arbitrary: ts rule: tokenize.induct)
  case 1
  then show ?case by simp
next
  case (2 c cs)
  have "list_all (\<lambda>x. \<not> is_delimiter x) (takeWhile (\<lambda>x. \<not> is_delimiter x) cs)"
    by (auto simp: list_all_iff dest: set_takeWhileD)
  moreover have "\<not> is_whitespace c \<Longrightarrow> c \<noteq> 40 \<Longrightarrow> c \<noteq> 41 \<Longrightarrow> c \<noteq> 34 \<Longrightarrow> \<not> is_delimiter c"
    by (simp add: is_delimiter_def)
  ultimately show ?case
    using 2 by (auto simp: and_then_Inr_iff atom_ok_def split: if_splits option.splits)
qed

section \<open>Trees that denote forms\<close>

definition atom_denotes :: "symbol_table \<Rightarrow> rstring \<Rightarrow> u64 \<Rightarrow> bool" where
  "atom_denotes st a w \<longleftrightarrow>
     (if a = lit ''()'' then w = WORD_NIL
      else case parse_i64 a of
             Some v \<Rightarrow> w = encode_fixnum v
           | None \<Rightarrow> tag_of w = TAG_SYMBOL \<and> name_of st w = Some a)"

fun denotes :: "codec \<Rightarrow> symbol_table \<Rightarrow> boxed_table \<Rightarrow> node \<Rightarrow> form \<Rightarrow> bool"
  and denotes_list :: "codec \<Rightarrow> symbol_table \<Rightarrow> boxed_table \<Rightarrow> node \<Rightarrow> form list \<Rightarrow> bool" where
  "denotes c st b (Leaf w) (FAtom a) = atom_denotes st a w"
| "denotes c st b (Pair p l r) (FAtom a) = False"
| "denotes c st b (Leaf w) (FStr v) =
     (tag_of w = TAG_BOXED \<and>
      boxed_get_entry c b w = Some \<lparr>entry_value = Str v, entry_lifetime = Transient\<rparr>)"
| "denotes c st b (Pair p l r) (FStr v) = False"
| "denotes c st b t (FList fs) = denotes_list c st b t fs"
| "denotes_list c st b (Leaf w) [] = (w = WORD_NIL)"
| "denotes_list c st b (Leaf w) (f # fs) = False"
| "denotes_list c st b (Pair p l r) [] = False"
| "denotes_list c st b (Pair p l r) (f # fs) = (denotes c st b l f \<and> denotes_list c st b r fs)"

lemma atom_denotes_mono:
  "atom_denotes st a w \<Longrightarrow> (\<And>v m. name_of st v = Some m \<Longrightarrow> name_of st' v = Some m) \<Longrightarrow>
   atom_denotes st' a w"
  by (auto simp: atom_denotes_def split: option.splits if_splits)

lemma denotes_mono:
  assumes "\<And>v m. name_of st v = Some m \<Longrightarrow> name_of st' v = Some m"
    and "\<And>w e. boxed_get_entry c b w = Some e \<Longrightarrow> boxed_get_entry c b' w = Some e"
  shows "denotes c st b t f \<Longrightarrow> denotes c st' b' t f"
    and "denotes_list c st b t fs \<Longrightarrow> denotes_list c st' b' t fs"
  using assms
  by (induction c st b t f and c st b t fs rule: denotes_denotes_list.induct)
    (auto intro: atom_denotes_mono)

end
