(* ===== verification/Evaluator_Correct.thy ===== *)
theory Evaluator_Correct
  imports Evaluator Forms
begin

text \<open>
  The meaning of a form as a function on trees, without fuel and without reading the arena for
  code; the evaluator implements it with fuel proportional to the height of the form, and on
  code that the reader can produce neither it nor the raw accessors can fail fatally, as long as
  the host hands out only safe words.
\<close>

section \<open>The meaning of a form\<close>

datatype operator =
    Op_Cond
  | Op_Quote
  | Op_Accessor rstring "arena \<Rightarrow> u64 \<Rightarrow> fatal + u64"
  | Op_Call rstring

definition operator_of :: "'w eval_context \<Rightarrow> rstring \<Rightarrow> operator" where
  "operator_of X name =
     (if is_cond_spelling X name then Op_Cond
      else if is_quote_spelling X name then Op_Quote
      else if is_car_spelling X name then Op_Accessor (lit ''car'') wsm_car
      else if is_cdr_spelling X name then Op_Accessor (lit ''cdr'') wsm_cdr
      else Op_Call name)"

lemma operator_of_spellings:
  "ctx_spellings X = ctx_spellings Y \<Longrightarrow> operator_of X name = operator_of Y name"
  by (simp add: operator_of_def is_cond_spelling_def is_quote_spelling_def is_car_spelling_def
      is_cdr_spelling_def)

definition argument_tree :: "node \<Rightarrow> rstring \<Rightarrow> eval_error stop + node" where
  "argument_tree r form =
     (case r of
        Pair q a t \<Rightarrow>
          if word_of t = WORD_NIL then Inr a
          else Inl (Raise (InvalidForm (form @ lit '' takes exactly one argument'')))
      | Leaf v \<Rightarrow> Inl (Raise (InvalidForm (form @ lit '' takes exactly one argument''))))"

definition clause_tree :: "node \<Rightarrow> eval_error stop + (node \<times> node)" where
  "clause_tree c =
     (case c of
        Pair q test (Pair q' body t) \<Rightarrow> if word_of t = WORD_NIL then Inr (test, body) else Inl bad_clause
      | _ \<Rightarrow> Inl bad_clause)"

lemma argument_tree_size: "argument_tree r form = Inr a \<Longrightarrow> size a < size r"
  by (auto simp: argument_tree_def split: node.splits if_splits)

lemma clause_tree_size: "clause_tree c = Inr (a, b) \<Longrightarrow> size a < size c \<and> size b < size c"
  by (auto simp: clause_tree_def split: node.splits if_splits)

definition accessor_result ::
  "'w eval_context \<Rightarrow> rstring \<Rightarrow> (arena \<Rightarrow> u64 \<Rightarrow> fatal + u64) \<Rightarrow> u64 \<Rightarrow> eval_error stop + u64" where
  "accessor_result X name accessor v =
     (if tag_of v \<noteq> TAG_CONS
      then Inl (Raise (TypeError (name @ lit '' expects a non-empty list'')))
      else raw (accessor (ctx_arena X) v))"

function eval_tree :: "'w eval_context \<Rightarrow> node \<Rightarrow> 'w \<Rightarrow> (eval_error stop + u64) \<times> 'w"
  and args_tree :: "'w eval_context \<Rightarrow> node \<Rightarrow> 'w \<Rightarrow> (eval_error stop + u64 list) \<times> 'w"
  and cond_tree :: "'w eval_context \<Rightarrow> node \<Rightarrow> 'w \<Rightarrow> (eval_error stop + u64) \<times> 'w"
where
  "eval_tree X (Leaf v) w = (if tag_of v = TAG_SYMBOL then eval_symbol X v else Inr v, w)"
| "eval_tree X (Pair p l r) w =
     (if tag_of (word_of l) \<noteq> TAG_SYMBOL then (Inl (Raise NotCallable), w)
      else case name_of (ctx_symbols X) (word_of l) of
             None \<Rightarrow> (Inl (Abort Rust_Panic), w)
           | Some name \<Rightarrow>
               (case operator_of X name of
                  Op_Cond \<Rightarrow> cond_tree X r w
                | Op_Quote \<Rightarrow> (and_then (argument_tree r (lit ''quote'')) (\<lambda>t. Inr (word_of t)), w)
                | Op_Accessor form accessor \<Rightarrow>
                    step_then (argument_tree r form, w) (\<lambda>t w.
                    step_then (eval_tree X t w) (\<lambda>v w. (accessor_result X form accessor v, w)))
                | Op_Call f \<Rightarrow> step_then (args_tree X r w) (\<lambda>args w. call_primitive X f args w)))"
| "args_tree X (Leaf v) w =
     (if v = WORD_NIL then Inr [] else Inl (Abort (Process_Exit 97 2 0 0)), w)"
| "args_tree X (Pair p l r) w =
     step_then (eval_tree X l w) (\<lambda>v w.
     step_then (args_tree X r w) (\<lambda>vs w. (Inr (v # vs), w)))"
| "cond_tree X (Leaf v) w =
     (if v = WORD_NIL then Inr WORD_NIL
      else Inl (Raise (InvalidForm (lit ''cond expects a list of clauses''))), w)"
| "cond_tree X (Pair p c r) w =
     step_then (clause_tree c, w) (\<lambda>(test, body) w.
     step_then (eval_tree X test w) (\<lambda>v w.
       if is_truthy v then eval_tree X body w else cond_tree X r w))"
  by pat_completeness auto

termination
  by (relation "measure (\<lambda>x. case x of Inl (_, t, _) \<Rightarrow> size t
     | Inr (Inl (_, t, _)) \<Rightarrow> size t | Inr (Inr (_, t, _)) \<Rightarrow> size t)")
    (auto dest!: argument_tree_size clause_tree_size)

section \<open>The evaluator implements it\<close>

lemma tag_nil: "tag_of WORD_NIL = TAG_NIL" "tag_of WORD_NIL \<noteq> TAG_CONS" "tag_of WORD_NIL \<noteq> TAG_SYMBOL"
  by (simp_all add: tag_of_def tag_defs WORD_NIL_def)

lemma car_of_leaf: "tag_of v \<noteq> TAG_CONS \<Longrightarrow> wsm_car A v = Inl (Process_Exit 97 2 0 0)"
  by (simp add: wsm_car_def wsm_fail_win64_def tag_of_def tag_defs)

lemma word_of_NIL_iff: "repr A t \<Longrightarrow> word_of t = WORD_NIL \<longleftrightarrow> t = Leaf WORD_NIL"
  using tag_nil by (cases t) auto

lemma word_of_tag: "repr A t \<Longrightarrow> tag_of (word_of t) = TAG_CONS \<longleftrightarrow> (\<exists>p l r. t = Pair p l r)"
  by (cases t) auto

lemma single_argument_tree:
  assumes "repr A r"
  shows "single_argument A (word_of r) form = and_then (argument_tree r form) (\<lambda>t. Inr (word_of t))"
  using assms by (cases r) (auto simp: single_argument_def argument_tree_def)

lemma argument_tree_repr:
  "repr A r \<Longrightarrow> argument_tree r form = Inr t \<Longrightarrow> repr A t \<and> Suc (height t) \<le> height r"
  by (cases r) (auto simp: argument_tree_def split: if_splits)

lemma cond_clause_tree:
  assumes "repr A c"
  shows "cond_clause A (word_of c) =
    and_then (clause_tree c) (\<lambda>(test, body). Inr (word_of test, word_of body))"
proof (cases c)
  case (Pair q a d)
  then show ?thesis using assms by (cases d) (auto simp: cond_clause_def clause_tree_def)
qed (use assms in \<open>auto simp: cond_clause_def clause_tree_def\<close>)

lemma clause_tree_repr:
  "repr A c \<Longrightarrow> clause_tree c = Inr (test, body) \<Longrightarrow>
     repr A test \<and> repr A body \<and> Suc (height test) \<le> height c \<and> Suc (height body) \<le> height c"
  by (auto simp: clause_tree_def split: node.splits if_splits)

lemma tags_of_cons:
  "tag_of p = TAG_CONS \<Longrightarrow> tag_of p \<noteq> TAG_FIXNUM \<and> tag_of p \<noteq> TAG_NIL
     \<and> tag_of p \<noteq> TAG_BOXED \<and> tag_of p \<noteq> TAG_SYMBOL"
  using tags_distinct by auto

lemma eval_refines:
  "repr (ctx_arena X) t \<Longrightarrow> 2 * height t < n \<Longrightarrow> eval X n (word_of t) w = eval_tree X t w"
  "repr (ctx_arena X) t \<Longrightarrow> 2 * height t < n \<Longrightarrow> eval_args X n (word_of t) w = args_tree X t w"
  "repr (ctx_arena X) t \<Longrightarrow> 2 * height t < n \<Longrightarrow> eval_cond X n (word_of t) w = cond_tree X t w"
proof (induction X t w and X t w and X t w arbitrary: n and n and n rule: eval_tree_args_tree_cond_tree.induct)
  case (1 X v w)
  then show ?case by (cases n) auto
next
  case (2 X p l r w)
  then obtain m where n: "n = Suc (Suc m)" "2 * height r < m"
    by (cases n; cases "n - 1") auto
  have tag: "tag_of p = TAG_CONS" and r: "repr (ctx_arena X) r"
    and cells: "wsm_car (ctx_arena X) p = Inr (word_of l)" "wsm_cdr (ctx_arena X) p = Inr (word_of r)"
    using 2(4) by simp_all
  have enter: "eval X n p w = eval_list X (Suc m) p w"
    using tags_of_cons [OF tag] tag by (simp add: n)
  show ?case
  proof (cases "tag_of (word_of l) \<noteq> TAG_SYMBOL \<or> name_of (ctx_symbols X) (word_of l) = None")
    case True
    then show ?thesis by (auto simp: enter cells)
  next
    case False
    then obtain name where name: "tag_of (word_of l) = TAG_SYMBOL"
        "name_of (ctx_symbols X) (word_of l) = Some name" by auto
    have accessor: "eval_checked_accessor X m (word_of r) form accessor w =
        step_then (argument_tree r form, w) (\<lambda>t w.
        step_then (eval_tree X t w) (\<lambda>v w. (accessor_result X form accessor v, w)))"
      if op: "operator_of X name = Op_Accessor form accessor" for form accessor
    proof (cases "argument_tree r form")
      case (Inl e)
      then show ?thesis
        using n(2) by (cases m) (simp_all add: single_argument_tree [OF r])
    next
      case (Inr t)
      obtain k where k: "m = Suc k" using n(2) by (cases m) auto
      have t: "repr (ctx_arena X) t" "2 * height t < k"
        using argument_tree_repr [OF r Inr] n(2) k by auto
      have "eval X k (word_of t) w = eval_tree X t w"
        using 2(2) [OF _ name(2) op] name(1) Inr t by auto
      then show ?thesis
        by (simp add: k single_argument_tree [OF r] Inr accessor_result_def step_then_def
            split: prod.split sum.split)
    qed
    have args: "eval_args X m (word_of r) w = args_tree X r w" if "operator_of X name = Op_Call f" for f
      using 2(3) [OF _ name(2) that] name(1) r n(2) by simp
    have cond: "eval_cond X m (word_of r) w = cond_tree X r w" if "operator_of X name = Op_Cond"
      using 2(1) [OF _ name(2) that] name(1) r n(2) by simp
    show ?thesis
      using name accessor args cond
      by (auto simp: enter cells operator_of_def single_argument_tree [OF r] and_then_Inr_iff
          split: if_splits)
  qed
next
  case (3 X v w)
  then show ?case by (cases n) (auto simp: car_of_leaf)
next
  case (4 X p l r w)
  then obtain m where n: "n = Suc m" "2 * height l < m" "2 * height r < m" by (cases n) auto
  have "p \<noteq> WORD_NIL" using 4(3) tag_nil by auto
  moreover have "eval X m (word_of l) w = eval_tree X l w" using 4(1,3) n by simp
  moreover have "eval_args X m (word_of r) w' = args_tree X r w'" if "eval_tree X l w = (Inr v, w')" for v w'
    using 4(2) [OF that] 4(3) n by simp
  ultimately show ?case
    using 4(3) by (auto simp: n(1) step_then_def split: prod.split sum.split)
next
  case (5 X v w)
  then show ?case by (cases n) auto
next
  case (6 X p c r w)
  then obtain m where n: "n = Suc m" "2 * height c < m" "2 * height r < m" by (cases n) auto
  have p: "p \<noteq> WORD_NIL" using 6(4) tag_nil by auto
  have c: "repr (ctx_arena X) c" using 6(4) by simp
  show ?case
  proof (cases "clause_tree c")
    case (Inl e)
    then show ?thesis using 6(4) p by (simp add: n(1) cond_clause_tree [OF c])
  next
    case (Inr tb)
    then obtain test body where clause: "clause_tree c = Inr (test, body)" by (cases tb) simp
    note sub = clause_tree_repr [OF c clause]
    have "eval X m (word_of test) w = eval_tree X test w"
      using 6(1) [of _ w] clause sub n by simp
    moreover have "eval X m (word_of body) w' = eval_tree X body w'"
      if "eval_tree X test w = (Inr v, w')" "is_truthy v" for v w'
      using 6(2) [of _ w] that clause sub n by simp
    moreover have "eval_cond X m (word_of r) w' = cond_tree X r w'"
      if "eval_tree X test w = (Inr v, w')" "\<not> is_truthy v" for v w'
      using 6(3) [of _ w] that clause 6(4) n by simp
    ultimately show ?thesis
      using 6(4) p clause by (auto simp: n(1) cond_clause_tree [OF c] step_then_def split: prod.split sum.split)
  qed
qed

text \<open>The fuel that is enough for every form that fits the arena.\<close>

definition eval_fuel :: nat where
  "eval_fuel = 2 * ARENA_CELLS + 1"

lemma eval_fuel_enough:
  assumes "arena_ok (ctx_arena X)" and "repr (ctx_arena X) t"
  shows "eval X eval_fuel (word_of t) w = eval_tree X t w"
  by (rule eval_refines(1) [OF assms(2)])
    (use repr_height(2) [OF assms] in \<open>simp add: eval_fuel_def\<close>)

section \<open>Order of evaluation\<close>

text \<open>The elements of a list, and one after the other with the first error stopping it all.\<close>

primrec items :: "node \<Rightarrow> node list" where
  "items (Leaf v) = []"
| "items (Pair p l r) = l # items r"

primrec proper :: "node \<Rightarrow> bool" where
  "proper (Leaf v) \<longleftrightarrow> v = WORD_NIL"
| "proper (Pair p l r) \<longleftrightarrow> proper r"

fun in_order :: "('a \<Rightarrow> 'w \<Rightarrow> ('e + 'b) \<times> 'w) \<Rightarrow> 'a list \<Rightarrow> 'w \<Rightarrow> ('e + 'b list) \<times> 'w" where
  "in_order f [] w = (Inr [], w)"
| "in_order f (x # xs) w =
     step_then (f x w) (\<lambda>y w. step_then (in_order f xs w) (\<lambda>ys w. (Inr (y # ys), w)))"

lemma args_left_to_right: "proper r \<Longrightarrow> args_tree X r w = in_order (eval_tree X) (items r) w"
  by (induction r arbitrary: w) (auto simp: step_then_def split: prod.split sum.split)

lemma in_order_length: "in_order f xs w = (Inr ys, w') \<Longrightarrow> length ys = length xs"
  by (induction xs arbitrary: w ys w') (auto simp: step_then_def split: prod.splits sum.splits)

text \<open>
  \<open>cond\<close>: the clauses before the first truthy test contribute their test and nothing else,
  those behind it contribute nothing.
\<close>

fun first_truthy :: "(node \<Rightarrow> 'w \<Rightarrow> (eval_error stop + u64) \<times> 'w) \<Rightarrow> node list \<Rightarrow> 'w \<Rightarrow>
    (eval_error stop + u64) \<times> 'w" where
  "first_truthy f [] w = (Inr WORD_NIL, w)"
| "first_truthy f (c # cs) w =
     (case clause_tree c of
        Inl e \<Rightarrow> (Inl e, w)
      | Inr (test, body) \<Rightarrow>
          (case f test w of
             (Inl e, w') \<Rightarrow> (Inl e, w')
           | (Inr v, w') \<Rightarrow> if is_truthy v then f body w' else first_truthy f cs w'))"

lemma cond_first_truthy: "proper r \<Longrightarrow> cond_tree X r w = first_truthy (eval_tree X) (items r) w"
  by (induction r arbitrary: w) (auto simp: step_then_def split: prod.split sum.split)

lemma first_truthy_prefix_local:
  "first_truthy f cs w = (Inr v, w') \<Longrightarrow> v \<noteq> WORD_NIL \<Longrightarrow> first_truthy f (cs @ ds) w = (Inr v, w')"
  by (induction cs arbitrary: w) (auto split: prod.splits sum.splits if_splits)

section \<open>Safety\<close>

text \<open>
  Code the reader produces: lists are proper and every symbol has a name. A word is safe when
  everything reachable from it lies in the arena: every word that is not a cons is, and so is
  every word of a tree.
\<close>

primrec code_tree :: "symbol_table \<Rightarrow> node \<Rightarrow> bool" where
  "code_tree st (Leaf v) \<longleftrightarrow> (tag_of v = TAG_SYMBOL \<longrightarrow> name_of st v \<noteq> None)"
| "code_tree st (Pair p l r) \<longleftrightarrow> code_tree st l \<and> code_tree st r \<and> proper r"

definition safe :: "arena \<Rightarrow> u64 \<Rightarrow> bool" where
  "safe A v \<longleftrightarrow> (\<exists>t. repr A t \<and> word_of t = v)"

lemma safe_atomic: "tag_of v \<noteq> TAG_CONS \<Longrightarrow> safe A v"
  unfolding safe_def by (rule exI [of _ "Leaf v"]) simp

lemma safe_tree: "repr A t \<Longrightarrow> safe A (word_of t)"
  by (auto simp: safe_def)

lemma safe_cons:
  assumes "safe A v" and "tag_of v = TAG_CONS"
  obtains a d where "wsm_car A v = Inr a" "wsm_cdr A v = Inr d" "safe A a" "safe A d"
proof -
  obtain t where "repr A t" "word_of t = v" using assms(1) by (auto simp: safe_def)
  then show thesis using assms(2) that by (cases t) (auto simp: safe_def)
qed

fun error_text_ok :: "eval_error \<Rightarrow> bool" where
  "error_text_ok (UnknownSymbol n) \<longleftrightarrow> text_ok n"
| "error_text_ok NotCallable \<longleftrightarrow> True"
| "error_text_ok (InvalidForm m) \<longleftrightarrow> text_ok m"
| "error_text_ok (TypeError m) \<longleftrightarrow> text_ok m"
| "error_text_ok (HostPrimitiveFailed n m) \<longleftrightarrow> text_ok n \<and> text_ok m"

text \<open>No fatal outcome; an invariant of the world, of the errors and of the values.\<close>

definition no_abort :: "('w \<Rightarrow> bool) \<Rightarrow> ('e \<Rightarrow> bool) \<Rightarrow> ('a \<Rightarrow> bool) \<Rightarrow> ('e stop + 'a) \<times> 'w \<Rightarrow> bool" where
  "no_abort I E P = (\<lambda>(r, w). I w \<and>
     (case r of Inl (Abort f) \<Rightarrow> False | Inl (Raise e) \<Rightarrow> E e | Inr a \<Rightarrow> P a))"

text \<open>
  What the host owes the evaluator: its bindings are safe words, and a primitive given safe
  words keeps the invariant of its world and answers with an error or a safe word.
\<close>

definition host_safe :: "('w \<Rightarrow> bool) \<Rightarrow> 'w eval_context \<Rightarrow> bool" where
  "host_safe I X \<longleftrightarrow> names_text_ok (ctx_symbols X)
     \<and> (\<forall>name v. bindings (ctx_env X) name = Some v \<longrightarrow> safe (ctx_arena X) v)
     \<and> (\<forall>name f args w. primitives (ctx_env X) name = Some f \<longrightarrow> I w \<longrightarrow>
          list_all (safe (ctx_arena X)) args \<longrightarrow>
          no_abort I text_ok (safe (ctx_arena X)) (f args w))"

lemma no_abort_simps [simp]:
  "no_abort I E P (Inl (Abort f), w) = False"
  "no_abort I E P (Inl (Raise e), w) = (I w \<and> E e)"
  "no_abort I E P (Inr a, w) = (I w \<and> P a)"
  by (simp_all add: no_abort_def)

lemma no_abort_step:
  assumes "no_abort I E P r" and "\<And>a w. r = (Inr a, w) \<Longrightarrow> I w \<Longrightarrow> P a \<Longrightarrow> no_abort I E Q (f a w)"
  shows "no_abort I E Q (step_then r f)"
  using assms by (auto simp: no_abort_def step_then_def split: prod.splits sum.splits stop.splits)

lemma eval_symbol_safe:
  assumes "host_safe I X" and "name_of (ctx_symbols X) v \<noteq> None"
    and "tag_of v = TAG_SYMBOL" and "I w"
  shows "no_abort I error_text_ok (safe (ctx_arena X)) (eval_symbol X v, w)"
proof -
  have "safe (ctx_arena X) v" using assms(3) tags_distinct by (intro safe_atomic) auto
  then show ?thesis
    using assms name_of_text_ok [of "ctx_symbols X" v]
    by (auto simp: eval_symbol_def host_safe_def split: option.splits)
qed

lemma call_primitive_safe:
  assumes "host_safe I X" and "text_ok name" and "I w" and "list_all (safe (ctx_arena X)) args"
  shows "no_abort I error_text_ok (safe (ctx_arena X)) (call_primitive X name args w)"
proof (cases "primitives (ctx_env X) name")
  case (Some f)
  then have "no_abort I text_ok (safe (ctx_arena X)) (f args w)" using assms by (auto simp: host_safe_def)
  then show ?thesis
    using Some assms(2) by (auto simp: call_primitive_def no_abort_def split: prod.splits sum.splits stop.splits)
qed (use assms in \<open>simp add: call_primitive_def\<close>)

lemma accessor_safe:
  assumes "safe (ctx_arena X) v" and "I w" and "accessor = wsm_car \<or> accessor = wsm_cdr"
    and "text_ok form"
  shows "no_abort I error_text_ok (safe (ctx_arena X)) (accessor_result X form accessor v, w)"
proof (cases "tag_of v = TAG_CONS")
  case True
  from assms(1) this show ?thesis
    by (rule safe_cons) (use True assms in \<open>auto simp: accessor_result_def\<close>)
qed (use assms in \<open>simp add: accessor_result_def\<close>)

lemma argument_tree_code:
  "code_tree st r \<Longrightarrow> argument_tree r form = Inr t \<Longrightarrow> code_tree st t"
  by (auto simp: argument_tree_def split: node.splits if_splits)

lemma clause_tree_code:
  "code_tree st c \<Longrightarrow> clause_tree c = Inr (test, body) \<Longrightarrow> code_tree st test \<and> code_tree st body"
  by (auto simp: clause_tree_def split: node.splits if_splits)

lemma eval_tree_safe:
  "host_safe I X \<Longrightarrow> repr (ctx_arena X) t \<Longrightarrow> code_tree (ctx_symbols X) t \<Longrightarrow>
     I w \<Longrightarrow> no_abort I error_text_ok (safe (ctx_arena X)) (eval_tree X t w)"
  "host_safe I X \<Longrightarrow> repr (ctx_arena X) t \<Longrightarrow> code_tree (ctx_symbols X) t \<Longrightarrow>
     proper t \<Longrightarrow> I w \<Longrightarrow> no_abort I error_text_ok (list_all (safe (ctx_arena X))) (args_tree X t w)"
  "host_safe I X \<Longrightarrow> repr (ctx_arena X) t \<Longrightarrow> code_tree (ctx_symbols X) t \<Longrightarrow>
     I w \<Longrightarrow> no_abort I error_text_ok (safe (ctx_arena X)) (cond_tree X t w)"
proof (induction X t w and X t w and X t w rule: eval_tree_args_tree_cond_tree.induct)
  case (1 X v w)
  then show ?case using eval_symbol_safe [of I X v w] by (auto intro: safe_atomic)
next
  case (2 X p l r w)
  have r: "repr (ctx_arena X) r" "code_tree (ctx_symbols X) r" "proper r" using 2(5,6) by simp_all
  show ?case
  proof (cases "tag_of (word_of l) \<noteq> TAG_SYMBOL")
    case True
    then show ?thesis using 2(7) by simp
  next
    case False
    then obtain v where l: "l = Leaf v" "tag_of v = TAG_SYMBOL"
      using 2(5) tags_distinct by (cases l) auto
    then obtain name where name: "name_of (ctx_symbols X) v = Some name" using 2(6) by auto
    show ?thesis
    proof (cases "operator_of X name")
      case Op_Cond
      then show ?thesis using 2(1) [of name] 2(4,7) r l name by simp
    next
      case Op_Quote
      then show ?thesis
        using 2(7) l name argument_tree_repr [OF r(1)]
        by (auto simp: argument_tree_def split: node.splits intro: safe_tree)
    next
      case (Op_Accessor form accessor)
      have acc: "accessor = wsm_car \<or> accessor = wsm_cdr" and form: "text_ok form"
        using Op_Accessor by (auto simp: operator_of_def split: if_splits)
      have "no_abort I error_text_ok (\<lambda>t. argument_tree r form = Inr t) (argument_tree r form, w)"
        by (cases "argument_tree r form")
          (use 2(7) form in \<open>auto simp: argument_tree_def split: node.splits if_splits\<close>)
      then have "no_abort I error_text_ok (safe (ctx_arena X)) (step_then (argument_tree r form, w) (\<lambda>t w.
          step_then (eval_tree X t w) (\<lambda>v w. (accessor_result X form accessor v, w))))"
      proof (rule no_abort_step)
        fix t w'
        assume t: "(argument_tree r form, w) = (Inr t, w')" "I w'"
        then have "no_abort I error_text_ok (safe (ctx_arena X)) (eval_tree X t w')"
          using 2(2) [of name form accessor t w'] 2(4) l name Op_Accessor
            argument_tree_repr [OF r(1)] argument_tree_code [OF r(2)] by auto
        then show "no_abort I error_text_ok (safe (ctx_arena X))
            (step_then (eval_tree X t w') (\<lambda>v w. (accessor_result X form accessor v, w)))"
          by (rule no_abort_step) (rule accessor_safe [OF _ _ acc form])
      qed
      then show ?thesis using l name Op_Accessor by simp
    next
      case (Op_Call f)
      then have "f = name" by (auto simp: operator_of_def split: if_splits)
      then have f: "text_ok f"
        using name name_of_text_ok [of "ctx_symbols X" v] 2(4) by (simp add: host_safe_def)
      have "no_abort I error_text_ok (list_all (safe (ctx_arena X))) (args_tree X r w)"
        using 2(3) [of name f] 2(4,7) r l name Op_Call by simp
      then have "no_abort I error_text_ok (safe (ctx_arena X))
          (step_then (args_tree X r w) (\<lambda>args w. call_primitive X f args w))"
        by (rule no_abort_step) (rule call_primitive_safe [OF 2(4) f])
      then show ?thesis using l name Op_Call by simp
    qed
  qed
next
  case (3 X v w)
  then show ?case by simp
next
  case (4 X p l r w)
  have "no_abort I error_text_ok (safe (ctx_arena X)) (eval_tree X l w)" using 4 by simp
  then have "no_abort I error_text_ok (list_all (safe (ctx_arena X))) (step_then (eval_tree X l w) (\<lambda>v w.
      step_then (args_tree X r w) (\<lambda>vs w. (Inr (v # vs), w))))"
  proof (rule no_abort_step)
    fix v w'
    assume v: "eval_tree X l w = (Inr v, w')" "I w'" "safe (ctx_arena X) v"
    then have "no_abort I error_text_ok (list_all (safe (ctx_arena X))) (args_tree X r w')" using 4 by simp
    then show "no_abort I error_text_ok (list_all (safe (ctx_arena X)))
        (step_then (args_tree X r w') (\<lambda>vs w. (Inr (v # vs), w)))"
      by (rule no_abort_step) (use v in simp)
  qed
  then show ?case by simp
next
  case (5 X v w)
  then show ?case by (auto intro: safe_atomic simp: tag_nil)
next
  case (6 X p c r w)
  have c: "repr (ctx_arena X) c" "code_tree (ctx_symbols X) c" using 6(5,6) by simp_all
  show ?case
  proof (cases "clause_tree c")
    case (Inl e)
    then have "e = bad_clause" by (auto simp: clause_tree_def split: node.splits if_splits)
    then show ?thesis using Inl 6(7) by (simp add: bad_clause_def)
  next
    case (Inr tb)
    then obtain test body where clause: "clause_tree c = Inr (test, body)" by (cases tb) simp
    note sub = clause_tree_repr [OF c(1) clause] clause_tree_code [OF c(2) clause]
    have "no_abort I error_text_ok (safe (ctx_arena X)) (eval_tree X test w)" using 6(1,4,7) clause sub by simp
    then have "no_abort I error_text_ok (safe (ctx_arena X)) (step_then (eval_tree X test w) (\<lambda>v w.
        if is_truthy v then eval_tree X body w else cond_tree X r w))"
      by (rule no_abort_step) (use 6(2,3,4,5,6) clause sub in auto)
    then show ?thesis by (simp add: clause)
  qed
qed

section \<open>Forms are code\<close>

lemma encode_fixnum_tag: "tag_of (encode_fixnum v) = TAG_FIXNUM"
  by (simp add: encode_fixnum_def tag_of_encoded TAG_FIXNUM_def)

lemma atom_denotes_code: "atom_denotes st a v \<Longrightarrow> code_tree st (Leaf v)"
  using tags_distinct tag_nil
  by (auto simp: atom_denotes_def encode_fixnum_tag split: if_splits option.splits)

lemma denotes_code:
  "denotes c st b t f \<Longrightarrow> code_tree st t"
  "denotes_list c st b t fs \<Longrightarrow> code_tree st t \<and> proper t"
proof (induction c st b t f and c st b t fs rule: denotes_denotes_list.induct)
  case (1 c st b w a)
  then show ?case using atom_denotes_code by simp
next
  case (3 c st b w v)
  then show ?case using tags_distinct by auto
qed (use tag_nil in auto)

end
