(* ===== verification/Printer.thy ===== *)
theory Printer
  imports Symbols Boxed Nucleus
begin

text \<open>
  \<open>host-runtime/src/printer.rs\<close>: from a word to text. A call returns the text that the source
  appends to its buffer \<open>out\<close>; the recursion on pointers is bounded by fuel
  (\<open>Printer_Correct\<close> proves how much is enough).
\<close>

fun write_value :: "codec \<Rightarrow> symbol_table \<Rightarrow> boxed_table \<Rightarrow> arena \<Rightarrow> nat \<Rightarrow> u64 \<Rightarrow> fatal + rstring"
  and write_list :: "codec \<Rightarrow> symbol_table \<Rightarrow> boxed_table \<Rightarrow> arena \<Rightarrow> nat \<Rightarrow> u64 \<Rightarrow> fatal + rstring"
  and write_loop :: "codec \<Rightarrow> symbol_table \<Rightarrow> boxed_table \<Rightarrow> arena \<Rightarrow> nat \<Rightarrow> bool \<Rightarrow> u64 \<Rightarrow> fatal + rstring"
where
  "write_value c symbols strings A 0 word = Inl Out_Of_Fuel"
| "write_value c symbols strings A (Suc n) word =
     (if tag_of word = TAG_NIL then Inr (lit ''()'')
      else if tag_of word = TAG_FIXNUM then Inr (dec_int (sint (decode_fixnum word)))
      else if tag_of word = TAG_SYMBOL then
        (case name_of symbols word of
           Some name \<Rightarrow> Inr name
         | None \<Rightarrow> Inr (lit ''#<unknown-symbol:'' @ hex_u64 word @ lit ''>''))
      else if tag_of word = TAG_BOXED then
        (case kind_of c strings word of
           Some KStr \<Rightarrow>
             (case get_string c strings word of
                Some s \<Rightarrow> Inr ([34] @ s @ [34])
              | None \<Rightarrow> Inl Rust_Panic)
         | Some KGameHandle \<Rightarrow> Inr (lit ''#<game-handle>'')
         | Some KRational \<Rightarrow>
             (case get_rational c strings word of
                Some (n, d) \<Rightarrow> Inr (dec_int (sint n) @ lit ''/'' @ dec_int (sint d))
              | None \<Rightarrow> Inl Rust_Panic)
         | None \<Rightarrow> Inr (lit ''#<unknown-boxed:'' @ hex_u64 word @ lit ''>''))
      else if tag_of word = TAG_CONS then write_list c symbols strings A n word
      else Inr (lit ''#<unprintable-tag:'' @ dec_nat (unat (tag_of word)) @ lit ''>''))"
| "write_list c symbols strings A 0 word = Inl Out_Of_Fuel"
| "write_list c symbols strings A (Suc n) word =
     and_then (write_loop c symbols strings A n True word) (\<lambda>s. Inr (lit ''('' @ s @ lit '')''))"
| "write_loop c symbols strings A 0 first current = Inl Out_Of_Fuel"
| "write_loop c symbols strings A (Suc n) first current =
     (if tag_of current = TAG_NIL then Inr []
      else if tag_of current = TAG_CONS then
        and_then (wsm_car A current) (\<lambda>head.
        and_then (write_value c symbols strings A n head) (\<lambda>s.
        and_then (wsm_cdr A current) (\<lambda>current'.
        and_then (write_loop c symbols strings A n False current') (\<lambda>s'.
          Inr ((if first then [] else [32]) @ s @ s')))))
      else
        and_then (write_value c symbols strings A n current) (\<lambda>s.
          Inr ((if first then [] else [32]) @ lit ''. '' @ s)))"

text \<open>
  A cell costs at most three calls, so this is enough for every word whose cells lie in the
  arena.
\<close>

definition print_fuel :: nat where
  "print_fuel = 3 * ARENA_CELLS + 5"

definition value_to_string ::
  "codec \<Rightarrow> symbol_table \<Rightarrow> boxed_table \<Rightarrow> arena \<Rightarrow> u64 \<Rightarrow> fatal + rstring" where
  "value_to_string c symbols strings A word = write_value c symbols strings A print_fuel word"

end
