(* ===== verification/Ffi.thy ===== *)
theory Ffi
  imports Host Reader Evaluator_Correct Printer
begin

text \<open>
  The session half of \<open>host-runtime/src/ffi.rs\<close>: sessions, registration, binding, and the
  evaluation of one form of text. The process has one arena for all sessions; a session is at
  the address that \<open>wsm_session_init\<close> returned until it is freed.
\<close>

section \<open>Constants\<close>

definition HOST_ABI_VERSION :: u32 where "HOST_ABI_VERSION = 1"
definition HOST_FEATURE_CANONICAL_WORDS :: u64 where "HOST_FEATURE_CANONICAL_WORDS = push_bit 0 1"
definition HOST_FEATURE_GAME_HANDLE :: u64 where "HOST_FEATURE_GAME_HANDLE = push_bit 1 1"
definition HOST_FEATURE_TRANSIENT_STRINGS :: u64 where "HOST_FEATURE_TRANSIENT_STRINGS = push_bit 2 1"

definition wsm_host_abi_version :: u32 where
  "wsm_host_abi_version = HOST_ABI_VERSION"

definition wsm_host_feature_bits :: u64 where
  "wsm_host_feature_bits =
     HOST_FEATURE_CANONICAL_WORDS OR HOST_FEATURE_GAME_HANDLE OR HOST_FEATURE_TRANSIENT_STRINGS"

definition wsm_word_nil :: u64 where
  "wsm_word_nil = WORD_NIL"

definition wsm_word_true :: u64 where
  "wsm_word_true = SYM_T_WORD"

section \<open>Sessions and the process\<close>

record 'h session =
  s_env :: "'h world env"
  s_symbols :: symbol_table
  s_boxed :: boxed_table

record 'h process =
  p_arena :: arena
  p_sessions :: "u64 \<Rightarrow> 'h session option"
  p_host :: 'h

definition session_new :: "'h session" where
  "session_new = \<lparr>s_env = env_new, s_symbols = symbols_new, s_boxed = boxed_new\<rparr>"

definition put_session :: "'h process \<Rightarrow> u64 \<Rightarrow> 'h session \<Rightarrow> 'h process" where
  "put_session P p S = P\<lparr>p_sessions := (p_sessions P)(p \<mapsto> S)\<rparr>"

text \<open>The tables of the live sessions, and the sessions with their tables replaced.\<close>

definition tables_of :: "'h process \<Rightarrow> tables" where
  "tables_of P = (\<lambda>p. map_option s_boxed (p_sessions P p))"

definition with_tables :: "'h process \<Rightarrow> tables \<Rightarrow> 'h process" where
  "with_tables P T = P\<lparr>p_sessions := (\<lambda>p. case p_sessions P p of
     None \<Rightarrow> None
   | Some S \<Rightarrow> Some (S\<lparr>s_boxed := (case T p of Some b \<Rightarrow> b | None \<Rightarrow> s_boxed S)\<rparr>))\<rparr>"

text \<open>\<open>Box::into_raw\<close> returns an address \<open>p\<close> of the allocator's choice.\<close>

definition wsm_session_init :: "u64 \<Rightarrow> 'h process \<Rightarrow> u64 \<times> 'h process" where
  "wsm_session_init p P = (p, put_session P p session_new)"

definition wsm_session_free :: "'h process \<Rightarrow> u64 \<Rightarrow> (fatal + unit) \<times> 'h process" where
  "wsm_session_free P session =
     (if session = 0 then (Inr (), P)
      else case p_sessions P session of
             None \<Rightarrow> (Inl (Dangling_Session session), P)
           | Some S \<Rightarrow> (Inr (), P\<lparr>p_sessions := (p_sessions P)(session := None)\<rparr>))"

definition wsm_register_primitive ::
  "platform \<Rightarrow> 'h process \<Rightarrow> u64 \<Rightarrow> u8 list option \<Rightarrow> 'h callback \<Rightarrow> (fatal + i32) \<times> 'h process" where
  "wsm_register_primitive pl P session name f =
     (case name of
        None \<Rightarrow> (Inr (- 1), P)
      | Some bytes \<Rightarrow>
          if session = 0 then (Inr (- 1), P)
          else (case p_sessions P session of
                  None \<Rightarrow> (Inl (Dangling_Session session), P)
                | Some S \<Rightarrow>
                    (case c_to_str bytes of
                       None \<Rightarrow> (Inr (- 1), P)
                     | Some n \<Rightarrow>
                         (Inr 0, put_session P session
                            (S\<lparr>s_env := register_primitive (s_env S) n (host_closure pl f)\<rparr>)))))"

definition wsm_bind ::
  "'h process \<Rightarrow> u64 \<Rightarrow> u8 list option \<Rightarrow> u64 \<Rightarrow> (fatal + i32) \<times> 'h process" where
  "wsm_bind P session name v =
     (case name of
        None \<Rightarrow> (Inr (- 1), P)
      | Some bytes \<Rightarrow>
          if session = 0 then (Inr (- 1), P)
          else (case p_sessions P session of
                  None \<Rightarrow> (Inl (Dangling_Session session), P)
                | Some S \<Rightarrow>
                    (case c_to_str bytes of
                       None \<Rightarrow> (Inr (- 1), P)
                     | Some n \<Rightarrow> (Inr 0, put_session P session (S\<lparr>s_env := bind_name (s_env S) n v\<rparr>)))))"

text \<open>The wrapping functions of \<open>Host\<close>, called by the host outside an evaluation.\<close>

definition call_boundary :: "platform \<Rightarrow> 'h process \<Rightarrow> boundary_call \<Rightarrow> (fatal + reply) \<times> 'h process" where
  "call_boundary pl P q = (case boundary pl q (tables_of P) of (r, T) \<Rightarrow> (r, with_tables P T))"

section \<open>Messages\<close>

text \<open>The ASCII part of the source's trilingual message and its two middle dots (U+00B7).\<close>

definition unknown_symbol_message :: "rstring \<Rightarrow> rstring" where
  "unknown_symbol_message name =
     lit ''error: unknown symbol '' @ [0xB7] @ lit '' nevidomyi symvol '' @ [0xB7]
       @ lit '' unbekanntes Symbol: '' @ name"

fun eval_error_message :: "eval_error \<Rightarrow> rstring" where
  "eval_error_message (UnknownSymbol name) = unknown_symbol_message name"
| "eval_error_message NotCallable = lit ''error: not callable''"
| "eval_error_message (InvalidForm message) = lit ''error: invalid form: '' @ message"
| "eval_error_message (TypeError message) = lit ''error: type error: '' @ message"
| "eval_error_message (HostPrimitiveFailed name message) =
     lit ''error: '' @ name @ lit '' failed: '' @ message"

fun read_error_message :: "read_error \<Rightarrow> rstring" where
  "read_error_message UnexpectedEof = lit ''error: unexpected end of input''"
| "read_error_message UnexpectedCloseParen =
     lit ''error: unexpected '' @ [39] @ lit '')'' @ [39]"
| "read_error_message UnterminatedString = lit ''error: unterminated string literal''"
| "read_error_message (TrailingInput rest) = lit ''error: trailing input: '' @ rest"
| "read_error_message (ArenaCapacityExceeded required capacity) =
     lit ''error: form needs '' @ dec_nat required @ lit '' cons cells; arena capacity is ''
       @ dec_nat capacity"

section \<open>Evaluating one form of text\<close>

text \<open>
  \<open>eval_str\<close> on the session at \<open>session\<close>. The stages write to the arena, to the session's
  symbols and boxed table, and (through callbacks) to the tables and the host state; an abort
  leaves the process in the state it had reached.
\<close>

definition read_stage ::
  "platform \<Rightarrow> 'h process \<Rightarrow> u64 \<Rightarrow> 'h session \<Rightarrow> rstring \<Rightarrow> (read_error stop + u64) \<times> 'h process" where
  "read_stage pl P session S text =
     (case read_one (pl_codec pl) (pl_unprintable pl) text
             \<lparr>rs_symbols = s_symbols S, rs_boxed = clear_transient (s_boxed S),
              rs_arena = wsm_arena_reset (p_arena P)\<rparr> of
        (r, s) \<Rightarrow> (r, put_session (P\<lparr>p_arena := rs_arena s\<rparr>) session
                       (S\<lparr>s_symbols := rs_symbols s, s_boxed := rs_boxed s\<rparr>)))"

definition eval_stage ::
  "platform \<Rightarrow> 'h process \<Rightarrow> 'h session \<Rightarrow> u64 \<Rightarrow> (eval_error stop + u64) \<times> 'h process" where
  "eval_stage pl P S word =
     (case eval \<lparr>ctx_spellings = pl_spellings pl, ctx_arena = p_arena P, ctx_env = s_env S,
                 ctx_symbols = s_symbols S\<rparr>
             eval_fuel word \<lparr>w_tables = tables_of P, w_host = p_host P\<rparr> of
        (r, w) \<Rightarrow> (r, with_tables (P\<lparr>p_host := w_host w\<rparr>) (w_tables w)))"

definition print_stage :: "platform \<Rightarrow> 'h process \<Rightarrow> u64 \<Rightarrow> u64 \<Rightarrow> fatal + rstring" where
  "print_stage pl P session v =
     (case p_sessions P session of
        None \<Rightarrow> Inl (Dangling_Session session)
      | Some S \<Rightarrow> value_to_string (pl_codec pl) (s_symbols S) (s_boxed S) (p_arena P) v)"

definition clear_stage :: "'h process \<Rightarrow> u64 \<Rightarrow> 'h process" where
  "clear_stage P session =
     (case p_sessions P session of
        None \<Rightarrow> P
      | Some S \<Rightarrow> put_session P session (S\<lparr>s_boxed := clear_transient (s_boxed S)\<rparr>))"

definition eval_str ::
  "platform \<Rightarrow> 'h process \<Rightarrow> u64 \<Rightarrow> 'h session \<Rightarrow> rstring \<Rightarrow> (fatal + rstring) \<times> 'h process" where
  "eval_str pl P session S text =
     (case read_stage pl P session S text of
        (Inl (Abort f), P1) \<Rightarrow> (Inl f, P1)
      | (Inl (Raise e), P1) \<Rightarrow> (Inr (read_error_message e), clear_stage P1 session)
      | (Inr word, P1) \<Rightarrow>
          (case p_sessions P1 session of
             None \<Rightarrow> (Inl (Dangling_Session session), P1)
           | Some S1 \<Rightarrow>
               (case eval_stage pl P1 S1 word of
                  (Inl (Abort f), P2) \<Rightarrow> (Inl f, P2)
                | (Inl (Raise e), P2) \<Rightarrow> (Inr (eval_error_message e), clear_stage P2 session)
                | (Inr v, P2) \<Rightarrow>
                    (case print_stage pl P2 session v of
                       Inl f \<Rightarrow> (Inl f, P2)
                     | Inr s \<Rightarrow> (Inr s, clear_stage P2 session)))))"

text \<open>\<open>CString::new(message).unwrap_or_else(...)\<close>.\<close>

definition into_c_string :: "rstring \<Rightarrow> u8 list" where
  "into_c_string message =
     (case cstring_new message of
        Some bytes \<Rightarrow> bytes
      | None \<Rightarrow> utf8_encode (lit ''error: result contained an embedded NUL''))"

definition wsm_eval_string ::
  "platform \<Rightarrow> 'h process \<Rightarrow> u64 \<Rightarrow> u8 list option \<Rightarrow> (fatal + u8 list) \<times> 'h process" where
  "wsm_eval_string pl P session source =
     (case source of
        None \<Rightarrow> (Inr (into_c_string (lit ''error: null session or source pointer'')), P)
      | Some bytes \<Rightarrow>
          if session = 0
          then (Inr (into_c_string (lit ''error: null session or source pointer'')), P)
          else (case p_sessions P session of
                  None \<Rightarrow> (Inl (Dangling_Session session), P)
                | Some S \<Rightarrow>
                    (case (case c_to_str bytes of
                             None \<Rightarrow> (Inr (lit ''error: source is not valid UTF-8''), P)
                           | Some text \<Rightarrow> eval_str pl P session S text) of
                       (r, P') \<Rightarrow>
                         (and_then (catch_unwind_or (lit ''error: internal panic during eval'') r)
                            (\<lambda>message. Inr (into_c_string message)), P'))))"

end
