(* ===== verification/Host_Correct.thy ===== *)
theory Host_Correct
  imports Host Evaluator_Correct
begin

text \<open>
  What the boundary functions answer, what a callback can do to a session's table, and the
  contract under which the closure around a callback is a safe primitive for the evaluator.
\<close>

section \<open>Wrapping and reading back\<close>

lemma wrap_into_outcome:
  assumes "T p = Some b" and "add b = (r, b @ es)"
    and "r = Inl Rust_Panic \<or> (\<exists>w. r = Inr w \<and> tag_of w = TAG_BOXED)"
  shows "wrap_into T p add = (Inr (case r of Inl e \<Rightarrow> (- 2, []) | Inr w \<Rightarrow> (0, [w])), T(p \<mapsto> b @ es))"
  using assms by (auto simp: wrap_into_def catch_unwind_or_def)

lemma add_string_outcome:
  assumes "codec_ok c" and "text_ok s"
  shows "\<exists>r es. add_string c b s = (r, b @ es) \<and> boxed_text_ok es
    \<and> (r = Inl Rust_Panic \<or> (\<exists>w. r = Inr w \<and> tag_of w = TAG_BOXED))"
proof -
  obtain r b' where "boxed_add c b \<lparr>entry_value = Str s, entry_lifetime = Transient\<rparr> = (r, b')" by fastforce
  from boxed_add_outcome [OF assms(1) this] this assms(2) show ?thesis
    by (simp add: add_string_def entry_text_ok_def)
qed

lemma add_game_handle_outcome:
  assumes "codec_ok c"
  shows "\<exists>r es. add_game_handle c b h = (r, b @ es) \<and> boxed_text_ok es
    \<and> (r = Inl Rust_Panic \<or> (\<exists>w. r = Inr w \<and> tag_of w = TAG_BOXED))"
proof -
  obtain r b' where "boxed_add c b \<lparr>entry_value = GameHandle h, entry_lifetime = Persistent\<rparr> = (r, b')"
    by fastforce
  from boxed_add_outcome [OF assms this] this show ?thesis
    by (simp add: add_game_handle_def entry_text_ok_def)
qed

text \<open>With room in the handle space, what was wrapped is read back until it is reclaimed.\<close>

lemma wrap_into_room:
  assumes "codec_ok (pl_codec pl)" and "T p = Some b" and "0 < boxed_room (pl_codec pl) b"
    and "add b = boxed_add (pl_codec pl) b e"
  obtains w where "wrap_into T p add = (Inr (0, [w]), T(p \<mapsto> b @ [Some e]))"
    "boxed_get_entry (pl_codec pl) (b @ [Some e]) w = Some e" "tag_of w = TAG_BOXED"
proof -
  obtain w where w: "boxed_add (pl_codec pl) b e = (Inr w, b @ [Some e])" "tag_of w = TAG_BOXED"
    by (rule boxed_add_room [OF assms(1,3)])
  show thesis
    by (rule that [of w])
      (use w boxed_add_Inr(3) [OF assms(1,3) w(1)] wrap_into_outcome [of T p b add] assms in auto)
qed

lemma game_handle_roundtrip:
  assumes "codec_ok (pl_codec pl)" and "T p = Some b" and "0 < boxed_room (pl_codec pl) b"
    and "p \<noteq> 0" and "out \<noteq> 0" and "out' \<noteq> 0"
  shows "\<exists>w T'. wsm_wrap_game_handle pl T p h out = (Inr (0, [w]), T')
    \<and> wsm_unwrap_game_handle pl T' p w out' = Inr (0, [h])"
proof -
  obtain w where "wrap_into T p (\<lambda>b. add_game_handle (pl_codec pl) b h)
      = (Inr (0, [w]), T(p \<mapsto> b @ [Some \<lparr>entry_value = GameHandle h, entry_lifetime = Persistent\<rparr>]))"
    "boxed_get_entry (pl_codec pl) (b @ [Some \<lparr>entry_value = GameHandle h, entry_lifetime = Persistent\<rparr>]) w
      = Some \<lparr>entry_value = GameHandle h, entry_lifetime = Persistent\<rparr>"
    by (rule wrap_into_room [where pl = pl and T = T and p = p and b = b and e = "\<lparr>entry_value = GameHandle h, entry_lifetime = Persistent\<rparr>"
          and add = "\<lambda>b. add_game_handle (pl_codec pl) b h"])
      (use assms(1-3) in \<open>auto simp: add_game_handle_def\<close>)
  then show ?thesis
    using assms(4-6)
    by (auto simp: wsm_wrap_game_handle_def wsm_unwrap_game_handle_def get_game_handle_def)
qed

lemma rational_roundtrip:
  assumes "codec_ok (pl_codec pl)" and "T p = Some b" and "0 < boxed_room (pl_codec pl) b"
    and "p \<noteq> 0" and "out \<noteq> 0" and "out_n \<noteq> 0" and "out_d \<noteq> 0" and "d \<noteq> 0"
    and "reduce (pl_overflow_checks pl) n d = Inr (n', d')"
  shows "\<exists>w T'. wsm_wrap_rational pl T p n d out = (Inr (0, [w]), T')
    \<and> wsm_unwrap_rational pl T' p w out_n out_d = Inr (0, [n', d'])"
proof -
  let ?e = "\<lparr>entry_value = Rational n' d', entry_lifetime = Persistent\<rparr>"
  obtain w where "wrap_into T p (\<lambda>b. add_rational (pl_overflow_checks pl) (pl_codec pl) b n d)
      = (Inr (0, [w]), T(p \<mapsto> b @ [Some ?e]))"
    "boxed_get_entry (pl_codec pl) (b @ [Some ?e]) w = Some ?e"
    by (rule wrap_into_room [where pl = pl and T = T and p = p and b = b and e = ?e
          and add = "\<lambda>b. add_rational (pl_overflow_checks pl) (pl_codec pl) b n d"])
      (use assms(1-3,8,9) in \<open>auto simp: add_rational_def add_rational_as_def\<close>)
  then show ?thesis
    using assms(4-8) by (auto simp: wsm_wrap_rational_def wsm_unwrap_rational_def get_rational_def)
qed

section \<open>One boundary call\<close>

fun call_session :: "boundary_call \<Rightarrow> u64" where
  "call_session (Wrap_Game_Handle s _ _) = s"
| "call_session (Wrap_Transient_String s _ _) = s"
| "call_session (Wrap_Rational s _ _ _) = s"
| "call_session (Wrap_Transient_Rational s _ _ _) = s"
| "call_session (Unwrap_Game_Handle s _ _) = s"
| "call_session (Unwrap_Rational s _ _ _) = s"

fun is_wrap :: "boundary_call \<Rightarrow> bool" where
  "is_wrap (Unwrap_Game_Handle _ _ _) = False"
| "is_wrap (Unwrap_Rational _ _ _ _) = False"
| "is_wrap _ = True"

text \<open>A reply the runtime can give: status 0 of a wrapping call comes with one boxed word.\<close>

definition plausible :: "boundary_call \<Rightarrow> reply \<Rightarrow> bool" where
  "plausible q r \<longleftrightarrow> (is_wrap q \<longrightarrow> fst r = 0 \<longrightarrow> (\<exists>w. snd r = [w] \<and> tag_of w = TAG_BOXED))"

lemma wrap_into_plausible:
  assumes "T p = Some b" and "\<exists>r es. add b = (r, b @ es) \<and> boxed_text_ok es
    \<and> (r = Inl Rust_Panic \<or> (\<exists>w. r = Inr w \<and> tag_of w = TAG_BOXED))"
  shows "\<exists>r es. wrap_into T p add = (Inr r, T(p \<mapsto> b @ es)) \<and> boxed_text_ok es
    \<and> (fst r = 0 \<longrightarrow> (\<exists>w. snd r = [w] \<and> tag_of w = TAG_BOXED))"
proof -
  obtain r es where "add b = (r, b @ es)" "boxed_text_ok es"
      "r = Inl Rust_Panic \<or> (\<exists>w. r = Inr w \<and> tag_of w = TAG_BOXED)" using assms(2) by blast
  then show ?thesis
    using wrap_into_outcome [of T p b add r es] assms(1)
    by (intro exI [of _ "case r of Inl e \<Rightarrow> (- 2, []) | Inr w \<Rightarrow> (0, [w])"] exI [of _ es]) auto
qed

lemma unchanged: "T p = Some b \<Longrightarrow> T = T(p \<mapsto> b @ [])"
  by (simp add: fun_upd_idem)

lemma boundary_outcome:
  assumes "codec_ok (pl_codec pl)" and "T p = Some b" and "call_session q = 0 \<or> call_session q = p"
  shows "\<exists>r es. boundary pl q T = (Inr r, T(p \<mapsto> b @ es)) \<and> boxed_text_ok es \<and> plausible q r"
proof (cases "call_session q = 0")
  case True
  then have "\<exists>r. boundary pl q T = (Inr r, T) \<and> fst r = - 1"
    by (cases q) (auto simp: wsm_wrap_game_handle_def wsm_wrap_transient_string_def
        wsm_wrap_rational_def wsm_wrap_transient_rational_def wsm_unwrap_game_handle_def
        wsm_unwrap_rational_def)
  then show ?thesis
    using unchanged [of T p b] assms(2) by (auto simp: plausible_def intro!: exI [of _ "[]"])
next
  case False
  then have p: "call_session q = p" "p \<noteq> 0" using assms(3) by auto
  have fail: "\<exists>r es. (Inr (- 1, []), T) = (Inr r, T(p \<mapsto> b @ es)) \<and> boxed_text_ok es \<and> plausible q r"
    using assms(2) by (intro exI [of _ "(- 1, [])"] exI [of _ "[]"]) (auto simp: plausible_def fun_upd_idem)
  have wrap: "\<exists>r es. wrap_into T p add = (Inr r, T(p \<mapsto> b @ es)) \<and> boxed_text_ok es \<and> plausible q r"
    if "\<exists>r es. add b = (r, b @ es) \<and> boxed_text_ok es
      \<and> (r = Inl Rust_Panic \<or> (\<exists>w. r = Inr w \<and> tag_of w = TAG_BOXED))" for add
    using wrap_into_plausible [of T p b add, OF assms(2) that] unfolding plausible_def by blast
  show ?thesis
  proof (cases q)
    case (Wrap_Game_Handle s h out)
    then show ?thesis
      using p fail wrap [of "\<lambda>b. add_game_handle (pl_codec pl) b h", OF add_game_handle_outcome [OF assms(1)]]
      by (auto simp: wsm_wrap_game_handle_def)
  next
    case (Wrap_Transient_String s str out)
    have "text_ok t" if "c_to_str bytes = Some t" for bytes t
      using c_to_str_valid [OF that] c_to_str_no_NUL [OF that] by (simp add: text_ok_def)
    then have "\<exists>r es. wrap_into T p (\<lambda>b. add_string (pl_codec pl) b t) = (Inr r, T(p \<mapsto> b @ es))
        \<and> boxed_text_ok es \<and> plausible q r" if "c_to_str bytes = Some t" for bytes t
      using wrap [of "\<lambda>b. add_string (pl_codec pl) b t", OF add_string_outcome [OF assms(1)]] that by blast
    then show ?thesis
      using Wrap_Transient_String p fail
      by (auto simp: wsm_wrap_transient_string_def split: option.splits)
  next
    case (Wrap_Rational s n d out)
    have "\<exists>r es. add_rational (pl_overflow_checks pl) (pl_codec pl) b n d = (r, b @ es) \<and> boxed_text_ok es
      \<and> (r = Inl Rust_Panic \<or> (\<exists>w. r = Inr w \<and> tag_of w = TAG_BOXED))"
      using add_rational_outcome [OF assms(1)] unfolding add_rational_def by (metis surj_pair)
    from wrap [of "\<lambda>b. add_rational (pl_overflow_checks pl) (pl_codec pl) b n d", OF this]
    show ?thesis using Wrap_Rational p fail by (auto simp: wsm_wrap_rational_def)
  next
    case (Wrap_Transient_Rational s n d out)
    have "\<exists>r es. add_transient_rational (pl_overflow_checks pl) (pl_codec pl) b n d = (r, b @ es)
      \<and> boxed_text_ok es \<and> (r = Inl Rust_Panic \<or> (\<exists>w. r = Inr w \<and> tag_of w = TAG_BOXED))"
      using add_rational_outcome [OF assms(1)] unfolding add_transient_rational_def by (metis surj_pair)
    from wrap [of "\<lambda>b. add_transient_rational (pl_overflow_checks pl) (pl_codec pl) b n d", OF this]
    show ?thesis using Wrap_Transient_Rational p fail by (auto simp: wsm_wrap_transient_rational_def)
  next
    case (Unwrap_Game_Handle s w out)
    then have "\<exists>r. boundary pl q T = (Inr r, T)"
      using p assms(2) by (auto simp: wsm_unwrap_game_handle_def split: option.split)
    then show ?thesis
      using unchanged [of T p b] assms(2) Unwrap_Game_Handle
      by (auto simp: plausible_def intro!: exI [of _ "[]"])
  next
    case (Unwrap_Rational s w out_n out_d)
    then have "\<exists>r. boundary pl q T = (Inr r, T)"
      using p assms(2) by (auto simp: wsm_unwrap_rational_def split: option.split)
    then show ?thesis
      using unchanged [of T p b] assms(2) Unwrap_Rational
      by (auto simp: plausible_def intro!: exI [of _ "[]"])
  qed
qed

section \<open>Whole callbacks\<close>

text \<open>
  The contract of a callback registered with the session at \<open>p\<close>: it passes only that session
  pointer (or null) to the boundary, and when it reports success it has written an answer that
  is not a cons, or one of its arguments.
\<close>

primrec answers :: "u64 \<Rightarrow> u64 set \<Rightarrow> 'h host_program \<Rightarrow> bool" where
  "answers p args (Done rc out h) \<longleftrightarrow>
     (rc = 0 \<longrightarrow> (\<exists>v. out = Some v \<and> (tag_of v \<noteq> TAG_CONS \<or> v \<in> args)))"
| "answers p args (Crash f) \<longleftrightarrow> False"
| "answers p args (Call q k) \<longleftrightarrow>
     (call_session q = 0 \<or> call_session q = p) \<and> (\<forall>r. plausible q r \<longrightarrow> answers p args (k r))"

definition callback_ok :: "u64 \<Rightarrow> 'h callback \<Rightarrow> bool" where
  "callback_ok p f \<longleftrightarrow> (\<forall>args h. answers p (set args) (f args h))"

lemma run_program_outcome:
  assumes "codec_ok (pl_codec pl)" and "answers p args prog" and "T p = Some b"
  shows "\<exists>rc out h es. run_program pl prog T = (Inr (rc, out, h), T(p \<mapsto> b @ es)) \<and> boxed_text_ok es
    \<and> (rc = 0 \<longrightarrow> (\<exists>v. out = Some v \<and> (tag_of v \<noteq> TAG_CONS \<or> v \<in> args)))"
  using assms(2,3)
proof (induction prog arbitrary: T b)
  case (Done rc out h)
  then show ?case
    by (intro exI [of _ rc] exI [of _ out] exI [of _ h] exI [of _ "[]"]) (auto simp: fun_upd_idem)
next
  case (Crash f)
  then show ?case by simp
next
  case (Call q k)
  then obtain r es where r: "boundary pl q T = (Inr r, T(p \<mapsto> b @ es))" "boxed_text_ok es" "plausible q r"
    using boundary_outcome [of pl T p b q] assms(1) Call.prems by auto
  have "answers p args (k r)" "(T(p \<mapsto> b @ es)) p = Some (b @ es)" using Call.prems(1) r(3) by (cases r, simp_all)
  from Call.IH [where T = "T(p \<mapsto> b @ es)" and b = "b @ es", OF rangeI [of k r] this] obtain rc out h es' where
    "run_program pl (k r) (T(p \<mapsto> b @ es)) = (Inr (rc, out, h), (T(p \<mapsto> b @ es))(p \<mapsto> (b @ es) @ es'))"
    "boxed_text_ok es'" "rc = 0 \<longrightarrow> (\<exists>v. out = Some v \<and> (tag_of v \<noteq> TAG_CONS \<or> v \<in> args))" by blast
  then show ?case
    using r by (intro exI [of _ rc] exI [of _ out] exI [of _ h] exI [of _ "es @ es'"])
      (auto simp: fun_eq_iff)
qed

text \<open>
  The world while the session at \<open>p\<close> evaluates, begun with the tables \<open>T0\<close>: only that session's
  table changes, and it only grows.
\<close>

definition world_ok :: "u64 \<Rightarrow> tables \<Rightarrow> 'h world \<Rightarrow> bool" where
  "world_ok p T0 w \<longleftrightarrow>
     (\<exists>b es. T0 p = Some b \<and> w_tables w = T0(p \<mapsto> b @ es) \<and> boxed_text_ok es)"

lemma host_closure_safe:
  assumes "codec_ok (pl_codec pl)" and "callback_ok p f" and "world_ok p T0 w"
    and "list_all (safe A) args"
  shows "no_abort (world_ok p T0) text_ok (safe A) (host_closure pl f args w)"
proof -
  obtain b es where w: "T0 p = Some b" "w_tables w = T0(p \<mapsto> b @ es)" "boxed_text_ok es"
    using assms(3) by (auto simp: world_ok_def)
  have "answers p (set args) (f args (w_host w))" using assms(2) by (simp add: callback_ok_def)
  from run_program_outcome [OF assms(1) this, of "w_tables w" "b @ es"] w
  obtain rc out h es' where
    run: "run_program pl (f args (w_host w)) (w_tables w)
      = (Inr (rc, out, h), T0(p \<mapsto> b @ es @ es'))" "boxed_text_ok es'"
    and out: "rc = 0 \<longrightarrow> (\<exists>v. out = Some v \<and> (tag_of v \<noteq> TAG_CONS \<or> v \<in> set args))"
    by auto
  have "world_ok p T0 \<lparr>w_tables = T0(p \<mapsto> b @ es @ es'), w_host = h\<rparr>"
    unfolding world_ok_def using w run(2) by (intro exI [of _ b] exI [of _ "es @ es'"]) simp
  moreover have "safe A v" if "rc = 0" "out = Some v" for v
    using out that assms(4) safe_atomic [of v A] by (auto simp: list_all_iff)
  ultimately show ?thesis
    using run(1) out by (auto simp: host_closure_def)
qed

end
