(* ===== verification/Reader_Correct.thy ===== *)
theory Reader_Correct
  imports Forms
begin

text \<open>
  Correctness of the reader: on the tokens of a form, with room in the tables and cells in the
  arena, it returns a word that denotes the form and uses exactly \<open>cells_of\<close> cells; with too
  few cells it ends the process; what it accepts is always the tokens of a form; the preflight
  count is exact on complete forms.
\<close>

section \<open>States and what the reader preserves\<close>

definition read_ok :: "codec \<Rightarrow> read_state \<Rightarrow> bool" where
  "read_ok c s \<longleftrightarrow> codec_ok c \<and> symbols_ok (rs_symbols s) \<and> arena_ok (rs_arena s)"

definition read_room :: "codec \<Rightarrow> read_state \<Rightarrow> nat \<Rightarrow> bool" where
  "read_room c s n \<longleftrightarrow> n \<le> symbols_room (rs_symbols s) \<and> n \<le> boxed_room c (rs_boxed s)"

text \<open>Everything that could be read in the first state reads the same in the second.\<close>

definition extends :: "codec \<Rightarrow> read_state \<Rightarrow> read_state \<Rightarrow> bool" where
  "extends c s s' \<longleftrightarrow>
     (\<forall>q. is_cell (rs_arena s) q \<longrightarrow> is_cell (rs_arena s') q
        \<and> wsm_car (rs_arena s') q = wsm_car (rs_arena s) q
        \<and> wsm_cdr (rs_arena s') q = wsm_cdr (rs_arena s) q)
     \<and> (\<forall>v m. name_of (rs_symbols s) v = Some m \<longrightarrow> name_of (rs_symbols s') v = Some m)
     \<and> (\<forall>w e. boxed_get_entry c (rs_boxed s) w = Some e \<longrightarrow>
          boxed_get_entry c (rs_boxed s') w = Some e)"

lemma extends_refl [simp]: "extends c s s"
  by (simp add: extends_def)

lemma extends_trans: "extends c s t \<Longrightarrow> extends c t u \<Longrightarrow> extends c s u"
  by (simp add: extends_def)

lemma extends_repr: "extends c s s' \<Longrightarrow> repr (rs_arena s) t \<Longrightarrow> repr (rs_arena s') t"
  by (erule rep_by_mono) (simp add: extends_def)

lemma extends_denotes:
  "extends c s s' \<Longrightarrow> denotes c (rs_symbols s) (rs_boxed s) t f \<Longrightarrow>
     denotes c (rs_symbols s') (rs_boxed s') t f"
  "extends c s s' \<Longrightarrow> denotes_list c (rs_symbols s) (rs_boxed s) t fs \<Longrightarrow>
     denotes_list c (rs_symbols s') (rs_boxed s') t fs"
  by (erule denotes_mono [rotated -1], simp_all add: extends_def)+

text \<open>
  The outcome the reader promises for a form: the word of a tree that denotes it, its cells
  taken from the arena, room for \<open>k\<close> more entries, and nothing else changed.
\<close>

definition read_result :: "codec \<Rightarrow> read_state \<Rightarrow> read_state \<Rightarrow> nat \<Rightarrow> nat \<Rightarrow> node \<Rightarrow> bool" where
  "read_result c s s' k m t \<longleftrightarrow> read_ok c s' \<and> read_room c s' k
     \<and> arena_free (rs_arena s) = arena_free (rs_arena s') + m
     \<and> arena_base (rs_arena s') = arena_base (rs_arena s)
     \<and> extends c s s' \<and> repr (rs_arena s') t"

section \<open>Atoms and strings\<close>

lemma parse_atom:
  assumes "read_ok c s" and "read_room c s (Suc k)"
  shows "\<exists>w s'. parse_form c (Suc n) (Atom a # r) s = (Inr (w, r), s')
    \<and> read_result c s s' k 0 (Leaf w) \<and> denotes c (rs_symbols s') (rs_boxed s') (Leaf w) (FAtom a)"
proof -
  obtain w st where w: "atom_to_word a (rs_symbols s) = (w, st)" by fastforce
  have room: "0 < symbols_room (rs_symbols s)" using assms(2) by (simp add: read_room_def)
  have ok: "symbols_ok (rs_symbols s)" using assms(1) by (simp add: read_ok_def)
  have "symbols_ok st \<and> k \<le> symbols_room st \<and> tag_of w \<noteq> TAG_CONS \<and> atom_denotes st a w
    \<and> (\<forall>v m. name_of (rs_symbols s) v = Some m \<longrightarrow> name_of st v = Some m)"
  proof (cases "a = lit ''()'' \<or> parse_i64 a \<noteq> None")
    case True
    then show ?thesis
      using w ok assms(2) by (auto simp: atom_to_word_def atom_denotes_def read_room_def split: if_splits)
  next
    case False
    then have i: "intern (rs_symbols s) a = (w, st)" using w by (simp add: atom_to_word_def)
    show ?thesis
      using False assms(2) sym.issue_valid [OF ok room i] sym.issue_room [OF ok room i]
        sym.issue_resolves [OF ok room i] sym.issue_tag [OF ok room i] sym.issue_keeps [OF ok room i]
      by (auto simp: atom_denotes_def read_room_def)
  qed
  then show ?thesis
    using w assms by (auto simp: read_result_def read_ok_def read_room_def extends_def)
qed

lemma parse_string:
  assumes "read_ok c s" and "read_room c s (Suc k)"
  shows "\<exists>w s'. parse_form c (Suc n) (StrLit v # r) s = (Inr (w, r), s')
    \<and> read_result c s s' k 0 (Leaf w) \<and> denotes c (rs_symbols s') (rs_boxed s') (Leaf w) (FStr v)"
proof -
  have codec: "codec_ok c" using assms(1) by (simp add: read_ok_def)
  have room: "0 < boxed_room c (rs_boxed s)" using assms(2) by (simp add: read_room_def)
  let ?e = "\<lparr>entry_value = Str v, entry_lifetime = Transient\<rparr>"
  obtain w b where w: "boxed_add c (rs_boxed s) ?e = (Inr w, b)"
    using boxes.put_some [OF codec room] by (metis surjective_pairing)
  show ?thesis
    using w assms boxes.put_tag [OF codec room w] boxes.put_get [OF codec room w]
      boxes.put_keeps [OF codec room w] boxes.put_room [OF w]
    by (auto simp: add_string_def read_result_def read_ok_def read_room_def extends_def)
qed

section \<open>Complete forms are read\<close>

lemma parse_list_ok:
  assumes forms: "\<And>f n s k r. f \<in> set fs \<Longrightarrow> read_ok c s \<Longrightarrow> read_room c s (length (toks f) + k) \<Longrightarrow>
      cells_of f \<le> arena_free (rs_arena s) \<Longrightarrow> 2 * length (toks f) \<le> Suc n \<Longrightarrow>
      \<exists>t s'. parse_form c n (toks f @ r) s = (Inr (word_of t, r), s')
        \<and> read_result c s s' k (cells_of f) t \<and> denotes c (rs_symbols s') (rs_boxed s') t f"
    and "read_ok c s" and "read_room c s (length (toks_list fs) + k)"
    and "cells_list fs \<le> arena_free (rs_arena s)" and "2 * length (toks_list fs) < n"
  shows "\<exists>t s'. parse_list c n (toks_list fs @ Close # r) s = (Inr (word_of t, r), s')
    \<and> read_result c s s' k (cells_list fs) t \<and> denotes_list c (rs_symbols s') (rs_boxed s') t fs"
  using assms
proof (induction fs arbitrary: n s k)
  case Nil
  then obtain m where "n = Suc m" by (cases n) auto
  then show ?case
    using Nil.prems by (intro exI [of _ "Leaf WORD_NIL"] exI [of _ s]) (simp add: read_result_def)
next
  case (Cons f fs)
  obtain m where m: "n = Suc m" using Cons.prems(5) by (cases n) auto
  obtain x xs where x: "toks f = x # xs" "x \<noteq> Close" using toks_hd_not_Close by blast
  let ?r = "toks_list fs @ Close # r"
  obtain t s1 where t: "parse_form c m (toks f @ ?r) s = (Inr (word_of t, ?r), s1)"
      "read_result c s s1 (length (toks_list fs) + k) (cells_of f) t"
      "denotes c (rs_symbols s1) (rs_boxed s1) t f"
    using Cons.prems(1) [of f s "length (toks_list fs) + k" m ?r] Cons.prems(2-5) m
    by (auto simp: ac_simps)
  have "\<exists>u s2. parse_list c m ?r s1 = (Inr (word_of u, r), s2)
      \<and> read_result c s1 s2 k (cells_list fs) u \<and> denotes_list c (rs_symbols s2) (rs_boxed s2) u fs"
  proof (rule Cons.IH)
    show "2 * length (toks_list fs) < m" using Cons.prems(5) m x(1) by simp
  qed (use Cons.prems t(2) in \<open>auto simp: read_result_def\<close>)
  then obtain u s2 where u: "parse_list c m ?r s1 = (Inr (word_of u, r), s2)"
      "read_result c s1 s2 k (cells_list fs) u" "denotes_list c (rs_symbols s2) (rs_boxed s2) u fs"
    by blast
  have ok2: "arena_ok (rs_arena s2)" and free2: "0 < arena_free (rs_arena s2)"
    using t(2) u(2) Cons.prems(4) by (auto simp: read_result_def read_ok_def)
  obtain p A where p: "wsm_cons (rs_arena s2) (word_of t) (word_of u) = Inr (p, A)"
    using cells.alloc_some [OF ok2 free2] by blast
  let ?s3 = "s2\<lparr>rs_arena := A\<rparr>"
  have run: "parse_list c n (toks_list (f # fs) @ Close # r) s = (Inr (p, r), ?s3)"
    using x t(1) u(1) p m by (cases x) simp_all
  have ext: "extends c s2 ?s3"
    using cells.alloc_frame [OF ok2 p] by (simp add: extends_def)
  have "repr A (Pair p t u)"
    using cells.alloc_rep [OF ok2 p] extends_repr [of c s1 s2] t(2) u(2)
    by (simp add: read_result_def)
  moreover have "denotes_list c (rs_symbols ?s3) (rs_boxed ?s3) (Pair p t u) (f # fs)"
    using extends_denotes(1) [of c s1 s2 t f] t(3) u(2,3) by (simp add: read_result_def)
  moreover have "extends c s ?s3"
    using t(2) u(2) ext by (auto simp: read_result_def intro: extends_trans)
  moreover have "arena_base A = arena_base (rs_arena s2)"
    by (rule wsm_cons_state(3) [OF ok2 p])
  ultimately have "read_result c s ?s3 k (cells_list (f # fs)) (Pair p t u)"
    using t(2) u(2) cells.alloc_valid [OF ok2 p] cells.alloc_free [OF ok2 p]
    by (simp add: read_result_def read_ok_def read_room_def)
  with run \<open>denotes_list c (rs_symbols ?s3) (rs_boxed ?s3) (Pair p t u) (f # fs)\<close>
  show ?case by (intro exI [of _ "Pair p t u"] exI [of _ ?s3]) simp
qed

lemma parse_form_ok:
  assumes "read_ok c s" and "read_room c s (length (toks f) + k)"
    and "cells_of f \<le> arena_free (rs_arena s)" and "2 * length (toks f) \<le> Suc n"
  shows "\<exists>t s'. parse_form c n (toks f @ r) s = (Inr (word_of t, r), s')
    \<and> read_result c s s' k (cells_of f) t \<and> denotes c (rs_symbols s') (rs_boxed s') t f"
  using assms
proof (induction f arbitrary: n s k r)
  case (FAtom a)
  then obtain m where "n = Suc m" by (cases n) auto
  then obtain w s' where "parse_form c n (toks (FAtom a) @ r) s = (Inr (w, r), s')"
    "read_result c s s' k 0 (Leaf w)" "denotes c (rs_symbols s') (rs_boxed s') (Leaf w) (FAtom a)"
    using parse_atom [of c s k m a r] FAtom.prems by auto
  then show ?case by (intro exI [of _ "Leaf w"] exI [of _ s']) simp
next
  case (FStr v)
  then obtain m where "n = Suc m" by (cases n) auto
  then obtain w s' where "parse_form c n (toks (FStr v) @ r) s = (Inr (w, r), s')"
    "read_result c s s' k 0 (Leaf w)" "denotes c (rs_symbols s') (rs_boxed s') (Leaf w) (FStr v)"
    using parse_string [of c s k m v r] FStr.prems by auto
  then show ?case by (intro exI [of _ "Leaf w"] exI [of _ s']) simp
next
  case (FList fs)
  then obtain m where m: "n = Suc m" by (cases n) auto
  have "\<exists>t s'. parse_list c m (toks_list fs @ Close # r) s = (Inr (word_of t, r), s')
    \<and> read_result c s s' k (cells_list fs) t \<and> denotes_list c (rs_symbols s') (rs_boxed s') t fs"
    by (rule parse_list_ok)
      (use FList.IH FList.prems m in \<open>auto simp: read_room_def\<close>)
  then show ?case using m by simp
qed

section \<open>Too few cells\<close>

text \<open>
  With fewer free cells than the form needs the parser reaches \<open>wsm_cons_oom\<close>, which ends the
  process with status 97.
\<close>

lemma parse_list_overflow:
  assumes forms: "\<And>f n s k r. f \<in> set fs \<Longrightarrow> read_ok c s \<Longrightarrow> read_room c s (length (toks f)) \<Longrightarrow>
      arena_free (rs_arena s) < cells_of f \<Longrightarrow> 2 * length (toks f) \<le> Suc n \<Longrightarrow>
      \<exists>s'. parse_form c n (toks f @ r) s = (Inl (Abort (Process_Exit 97 1 0 0)), s')"
    and "read_ok c s" and "read_room c s (length (toks_list fs))"
    and "arena_free (rs_arena s) < cells_list fs" and "2 * length (toks_list fs) < n"
  shows "\<exists>s'. parse_list c n (toks_list fs @ Close # r) s = (Inl (Abort (Process_Exit 97 1 0 0)), s')"
  using assms
proof (induction fs arbitrary: n s)
  case (Cons f fs)
  obtain m where m: "n = Suc m" using Cons.prems(5) by (cases n) auto
  obtain x xs where x: "toks f = x # xs" "x \<noteq> Close" using toks_hd_not_Close by blast
  let ?r = "toks_list fs @ Close # r"
  show ?case
  proof (cases "arena_free (rs_arena s) < cells_of f")
    case True
    have "read_room c s (length (toks f))" using Cons.prems(3) by (simp add: read_room_def)
    then obtain s' where "parse_form c m (toks f @ ?r) s = (Inl (Abort (Process_Exit 97 1 0 0)), s')"
      using Cons.prems(1) [of f s m ?r] Cons.prems(2,5) True m by auto
    then show ?thesis using x m by (cases x) simp_all
  next
    case False
    obtain t s1 where t: "parse_form c m (toks f @ ?r) s = (Inr (word_of t, ?r), s1)"
        "read_result c s s1 (length (toks_list fs)) (cells_of f) t"
      using parse_form_ok [of c s f "length (toks_list fs)" m ?r] Cons.prems(2,3,5) False m
      by auto
    then have s1: "read_ok c s1" "read_room c s1 (length (toks_list fs))"
      "arena_free (rs_arena s) = arena_free (rs_arena s1) + cells_of f"
      by (auto simp: read_result_def)
    show ?thesis
    proof (cases "arena_free (rs_arena s1) < cells_list fs")
      case True
      have "\<exists>s'. parse_list c m ?r s1 = (Inl (Abort (Process_Exit 97 1 0 0)), s')"
        by (rule Cons.IH) (use Cons.prems s1 True m x(1) in auto)
      then show ?thesis using x m t(1) by (cases x) auto
    next
      case False
      then have eq: "arena_free (rs_arena s1) = cells_list fs" using s1(3) Cons.prems(4) by simp
      have "\<exists>u s2. parse_list c m ?r s1 = (Inr (word_of u, r), s2)
          \<and> read_result c s1 s2 0 (cells_list fs) u
          \<and> denotes_list c (rs_symbols s2) (rs_boxed s2) u fs"
        by (rule parse_list_ok [OF parse_form_ok]) (use Cons.prems s1 eq m x(1) in auto)
      then obtain u s2 where u: "parse_list c m ?r s1 = (Inr (word_of u, r), s2)"
          "read_result c s1 s2 0 (cells_list fs) u" by blast
      then have "wsm_cons (rs_arena s2) (word_of t) (word_of u) = Inl (Process_Exit 97 1 0 0)"
        using eq by (intro cells.alloc_full) (auto simp: read_result_def read_ok_def)
      then show ?thesis using x m t(1) u(1) by (cases x) auto
    qed
  qed
qed simp

lemma parse_form_overflow:
  assumes "read_ok c s" and "read_room c s (length (toks f))"
    and "arena_free (rs_arena s) < cells_of f" and "2 * length (toks f) \<le> Suc n"
  shows "\<exists>s'. parse_form c n (toks f @ r) s = (Inl (Abort (Process_Exit 97 1 0 0)), s')"
  using assms
proof (induction f arbitrary: n s r)
  case (FList fs)
  then obtain m where m: "n = Suc m" by (cases n) auto
  have "\<exists>s'. parse_list c m (toks_list fs @ Close # r) s = (Inl (Abort (Process_Exit 97 1 0 0)), s')"
    by (rule parse_list_overflow)
      (use FList.IH FList.prems m in \<open>auto simp: read_room_def\<close>)
  then show ?case using m by simp
qed simp_all

section \<open>Only forms are accepted\<close>

lemma parse_complete:
  "parse_form c n ts s = (Inr (w, r), s') \<Longrightarrow> \<exists>f. ts = toks f @ r"
  "parse_list c n ts s = (Inr (w, r), s') \<Longrightarrow> \<exists>fs. ts = toks_list fs @ Close # r"
proof (induction n arbitrary: ts s w r s' and ts s w r s')
  case (Suc n)
  {
    case 1
    then show ?case
      by (cases ts)
        (auto split: token.splits prod.splits sum.splits dest!: Suc.IH(2)
          intro: exI [of _ "FAtom _"] exI [of _ "FStr _"] exI [of _ "FList _"])
  next
    case 2
    show ?case
    proof (cases "\<exists>us. ts = Close # us")
      case True
      with 2 show ?thesis by (auto intro: exI [of _ "[]"])
    next
      case False
      then obtain w1 r1 s1 w2 s2 where
        p: "parse_form c n ts s = (Inr (w1, r1), s1)" "parse_list c n r1 s1 = (Inr (w2, r), s2)"
        using 2 by (auto split: list.splits token.splits prod.splits sum.splits)
      obtain f fs where "ts = toks f @ r1" "r1 = toks_list fs @ Close # r"
        using Suc.IH(1) [OF p(1)] Suc.IH(2) [OF p(2)] by blast
      then show ?thesis by (intro exI [of _ "f # fs"]) simp
    qed
  }
qed simp_all

lemma parse_shorter:
  "parse_form c n ts s = (Inr (w, r), s') \<Longrightarrow> length r < length ts"
  "parse_list c n ts s = (Inr (w, r), s') \<Longrightarrow> length r < length ts"
  using parse_complete [of c n ts s w r s'] by auto

lemma parse_fuel_enough:
  "2 * length ts + 1 \<le> n \<Longrightarrow> fst (parse_form c n ts s) \<noteq> Inl (Abort Out_Of_Fuel)"
  "2 * length ts + 2 \<le> n \<Longrightarrow> fst (parse_list c n ts s) \<noteq> Inl (Abort Out_Of_Fuel)"
proof (induction n arbitrary: ts s and ts s)
  case (Suc n)
  {
    case 1
    then show ?case
      using Suc.IH(2) [of "tl ts" s]
      by (cases ts)
        (auto simp: add_string_def boxed_add_def Let_def split: token.splits prod.splits sum.splits
          option.splits)
  next
    case 2
    have form: "fst (parse_form c n ts s) \<noteq> Inl (Abort Out_Of_Fuel)"
      using Suc.IH(1) 2 by simp
    have rest: "fst (parse_list c n r1 s1) \<noteq> Inl (Abort Out_Of_Fuel)"
      if "parse_form c n ts s = (Inr (w, r1), s1)" for w r1 s1
      using parse_shorter(1) [OF that] Suc.IH(2) [of r1 s1] 2 by simp
    have "wsm_cons A a d \<noteq> Inl Out_Of_Fuel" for A a d
      by (simp add: wsm_cons_def wsm_fail_win64_def Let_def)
    then show ?case
      using form rest by (fastforce split: list.splits token.splits prod.splits sum.splits)
  }
qed simp_all

section \<open>The preflight\<close>

lemma required_index: "required_loop (Suc i) d q ts = required_loop (Suc 0) d q ts"
proof (induction ts arbitrary: i d q)
  case (Cons t ts)
  have "required_loop (Suc (Suc i)) e p ts = required_loop (Suc (Suc 0)) e p ts" for e p
    using Cons.IH [of "Suc i" e p] Cons.IH [of "Suc 0" e p] by simp
  then show ?case by (cases t) simp_all
qed simp

lemma required_toks:
  "required_loop (Suc i) (Suc d) q (toks f @ r) = required_loop (Suc 0) (Suc d) (q + Suc (cells_of f)) r"
proof (induction f arbitrary: i d q r)
  case (FList fs)
  have "required_loop (Suc j) (Suc (Suc d)) q (toks_list fs @ Close # r)
      = required_loop (Suc 0) (Suc d) (q + cells_list fs) r" for j q
    using FList.IH
  proof (induction fs arbitrary: j q)
    case Nil
    show ?case by (simp add: required_index [of "Suc j"])
  next
    case (Cons f fs)
    then show ?case by (simp add: ac_simps)
  qed
  then show ?case by (simp add: ac_simps)
qed (simp_all add: required_index [of "Suc _"])

lemma required_toks_list:
  "required_loop (Suc i) (Suc d) q (toks_list fs @ r) = required_loop (Suc 0) (Suc d) (q + cells_list fs) r"
proof (induction fs arbitrary: i q)
  case Nil
  show ?case by (simp add: required_index [of i])
next
  case (Cons f fs)
  then show ?case by (simp add: required_toks ac_simps)
qed

text \<open>On a complete form the preflight computes exactly the cells that reading it takes.\<close>

lemma required_complete: "required_cons_cells (toks f @ r) = Some (cells_of f)"
  by (cases f) (simp_all add: required_cons_cells_def required_toks_list)

text \<open>A list that is opened and never closed has no count: the preflight lets it pass.\<close>

lemma required_unclosed: "required_cons_cells (Open # toks_list fs) = None"
  using required_toks_list [of 0 0 0 fs "[]"] by (simp add: required_cons_cells_def)

text \<open>A count means that a complete form stands at the front, whatever follows it.\<close>

lemma required_Some_split:
  "required_loop (Suc 0) (Suc d) q ts = Some m \<Longrightarrow>
   \<exists>fs r. ts = toks_list fs @ Close # r
     \<and> (0 < d \<longrightarrow> required_loop (Suc 0) d (q + cells_list fs) r = Some m)"
proof (induction ts arbitrary: d q rule: length_induct)
  case (1 ts)
  have IH: "\<exists>fs r. us = toks_list fs @ Close # r
      \<and> (0 < e \<longrightarrow> required_loop (Suc 0) e (p + cells_list fs) r = Some m)"
    if "length us < length ts" "required_loop (Suc 0) (Suc e) p us = Some m" for us e p
    using 1(1) that by blast
  have atom: "\<exists>fs r. ts = toks_list fs @ Close # r
      \<and> (0 < d \<longrightarrow> required_loop (Suc 0) d (q + cells_list fs) r = Some m)"
    if ts: "ts = toks f @ us" and c: "cells_of f = 0" for f us
  proof -
    have "required_loop (Suc 0) (Suc d) (Suc q) us = Some m"
      using 1(2) required_toks [of 0 d q f us] by (simp add: ts c)
    then obtain fs r where "us = toks_list fs @ Close # r"
        "0 < d \<longrightarrow> required_loop (Suc 0) d (Suc q + cells_list fs) r = Some m"
      using IH [of us d "Suc q"] ts by auto
    then show ?thesis using ts c by (intro exI [of _ "f # fs"] exI [of _ r]) simp
  qed
  show ?case
  proof (cases ts)
    case Nil
    with 1(2) show ?thesis by simp
  next
    case (Cons t us)
    show ?thesis
    proof (cases t)
      case Close
      have "0 < d \<Longrightarrow> required_loop (Suc 0) d q us = Some m"
        using 1(2) Cons Close by (simp add: required_index [of "Suc 0"])
      then show ?thesis using Cons Close by (intro exI [of _ "[]"] exI [of _ us]) simp
    next
      case Open
      have "required_loop (Suc 0) (Suc (Suc d)) (Suc q) us = Some m"
        using 1(2) Cons Open by (simp add: required_index [of "Suc 0"])
      then obtain fs r where r: "us = toks_list fs @ Close # r"
          "required_loop (Suc 0) (Suc d) (Suc q + cells_list fs) r = Some m"
        using IH [of us "Suc d" "Suc q"] Cons by auto
      then obtain gs r' where "r = toks_list gs @ Close # r'"
          "0 < d \<longrightarrow> required_loop (Suc 0) d (Suc q + cells_list fs + cells_list gs) r' = Some m"
        using IH [of r d "Suc q + cells_list fs"] Cons by auto
      then show ?thesis
        using Cons Open r(1) by (intro exI [of _ "FList fs # gs"] exI [of _ r']) (simp add: ac_simps)
    next
      case (Atom a)
      then show ?thesis using atom [of "FAtom a" us] Cons by simp
    next
      case (StrLit v)
      then show ?thesis using atom [of "FStr v" us] Cons by simp
    qed
  qed
qed

lemma required_Some_cases:
  assumes "required_cons_cells ts = Some q"
  obtains (empty) "ts = []" | (close) r where "ts = Close # r"
  | (form) f r where "ts = toks f @ r" "q = cells_of f"
proof (cases ts)
  case (Cons t us)
  show thesis
  proof (cases t)
    case Open
    have "required_loop (Suc 0) (Suc 0) 0 us = Some q"
      using assms Cons Open by (simp add: required_cons_cells_def)
    then obtain fs r where "us = toks_list fs @ Close # r"
      using required_Some_split [of 0 0 us q] by blast
    then have "ts = toks (FList fs) @ r" using Cons Open by simp
    then show thesis
      by (rule form [of "FList fs" r]) (use \<open>ts = toks (FList fs) @ r\<close> assms required_complete [of "FList fs" r] in auto)
  next
    case (Atom a)
    then show thesis
      using form [of "FAtom a" us] assms required_complete [of "FAtom a" us] Cons by simp
  next
    case (StrLit v)
    then show thesis
      using form [of "FStr v" us] assms required_complete [of "FStr v" us] Cons by simp
  qed (use close Cons in simp)
qed (use empty in simp)

section \<open>Reading one form\<close>

text \<open>With cells left over from earlier forms, and with too few of them.\<close>

lemma read_one_free:
  assumes "tokenize source = Inr (toks f)" and "read_ok c s"
    and "read_room c s (length (toks f) + k)"
    and "cells_of f \<le> arena_free (rs_arena s)" and "cells_of f \<le> ARENA_CELLS"
  shows "\<exists>t s'. read_one c unprintable source s = (Inr (word_of t), s')
    \<and> read_result c s s' k (cells_of f) t \<and> denotes c (rs_symbols s') (rs_boxed s') t f"
proof -
  obtain t s' where "parse_form c (parse_fuel (toks f)) (toks f) s = (Inr (word_of t, []), s')"
    "read_result c s s' k (cells_of f) t" "denotes c (rs_symbols s') (rs_boxed s') t f"
    using parse_form_ok [of c s f k "parse_fuel (toks f)" "[]"] assms(2-4)
    by (auto simp: parse_fuel_def)
  then show ?thesis
    using assms(1,5) required_complete [of f "[]"]
    by (intro exI [of _ t] exI [of _ s'])
      (simp add: read_one_def wsm_arena_capacity_def Let_def)
qed

lemma read_one_exhausted:
  assumes "tokenize source = Inr (toks f)" and "read_ok c s" and "read_room c s (length (toks f))"
    and "arena_free (rs_arena s) < cells_of f" and "cells_of f \<le> ARENA_CELLS"
  shows "\<exists>s'. read_one c unprintable source s = (Inl (Abort (Process_Exit 97 1 0 0)), s')"
proof -
  obtain s1 where "parse_form c (parse_fuel (toks f)) (toks f @ []) s
      = (Inl (Abort (Process_Exit 97 1 0 0)), s1)"
    using parse_form_overflow [of c s f "parse_fuel (toks f)" "[]"] assms(2-4)
    by (auto simp: parse_fuel_def)
  then show ?thesis
    using assms(1,5) required_complete [of f "[]"]
    by (simp add: read_one_def wsm_arena_capacity_def Let_def)
qed

lemma read_one_ok:
  assumes "tokenize source = Inr (toks f)" and "read_ok c s"
    and "read_room c s (length (toks f) + k)"
    and "arena_used (rs_arena s) = 0" and "cells_of f \<le> ARENA_CELLS"
  shows "\<exists>t s'. read_one c unprintable source s = (Inr (word_of t), s')
    \<and> read_result c s s' k (cells_of f) t \<and> denotes c (rs_symbols s') (rs_boxed s') t f"
  using read_one_free [OF assms(1-3) _ assms(5)] assms(4,5) by (simp add: arena_free_def)

lemma read_one_too_large:
  assumes "tokenize source = Inr (toks f)" and "ARENA_CELLS < cells_of f"
  shows "read_one c unprintable source s =
    (Inl (Raise (ArenaCapacityExceeded (cells_of f) ARENA_CELLS)), s)"
  using assms required_complete [of f "[]"] by (simp add: read_one_def wsm_arena_capacity_def Let_def)

lemma read_one_unclosed:
  assumes "tokenize source = Inr (Open # toks f)" and "read_ok c s"
    and "read_room c s (length (toks f))" and "ARENA_CELLS < cells_of f"
  shows "\<exists>s'. read_one c unprintable source s = (Inl (Abort (Process_Exit 97 1 0 0)), s')"
proof -
  have "arena_free (rs_arena s) < cells_of f" using assms(4) by (simp add: arena_free_def)
  then obtain s1 where "parse_form c (2 * length (toks f) + 2) (toks f @ []) s
      = (Inl (Abort (Process_Exit 97 1 0 0)), s1)"
    using parse_form_overflow [of c s f "2 * length (toks f) + 2" "[]"] assms(2,3) by auto
  moreover obtain x xs where "toks f = x # xs" "x \<noteq> Close" using toks_hd_not_Close by blast
  ultimately have "parse_form c (parse_fuel (Open # toks f)) (Open # toks f) s
      = (Inl (Abort (Process_Exit 97 1 0 0)), s1)"
    by (cases x) (simp_all add: parse_fuel_def)
  then show ?thesis
    using assms(1) required_unclosed [of "[f]"] by (simp add: read_one_def Let_def)
qed

text \<open>Whenever the preflight yields a count, reading ends with a word or an ordinary error.\<close>

lemma read_one_no_abort:
  assumes "tokenize source = Inr ts" and "required_cons_cells ts \<noteq> None"
    and "read_ok c s" and "read_room c s (length ts)" and "arena_used (rs_arena s) = 0"
  shows "\<exists>r s'. read_one c unprintable source s = (r, s') \<and> read_ok c s'
    \<and> (\<forall>f. r \<noteq> Inl (Abort f))"
proof -
  obtain q where q: "required_cons_cells ts = Some q" using assms(2) by blast
  show ?thesis
  proof (cases "ARENA_CELLS < q")
    case True
    then show ?thesis
      using assms(1,3) q by (simp add: read_one_def wsm_arena_capacity_def Let_def)
  next
    case False
    note small = this
    from q show ?thesis
    proof (cases rule: required_Some_cases)
      case empty
      then show ?thesis
        using assms(1,3) q small
        by (simp add: read_one_def wsm_arena_capacity_def Let_def parse_fuel_def)
    next
      case (close r)
      then show ?thesis
        using assms(1,3) q small
        by (simp add: read_one_def wsm_arena_capacity_def Let_def parse_fuel_def)
    next
      case (form f r)
      have "cells_of f \<le> arena_free (rs_arena s)"
        using assms(5) small form(2) by (simp add: arena_free_def)
      then obtain t s' where "parse_form c (parse_fuel ts) (toks f @ r) s = (Inr (word_of t, r), s')"
          "read_result c s s' (length r) (cells_of f) t"
        using parse_form_ok [of c s f "length r" "parse_fuel ts" r] assms(3,4) form(1)
        by (auto simp: parse_fuel_def)
      then show ?thesis
        using assms(1) q small form(1)
        by (simp add: read_one_def wsm_arena_capacity_def Let_def read_result_def)
    qed
  qed
qed

text \<open>A word is returned only for text whose tokens are exactly those of one form.\<close>

lemma read_one_sound:
  assumes "read_one c unprintable source s = (Inr w, s')"
  shows "\<exists>f. tokenize source = Inr (toks f) \<and> cells_of f \<le> ARENA_CELLS"
proof -
  obtain ts where ts: "tokenize source = Inr ts"
    using assms by (auto simp: read_one_def split: sum.splits)
  then obtain r where p: "parse_form c (parse_fuel ts) ts s = (Inr (w, r), s')" "r = []"
    and small: "\<And>q. required_cons_cells ts = Some q \<Longrightarrow> q \<le> ARENA_CELLS"
    using assms by (auto simp: read_one_def wsm_arena_capacity_def Let_def
        split: option.splits if_splits prod.splits sum.splits)
  then obtain f where "ts = toks f" using parse_complete(1) [OF p(1)] by auto
  then show ?thesis using ts small required_complete [of f "[]"] by auto
qed

end
