(* ===== verification/Reader_Safe.thy ===== *)
theory Reader_Safe
  imports Reader_Correct
begin

text \<open>
  What reading does on every input, accepted or not: the tables stay well formed and grow only
  by text of the source, and the only fatal outcome is the exit for a full arena.
\<close>

section \<open>Invariants of the parser\<close>

text \<open>
  An invariant on the tokens still to read and the state, kept by the three ways in which the
  parser changes the state; \<open>full\<close> is how an allocation fails.
\<close>

locale parser_invariant =
  fixes c :: codec
    and J :: "token list \<Rightarrow> read_state \<Rightarrow> bool"
    and full :: fatal
  assumes skip: "J (t # ts) s \<Longrightarrow> J ts s"
    and atom: "J (Atom a # ts) s \<Longrightarrow> atom_to_word a (rs_symbols s) = (w, st) \<Longrightarrow>
      J ts (s\<lparr>rs_symbols := st\<rparr>)"
    and string: "J (StrLit v # ts) s \<Longrightarrow>
      \<exists>w b. add_string c (rs_boxed s) v = (Inr w, b) \<and> J ts (s\<lparr>rs_boxed := b\<rparr>)"
    and pair: "J ts s \<Longrightarrow> wsm_cons (rs_arena s) x y = Inr (p, A) \<Longrightarrow> J ts (s\<lparr>rs_arena := A\<rparr>)"
    and no_pair: "J ts s \<Longrightarrow> wsm_cons (rs_arena s) x y = Inl f \<Longrightarrow> f = full"
begin

definition kept :: "(read_error stop + (u64 \<times> token list)) \<times> read_state \<Rightarrow> bool" where
  "kept = (\<lambda>(r, s). case r of
     Inr (w, rest) \<Rightarrow> J rest s
   | Inl (Raise e) \<Rightarrow> (\<exists>ts. J ts s)
   | Inl (Abort f) \<Rightarrow> (\<exists>ts. J ts s) \<and> (f = full \<or> f = Out_Of_Fuel))"

lemma kept_simps [simp]:
  "kept (Inr (w, rest), s) \<longleftrightarrow> J rest s"
  "kept (Inl (Raise e), s) \<longleftrightarrow> (\<exists>ts. J ts s)"
  "kept (Inl (Abort f), s) \<longleftrightarrow> (\<exists>ts. J ts s) \<and> (f = full \<or> f = Out_Of_Fuel)"
  by (simp_all add: kept_def)

lemma kept_Inl: "kept (Inl e, s) \<Longrightarrow> kept (Inl e, s)"
  by simp

lemma parse_kept:
  "J ts s \<Longrightarrow> kept (parse_form c n ts s)"
  "J ts s \<Longrightarrow> kept (parse_list c n ts s)"
proof (induction n arbitrary: ts s and ts s)
  case (Suc n)
  {
    case 1
    show ?case
    proof (cases ts)
      case (Cons t us)
      show ?thesis
      proof (cases t)
        case (Atom a)
        obtain w st where "atom_to_word a (rs_symbols s) = (w, st)" by fastforce
        then show ?thesis using 1 Cons Atom atom by auto
      next
        case (StrLit v)
        then show ?thesis using 1 Cons string [of v us s] by auto
      qed (use 1 Cons skip Suc.IH(2) in auto)
    qed (use 1 in auto)
  next
    case 2
    show ?case
    proof (cases "ts = [] \<or> (\<exists>us. ts = Close # us)")
      case True
      then show ?thesis using 2 skip by auto
    next
      case False
      have form: "kept (parse_form c n ts s)" by (rule Suc.IH(1) [OF 2])
      show ?thesis
      proof (cases "parse_form c n ts s")
        case (Pair r s1)
        show ?thesis
        proof (cases r)
          case (Inl e)
          then show ?thesis
            using form Pair False by (auto split: list.splits token.splits)
        next
          case (Inr wr)
          then obtain w r1 where wr: "parse_form c n ts s = (Inr (w, r1), s1)"
            using Pair by (cases wr) simp
          then have "kept (parse_list c n r1 s1)" using form Suc.IH(2) by simp
          then show ?thesis
            using wr False pair no_pair
            by (cases "parse_list c n r1 s1")
              (auto split: list.splits token.splits sum.splits prod.splits)
        qed
      qed
    qed
  }
qed auto

end

section \<open>Well-formed state, room and text\<close>

definition token_text_ok :: "token \<Rightarrow> bool" where
  "token_text_ok t \<longleftrightarrow> (case t of Atom a \<Rightarrow> text_ok a | StrLit v \<Rightarrow> text_ok v | _ \<Rightarrow> True)"

text \<open>
  Relative to the state \<open>s0\<close> in which reading began: well-formed tables with room for what is
  left, only text of the source added, the boxed table grown by transient strings.
\<close>

definition grown :: "boxed_table \<Rightarrow> boxed_table \<Rightarrow> bool" where
  "grown b b' \<longleftrightarrow> (\<exists>es. b' = b @ map Some es \<and> list_all entry_text_ok es
     \<and> list_all (\<lambda>e. entry_lifetime e = Transient) es)"

lemma grown_refl [simp]: "grown b b"
  unfolding grown_def by (rule exI [of _ "[]"]) simp

lemma grown_add:
  assumes "grown b b'" and "entry_text_ok e" and "entry_lifetime e = Transient"
  shows "grown b (b' @ [Some e])"
proof -
  obtain es where "b' = b @ map Some es" "list_all entry_text_ok es"
      "list_all (\<lambda>e. entry_lifetime e = Transient) es"
    using assms(1) by (auto simp: grown_def)
  then show ?thesis using assms(2,3) unfolding grown_def by (intro exI [of _ "es @ [e]"]) simp
qed

lemma boxed_text_ok_Somes: "boxed_text_ok (map Some es) \<longleftrightarrow> list_all entry_text_ok es"
  by (induction es) simp_all

lemma grown_text_ok: "grown b b' \<Longrightarrow> boxed_text_ok b \<Longrightarrow> boxed_text_ok b'"
  by (auto simp: grown_def boxed_text_ok_Somes)

definition reading :: "codec \<Rightarrow> read_state \<Rightarrow> token list \<Rightarrow> read_state \<Rightarrow> bool" where
  "reading c s0 ts s \<longleftrightarrow> read_ok c s \<and> read_room c s (length ts) \<and> list_all token_text_ok ts
     \<and> names_text_ok (rs_symbols s) \<and> arena_base (rs_arena s) = arena_base (rs_arena s0)
     \<and> grown (rs_boxed s0) (rs_boxed s)
     \<and> (\<forall>v m. name_of (rs_symbols s0) v = Some m \<longrightarrow> name_of (rs_symbols s) v = Some m)"

interpretation reader: parser_invariant c "reading c s0" "Process_Exit 97 1 0 0"
  for c s0
proof unfold_locales
  fix t ts s assume "reading c s0 (t # ts) s"
  then show "reading c s0 ts s" by (auto simp: reading_def read_room_def)
next
  fix a ts s w st
  assume J: "reading c s0 (Atom a # ts) s" and w: "atom_to_word a (rs_symbols s) = (w, st)"
  have ok: "read_ok c s" and room: "read_room c s (Suc (length ts))" and a: "text_ok a"
    using J by (simp_all add: reading_def token_text_ok_def)
  obtain s' where s': "parse_form c 1 (Atom a # ts) s = (Inr (w, ts), s')"
      "read_result c s s' (length ts) 0 (Leaf w)"
    using parse_atom [OF ok room, of 0 a ts] w by auto
  then have "s' = s\<lparr>rs_symbols := st\<rparr>" using w by simp
  moreover have "names_text_ok st"
    using J a w names_text_ok_intern [of "rs_symbols s" a w st]
    by (auto simp: atom_to_word_def reading_def split: if_splits option.splits)
  ultimately show "reading c s0 ts (s\<lparr>rs_symbols := st\<rparr>)"
    using J s'(2) by (auto simp: reading_def read_result_def extends_def)
next
  fix v ts s
  assume J: "reading c s0 (StrLit v # ts) s"
  have ok: "read_ok c s" and room: "read_room c s (Suc (length ts))" and v: "text_ok v"
    using J by (simp_all add: reading_def token_text_ok_def)
  let ?e = "\<lparr>entry_value = Str v, entry_lifetime = Transient\<rparr>"
  obtain w s' where s': "parse_form c 1 (StrLit v # ts) s = (Inr (w, ts), s')"
      "read_result c s s' (length ts) 0 (Leaf w)"
    using parse_string [OF ok room, of 0 v ts] by auto
  then obtain b where b: "add_string c (rs_boxed s) v = (Inr w, b)" "s' = s\<lparr>rs_boxed := b\<rparr>"
    by (auto split: prod.splits sum.splits)
  have add: "b = rs_boxed s @ [Some ?e]"
    using boxed_add_table [of c "rs_boxed s" ?e] b(1) by (simp add: add_string_def)
  have "grown (rs_boxed s0) b"
    unfolding add by (rule grown_add) (use J v in \<open>simp_all add: reading_def entry_text_ok_def\<close>)
  then have "reading c s0 ts (s\<lparr>rs_boxed := b\<rparr>)"
    using J s'(2) b(2) by (simp add: reading_def read_result_def)
  then show "\<exists>w b. add_string c (rs_boxed s) v = (Inr w, b) \<and> reading c s0 ts (s\<lparr>rs_boxed := b\<rparr>)"
    using b(1) by blast
next
  fix ts s a d p A
  assume J: "reading c s0 ts s" and p: "wsm_cons (rs_arena s) a d = Inr (p, A)"
  have ok: "arena_ok (rs_arena s)" using J by (simp add: reading_def read_ok_def)
  show "reading c s0 ts (s\<lparr>rs_arena := A\<rparr>)"
    using J wsm_cons_state [OF ok p] by (auto simp: reading_def read_ok_def read_room_def)
next
  fix ts s a d f
  assume J: "reading c s0 ts s" and f: "wsm_cons (rs_arena s) a d = Inl f"
  have ok: "arena_ok (rs_arena s)" using J by (simp add: reading_def read_ok_def)
  then show "f = Process_Exit 97 1 0 0"
    using f cells.alloc_some [OF ok, of a d] cells.alloc_full [OF ok, of a d]
    by (cases "arena_free (rs_arena s) = 0") auto
qed

section \<open>The errors of the parser\<close>

lemma parse_errors:
  "parse_form c n ts s = (Inl (Raise e), s') \<Longrightarrow> e = UnexpectedEof \<or> e = UnexpectedCloseParen"
  "parse_list c n ts s = (Inl (Raise e), s') \<Longrightarrow> e = UnexpectedEof \<or> e = UnexpectedCloseParen"
proof (induction n arbitrary: ts s s' and ts s s')
  case (Suc n)
  {
    case 1
    then show ?case
      using Suc.IH(2) [of "tl ts" s s']
      by (cases ts) (auto split: token.splits prod.splits sum.splits)
  next
    case 2
    show ?case
    proof (cases "ts = [] \<or> (\<exists>us. ts = Close # us)")
      case True
      then show ?thesis using 2 by auto
    next
      case False
      then show ?thesis
        using 2 Suc.IH(1) [of ts s s'] Suc.IH(2)
        by (fastforce split: list.splits token.splits prod.splits sum.splits)
    qed
  }
qed simp_all

section \<open>The text of tokens\<close>

lemma string_body_chars:
  "string_body acc cs = Some (v, r) \<Longrightarrow> set v \<subseteq> set acc \<union> set cs \<and> set r \<subseteq> set cs"
proof (induction acc cs rule: string_body.induct)
  case (2 acc c cs)
  show ?case
  proof (cases "c = 34 \<or> c \<noteq> 92")
    case True
    then show ?thesis using 2 by (cases "c = 34") auto
  next
    case False
    then obtain e cs' where cs: "cs = e # cs'" using "2.prems" by (cases cs) auto
    consider "e = 34" | "e = 92" | "e \<noteq> 34" "e \<noteq> 92" by blast
    then show ?thesis using False cs 2 by cases auto
  qed
qed simp

lemma tokenize_text_ok:
  "tokenize s = Inr ts \<Longrightarrow> text_ok s \<Longrightarrow> list_all token_text_ok ts \<and> length ts \<le> length s"
proof (induction s arbitrary: ts rule: tokenize.induct)
  case (2 c cs)
  note IH = "2.IH"
  have cs: "text_ok cs" and c: "valid_scalar c" "c \<noteq> 0" using "2.prems"(2) by simp_all
  consider (blank) "is_whitespace c" | (lpar) "\<not> is_whitespace c" "c = 40"
    | (rpar) "\<not> is_whitespace c" "c = 41" | (quoted) "\<not> is_whitespace c" "c = 34"
    | (atom) "\<not> is_whitespace c" "c \<noteq> 40" "c \<noteq> 41" "c \<noteq> 34" by blast
  then show ?case
  proof cases
    case blank
    then show ?thesis using IH(1) "2.prems"(1) cs by force
  next
    case lpar
    then obtain us where "tokenize cs = Inr us" "ts = Open # us"
      using "2.prems"(1) by (auto simp: and_then_Inr_iff)
    then show ?thesis using IH(2) lpar cs by (simp add: token_text_ok_def)
  next
    case rpar
    then obtain us where "tokenize cs = Inr us" "ts = Close # us"
      using "2.prems"(1) by (auto simp: and_then_Inr_iff)
    then show ?thesis using IH(3) rpar cs by (simp add: token_text_ok_def)
  next
    case quoted
    then obtain v r us where v: "string_body [] cs = Some (v, r)" "tokenize r = Inr us" "ts = StrLit v # us"
      using "2.prems"(1) by (auto simp: and_then_Inr_iff split: option.splits)
    have "text_ok v" "text_ok r"
      using string_body_chars [OF v(1)] text_ok_subset [OF cs] by auto
    then show ?thesis
      using IH(4) [OF _ _ _ _ v(1) refl v(2)] quoted v string_body_shorter [OF v(1)]
      by (simp add: token_text_ok_def)
  next
    case atom
    let ?P = "\<lambda>x. \<not> is_delimiter x"
    obtain us where us: "tokenize (dropWhile ?P cs) = Inr us" "ts = Atom (c # takeWhile ?P cs) # us"
      using "2.prems"(1) atom by (auto simp: and_then_Inr_iff)
    have "text_ok (dropWhile ?P cs)" "text_ok (takeWhile ?P cs)"
      using text_ok_subset [OF cs] set_dropWhileD set_takeWhileD by (metis subsetI)+
    then show ?thesis
      using IH(5) [OF _ _ _ _ us(1)] atom us c length_dropWhile_le [of ?P cs]
      by (simp add: token_text_ok_def)
  qed
qed simp

section \<open>Reading any text\<close>

theorem read_one_outcome:
  assumes "text_ok source" and "read_ok c s" and "names_text_ok (rs_symbols s)"
    and "read_room c s (length source)"
  shows "\<exists>r s'. read_one c unprintable source s = (r, s')
    \<and> reading c s [] s' \<and> (\<forall>f. r = Inl (Abort f) \<longrightarrow> f = Process_Exit 97 1 0 0)"
proof (cases "tokenize source")
  case (Inl e)
  then show ?thesis using assms by (simp add: read_one_def reading_def read_room_def)
next
  case (Inr ts)
  note ts = tokenize_text_ok [OF Inr assms(1)]
  have start: "reading c s ts s"
    using assms ts by (auto simp: reading_def read_room_def)
  have weaken: "reading c s [] s'" if "reading c s us s'" for us s'
    using that by (auto simp: reading_def read_room_def)
  obtain r s' where p: "parse_form c (parse_fuel ts) ts s = (r, s')" by fastforce
  have kept: "reader.kept c s (r, s')" using reader.parse_kept(1) [OF start] p by metis
  have fuel: "r \<noteq> Inl (Abort Out_Of_Fuel)"
    using parse_fuel_enough(1) [of ts "parse_fuel ts" c s] p by (simp add: parse_fuel_def)
  have "\<exists>us. reading c s us s'" and "\<forall>f. r = Inl (Abort f) \<longrightarrow> f = Process_Exit 97 1 0 0"
    using kept fuel by (auto simp: reader.kept_def split: sum.splits stop.splits)
  then show ?thesis
    using Inr p weaken start
    by (auto simp: read_one_def Let_def split: option.splits sum.splits)
qed

end
