(* ===== verification/Reader_Exact.thy ===== *)
theory Reader_Exact
  imports Reader_Safe
begin

text \<open>
  The exact outcome of the reader on every text: each token sequence is a complete form and a
  rest, or starts with a closing parenthesis, or breaks off inside open lists; in the last case
  only the complete forms inside the open lists have taken cells, and their number decides
  between an ordinary error and the exit for a full arena.
\<close>

section \<open>The three shapes of a token sequence\<close>

text \<open>Open lists, from the outside in, each with the complete forms that it has so far.\<close>

definition pending_toks :: "form list list \<Rightarrow> token list" where
  "pending_toks fss = concat (map (\<lambda>fs. Open # toks_list fs) fss)"

definition pending_cells :: "form list list \<Rightarrow> nat" where
  "pending_cells fss = sum_list (map (\<lambda>fs. sum_list (map cells_of fs)) fss)"

lemma pending_simps [simp]:
  "pending_toks [] = []" "pending_toks (fs # fss) = Open # toks_list fs @ pending_toks fss"
  "pending_cells [] = 0" "pending_cells (fs # fss) = sum_list (map cells_of fs) + pending_cells fss"
  by (simp_all add: pending_toks_def pending_cells_def)

lemma forms_then_rest:
  "\<exists>fs r. ts = toks_list fs @ r \<and> ((\<exists>us. r = Close # us) \<or> (\<exists>fss. r = pending_toks fss))"
proof (induction ts rule: length_induct)
  case (1 ts)
  have prepend: "\<exists>fs r. ts = toks_list fs @ r \<and> ((\<exists>us. r = Close # us) \<or> (\<exists>fss. r = pending_toks fss))"
    if "ts = toks f @ us" for f us
  proof -
    have "length us < length ts" using that by simp
    then obtain fs r where "us = toks_list fs @ r"
        "(\<exists>us. r = Close # us) \<or> (\<exists>fss. r = pending_toks fss)" using 1 by blast
    then show ?thesis using that by (intro exI [of _ "f # fs"] exI [of _ r]) simp
  qed
  show ?case
  proof (cases ts)
    case Nil
    then show ?thesis by (intro exI [of _ "[]"] exI [of _ "[]"]) (auto intro: exI [of _ "[]"])
  next
    case (Cons t us)
    show ?thesis
    proof (cases t)
      case Close
      then show ?thesis using Cons by (intro exI [of _ "[]"] exI [of _ ts]) simp
    next
      case (Atom a)
      then show ?thesis using Cons prepend [of "FAtom a" us] by simp
    next
      case (StrLit v)
      then show ?thesis using Cons prepend [of "FStr v" us] by simp
    next
      case Open
      obtain fs r where r: "us = toks_list fs @ r" "(\<exists>vs. r = Close # vs) \<or> (\<exists>fss. r = pending_toks fss)"
        using 1 Cons by (metis length_Cons lessI)
      from r(2) show ?thesis
      proof (elim disjE exE)
        fix vs assume "r = Close # vs"
        then show ?thesis using Cons Open r(1) prepend [of "FList fs" vs] by simp
      next
        fix fss assume "r = pending_toks fss"
        then have "ts = toks_list [] @ pending_toks (fs # fss)" using Cons Open r(1) by simp
        then show ?thesis by blast
      qed
    qed
  qed
qed

lemma token_shapes:
  obtains (form) f r where "ts = toks f @ r" | (close) r where "ts = Close # r"
  | (pending) fss where "ts = pending_toks fss"
proof -
  obtain fs r where r: "ts = toks_list fs @ r" "(\<exists>us. r = Close # us) \<or> (\<exists>fss. r = pending_toks fss)"
    using forms_then_rest [of ts] by blast
  show thesis
  proof (cases fs)
    case Nil
    then show thesis using r close pending by auto
  next
    case (Cons f gs)
    then show thesis using r(1) form [of f "toks_list gs @ r"] by simp
  qed
qed

lemma required_pending: "fss \<noteq> [] \<Longrightarrow> required_cons_cells (pending_toks fss) = None"
proof -
  have loop: "required_loop (Suc 0) (Suc d) q (toks_list fs @ pending_toks fss) = None" for d q fs fss
  proof (induction fss arbitrary: d q fs)
    case Nil
    show ?case using required_toks_list [of 0 d q fs "[]"] by simp
  next
    case (Cons gs fss)
    show ?case
      using required_toks_list [of 0 d q fs "pending_toks (gs # fss)"] Cons.IH
      by (simp add: required_index [of "Suc 0"])
  qed
  assume "fss \<noteq> []"
  then obtain fs gss where "fss = fs # gss" by (cases fss) auto
  then show ?thesis using loop [of 0 0 fs gss] by (simp add: required_cons_cells_def)
qed

section \<open>The parser on unfinished input\<close>

lemma parse_list_pending:
  assumes "read_ok c s" and "read_room c s (length (toks_list fs @ pending_toks fss))"
    and "2 * length (toks_list fs @ pending_toks fss) < n"
  shows "fst (parse_list c n (toks_list fs @ pending_toks fss) s) =
    Inl (if pending_cells (fs # fss) \<le> arena_free (rs_arena s) then Raise UnexpectedEof
         else Abort (Process_Exit 97 1 0 0))"
  using assms
proof (induction "length (toks_list fs @ pending_toks fss)" arbitrary: fs fss n s rule: less_induct)
  case less
  obtain m where m: "n = Suc m" using less.prems(3) by (cases n) auto
  show ?case
  proof (cases fs)
    case (Cons f gs)
    let ?r = "toks_list gs @ pending_toks fss"
    obtain x xs where x: "toks f = x # xs" "x \<noteq> Close" using toks_hd_not_Close by blast
    have ts: "toks_list fs @ pending_toks fss = toks f @ ?r" using Cons by simp
    show ?thesis
    proof (cases "arena_free (rs_arena s) < cells_of f")
      case True
      have "read_room c s (length (toks f))" using less.prems(2) Cons by (simp add: read_room_def)
      then obtain s' where "parse_form c m (toks f @ ?r) s = (Inl (Abort (Process_Exit 97 1 0 0)), s')"
        using parse_form_overflow [of c s f m ?r] less.prems(1,3) True m Cons by auto
      then show ?thesis using x m Cons True by (cases x) simp_all
    next
      case False
      obtain t s1 where t: "parse_form c m (toks f @ ?r) s = (Inr (word_of t, ?r), s1)"
          "read_result c s s1 (length ?r) (cells_of f) t"
        using parse_form_ok [of c s f "length ?r" m ?r] less.prems False m Cons by auto
      then have s1: "read_ok c s1" "read_room c s1 (length ?r)"
        "arena_free (rs_arena s) = arena_free (rs_arena s1) + cells_of f"
        by (auto simp: read_result_def)
      have "fst (parse_list c m ?r s1) = Inl (if pending_cells (gs # fss) \<le> arena_free (rs_arena s1)
          then Raise UnexpectedEof else Abort (Process_Exit 97 1 0 0))"
        by (rule less.hyps) (use less.prems(3) s1 m x(1) Cons in auto)
      then show ?thesis
        using x m t(1) s1(3) Cons by (cases x) (auto split: prod.split sum.split)
    qed
  next
    case Nil
    show ?thesis
    proof (cases fss)
      case Nil
      then show ?thesis using \<open>fs = []\<close> m by simp
    next
      case (Cons gs gss)
      obtain k where k: "m = Suc k" using less.prems(3) \<open>fs = []\<close> Cons m by (cases m) auto
      have "fst (parse_list c k (toks_list gs @ pending_toks gss) s) =
          Inl (if pending_cells (gs # gss) \<le> arena_free (rs_arena s) then Raise UnexpectedEof
            else Abort (Process_Exit 97 1 0 0))"
        by (rule less.hyps) (use less.prems \<open>fs = []\<close> Cons m k in \<open>auto simp: read_room_def\<close>)
      then show ?thesis
        using \<open>fs = []\<close> Cons m k by (auto split: prod.split sum.split)
    qed
  qed
qed

lemma read_one_pending:
  assumes "tokenize source = Inr (pending_toks fss)" and "read_ok c s"
    and "read_room c s (length (pending_toks fss))"
  shows "fst (read_one c unprintable source s) =
    Inl (if pending_cells fss \<le> arena_free (rs_arena s) then Raise UnexpectedEof
         else Abort (Process_Exit 97 1 0 0))"
proof (cases fss)
  case Nil
  then show ?thesis using assms(1) by (simp add: read_one_def required_cons_cells_def Let_def parse_fuel_def)
next
  case (Cons fs gss)
  let ?n = "Suc (2 * length (toks_list fs @ pending_toks gss) + 2)"
  have fuel: "parse_fuel (pending_toks fss) = Suc ?n"
    using Cons by (simp add: parse_fuel_def)
  have "fst (parse_list c ?n (toks_list fs @ pending_toks gss) s) =
    Inl (if pending_cells (fs # gss) \<le> arena_free (rs_arena s) then Raise UnexpectedEof
         else Abort (Process_Exit 97 1 0 0))"
    by (rule parse_list_pending) (use assms Cons in \<open>auto simp: read_room_def\<close>)
  then have "fst (parse_form c (parse_fuel (pending_toks fss)) (pending_toks fss) s) =
    Inl (if pending_cells fss \<le> arena_free (rs_arena s) then Raise UnexpectedEof
         else Abort (Process_Exit 97 1 0 0))"
    unfolding fuel using Cons by simp
  then show ?thesis
    using assms(1) required_pending [of fss] Cons
    by (cases "parse_form c (parse_fuel (pending_toks fss)) (pending_toks fss) s")
      (auto simp: read_one_def Let_def split: if_splits)
qed

lemma read_one_close:
  "tokenize source = Inr (Close # r) \<Longrightarrow>
     read_one c unprintable source s = (Inl (Raise UnexpectedCloseParen), s)"
  by (simp add: read_one_def required_cons_cells_def Let_def parse_fuel_def)

lemma read_one_trailing:
  assumes "tokenize source = Inr (toks f @ r)" and "r \<noteq> []" and "read_ok c s"
    and "read_room c s (length (toks f))"
    and "cells_of f \<le> arena_free (rs_arena s)" and "cells_of f \<le> ARENA_CELLS"
  shows "fst (read_one c unprintable source s) =
    Inl (Raise (TrailingInput (join_spaces (map (token_text unprintable) r))))"
proof -
  obtain t s' where "parse_form c (parse_fuel (toks f @ r)) (toks f @ r) s = (Inr (word_of t, r), s')"
    using parse_form_ok [of c s f 0 "parse_fuel (toks f @ r)" r] assms(3-5)
    by (auto simp: parse_fuel_def)
  then show ?thesis
    using assms(1,2,6) required_complete [of f r]
    by (simp add: read_one_def wsm_arena_capacity_def Let_def)
qed

lemma read_one_refused:
  assumes "tokenize source = Inr (toks f @ r)" and "ARENA_CELLS < cells_of f"
  shows "read_one c unprintable source s = (Inl (Raise (ArenaCapacityExceeded (cells_of f) ARENA_CELLS)), s)"
  using assms required_complete [of f r] by (simp add: read_one_def wsm_arena_capacity_def Let_def)

section \<open>The outcome on every text\<close>

text \<open>What the reader has to answer for a text, from the shape of its tokens alone.\<close>

inductive verdict :: "(rchar \<Rightarrow> bool) \<Rightarrow> read_error + token list \<Rightarrow> read_error stop + form \<Rightarrow> bool" for unprintable where
  unterminated: "verdict unprintable (Inl UnterminatedString) (Inl (Raise UnterminatedString))"
| too_large: "ARENA_CELLS < cells_of f \<Longrightarrow>
    verdict unprintable (Inr (toks f @ r)) (Inl (Raise (ArenaCapacityExceeded (cells_of f) ARENA_CELLS)))"
| trailing: "cells_of f \<le> ARENA_CELLS \<Longrightarrow> r \<noteq> [] \<Longrightarrow>
    verdict unprintable (Inr (toks f @ r)) (Inl (Raise (TrailingInput (join_spaces (map (token_text unprintable) r)))))"
| accepted: "cells_of f \<le> ARENA_CELLS \<Longrightarrow> verdict unprintable (Inr (toks f)) (Inr f)"
| close: "verdict unprintable (Inr (Close # r)) (Inl (Raise UnexpectedCloseParen))"
| end_of_input: "pending_cells fss \<le> ARENA_CELLS \<Longrightarrow>
    verdict unprintable (Inr (pending_toks fss)) (Inl (Raise UnexpectedEof))"
| full: "ARENA_CELLS < pending_cells fss \<Longrightarrow>
    verdict unprintable (Inr (pending_toks fss)) (Inl (Abort (Process_Exit 97 1 0 0)))"

lemma tokenize_error: "tokenize source = Inl e \<Longrightarrow> e = UnterminatedString"
  by (induction source rule: tokenize.induct)
    (auto simp: and_then_Inl_iff split: if_splits option.splits)

text \<open>Every text has a verdict, and the reader gives it.\<close>

lemma verdict_total: "tokenize source = x \<Longrightarrow> \<exists>v. verdict unprintable x v"
proof (cases x)
  case (Inl e)
  assume "tokenize source = x"
  then show ?thesis using Inl tokenize_error [of source e] verdict.unterminated by auto
next
  case (Inr ts)
  show ?thesis unfolding Inr
  proof (cases ts rule: token_shapes)
    case (form f r)
    then show "\<exists>v. verdict unprintable (Inr ts) v"
      using verdict.too_large [of f unprintable r] verdict.trailing [of f r unprintable] verdict.accepted [of f unprintable]
      by (cases "ARENA_CELLS < cells_of f"; cases "r = []") (fastforce simp: not_less)+
  next
    case (close r)
    then show "\<exists>v. verdict unprintable (Inr ts) v" using verdict.close by blast
  next
    case (pending fss)
    then show "\<exists>v. verdict unprintable (Inr ts) v"
      using verdict.end_of_input [of fss unprintable] verdict.full [of fss unprintable] not_less by blast
  qed
qed

lemma read_one_verdict:
  assumes "text_ok source" and "read_ok c s" and "read_room c s (length source)"
    and "arena_used (rs_arena s) = 0" and "verdict unprintable (tokenize source) v"
  shows "(case v of
      Inl e \<Rightarrow> fst (read_one c unprintable source s) = Inl e
    | Inr f \<Rightarrow> \<exists>t s'. read_one c unprintable source s = (Inr (word_of t), s')
        \<and> read_result c s s' 0 (cells_of f) t \<and> denotes c (rs_symbols s') (rs_boxed s') t f)"
proof -
  have free: "arena_free (rs_arena s) = ARENA_CELLS"
    using assms(4) by (simp add: arena_free_def)
  have room: "read_room c s (length ts)" if "tokenize source = Inr ts" for ts
    using assms(3) tokenize_text_ok [OF that assms(1)] by (auto simp: read_room_def)
  have prefix: "read_room c s (length (toks f))" if "tokenize source = Inr (toks f @ r)" for f r
    using room [OF that] by (simp add: read_room_def)
  from assms(5) show ?thesis
  proof (cases rule: verdict.cases)
    case unterminated
    then show ?thesis by (simp add: read_one_def)
  next
    case (too_large f r)
    then show ?thesis using read_one_refused [of source f r] by simp
  next
    case (trailing f r)
    then show ?thesis using read_one_trailing [of source f r c s] prefix [of f r] assms(2) free by simp
  next
    case (accepted f)
    then show ?thesis
      using read_one_ok [of source f c s 0 unprintable] room [of "toks f"] assms(2,4) by simp
  next
    case (close r)
    then show ?thesis using read_one_close [of source r] by simp
  next
    case (end_of_input fss)
    then show ?thesis using read_one_pending [of source fss c s] room [of "pending_toks fss"] assms(2) free by simp
  next
    case (full fss)
    then show ?thesis using read_one_pending [of source fss c s] room [of "pending_toks fss"] assms(2) free by simp
  qed
qed

text \<open>The shapes exclude each other, so a text has one verdict.\<close>

lemma pending_not_form: "pending_toks fss \<noteq> toks f @ r"
proof
  assume e: "pending_toks fss = toks f @ r"
  then have "fss \<noteq> []" by auto
  then show False using required_pending required_complete [of f r] e by force
qed

lemma pending_not_close: "pending_toks fss \<noteq> Close # r"
  by (cases fss) simp_all

lemma form_not_close: "toks f @ r \<noteq> Close # us"
  using toks_hd_not_Close [of f] by auto

lemma pending_inj: "pending_toks fss = pending_toks gss \<Longrightarrow> pending_cells fss = pending_cells gss"
proof -
  have split: "\<exists>hs. fs = hs \<and> gs = hs \<and> r = r'"
    if "toks_list fs @ r = toks_list gs @ r'" "r = pending_toks fss" "r' = pending_toks gss" for fs gs fss gss r r'
    using that
  proof (induction fs arbitrary: gs)
    case Nil
    then show ?case using pending_not_form [of fss] by (cases gs) auto
  next
    case (Cons f fs)
    then obtain g gs' where gs: "gs = g # gs'"
      using pending_not_form [of gss f "toks_list fs @ r"] by (cases gs) auto
    then show ?case
      using toks_inj [of f "toks_list fs @ r" g "toks_list gs' @ r'"] Cons.prems Cons.IH [of gs'] by auto
  qed
  show "pending_toks fss = pending_toks gss \<Longrightarrow> pending_cells fss = pending_cells gss"
  proof (induction fss arbitrary: gss)
    case Nil
    then show ?case by (cases gss) simp_all
  next
    case (Cons fs fss)
    then obtain gs hss where g: "gss = gs # hss" by (cases gss) auto
    then show ?case using split [OF _ refl refl, of fs fss gs hss] Cons.prems Cons.IH [of hss] by auto
  qed
qed

lemma verdict_unique:
  assumes "verdict unprintable x v" and "verdict unprintable x v'"
  shows "v = v'"
proof -
  note shapes = pending_not_form pending_not_form [symmetric] pending_not_close pending_not_close [symmetric]
    form_not_close form_not_close [symmetric]
    pending_not_form [of _ _ "[]", simplified] pending_not_form [of _ _ "[]", simplified, symmetric]
    form_not_close [of _ "[]", simplified] form_not_close [of _ "[]", simplified, symmetric]
  from assms(1) show ?thesis
  proof (cases rule: verdict.cases)
    case (too_large f r)
    with assms(2) show ?thesis
      by (auto elim!: verdict.cases dest: toks_inj [of f r _ "[]", simplified] toks_inj simp: shapes)
  next
    case (trailing f r)
    with assms(2) show ?thesis
      by (auto elim!: verdict.cases dest: toks_inj [of f r _ "[]", simplified] toks_inj simp: shapes)
  next
    case (accepted f)
    with assms(2) show ?thesis
      by (auto elim!: verdict.cases dest: toks_inj [of f "[]", simplified] toks_inj [of f "[]" _ "[]", simplified] simp: shapes)
  next
    case (end_of_input fss)
    with assms(2) show ?thesis
      by (auto elim!: verdict.cases dest: pending_inj simp: shapes)
  next
    case (full fss)
    with assms(2) show ?thesis
      by (auto elim!: verdict.cases dest: pending_inj simp: shapes)
  next
    case unterminated
    with assms(2) show ?thesis by (auto elim!: verdict.cases)
  next
    case (close r)
    with assms(2) show ?thesis by (auto elim!: verdict.cases simp: shapes)
  qed
qed

text \<open>In particular, the reader accepts exactly the forms that fit.\<close>

lemma reader_accepts_exactly_forms:
  assumes "text_ok source" and "read_ok c s" and "read_room c s (length source)"
    and "arena_used (rs_arena s) = 0"
  shows "(\<exists>w s'. read_one c unprintable source s = (Inr w, s'))
    \<longleftrightarrow> (\<exists>f. tokenize source = Inr (toks f) \<and> cells_of f \<le> ARENA_CELLS)"
proof
  assume "\<exists>w s'. read_one c unprintable source s = (Inr w, s')"
  then show "\<exists>f. tokenize source = Inr (toks f) \<and> cells_of f \<le> ARENA_CELLS"
    using read_one_sound by blast
next
  assume "\<exists>f. tokenize source = Inr (toks f) \<and> cells_of f \<le> ARENA_CELLS"
  then obtain f where f: "tokenize source = Inr (toks f)" "cells_of f \<le> ARENA_CELLS" by blast
  from read_one_verdict [OF assms, of unprintable "Inr f"] f verdict.accepted [OF f(2), of unprintable]
  show "\<exists>w s'. read_one c unprintable source s = (Inr w, s')" by auto
qed

end
