(* ===== verification/Printer_Correct.thy ===== *)
theory Printer_Correct
  imports Printer Forms
begin

text \<open>
  The text of a tree of words, without fuel; the printer produces it for every word whose cells
  lie in the arena, the text of a form that was read is the text of the form, and nothing of the
  host's handles shows in it.
\<close>

section \<open>The text of a tree\<close>

definition print_leaf :: "codec \<Rightarrow> symbol_table \<Rightarrow> boxed_table \<Rightarrow> u64 \<Rightarrow> rstring" where
  "print_leaf c st b v =
     (if tag_of v = TAG_NIL then lit ''()''
      else if tag_of v = TAG_FIXNUM then dec_int (sint (decode_fixnum v))
      else if tag_of v = TAG_SYMBOL then
        (case name_of st v of Some name \<Rightarrow> name | None \<Rightarrow> lit ''#<unknown-symbol:'' @ hex_u64 v @ lit ''>'')
      else if tag_of v = TAG_BOXED then
        (case map_option entry_value (boxed_get_entry c b v) of
           Some (Str s) \<Rightarrow> [34] @ s @ [34]
         | Some (GameHandle h) \<Rightarrow> lit ''#<game-handle>''
         | Some (Rational n d) \<Rightarrow> dec_int (sint n) @ lit ''/'' @ dec_int (sint d)
         | None \<Rightarrow> lit ''#<unknown-boxed:'' @ hex_u64 v @ lit ''>'')
      else lit ''#<unprintable-tag:'' @ dec_nat (unat (tag_of v)) @ lit ''>'')"

fun print_tree :: "codec \<Rightarrow> symbol_table \<Rightarrow> boxed_table \<Rightarrow> node \<Rightarrow> rstring"
  and print_tail :: "codec \<Rightarrow> symbol_table \<Rightarrow> boxed_table \<Rightarrow> node \<Rightarrow> rstring" where
  "print_tree c st b (Leaf v) = print_leaf c st b v"
| "print_tree c st b (Pair p l r) = lit ''('' @ print_tree c st b l @ print_tail c st b r @ lit '')''"
| "print_tail c st b (Leaf v) = (if tag_of v = TAG_NIL then [] else lit '' . '' @ print_leaf c st b v)"
| "print_tail c st b (Pair p l r) = lit '' '' @ print_tree c st b l @ print_tail c st b r"

section \<open>The printer implements it\<close>

lemma write_leaf:
  assumes "tag_of v \<noteq> TAG_CONS"
  shows "write_value c st b A (Suc n) v = Inr (print_leaf c st b v)"
  using assms
  by (auto simp: print_leaf_def kind_of_def get_string_def get_rational_def
      split: option.split boxed_value.split)

lemma write_refines:
  "repr A t \<Longrightarrow> 3 * height t + 4 < n \<Longrightarrow> write_value c st b A n (word_of t) = Inr (print_tree c st b t)"
  "repr A t \<Longrightarrow> 3 * height t + 2 < n \<Longrightarrow>
     write_loop c st b A n first (word_of t) = Inr (case t of
       Leaf v \<Rightarrow> if tag_of v = TAG_NIL then [] else (if first then [] else [32]) @ lit ''. '' @ print_leaf c st b v
     | Pair p l r \<Rightarrow> (if first then [] else [32]) @ print_tree c st b l @ print_tail c st b r)"
proof (induction t arbitrary: n first)
  case (Leaf v)
  {
    case 1
    then show ?case by (cases n) (simp_all add: write_leaf del: write_value.simps)
  next
    case 2
    then obtain k where "n = Suc (Suc k)" by (cases n; cases "n - 1") auto
    with 2 show ?case by (simp add: write_leaf del: write_value.simps)
  }
next
  case (Pair p l r)
  have loop: "write_loop c st b A n first p =
      Inr ((if first then [] else [32]) @ print_tree c st b l @ print_tail c st b r)"
    if rep: "repr A (Pair p l r)" and fuel: "3 * Suc (max (height l) (height r)) + 2 < n" for n first
  proof -
    obtain k where k: "n = Suc k" "3 * height l + 4 < k" "3 * height r + 4 < k"
      using fuel by (cases n) auto
    have tail: "write_loop c st b A k False (word_of r) = Inr (print_tail c st b r)"
      using Pair.IH(4) [of k False] rep k by (cases r) auto
    show ?thesis
      using Pair.IH(1) [of k] tail rep k by (simp add: tag_defs)
  qed
  {
    case 1
    then obtain k where k: "n = Suc (Suc k)" "3 * Suc (max (height l) (height r)) + 2 < k"
      by (cases n; cases "n - 1") auto
    have "tag_of p = TAG_CONS" using 1 by simp
    then show ?case using loop [of k True] 1 k by (simp del: write_loop.simps)
  next
    case 2
    then show ?case using loop [of n first] by simp
  }
qed

lemma value_to_string_tree:
  assumes "arena_ok A" and "repr A t"
  shows "value_to_string c st b A (word_of t) = Inr (print_tree c st b t)"
  unfolding value_to_string_def
  by (rule write_refines(1) [OF assms(2)])
    (use repr_height(2) [OF assms] in \<open>simp add: print_fuel_def\<close>)

section \<open>The text of a form that was read\<close>

text \<open>
  What is printed for a form: integers in canonical decimal, reduced to the 61 bits of a
  fixnum; strings between quotes without escapes.
\<close>

fun shown :: "form \<Rightarrow> rstring" where
  "shown (FAtom a) =
     (case parse_i64 a of
        Some v \<Rightarrow> dec_int (sint (decode_fixnum (encode_fixnum v)))
      | None \<Rightarrow> a)"
| "shown (FStr v) = [34] @ v @ [34]"
| "shown (FList fs) = [40] @ join_spaces (map shown fs) @ [41]"

text \<open>The forms whose text is a fixed point of reading and printing.\<close>

fun canonical :: "form \<Rightarrow> bool" where
  "canonical (FAtom a) \<longleftrightarrow> atom_ok a \<and>
     (case parse_i64 a of
        Some v \<Rightarrow> a = dec_int (sint v) \<and> - (2 ^ 60) \<le> sint v \<and> sint v < 2 ^ 60
      | None \<Rightarrow> True)"
| "canonical (FStr v) \<longleftrightarrow> 34 \<notin> set v \<and> 92 \<notin> set v"
| "canonical (FList fs) \<longleftrightarrow> list_all canonical fs"

lemma escape_plain: "34 \<notin> set v \<Longrightarrow> 92 \<notin> set v \<Longrightarrow> escape_string v = v"
  by (induction v) (auto simp: escape_string_def)

lemma canonical_shown: "canonical f \<Longrightarrow> shown f = render f \<and> form_ok f"
proof (induction f)
  case (FAtom a)
  then show ?case
    using decode_encode_iff by (auto simp: decode_encode_iff [THEN iffD2] split: option.splits)
next
  case (FStr v)
  then show ?case by (simp add: escape_plain)
next
  case (FList fs)
  then have "map shown fs = map render fs" "list_all form_ok fs"
    by (auto simp: list_all_iff)
  then show ?case by (simp del: map_eq_conv)
qed

lemma print_leaf_atom:
  assumes "atom_denotes st a v" and "a \<noteq> lit ''()''"
  shows "print_leaf c st b v = shown (FAtom a)"
  using assms by (auto simp: print_leaf_def atom_denotes_def split: option.splits)

lemma join_spaces_tail:
  "join_spaces (x # xs) = x @ concat (map (\<lambda>y. 32 # y) xs)"
  by (induction xs arbitrary: x) auto

lemma print_denotes:
  "denotes c st b t f \<Longrightarrow> form_ok f \<Longrightarrow> print_tree c st b t = shown f"
  "denotes_list c st b t fs \<Longrightarrow> list_all form_ok fs \<Longrightarrow>
     print_tree c st b t = shown (FList fs) \<and> print_tail c st b t = concat (map (\<lambda>f. 32 # shown f) fs)"
proof (induction c st b t f and c st b t fs rule: denotes_denotes_list.induct)
  case (1 c st b w a)
  then have "a \<noteq> lit ''()''" by (auto simp: atom_ok_def)
  then show ?case using 1 print_leaf_atom by simp
next
  case (3 c st b w v)
  then show ?case by (simp add: print_leaf_def)
next
  case (6 c st b w)
  then show ?case by (simp add: print_leaf_def)
next
  case (9 c st b p l r f fs)
  then show ?case by (simp add: join_spaces_tail comp_def)
qed simp_all

section \<open>Handles stay hidden\<close>

text \<open>The table with every host handle replaced by the null handle.\<close>

definition hide_handles :: "boxed_table \<Rightarrow> boxed_table" where
  "hide_handles b = map (map_option (\<lambda>e. e\<lparr>entry_value :=
     (case entry_value e of GameHandle h \<Rightarrow> GameHandle 0 | v \<Rightarrow> v)\<rparr>)) b"

lemma get_entry_hide:
  "boxed_get_entry c (hide_handles b) w = map_option (\<lambda>e. e\<lparr>entry_value :=
     (case entry_value e of GameHandle h \<Rightarrow> GameHandle 0 | v \<Rightarrow> v)\<rparr>) (boxed_get_entry c b w)"
  by (auto simp: boxed_get_entry_def hide_handles_def Let_def split: option.split)

lemma lookups_hide [simp]:
  "kind_of c (hide_handles b) w = kind_of c b w"
  "get_string c (hide_handles b) w = get_string c b w"
  "get_rational c (hide_handles b) w = get_rational c b w"
  by (auto simp: kind_of_def get_string_def get_rational_def get_entry_hide
      split: option.splits boxed_value.splits)

lemma write_hides:
  "write_value c st (hide_handles b) A n v = write_value c st b A n v"
  "write_list c st (hide_handles b) A n v = write_list c st b A n v"
  "write_loop c st (hide_handles b) A n first v = write_loop c st b A n first v"
  by (induction c st b A n v and c st b A n v and c st b A n first v
      rule: write_value_write_list_write_loop.induct)
    (simp_all cong: and_then_cong option.case_cong boxed_kind.case_cong)

section \<open>No NUL character\<close>

lemma print_leaf_text_ok:
  assumes "names_text_ok st" and "boxed_text_ok b"
  shows "text_ok (print_leaf c st b v)"
proof -
  have "text_ok n" if "name_of st v = Some n" for n
    by (rule name_of_text_ok [OF assms(1) that])
  moreover have "text_ok s" if "boxed_get_entry c b v = Some e" "entry_value e = Str s" for e s
    by (rule get_entry_text_ok [OF assms(2) that])
  ultimately show ?thesis
    by (simp add: print_leaf_def split: option.split boxed_value.split)
qed

lemma print_tree_text_ok:
  "names_text_ok st \<Longrightarrow> boxed_text_ok b \<Longrightarrow> text_ok (print_tree c st b t) \<and> text_ok (print_tail c st b t)"
  by (induction t) (simp_all add: print_leaf_text_ok)

end
