(* ===== verification/Ffi_Correct.thy ===== *)
theory Ffi_Correct
  imports Ffi Host_Correct Reader_Exact Printer_Correct
begin

text \<open>
  The boundary as a whole: the invariant of a process, which every entry point keeps, and the
  outcome of \<open>wsm_eval_string\<close> on arbitrary bytes.
\<close>

section \<open>The invariant\<close>

definition session_ok :: "platform \<Rightarrow> u64 \<Rightarrow> 'h session \<Rightarrow> bool" where
  "session_ok pl p S \<longleftrightarrow> symbols_ok (s_symbols S) \<and> names_text_ok (s_symbols S)
     \<and> boxed_text_ok (s_boxed S)
     \<and> (\<forall>n v. bindings (s_env S) n = Some v \<longrightarrow> tag_of v \<noteq> TAG_CONS)
     \<and> (\<forall>n g. primitives (s_env S) n = Some g \<longrightarrow> (\<exists>f. g = host_closure pl f \<and> callback_ok p f))"

definition process_ok :: "platform \<Rightarrow> 'h process \<Rightarrow> bool" where
  "process_ok pl P \<longleftrightarrow> codec_ok (pl_codec pl) \<and> arena_ok (p_arena P) \<and> p_sessions P 0 = None
     \<and> (\<forall>p S. p_sessions P p = Some S \<longrightarrow> session_ok pl p S)"

text \<open>Room in a session's tables for reading a text of \<open>n\<close> characters.\<close>

definition session_room :: "platform \<Rightarrow> 'h session \<Rightarrow> nat \<Rightarrow> bool" where
  "session_room pl S n \<longleftrightarrow>
     n \<le> symbols_room (s_symbols S) \<and> n \<le> boxed_room (pl_codec pl) (s_boxed S)"

text \<open>
  What an evaluation leaves of a session: the environment untouched, no transient value alive,
  every persistent value and every symbol where it was.
\<close>

definition settled :: "platform \<Rightarrow> 'h session \<Rightarrow> 'h session \<Rightarrow> bool" where
  "settled pl S S' \<longleftrightarrow> s_env S' = s_env S \<and> transient_len (s_boxed S') = 0
     \<and> (\<forall>w e. boxed_get_entry (pl_codec pl) (s_boxed S) w = Some e \<longrightarrow> entry_lifetime e = Persistent \<longrightarrow>
          boxed_get_entry (pl_codec pl) (s_boxed S') w = Some e)
     \<and> (\<forall>v m. name_of (s_symbols S) v = Some m \<longrightarrow> name_of (s_symbols S') v = Some m)"

definition only_session :: "u64 \<Rightarrow> 'h process \<Rightarrow> 'h process \<Rightarrow> bool" where
  "only_session p P P' \<longleftrightarrow> arena_base (p_arena P') = arena_base (p_arena P)
     \<and> (\<forall>q. q \<noteq> p \<longrightarrow> p_sessions P' q = p_sessions P q)"

lemma put_session_simps [simp]:
  "p_sessions (put_session P p S) = (p_sessions P)(p \<mapsto> S)"
  "p_arena (put_session P p S) = p_arena P" "p_host (put_session P p S) = p_host P"
  by (simp_all add: put_session_def)

lemma with_tables_one:
  assumes "p_sessions P p = Some S" and "p_host P' = h" and "p_arena P' = p_arena P"
    and "p_sessions P' = p_sessions P"
  shows "with_tables P' ((tables_of P)(p \<mapsto> b)) = put_session P' p (S\<lparr>s_boxed := b\<rparr>)"
proof -
  have "(case p_sessions P q of None \<Rightarrow> None
      | Some S \<Rightarrow> Some (S\<lparr>s_boxed := (case ((tables_of P)(p \<mapsto> b)) q of Some b \<Rightarrow> b | None \<Rightarrow> s_boxed S)\<rparr>))
    = ((p_sessions P)(p \<mapsto> S\<lparr>s_boxed := b\<rparr>)) q" for q
    using assms(1) by (auto simp: tables_of_def split: option.split)
  from ext [of _ "(p_sessions P)(p \<mapsto> S\<lparr>s_boxed := b\<rparr>)", OF this] show ?thesis
    unfolding with_tables_def put_session_def assms(4) by (simp only:)
qed

section \<open>The stages\<close>

lemma grown_persistent:
  assumes "grown (clear_transient b) b'" and "boxed_get_entry c b w = Some e"
    and "entry_lifetime e = Persistent"
  shows "boxed_get_entry c b' w = Some e"
proof -
  have "boxed_get_entry c (clear_transient b) w = Some e"
    using assms(2,3) by (simp add: boxed_get_entry_clear)
  then show ?thesis using assms(1) boxed_get_append by (auto simp: grown_def)
qed

lemma read_one_tree:
  assumes "read_one c unprintable source s = (Inr w, s')" and "read_ok c s"
    and "read_room c s (length source)" and "text_ok source" and "arena_used (rs_arena s) = 0"
  shows "\<exists>t. word_of t = w \<and> repr (rs_arena s') t \<and> code_tree (rs_symbols s') t"
proof -
  obtain f where f: "tokenize source = Inr (toks f)" "cells_of f \<le> ARENA_CELLS"
    using read_one_sound [OF assms(1)] by blast
  have "length (toks f) \<le> length source" using tokenize_text_ok [OF f(1) assms(4)] by simp
  then have "read_room c s (length (toks f) + 0)" using assms(3) by (auto simp: read_room_def)
  from read_one_ok [OF f(1) assms(2) this assms(5) f(2), of unprintable] assms(1)
  show ?thesis by (auto simp: read_result_def dest: denotes_code(1))
qed

lemma read_stage_outcome:
  assumes "process_ok pl P" and "p_sessions P p = Some S" and "text_ok text"
    and "session_room pl S (length text)"
  defines "s0 \<equiv> \<lparr>rs_symbols = s_symbols S, rs_boxed = clear_transient (s_boxed S),
    rs_arena = wsm_arena_reset (p_arena P)\<rparr>"
  obtains r s where "read_stage pl P p S text = (r, put_session (P\<lparr>p_arena := rs_arena s\<rparr>) p
      (S\<lparr>s_symbols := rs_symbols s, s_boxed := rs_boxed s\<rparr>))"
    "read_one (pl_codec pl) (pl_unprintable pl) text s0 = (r, s)"
    "reading (pl_codec pl) s0 [] s" "\<forall>f. r = Inl (Abort f) \<longrightarrow> f = Process_Exit 97 1 0 0"
    "\<forall>w. r = Inr w \<longrightarrow> (\<exists>t. word_of t = w \<and> repr (rs_arena s) t \<and> code_tree (rs_symbols s) t)"
proof -
  have S: "session_ok pl p S" using assms(1,2) by (simp add: process_ok_def)
  have ok: "read_ok (pl_codec pl) s0" and names: "names_text_ok (rs_symbols s0)"
    and room: "read_room (pl_codec pl) s0 (length text)" and empty: "arena_used (rs_arena s0) = 0"
    using assms(1,4) S
    by (simp_all add: s0_def read_ok_def process_ok_def session_ok_def read_room_def session_room_def)
  obtain r s where rs: "read_one (pl_codec pl) (pl_unprintable pl) text s0 = (r, s)"
      "reading (pl_codec pl) s0 [] s" "\<forall>f. r = Inl (Abort f) \<longrightarrow> f = Process_Exit 97 1 0 0"
    using read_one_outcome [OF assms(3) ok names room] by blast
  show thesis
    by (rule that [OF _ rs(1,2)])
      (use rs read_one_tree [OF _ ok room assms(3) empty] in \<open>auto simp: read_stage_def s0_def\<close>)
qed

text \<open>The session and process after reading.\<close>

lemma session_after_reading:
  assumes "process_ok pl P" and "p_sessions P p = Some S"
    and "reading (pl_codec pl) \<lparr>rs_symbols = s_symbols S, rs_boxed = clear_transient (s_boxed S),
      rs_arena = wsm_arena_reset (p_arena P)\<rparr> [] s"
  shows "session_ok pl p (S\<lparr>s_symbols := rs_symbols s, s_boxed := rs_boxed s\<rparr>)"
    and "arena_ok (rs_arena s)" and "arena_base (rs_arena s) = arena_base (p_arena P)"
  using assms grown_text_ok
  by (auto simp: process_ok_def session_ok_def reading_def read_ok_def)

lemma eval_stage_outcome:
  assumes "codec_ok (pl_codec pl)" and "session_ok pl p S" and "p_sessions P p = Some S"
    and "arena_ok (p_arena P)"
    and "repr (p_arena P) t" and "code_tree (s_symbols S) t"
  obtains r h es where
    "eval_stage pl P S (word_of t) = (r, put_session (P\<lparr>p_host := h\<rparr>) p (S\<lparr>s_boxed := s_boxed S @ es\<rparr>))"
    "boxed_text_ok es" "\<And>f. r \<noteq> Inl (Abort f)" "\<And>e. r = Inl (Raise e) \<Longrightarrow> error_text_ok e"
    "\<And>v. r = Inr v \<Longrightarrow> safe (p_arena P) v"
proof -
  let ?X = "\<lparr>ctx_spellings = pl_spellings pl, ctx_arena = p_arena P, ctx_env = s_env S,
    ctx_symbols = s_symbols S\<rparr>" and ?w = "\<lparr>w_tables = tables_of P, w_host = p_host P\<rparr>"
  have T: "tables_of P p = Some (s_boxed S)" using assms(3) by (simp add: tables_of_def)
  have "world_ok p (tables_of P) ?w"
    unfolding world_ok_def using T by (intro exI [of _ "s_boxed S"] exI [of _ "[]"]) (simp add: fun_upd_idem)
  moreover have "host_safe (world_ok p (tables_of P)) ?X"
    using assms(1,2) host_closure_safe [of pl p]
    by (fastforce simp: host_safe_def session_ok_def intro: safe_atomic)
  ultimately have "no_abort (world_ok p (tables_of P)) error_text_ok (safe (p_arena P)) (eval_tree ?X t ?w)"
    using eval_tree_safe(1) [of "world_ok p (tables_of P)" ?X t ?w] assms(5,6) by simp
  moreover obtain r w where ev: "eval_tree ?X t ?w = (r, w)" by fastforce
  ultimately have na: "no_abort (world_ok p (tables_of P)) error_text_ok (safe (p_arena P)) (r, w)"
    by simp
  then have "world_ok p (tables_of P) w" by (simp add: no_abort_def)
  then obtain es where es: "w_tables w = (tables_of P)(p \<mapsto> s_boxed S @ es)" "boxed_text_ok es"
    using T by (auto simp: world_ok_def)
  have "eval ?X eval_fuel (word_of t) ?w = (r, w)"
    using eval_fuel_enough [of ?X t ?w] assms(4,5) ev by simp
  then have "eval_stage pl P S (word_of t) =
      (r, put_session (P\<lparr>p_host := w_host w\<rparr>) p (S\<lparr>s_boxed := s_boxed S @ es\<rparr>))"
    using with_tables_one [OF assms(3), of "P\<lparr>p_host := w_host w\<rparr>" "w_host w"] es(1)
    by (simp add: eval_stage_def)
  then show thesis
    by (rule that [OF _ es(2)]) (use na in \<open>auto simp: no_abort_def\<close>)
qed

text \<open>Clearing at the end.\<close>

lemma clear_stage_simps:
  "p_sessions P p = Some S \<Longrightarrow>
     clear_stage P p = put_session P p (S\<lparr>s_boxed := clear_transient (s_boxed S)\<rparr>)"
  by (simp add: clear_stage_def)

text \<open>
  What an evaluation may do to a process, session at \<open>p\<close>: it stays well formed, nothing but
  that session, the arena and the host's own state changes.
\<close>

definition evaluated :: "platform \<Rightarrow> u64 \<Rightarrow> 'h process \<Rightarrow> 'h process \<Rightarrow> bool" where
  "evaluated pl p P P' \<longleftrightarrow> process_ok pl P' \<and> only_session p P P'
     \<and> (\<exists>S S'. p_sessions P p = Some S \<and> p_sessions P' p = Some S' \<and> settled pl S S')"

lemma evaluated_intro:
  assumes "process_ok pl P" and "p_sessions P p = Some S"
    and s: "reading (pl_codec pl) \<lparr>rs_symbols = s_symbols S, rs_boxed = clear_transient (s_boxed S),
      rs_arena = wsm_arena_reset (p_arena P)\<rparr> [] s"
    and "boxed_text_ok es"
    and P': "P' = put_session Q p (S\<lparr>s_symbols := rs_symbols s,
        s_boxed := clear_transient (rs_boxed s @ es)\<rparr>)"
    and Q: "p_arena Q = rs_arena s" "\<And>q. q \<noteq> p \<Longrightarrow> p_sessions Q q = p_sessions P q"
  shows "evaluated pl p P P'"
proof -
  let ?S = "S\<lparr>s_symbols := rs_symbols s, s_boxed := clear_transient (rs_boxed s @ es)\<rparr>"
  note after = session_after_reading [OF assms(1-3)]
  have p: "p \<noteq> 0" using assms(1,2) by (auto simp: process_ok_def)
  have S': "session_ok pl p ?S"
    using after(1) assms(4) by (simp add: session_ok_def)
  have "process_ok pl P'"
    using assms(1) S' after(2) p Q by (auto simp: P' process_ok_def)
  moreover have "only_session p P P'"
    using after(3) Q by (simp add: P' only_session_def)
  moreover have "settled pl S ?S"
  proof -
    have "boxed_get_entry (pl_codec pl) (clear_transient (rs_boxed s @ es)) w = Some e"
      if "boxed_get_entry (pl_codec pl) (s_boxed S) w = Some e" "entry_lifetime e = Persistent" for w e
    proof -
      have "grown (clear_transient (s_boxed S)) (rs_boxed s)" using s by (simp add: reading_def)
      from grown_persistent [OF this that] show ?thesis
        using that(2) by (simp add: boxed_get_entry_clear boxed_get_append)
    qed
    then show ?thesis using s by (simp add: settled_def reading_def)
  qed
  ultimately show ?thesis using assms(2) by (auto simp: evaluated_def P')
qed

section \<open>Messages are text\<close>

lemma eval_error_message_text: "error_text_ok e \<Longrightarrow> text_ok (eval_error_message e)"
  by (cases e) (simp_all add: unknown_symbol_message_def valid_scalar_def)

definition read_error_text_ok :: "read_error \<Rightarrow> bool" where
  "read_error_text_ok e \<longleftrightarrow> (case e of TrailingInput rest \<Rightarrow> text_ok rest | _ \<Rightarrow> True)"

lemma read_error_message_text: "read_error_text_ok e \<Longrightarrow> text_ok (read_error_message e)"
  by (cases e) (simp_all add: read_error_text_ok_def)

lemma join_spaces_text: "list_all text_ok xs \<Longrightarrow> text_ok (join_spaces xs)"
  by (induction xs rule: join_spaces.induct) simp_all

lemma text_ok_valid: "text_ok s \<Longrightarrow> list_all valid_scalar s"
  by (simp add: text_ok_def)

lemma token_text_text_ok: "token_text_ok t \<Longrightarrow> text_ok (token_text unprintable t)"
  by (cases t) (simp_all add: token_text_ok_def text_ok_debug text_ok_valid)

text \<open>The left-over tokens are tokens of the source, so their rendering is text too.\<close>

lemma read_one_error_text:
  assumes "read_one c unprintable source s = (Inl (Raise e), s')"
    and "text_ok source" and "read_ok c s" and "names_text_ok (rs_symbols s)"
    and "read_room c s (length source)"
  shows "read_error_text_ok e"
proof (cases "tokenize source")
  case (Inl e')
  have "e' = UnterminatedString" using Inl
  proof (induction source rule: tokenize.induct)
    case (2 x xs)
    then show ?case by (auto simp: and_then_Inl_iff split: if_splits option.splits)
  qed simp
  then show ?thesis using assms(1) Inl by (simp add: read_one_def read_error_text_ok_def)
next
  case (Inr ts)
  note ts = tokenize_text_ok [OF Inr assms(2)]
  have start: "reading c s ts s" using assms(3-5) ts by (auto simp: reading_def read_room_def)
  obtain r s1 where p: "parse_form c (parse_fuel ts) ts s = (r, s1)" by fastforce
  have kept: "reader.kept c s (r, s1)" using reader.parse_kept(1) [OF start] p by metis
  have "list_all token_text_ok rest" if "r = Inr (w, rest)" for w rest
    using kept that by (simp add: reading_def)
  then have rest: "text_ok (join_spaces (map (token_text unprintable) rest))" if "r = Inr (w, rest)" for w rest
    using that by (intro join_spaces_text) (auto simp: list_all_iff intro: token_text_text_ok)
  have parse: "read_error_text_ok e" if "r = Inl (Raise e)"
    using parse_errors(1) [of c "parse_fuel ts" ts s e s1] p that by (auto simp: read_error_text_ok_def)
  show ?thesis
    using assms(1) Inr p rest parse
    by (auto simp: read_one_def Let_def read_error_text_ok_def
        split: option.splits sum.splits if_splits)
qed

section \<open>Evaluating any text\<close>

text \<open>The outcome, given what the preflight sees; the only fatal one is a full arena.\<close>

lemma eval_str_outcome:
  assumes "process_ok pl P" and "p_sessions P p = Some S" and "text_ok text"
    and "session_room pl S (length text)"
  obtains (message) m P' where "eval_str pl P p S text = (Inr m, P')" "text_ok m" "evaluated pl p P P'"
  | (full) P' where "eval_str pl P p S text = (Inl (Process_Exit 97 1 0 0), P')"
      "\<exists>ts. tokenize text = Inr ts \<and> required_cons_cells ts = None"
proof -
  let ?s0 = "\<lparr>rs_symbols = s_symbols S, rs_boxed = clear_transient (s_boxed S),
    rs_arena = wsm_arena_reset (p_arena P)\<rparr>"
  have S: "session_ok pl p S" and codec: "codec_ok (pl_codec pl)"
    using assms(1,2) by (simp_all add: process_ok_def)
  have ok: "read_ok (pl_codec pl) ?s0" and names: "names_text_ok (rs_symbols ?s0)"
    and room: "read_room (pl_codec pl) ?s0 (length text)" and empty: "arena_used (rs_arena ?s0) = 0"
    using assms(1,4) S
    by (simp_all add: read_ok_def process_ok_def session_ok_def read_room_def session_room_def)
  obtain r s where read: "read_stage pl P p S text = (r, put_session (P\<lparr>p_arena := rs_arena s\<rparr>) p
      (S\<lparr>s_symbols := rs_symbols s, s_boxed := rs_boxed s\<rparr>))"
    and rs: "read_one (pl_codec pl) (pl_unprintable pl) text ?s0 = (r, s)"
    and reading: "reading (pl_codec pl) ?s0 [] s"
    and abort: "\<forall>f. r = Inl (Abort f) \<longrightarrow> f = Process_Exit 97 1 0 0"
    and tree: "\<forall>w. r = Inr w \<longrightarrow>
      (\<exists>t. word_of t = w \<and> repr (rs_arena s) t \<and> code_tree (rs_symbols s) t)"
    by (rule read_stage_outcome [OF assms])
  let ?S1 = "S\<lparr>s_symbols := rs_symbols s, s_boxed := rs_boxed s\<rparr>"
  let ?P1 = "put_session (P\<lparr>p_arena := rs_arena s\<rparr>) p ?S1"
  note after = session_after_reading [OF assms(1,2) reading]
  have P1: "p_sessions ?P1 p = Some ?S1" by simp
  have final: "evaluated pl p P (clear_stage (put_session (?P1\<lparr>p_host := h\<rparr>) p (?S1\<lparr>s_boxed := rs_boxed s @ es\<rparr>)) p)"
    if "boxed_text_ok es" for h es
    by (rule evaluated_intro [OF assms(1,2) reading that, where Q = "put_session (?P1\<lparr>p_host := h\<rparr>) p (?S1\<lparr>s_boxed := rs_boxed s @ es\<rparr>)"])
      (simp_all add: clear_stage_simps)
  show thesis
  proof (cases r)
    case (Inl e)
    show thesis
    proof (cases e)
      case (Abort f)
      have "\<exists>ts. tokenize text = Inr ts \<and> required_cons_cells ts = None"
      proof (rule ccontr)
        assume "\<nexists>ts. tokenize text = Inr ts \<and> required_cons_cells ts = None"
        then have counted: "required_cons_cells ts \<noteq> None" if "tokenize text = Inr ts" for ts
          using that by auto
        show False
        proof (cases "tokenize text")
          case (Inl x)
          then show False using rs \<open>r = Inl e\<close> Abort by (simp add: read_one_def)
        next
          case (Inr ts)
          have "length ts \<le> length text" using tokenize_text_ok [OF Inr assms(3)] by simp
          then have "read_room (pl_codec pl) ?s0 (length ts)" using room by (simp add: read_room_def)
          from read_one_no_abort [OF Inr counted [OF Inr] ok this empty, of "pl_unprintable pl"]
          show False using rs \<open>r = Inl e\<close> Abort by auto
        qed
      qed
      then show thesis
        using full read Inl Abort abort by (simp add: eval_str_def)
    next
      case (Raise e')
      have "text_ok (read_error_message e')"
        by (rule read_error_message_text, rule read_one_error_text [of "pl_codec pl" "pl_unprintable pl" "text" ?s0 e' s])
          (use rs Inl Raise assms(3) ok names room in auto)
      moreover have "eval_str pl P p S text = (Inr (read_error_message e'), clear_stage ?P1 p)"
        using read Inl Raise by (simp add: eval_str_def)
      moreover have "evaluated pl p P (clear_stage ?P1 p)"
        by (rule evaluated_intro [OF assms(1,2) reading, where Q = ?P1 and es = "[]"])
          (simp_all add: clear_stage_simps)
      ultimately show thesis using message by blast
    qed
  next
    case (Inr w)
    then obtain t where t: "word_of t = w" "repr (rs_arena s) t" "code_tree (rs_symbols s) t"
      using tree by blast
    obtain r2 h es where ev: "eval_stage pl ?P1 ?S1 (word_of t) =
        (r2, put_session (?P1\<lparr>p_host := h\<rparr>) p (?S1\<lparr>s_boxed := s_boxed ?S1 @ es\<rparr>))"
      and es: "boxed_text_ok es" and no: "\<And>f. r2 \<noteq> Inl (Abort f)"
      and err: "\<And>e. r2 = Inl (Raise e) \<Longrightarrow> error_text_ok e"
      and ans: "\<And>v. r2 = Inr v \<Longrightarrow> safe (p_arena ?P1) v"
      by (rule eval_stage_outcome [of pl p ?S1 ?P1 t]) (use codec after t in auto)
    let ?P2 = "put_session (?P1\<lparr>p_host := h\<rparr>) p (?S1\<lparr>s_boxed := rs_boxed s @ es\<rparr>)"
    have ev': "eval_stage pl ?P1 ?S1 w = (r2, ?P2)" using ev t(1) by simp
    have result: "eval_str pl P p S text = (case r2 of
        Inl (Abort f) \<Rightarrow> (Inl f, ?P2)
      | Inl (Raise e) \<Rightarrow> (Inr (eval_error_message e), clear_stage ?P2 p)
      | Inr v \<Rightarrow> (case print_stage pl ?P2 p v of
           Inl f \<Rightarrow> (Inl f, ?P2) | Inr s \<Rightarrow> (Inr s, clear_stage ?P2 p)))"
      unfolding eval_str_def read Inr using ev' by (simp split: sum.split stop.split)
    show thesis
    proof (cases r2)
      case (Inl e)
      then obtain e' where e': "e = Raise e'" using no by (cases e) auto
      show thesis
        by (rule message [of "eval_error_message e'" "clear_stage ?P2 p"])
          (use result Inl e' err eval_error_message_text final [OF es] in auto)
    next
      case (Inr v)
      then obtain u where u: "repr (rs_arena s) u" "word_of u = v"
        using ans by (auto simp: safe_def)
      let ?m = "print_tree (pl_codec pl) (rs_symbols s) (rs_boxed s @ es) u"
      have "print_stage pl ?P2 p v = Inr ?m"
        using value_to_string_tree [OF after(2) u(1)] u(2) by (simp add: print_stage_def)
      moreover have "text_ok ?m"
        using print_tree_text_ok after(1) es by (simp add: session_ok_def)
      ultimately show thesis
        by (intro message [of ?m "clear_stage ?P2 p"]) (use result Inr final [OF es] in auto)
    qed
  qed
qed

end
