(* ===== verification/Eval_String.thy ===== *)
theory Eval_String
  imports Ffi_Correct
begin

text \<open>
  \<open>wsm_eval_string\<close> from bytes to bytes: its outcome on every input, what it prints for the forms
  whose value is determined by the form alone, and the invariant of all processes that the
  entry points can reach.
\<close>

section \<open>Bytes in, bytes out\<close>

lemma into_c_string_text: "text_ok m \<Longrightarrow> into_c_string m = utf8_encode m"
  using utf8_encode_NUL [of m]
  by (simp add: into_c_string_def cstring_new_def Let_def text_ok_def)

lemma c_to_str_text: "c_to_str bytes = Some t \<Longrightarrow> text_ok t"
  using c_to_str_valid [of bytes t] c_to_str_no_NUL [of bytes t] by (simp add: text_ok_def)

lemma c_to_str_encode: "text_ok t \<Longrightarrow> c_to_str (utf8_encode t) = Some t"
proof -
  assume t: "text_ok t"
  then have "0 \<notin> set (utf8_encode t)" using utf8_encode_NUL [of t] by (simp add: text_ok_def)
  then have "c_str (utf8_encode t) = utf8_encode t"
    unfolding c_str_def by (subst takeWhile_eq_all_conv) auto
  then show ?thesis using t utf8_decode_encode [of t] by (simp add: c_to_str_def text_ok_def)
qed

text \<open>
  Text that fills the arena although it is not a form: it breaks off inside open lists whose
  complete parts already need more cells than there are.
\<close>

definition overflowing :: "u8 list \<Rightarrow> bool" where
  "overflowing bytes \<longleftrightarrow> (\<exists>t fss. c_to_str bytes = Some t \<and> tokenize t = Inr (pending_toks fss)
     \<and> ARENA_CELLS < pending_cells fss)"

definition bytes_room :: "platform \<Rightarrow> 'h session \<Rightarrow> u8 list \<Rightarrow> bool" where
  "bytes_room pl S bytes \<longleftrightarrow>
     (case c_to_str bytes of None \<Rightarrow> True | Some t \<Rightarrow> session_room pl S (length t))"

text \<open>The answer to text that is not a form is the message of its verdict.\<close>

lemma eval_str_verdict:
  assumes "process_ok pl P" and "p_sessions P p = Some S" and "text_ok text"
    and "session_room pl S (length text)"
    and "verdict (pl_unprintable pl) (tokenize text) (Inl v)"
  shows "fst (eval_str pl P p S text) =
    (case v of Raise e \<Rightarrow> Inr (read_error_message e) | Abort x \<Rightarrow> Inl x)"
proof -
  let ?s0 = "\<lparr>rs_symbols = s_symbols S, rs_boxed = clear_transient (s_boxed S),
    rs_arena = wsm_arena_reset (p_arena P)\<rparr>"
  have S: "session_ok pl p S" using assms(1,2) by (simp add: process_ok_def)
  have ok: "read_ok (pl_codec pl) ?s0" and empty: "arena_used (rs_arena ?s0) = 0"
    and room: "read_room (pl_codec pl) ?s0 (length text)"
    using assms(1,4) S by (simp_all add: read_ok_def process_ok_def session_ok_def read_room_def session_room_def)
  show ?thesis
    using read_one_verdict [OF assms(3) ok room empty assms(5)]
    by (cases "read_one (pl_codec pl) (pl_unprintable pl) text ?s0")
      (auto simp: eval_str_def read_stage_def split: stop.split)
qed

lemma eval_str_pending:
  assumes "process_ok pl P" and "p_sessions P p = Some S" and "text_ok text"
    and "session_room pl S (length text)" and "tokenize text = Inr (pending_toks fss)"
  shows "fst (eval_str pl P p S text) =
    (if pending_cells fss \<le> ARENA_CELLS then Inr (read_error_message UnexpectedEof)
     else Inl (Process_Exit 97 1 0 0))"
proof (cases "pending_cells fss \<le> ARENA_CELLS")
  case True
  then show ?thesis
    using eval_str_verdict [OF assms(1-4), of "Raise UnexpectedEof"] verdict.end_of_input [OF True] assms(5)
    by (simp del: read_error_message.simps)
next
  case False
  then show ?thesis
    using eval_str_verdict [OF assms(1-4), of "Abort (Process_Exit 97 1 0 0)"] verdict.full [of fss] assms(5) by simp
qed

lemma evaluated_refl_process: "process_ok pl P \<Longrightarrow> process_ok pl P \<and> only_session p P P"
  by (simp add: only_session_def)

lemma eval_string_outcome:
  assumes "process_ok pl P" and "p_sessions P p = Some S" and "bytes_room pl S bytes"
  obtains (message) m P' where "wsm_eval_string pl P p (Some bytes) = (Inr (utf8_encode m), P')"
      "text_ok m" "process_ok pl P'" "only_session p P P'" "p_sessions P' p \<noteq> None"
  | (full) P' where "wsm_eval_string pl P p (Some bytes) = (Inl (Process_Exit 97 1 0 0), P')"
      "overflowing bytes"
proof -
  have p: "p \<noteq> 0" using assms(1,2) by (auto simp: process_ok_def)
  show thesis
  proof (cases "c_to_str bytes")
    case None
    let ?m = "lit ''error: source is not valid UTF-8''"
    have "text_ok ?m" by simp
    then show thesis
      using message [of ?m P] None p assms into_c_string_text
      by (simp add: wsm_eval_string_def catch_unwind_or_def only_session_def)
  next
    case (Some t)
    have t: "text_ok t" by (rule c_to_str_text [OF Some])
    have room: "session_room pl S (length t)" using assms(3) Some by (simp add: bytes_room_def)
    from assms(1,2) t room show thesis
    proof (cases rule: eval_str_outcome)
      case (message m P')
      then show thesis
        using that(1) [of m P'] Some p assms(2) into_c_string_text
        by (auto simp: wsm_eval_string_def catch_unwind_or_def evaluated_def)
    next
      case (full P')
      obtain ts where ts: "tokenize t = Inr ts" "required_cons_cells ts = None" using full(2) by blast
      then have "overflowing bytes"
      proof (cases ts rule: token_shapes)
        case (pending fss)
        then show ?thesis
          using eval_str_pending [OF assms(1,2) t room, of fss] ts(1) full(1) Some
          by (auto simp: overflowing_def split: if_splits)
      qed (use ts required_complete in \<open>auto simp: required_cons_cells_def\<close>)
      then show thesis
        using that(2) [of P'] full(1) Some p assms(2)
        by (auto simp: wsm_eval_string_def catch_unwind_or_def)
    qed
  qed
qed

text \<open>And overflowing text does end the process.\<close>

lemma eval_string_overflowing:
  assumes "process_ok pl P" and "p_sessions P p = Some S" and "bytes_room pl S bytes"
    and "overflowing bytes"
  shows "fst (wsm_eval_string pl P p (Some bytes)) = Inl (Process_Exit 97 1 0 0)"
proof -
  obtain t fss where t: "c_to_str bytes = Some t" "tokenize t = Inr (pending_toks fss)"
      "ARENA_CELLS < pending_cells fss"
    using assms(4) by (auto simp: overflowing_def)
  have p: "p \<noteq> 0" using assms(1,2) by (auto simp: process_ok_def)
  have "fst (eval_str pl P p S t) = Inl (Process_Exit 97 1 0 0)"
    using eval_str_pending [OF assms(1,2) c_to_str_text [OF t(1)] _ t(2)] assms(3) t
    by (simp add: bytes_room_def)
  then show ?thesis
    using assms(2) p t(1)
    by (cases "eval_str pl P p S t") (simp add: wsm_eval_string_def catch_unwind_or_def)
qed

lemma eval_string_verdict:
  assumes "process_ok pl P" and "p_sessions P p = Some S" and "text_ok text"
    and "session_room pl S (length text)"
    and "verdict (pl_unprintable pl) (tokenize text) (Inl v)"
  shows "fst (wsm_eval_string pl P p (Some (utf8_encode text))) =
    (case v of Raise e \<Rightarrow> Inr (utf8_encode (read_error_message e)) | Abort x \<Rightarrow> Inl x)"
proof -
  have p: "p \<noteq> 0" using assms(1,2) by (auto simp: process_ok_def)
  note outcome = eval_str_verdict [OF assms]
  show ?thesis using assms(1-4)
  proof (cases rule: eval_str_outcome)
    case (message m P')
    then show ?thesis
      using outcome assms(2) p c_to_str_encode [OF assms(3)] into_c_string_text [OF message(2)]
      by (auto simp: wsm_eval_string_def catch_unwind_or_def split: stop.splits)
  next
    case (full P')
    then show ?thesis
      using outcome assms(2) p c_to_str_encode [OF assms(3)]
      by (auto simp: wsm_eval_string_def catch_unwind_or_def split: stop.splits)
  qed
qed

section \<open>Forms whose value is the form's own\<close>

lemma eval_str_read:
  assumes "process_ok pl P" and "p_sessions P p = Some S" and "text_ok text"
    and "session_room pl S (length text)"
    and "tokenize text = Inr (toks f)" and "cells_of f \<le> ARENA_CELLS"
  obtains t and s :: read_state where
    "read_stage pl P p S text = (Inr (word_of t), put_session (P\<lparr>p_arena := rs_arena s\<rparr>) p
      (S\<lparr>s_symbols := rs_symbols s, s_boxed := rs_boxed s\<rparr>))"
    "repr (rs_arena s) t" "denotes (pl_codec pl) (rs_symbols s) (rs_boxed s) t f" "arena_ok (rs_arena s)"
proof -
  let ?s0 = "\<lparr>rs_symbols = s_symbols S, rs_boxed = clear_transient (s_boxed S),
    rs_arena = wsm_arena_reset (p_arena P)\<rparr>"
  have S: "session_ok pl p S" using assms(1,2) by (simp add: process_ok_def)
  have ok: "read_ok (pl_codec pl) ?s0" and empty: "arena_used (rs_arena ?s0) = 0"
    using assms(1) S by (simp_all add: read_ok_def process_ok_def session_ok_def)
  have "length (toks f) \<le> length text" using tokenize_text_ok [OF assms(5,3)] by simp
  then have room: "read_room (pl_codec pl) ?s0 (length (toks f) + 0)"
    using assms(4) by (simp add: read_room_def session_room_def)
  obtain t s where "read_one (pl_codec pl) (pl_unprintable pl) text ?s0 = (Inr (word_of t), s)"
      "read_result (pl_codec pl) ?s0 s 0 (cells_of f) t"
      "denotes (pl_codec pl) (rs_symbols s) (rs_boxed s) t f"
    using read_one_ok [OF assms(5) ok room empty assms(6)] by blast
  then show thesis
    by (intro that [of t s]) (auto simp: read_stage_def read_result_def read_ok_def)
qed

lemma with_tables_same: "with_tables P (tables_of P) = P"
proof -
  have "(case p_sessions P q of None \<Rightarrow> None
      | Some S \<Rightarrow> Some (S\<lparr>s_boxed := (case tables_of P q of Some b \<Rightarrow> b | None \<Rightarrow> s_boxed S)\<rparr>))
    = p_sessions P q" for q
    by (auto simp: tables_of_def split: option.split)
  then show ?thesis by (simp add: with_tables_def)
qed

definition context_of :: "platform \<Rightarrow> arena \<Rightarrow> 'h session \<Rightarrow> 'h world eval_context" where
  "context_of pl A S = \<lparr>ctx_spellings = pl_spellings pl, ctx_arena = A, ctx_env = s_env S,
     ctx_symbols = s_symbols S\<rparr>"

lemma eval_str_pure:
  assumes read: "read_stage pl P p S text = (Inr (word_of t), put_session (P\<lparr>p_arena := A\<rparr>) p S1)"
    and "arena_ok A" and "repr A t" and "repr A u"
    and "\<And>w. eval_tree (context_of pl A S1) t w = (Inr (word_of u), w)"
  shows "fst (eval_str pl P p S text) =
    Inr (print_tree (pl_codec pl) (s_symbols S1) (s_boxed S1) u)"
proof -
  let ?P1 = "put_session (P\<lparr>p_arena := A\<rparr>) p S1"
  have "eval_stage pl ?P1 S1 (word_of t) = (Inr (word_of u), ?P1)"
    using eval_fuel_enough [of "context_of pl A S1" t] assms(2,3,5) with_tables_same [of ?P1]
    by (simp add: eval_stage_def context_of_def put_session_def)
  moreover have "print_stage pl ?P1 p (word_of u) =
      Inr (print_tree (pl_codec pl) (s_symbols S1) (s_boxed S1) u)"
    using value_to_string_tree [OF assms(2,4)] by (simp add: print_stage_def)
  ultimately show ?thesis using read by (simp add: eval_str_def)
qed

text \<open>A quoted form comes back as its own text.\<close>

lemma quote_shows:
  assumes "process_ok pl P" and "p_sessions P p = Some S" and "text_ok text"
    and "session_room pl S (length text)"
    and "tokenize text = Inr (toks (FList [FAtom q, f]))" and "cells_of f + 2 \<le> ARENA_CELLS"
    and "form_ok f" and "atom_ok q" and "parse_i64 q = None"
    and "q \<in> set (QUOTE_SPELLINGS (pl_spellings pl))" and "q \<notin> set (COND_SPELLINGS (pl_spellings pl))"
  shows "fst (eval_str pl P p S text) = Inr (shown f)"
proof -
  have "cells_of (FList [FAtom q, f]) \<le> ARENA_CELLS" using assms(6) by simp
  from assms(1-5) this obtain t and s :: read_state where t:
    "read_stage pl P p S text = (Inr (word_of t), put_session (P\<lparr>p_arena := rs_arena s\<rparr>) p
      (S\<lparr>s_symbols := rs_symbols s, s_boxed := rs_boxed s\<rparr>))"
    "repr (rs_arena s) t" "denotes (pl_codec pl) (rs_symbols s) (rs_boxed s) t (FList [FAtom q, f])"
    "arena_ok (rs_arena s)"
    by (rule eval_str_read)
  obtain a v b u where tree: "t = Pair a (Leaf v) (Pair b u (Leaf WORD_NIL))"
    and v: "atom_denotes (rs_symbols s) q v" and u: "denotes (pl_codec pl) (rs_symbols s) (rs_boxed s) u f"
    using t(3) by (auto elim!: denotes_list.elims denotes.elims(2) [of _ _ _ _ "FAtom q"])
  have "q \<noteq> lit ''()''" using assms(8) by (auto simp: atom_ok_def)
  then have sym: "tag_of v = TAG_SYMBOL" "name_of (rs_symbols s) v = Some q"
    using v assms(9) by (simp_all add: atom_denotes_def)
  have "eval_tree (context_of pl (rs_arena s) (S\<lparr>s_symbols := rs_symbols s, s_boxed := rs_boxed s\<rparr>)) t w
      = (Inr (word_of u), w)" for w
    using sym assms(10,11)
    by (simp add: tree context_of_def operator_of_def is_cond_spelling_def is_quote_spelling_def
        argument_tree_def)
  then have "fst (eval_str pl P p S text) =
      Inr (print_tree (pl_codec pl) (rs_symbols s) (rs_boxed s) u)"
    using eval_str_pure [OF t(1,4,2), of u] t(2) tree by simp
  then show ?thesis using print_denotes(1) [OF u assms(7)] by simp
qed

text \<open>The accessors on a quoted list: its first form, and the list of the others.\<close>

definition plain_symbol :: "rstring \<Rightarrow> bool" where
  "plain_symbol a \<longleftrightarrow> atom_ok a \<and> parse_i64 a = None"

lemma plain_symbol_denotes:
  assumes "plain_symbol a" and "denotes c st b t (FAtom a)"
  shows "\<exists>v. t = Leaf v \<and> tag_of v = TAG_SYMBOL \<and> name_of st v = Some a"
proof -
  have "a \<noteq> lit ''()''" using assms(1) by (auto simp: plain_symbol_def atom_ok_def)
  then show ?thesis
    using assms by (cases t) (auto simp: plain_symbol_def atom_denotes_def)
qed

lemma denotes_list_Cons:
  "denotes_list c st b t (f # fs) \<Longrightarrow>
     \<exists>p l r. t = Pair p l r \<and> denotes c st b l f \<and> denotes_list c st b r fs"
  by (cases t) auto

lemma denotes_list_Nil: "denotes_list c st b t [] \<Longrightarrow> t = Leaf WORD_NIL"
  by (cases t) auto

lemma denotes_unary:
  assumes "denotes c st b t (FList [FAtom a, f])" and "plain_symbol a"
  obtains p v q u where "t = Pair p (Leaf v) (Pair q u (Leaf WORD_NIL))"
    "tag_of v = TAG_SYMBOL" "name_of st v = Some a" "denotes c st b u f"
proof -
  obtain p l r where t: "t = Pair p l r" "denotes c st b l (FAtom a)" "denotes_list c st b r [f]"
    using assms(1) denotes_list_Cons [of c st b t "FAtom a" "[f]"] by auto
  obtain q u n where r: "r = Pair q u n" "denotes c st b u f" "denotes_list c st b n []"
    using denotes_list_Cons [OF t(3)] by auto
  have "n = Leaf WORD_NIL" by (rule denotes_list_Nil [OF r(3)])
  then show thesis
    using that plain_symbol_denotes [OF assms(2) t(2)] t(1) r by blast
qed

lemma accessor_shows:
  assumes "process_ok pl P" and "p_sessions P p = Some S" and "text_ok text"
    and "session_room pl S (length text)"
    and "tokenize text = Inr (toks (FList [FAtom a, FList [FAtom q, FList (f # fs)]]))"
    and "cells_of (FList (f # fs)) + 4 \<le> ARENA_CELLS"
    and "form_ok (FList (f # fs))" and "plain_symbol q" and "plain_symbol a"
    and "operator_of (context_of pl A S) q = Op_Quote"
    and "operator_of (context_of pl A S) a = Op_Accessor n sel"
    and "sel = (if first then wsm_car else wsm_cdr)"
  shows "fst (eval_str pl P p S text) = Inr (shown (if first then f else FList fs))"
proof -
  have "cells_of (FList [FAtom a, FList [FAtom q, FList (f # fs)]]) \<le> ARENA_CELLS"
    using assms(6) by simp
  from assms(1-5) this obtain t and s :: read_state where t:
    "read_stage pl P p S text = (Inr (word_of t), put_session (P\<lparr>p_arena := rs_arena s\<rparr>) p
      (S\<lparr>s_symbols := rs_symbols s, s_boxed := rs_boxed s\<rparr>))"
    "repr (rs_arena s) t"
    "denotes (pl_codec pl) (rs_symbols s) (rs_boxed s) t (FList [FAtom a, FList [FAtom q, FList (f # fs)]])"
    "arena_ok (rs_arena s)"
    by (rule eval_str_read)
  let ?S1 = "S\<lparr>s_symbols := rs_symbols s, s_boxed := rs_boxed s\<rparr>"
  let ?X = "context_of pl (rs_arena s) ?S1"
  obtain p1 v p2 t2 where t1: "t = Pair p1 (Leaf v) (Pair p2 t2 (Leaf WORD_NIL))"
    "tag_of v = TAG_SYMBOL" "name_of (rs_symbols s) v = Some a"
    and d2: "denotes (pl_codec pl) (rs_symbols s) (rs_boxed s) t2 (FList [FAtom q, FList (f # fs)])"
    by (rule denotes_unary [OF t(3) assms(9)])
  obtain p3 v' p4 u where t2: "t2 = Pair p3 (Leaf v') (Pair p4 u (Leaf WORD_NIL))"
    "tag_of v' = TAG_SYMBOL" "name_of (rs_symbols s) v' = Some q"
    and d3: "denotes (pl_codec pl) (rs_symbols s) (rs_boxed s) u (FList (f # fs))"
    by (rule denotes_unary [OF d2 assms(8)])
  obtain p5 l r where u: "u = Pair p5 l r" "denotes (pl_codec pl) (rs_symbols s) (rs_boxed s) l f"
    "denotes_list (pl_codec pl) (rs_symbols s) (rs_boxed s) r fs"
    using d3 denotes_list_Cons by fastforce
  have ops: "operator_of ?X q = Op_Quote" "operator_of ?X a = Op_Accessor n sel"
    using assms(10,11) operator_of_spellings [of ?X "context_of pl A S"]
    by (simp_all add: context_of_def)
  have rep: "repr (rs_arena s) u" "repr (rs_arena s) l" "repr (rs_arena s) r"
    using t(2) t1(1) t2(1) u(1) by simp_all
  have quoted: "eval_tree ?X t2 w = (Inr p5, w)" for w :: "'a world"
    using t2 ops(1) u(1) by (simp add: context_of_def argument_tree_def)
  define res where "res = (if first then l else r)"
  have answer: "accessor_result ?X n sel p5 = Inr (word_of res)"
    using rep(1) u(1) assms(12) by (auto simp: accessor_result_def context_of_def res_def)
  have "eval_tree ?X t w = (Inr (word_of res), w)" for w
    using t1 ops(2) quoted answer by (simp add: context_of_def argument_tree_def)
  then have "fst (eval_str pl P p S text) =
      Inr (print_tree (pl_codec pl) (rs_symbols s) (rs_boxed s) res)"
    using eval_str_pure [OF t(1,4,2), of res] rep by (simp add: res_def)
  moreover have "print_tree (pl_codec pl) (rs_symbols s) (rs_boxed s) res = shown (if first then f else FList fs)"
    using print_denotes(1) [OF u(2)] print_denotes(2) [OF u(3)] assms(7) by (simp add: res_def)
  ultimately show ?thesis by simp
qed

text \<open>A symbol without a binding is an ordinary error that names it.\<close>

lemma unbound_symbol_message:
  assumes "process_ok pl P" and "p_sessions P p = Some S" and "text_ok text"
    and "session_room pl S (length text)"
    and "tokenize text = Inr (toks (FAtom a))" and "plain_symbol a" and "a \<noteq> lit ''t''"
    and "bindings (s_env S) a = None"
  shows "fst (eval_str pl P p S text) = Inr (unknown_symbol_message a)"
proof -
  have "cells_of (FAtom a) \<le> ARENA_CELLS" by simp
  from assms(1-5) this obtain t and s :: read_state where t:
    "read_stage pl P p S text = (Inr (word_of t), put_session (P\<lparr>p_arena := rs_arena s\<rparr>) p
      (S\<lparr>s_symbols := rs_symbols s, s_boxed := rs_boxed s\<rparr>))"
    "repr (rs_arena s) t" "denotes (pl_codec pl) (rs_symbols s) (rs_boxed s) t (FAtom a)"
    "arena_ok (rs_arena s)"
    by (rule eval_str_read)
  let ?S1 = "S\<lparr>s_symbols := rs_symbols s, s_boxed := rs_boxed s\<rparr>"
  let ?P1 = "put_session (P\<lparr>p_arena := rs_arena s\<rparr>) p ?S1"
  obtain v where v: "t = Leaf v" "tag_of v = TAG_SYMBOL" "name_of (rs_symbols s) v = Some a"
    using plain_symbol_denotes [OF assms(6) t(3)] by blast
  have "eval_tree (context_of pl (rs_arena s) ?S1) t w = (Inl (Raise (UnknownSymbol a)), w)" for w
    using v assms(7,8) by (simp add: eval_symbol_def context_of_def)
  then have "eval_stage pl ?P1 ?S1 (word_of t) = (Inl (Raise (UnknownSymbol a)), ?P1)"
    using eval_fuel_enough [of "context_of pl (rs_arena s) ?S1" t] t(2,4) with_tables_same [of ?P1]
    by (simp add: eval_stage_def context_of_def put_session_def)
  then show ?thesis using t(1) by (simp add: eval_str_def)
qed

lemma atom_ok_dec_int: "atom_ok (dec_int v)"
  using dec_int_chars [of _ v]
  by (auto simp: atom_ok_def list_all_iff is_delimiter_def is_whitespace_def)
    (fastforce dest: dec_int_chars)+

text \<open>An integer literal: what is printed is its value reduced to 61 bits.\<close>

lemma integer_shows:
  assumes "process_ok pl P" and "p_sessions P p = Some S"
    and "session_room pl S (length (dec_int v))" and "- (2 ^ 63) \<le> v" and "v < 2 ^ 63"
  shows "fst (eval_str pl P p S (dec_int v)) = Inr (dec_int (signed_take_bit 60 v))"
proof -
  let ?f = "FAtom (dec_int v)"
  have atom: "parse_i64 (dec_int v) = Some (word_of_int v)" by (rule parse_dec_int [OF assms(4,5)])
  have "tokenize (render ?f) = Inr (toks ?f)"
    by (rule tokenize_render) (simp add: atom_ok_dec_int)
  then have "tokenize (dec_int v) = Inr (toks ?f)" "text_ok (dec_int v)" "cells_of ?f \<le> ARENA_CELLS"
    by simp_all
  from assms(1,2) this(2) assms(3) this(1,3) obtain t and s :: read_state where t:
    "read_stage pl P p S (dec_int v) = (Inr (word_of t), put_session (P\<lparr>p_arena := rs_arena s\<rparr>) p
      (S\<lparr>s_symbols := rs_symbols s, s_boxed := rs_boxed s\<rparr>))"
    "repr (rs_arena s) t" "denotes (pl_codec pl) (rs_symbols s) (rs_boxed s) t ?f"
    "arena_ok (rs_arena s)"
    by (rule eval_str_read)
  have "dec_int v \<noteq> lit ''()''" using atom_ok_dec_int [of v] by (auto simp: atom_ok_def)
  then have leaf: "t = Leaf (encode_fixnum (word_of_int v))"
    using t(3) atom by (cases t) (auto simp: atom_denotes_def)
  have "sint (word_of_int v :: i64) = v"
    using assms(4,5) by (simp add: fits_i64_def)
  then have "sint (decode_fixnum (encode_fixnum (word_of_int v))) = signed_take_bit 60 v"
    using sint_decode_encode [of "word_of_int v"] by simp
  then show ?thesis
    using eval_str_pure [OF t(1,4,2,2)] leaf by (simp add: print_leaf_def)
qed

text \<open>A form with too many cells is refused before anything is allocated.\<close>

lemma capacity_refused:
  assumes "p_sessions P p = Some S" and "tokenize text = Inr (toks f)" and "ARENA_CELLS < cells_of f"
  shows "eval_str pl P p S text =
    (Inr (lit ''error: form needs '' @ dec_nat (cells_of f) @ lit '' cons cells; arena capacity is '' @ dec_nat ARENA_CELLS),
     put_session (P\<lparr>p_arena := wsm_arena_reset (p_arena P)\<rparr>) p (S\<lparr>s_boxed := clear_transient (s_boxed S)\<rparr>))"
  using read_one_too_large [OF assms(2,3)]
  by (simp add: eval_str_def read_stage_def clear_stage_def put_session_def)

lemma unclosed_exits:
  assumes "process_ok pl P" and "p_sessions P p = Some S" and "text_ok text"
    and "session_room pl S (length text)"
    and "tokenize text = Inr (Open # toks f)" and "ARENA_CELLS < cells_of f"
  shows "fst (wsm_eval_string pl P p (Some (utf8_encode text))) = Inl (Process_Exit 97 1 0 0)"
proof -
  have p: "p \<noteq> 0" using assms(1,2) by (auto simp: process_ok_def)
  have "fst (eval_str pl P p S text) = Inl (Process_Exit 97 1 0 0)"
    using eval_str_pending [OF assms(1-4), of "[[f]]"] assms(5,6) by simp
  then show ?thesis
    using assms(2) p c_to_str_encode [OF assms(3)]
    by (cases "eval_str pl P p S text") (simp add: wsm_eval_string_def catch_unwind_or_def)
qed

section \<open>All reachable processes\<close>

text \<open>
  The entry points as steps of a process, with the caller's side of the contract: pointers are
  null or live, callbacks keep \<open>callback_ok\<close>, no cons word is bound, and the session has room.
\<close>

inductive api_step :: "platform \<Rightarrow> 'h process \<Rightarrow> 'h process \<Rightarrow> bool" for pl where
  init: "p \<noteq> 0 \<Longrightarrow> p_sessions P p = None \<Longrightarrow> api_step pl P (snd (wsm_session_init p P))"
| free: "wsm_session_free P p = (Inr (), P') \<Longrightarrow> api_step pl P P'"
| register: "callback_ok p f \<Longrightarrow> wsm_register_primitive pl P p name f = (Inr rc, P') \<Longrightarrow> api_step pl P P'"
| bind: "tag_of v \<noteq> TAG_CONS \<Longrightarrow> wsm_bind P p name v = (Inr rc, P') \<Longrightarrow> api_step pl P P'"
| boundary: "call_session q = 0 \<or> p_sessions P (call_session q) \<noteq> None \<Longrightarrow>
    call_boundary pl P q = (Inr r, P') \<Longrightarrow> api_step pl P P'"
| eval: "p_sessions P p = Some S \<Longrightarrow> bytes_room pl S bytes \<Longrightarrow>
    wsm_eval_string pl P p (Some bytes) = (Inr out, P') \<Longrightarrow> api_step pl P P'"

definition process_start :: "u64 \<Rightarrow> 'h \<Rightarrow> 'h process" where
  "process_start base h = \<lparr>p_arena = arena_load base, p_sessions = (\<lambda>_. None), p_host = h\<rparr>"

lemma process_start_ok: "codec_ok (pl_codec pl) \<Longrightarrow> base_ok base \<Longrightarrow> process_ok pl (process_start base h)"
  by (simp add: process_ok_def process_start_def arena_load_ok)

lemma session_new_ok: "session_ok pl p session_new"
  by (simp add: session_ok_def session_new_def env_new_def boxed_new_def)

lemma put_session_ok:
  "process_ok pl P \<Longrightarrow> p \<noteq> 0 \<Longrightarrow> session_ok pl p S \<Longrightarrow> process_ok pl (put_session P p S)"
  by (simp add: process_ok_def)

lemma call_boundary_ok:
  assumes "process_ok pl P" and "call_session q = 0 \<or> p_sessions P (call_session q) \<noteq> None"
    and "call_boundary pl P q = (r, P')"
  shows "process_ok pl P'"
proof (cases "call_session q = 0")
  case True
  then have "snd (boundary pl q (tables_of P)) = tables_of P"
    by (cases q) (auto simp: wsm_wrap_game_handle_def wsm_wrap_transient_string_def
        wsm_wrap_rational_def wsm_wrap_transient_rational_def)
  then have "P' = P"
    using assms(3) with_tables_same [of P] by (auto simp: call_boundary_def split: prod.splits)
  then show ?thesis using assms(1) by simp
next
  case False
  let ?p = "call_session q"
  obtain S where S: "p_sessions P ?p = Some S" using assms(2) False by blast
  have T: "tables_of P ?p = Some (s_boxed S)" using S by (simp add: tables_of_def)
  have codec: "codec_ok (pl_codec pl)" and ok: "session_ok pl ?p S"
    using assms(1) S by (simp_all add: process_ok_def)
  obtain x es where b: "boundary pl q (tables_of P) = (Inr x, (tables_of P)(?p \<mapsto> s_boxed S @ es))"
      "boxed_text_ok es"
    using boundary_outcome [of pl "tables_of P" ?p "s_boxed S" q] codec T by blast
  have "P' = put_session P ?p (S\<lparr>s_boxed := s_boxed S @ es\<rparr>)"
    using assms(3) b(1) with_tables_one [OF S refl refl refl] by (simp add: call_boundary_def)
  then show ?thesis
    using assms(1) False ok b(2) by (auto simp: process_ok_def session_ok_def)
qed

lemma register_session_ok:
  assumes "session_ok pl p S" and "callback_ok p f"
  shows "session_ok pl p (S\<lparr>s_env := register_primitive (s_env S) n (host_closure pl f)\<rparr>)"
proof -
  have "\<exists>f'. g = host_closure pl f' \<and> callback_ok p f'"
    if "((primitives (s_env S))(n \<mapsto> host_closure pl f)) m = Some g" for m g
    using that assms by (cases "m = n") (auto simp: session_ok_def)
  then show ?thesis using assms(1) unfolding session_ok_def by (simp add: register_primitive_def)
qed

lemma api_step_ok: "api_step pl P P' \<Longrightarrow> process_ok pl P \<Longrightarrow> process_ok pl P'"
proof (induction rule: api_step.induct)
  case (init p P)
  then show ?case by (simp add: wsm_session_init_def put_session_ok session_new_ok)
next
  case (free P p P')
  then show ?case by (auto simp: wsm_session_free_def process_ok_def split: if_splits option.splits)
next
  case (register p f P name rc P')
  then consider (set) S n where "p \<noteq> 0" "p_sessions P p = Some S"
      "P' = put_session P p (S\<lparr>s_env := register_primitive (s_env S) n (host_closure pl f)\<rparr>)"
    | (same) "P' = P"
    by (fastforce simp: wsm_register_primitive_def split: if_splits option.splits)
  then show ?case
  proof cases
    case (set S n)
    then have "session_ok pl p S" using register.prems by (simp add: process_ok_def)
    from put_session_ok [OF register.prems set(1) register_session_ok [OF this register.hyps(1)]]
    show ?thesis unfolding set(3) .
  qed (use register.prems in simp)
next
  case (bind v P p name rc P')
  then show ?case
    by (auto simp: wsm_bind_def process_ok_def session_ok_def bind_name_def
        split: if_splits option.splits)
next
  case (boundary q P r P')
  then show ?case using call_boundary_ok by blast
next
  case (eval P p S bytes out P')
  from eval.prems eval.hyps(1,2) show ?case
    by (cases rule: eval_string_outcome) (use eval.hyps(3) in auto)
qed

lemma reachable_ok:
  assumes "codec_ok (pl_codec pl)" and "base_ok base"
    and "(api_step pl)\<^sup>*\<^sup>* (process_start base h) P"
  shows "process_ok pl P"
  using assms(3)
  by (induction rule: rtranclp_induct) (auto intro: process_start_ok assms(1,2) api_step_ok)

end
