(* ===== verification/Examples.thy ===== *)
theory Examples
  imports Eval_String
begin

text \<open>
  Concrete inputs: a handle codec of the documented shape, the primitive \<open>stub_position\<close> of the
  tests of \<open>ffi.rs\<close>, a process with one session, and small arenas. They show that the hypotheses
  of the properties can hold together.
\<close>

section \<open>A codec\<close>

definition demo_codec :: codec where
  "demo_codec = \<lparr>
     encode_boxed = (\<lambda>h. if h = 0 \<or> 0x1FFFFFFFFFFFFFFF < h then None else Some (push_bit 3 h OR TAG_BOXED)),
     decode_boxed = (\<lambda>w. if tag_of w = TAG_BOXED \<and> drop_bit 3 w \<noteq> 0 then Some (drop_bit 3 w) else None),
     boxed_handle_max = 0x1FFFFFFFFFFFFFFF\<rparr>"

lemma word_split_tag: "push_bit 3 (drop_bit 3 w) OR tag_of w = (w :: u64)"
  unfolding tag_of_take_bit by (rule bit_word_eqI) (auto simp: bit_simps)

lemma drop_3_bound: "drop_bit 3 (w :: u64) \<le> 0x1FFFFFFFFFFFFFFF"
proof -
  have "unat (drop_bit 3 w) = unat w div 8" by (simp add: drop_bit_eq_div unat_div)
  moreover have "unat w < 2 ^ 64" using unsigned_less [of w, where 'a = nat] by simp
  ultimately show ?thesis by (simp add: word_le_nat_alt)
qed

lemma demo_codec_ok [simp]: "codec_ok demo_codec"
proof -
  have boxed: "TAG_BOXED < 8" by (simp add: TAG_BOXED_def)
  have payload: "drop_bit 3 (push_bit 3 h OR TAG_BOXED) = h" if "h \<le> 0x1FFFFFFFFFFFFFFF" for h
    using drop_bit_encoded [OF boxed, of h] take_bit_id [of h] that by (simp add: SYM_T_ID_def)
  have enc: "encode_boxed demo_codec h = (if h = 0 \<or> 0x1FFFFFFFFFFFFFFF < h then None else Some (push_bit 3 h OR TAG_BOXED))"
    and dec: "decode_boxed demo_codec w = (if tag_of w = TAG_BOXED \<and> drop_bit 3 w \<noteq> 0 then Some (drop_bit 3 w) else None)"
    and max: "boxed_handle_max demo_codec = 0x1FFFFFFFFFFFFFFF" for h w
    by (simp_all add: demo_codec_def)
  show ?thesis
    unfolding codec_ok_def
  proof (intro conjI allI impI)
    fix h :: u64
    assume h: "0 < h \<and> h \<le> boxed_handle_max demo_codec"
    then have "h \<noteq> 0" by auto
    with h show "\<exists>w. encode_boxed demo_codec h = Some w \<and> decode_boxed demo_codec w = Some h \<and> tag_of w = TAG_BOXED"
      using payload [of h] tag_of_encoded [OF boxed, of h] by (simp add: enc dec max not_less)
  next
    fix h :: u64
    assume "h = 0 \<or> boxed_handle_max demo_codec < h"
    then show "encode_boxed demo_codec h = None" by (simp add: enc max)
  next
    fix w h :: u64
    assume "decode_boxed demo_codec w = Some h"
    then have w: "tag_of w = TAG_BOXED" "h = drop_bit 3 w" "h \<noteq> 0" by (auto simp: dec split: if_splits)
    then have "push_bit 3 h OR TAG_BOXED = w" using word_split_tag [of w] by simp
    moreover have "\<not> 0x1FFFFFFFFFFFFFFF < h" using drop_3_bound [of w] w(2) by (simp add: not_less)
    ultimately show "encode_boxed demo_codec h = Some w" using w(3) by (simp add: enc)
  qed
qed

lemma demo_codec_room [simp]: "boxed_room demo_codec [] = 2305843009213693951"
  by (simp add: boxed_room_def demo_codec_def)

section \<open>A process with one session\<close>

definition demo_platform :: platform where
  "demo_platform = \<lparr>pl_codec = demo_codec, pl_overflow_checks = False, pl_unprintable = (\<lambda>_. False),
     pl_spellings = \<lparr>QUOTE_SPELLINGS = [lit ''quote''], CAR_SPELLINGS = [lit ''car''],
       CDR_SPELLINGS = [lit ''cdr''], COND_SPELLINGS = [lit ''cond'']\<rparr>\<rparr>"

text \<open>\<open>stub_position\<close>: answers with the transient fraction 5/336 of the session at 64.\<close>

definition demo_callback :: "nat callback" where
  "demo_callback args h = Call (Wrap_Transient_Rational 64 5 336 8)
     (\<lambda>r. Done (fst r) (case snd r of [w] \<Rightarrow> Some w | _ \<Rightarrow> None) (Suc h))"

definition demo_session :: "nat session" where
  "demo_session = session_new\<lparr>s_env := bind_name (register_primitive env_new (lit ''pos'')
     (host_closure demo_platform demo_callback)) (lit ''player'') (encode_fixnum 7)\<rparr>"

definition demo_process :: "nat process" where
  "demo_process = put_session (process_start 65536 0) 64 demo_session"

lemma demo_base_ok [simp]: "base_ok 65536"
  by (simp add: base_ok_def)

lemma demo_platform_simps [simp]:
  "pl_codec demo_platform = demo_codec" "pl_overflow_checks demo_platform = False"
  "pl_spellings demo_platform = \<lparr>QUOTE_SPELLINGS = [lit ''quote''], CAR_SPELLINGS = [lit ''car''],
     CDR_SPELLINGS = [lit ''cdr''], COND_SPELLINGS = [lit ''cond'']\<rparr>"
  by (simp_all add: demo_platform_def)

lemma demo_callback_ok [simp]: "callback_ok 64 demo_callback"
  by (auto simp: callback_ok_def demo_callback_def plausible_def split: list.splits)

lemma demo_session_ok: "session_ok demo_platform 64 demo_session"
proof -
  have "\<exists>f. g = host_closure demo_platform f \<and> callback_ok 64 f"
    if "(Map.empty(lit ''pos'' \<mapsto> host_closure demo_platform demo_callback)) n = Some g" for n g
    using that by (auto split: if_splits intro!: exI [of _ demo_callback])
  moreover have "tag_of v \<noteq> TAG_CONS" if "(Map.empty(lit ''player'' \<mapsto> encode_fixnum 7)) n = Some v" for n v
    using that by (auto split: if_splits)
  ultimately show ?thesis
    unfolding session_ok_def
    by (simp add: demo_session_def session_new_def bind_name_def register_primitive_def env_new_def boxed_new_def
        del: lit_simps fun_upd_apply)
qed

lemma demo_process_ok [simp]: "process_ok demo_platform demo_process"
  unfolding demo_process_def
  by (rule put_session_ok) (simp_all add: process_start_ok demo_session_ok)

lemma demo_process_session [simp]: "p_sessions demo_process 64 = Some demo_session"
  by (simp add: demo_process_def)

lemma demo_session_tables [simp]:
  "s_symbols demo_session = symbols_new" "s_boxed demo_session = []"
  by (simp_all add: demo_session_def session_new_def boxed_new_def)

lemma demo_bindings: "bindings (s_env demo_session) n = (if n = lit ''player'' then Some (encode_fixnum 7) else None)"
  by (simp add: demo_session_def session_new_def bind_name_def register_primitive_def env_new_def)

lemma demo_room [simp]: "n \<le> 1000 \<Longrightarrow> session_room demo_platform demo_session n"
  by (simp add: session_room_def)

lemma demo_bytes_room:
  assumes "text_ok t" and "length t \<le> 1000"
  shows "bytes_room demo_platform demo_session (utf8_encode t)"
  using c_to_str_encode [OF assms(1)] assms(2) by (simp add: bytes_room_def)

section \<open>Text\<close>

text \<open>Rendered forms as sources.\<close>

lemma demo_tokens: "form_ok f \<Longrightarrow> tokenize (render f) = Inr (toks f)"
  by (rule tokenize_render)

lemma atom_ok_words [simp]:
  "atom_ok (lit ''quote'')" "atom_ok (lit ''car'')" "atom_ok (lit ''cdr'')" "atom_ok (lit ''a'')"
  "atom_ok (lit ''b'')" "atom_ok (lit ''pos'')" "atom_ok (lit ''player'')"
  by (simp_all add: atom_ok_def is_delimiter_def is_whitespace_def)

lemma plain_symbols [simp]:
  "plain_symbol (lit ''quote'')" "plain_symbol (lit ''car'')" "plain_symbol (lit ''cdr'')"
  "plain_symbol (lit ''a'')" "plain_symbol (lit ''b'')" "plain_symbol (lit ''pos'')"
  by (simp_all only: plain_symbol_def atom_ok_words) (simp_all add: parse_i64_def)

section \<open>An arena with one cell\<close>

definition demo_arena :: "u64 \<Rightarrow> arena" where
  "demo_arena v = (arena_load 65536)\<lparr>arena_mem := (\<lambda>_. 0)(65536 := v, 65544 := WORD_NIL),
     arena_next := 65552\<rparr>"

lemma demo_cons: "wsm_cons (arena_load 65536) v WORD_NIL = Inr (65536, demo_arena v)"
  by (simp add: wsm_cons_def demo_arena_def arena_load_def arena_end_def Let_def)

lemma demo_arena_ok [simp]: "arena_ok (demo_arena v)"
  using wsm_cons_state(1) [OF arena_load_ok [OF demo_base_ok] demo_cons] .

lemma demo_tree: "tag_of v \<noteq> TAG_CONS \<Longrightarrow> repr (demo_arena v) (Pair 65536 (Leaf v) (Leaf WORD_NIL))"
  using cells.alloc_rep [OF arena_load_ok [OF demo_base_ok], of "Leaf v" "Leaf WORD_NIL" 65536 "demo_arena v"]
    demo_cons [of v] by simp

end
