(* ===== verification/Semantics.thy ===== *)
theory Semantics
  imports Evaluator_Correct Printer_Correct
begin

text \<open>
  The language as its users see it: Lisp values without words, tags, tables and cells; the meaning
  of a form over an abstract host; when a word stands for a value; and the proof that the
  evaluator on words simulates the meaning of the form it was read from, callbacks included.
\<close>

section \<open>Values\<close>

datatype lisp =
    LNil
  | LInt int
  | LSym rstring
  | LBox boxed_value
  | LCons lisp lisp

text \<open>A word, or the tree below it, stands for a value.\<close>

fun stands :: "codec \<Rightarrow> symbol_table \<Rightarrow> boxed_table \<Rightarrow> node \<Rightarrow> lisp \<Rightarrow> bool" where
  "stands c st b (Leaf w) LNil \<longleftrightarrow> w = WORD_NIL"
| "stands c st b (Leaf w) (LInt i) \<longleftrightarrow> tag_of w = TAG_FIXNUM \<and> sint (decode_fixnum w) = i"
| "stands c st b (Leaf w) (LSym n) \<longleftrightarrow> tag_of w = TAG_SYMBOL \<and> name_of st w = Some n"
| "stands c st b (Leaf w) (LBox x) \<longleftrightarrow> tag_of w = TAG_BOXED
     \<and> map_option entry_value (boxed_get_entry c b w) = Some x"
| "stands c st b (Pair p l r) (LCons x y) \<longleftrightarrow> stands c st b l x \<and> stands c st b r y"
| "stands c st b t v \<longleftrightarrow> False"

text \<open>The value that an atom or a quoted form denotes; integers keep 61 bits.\<close>

definition atom_value :: "rstring \<Rightarrow> lisp" where
  "atom_value a =
     (if a = lit ''()'' then LNil
      else case parse_i64 a of
             Some v \<Rightarrow> LInt (signed_take_bit 60 (sint v))
           | None \<Rightarrow> LSym a)"

fun datum :: "form \<Rightarrow> lisp" where
  "datum (FAtom a) = atom_value a"
| "datum (FStr v) = LBox (Str v)"
| "datum (FList fs) = foldr LCons (map datum fs) LNil"

text \<open>How a value is written.\<close>

fun show_boxed :: "boxed_value \<Rightarrow> rstring" where
  "show_boxed (Str s) = [34] @ s @ [34]"
| "show_boxed (GameHandle h) = lit ''#<game-handle>''"
| "show_boxed (Rational n d) = dec_int (sint n) @ lit ''/'' @ dec_int (sint d)"

fun show_lisp :: "lisp \<Rightarrow> rstring" and show_tail :: "lisp \<Rightarrow> rstring" where
  "show_lisp LNil = lit ''()''"
| "show_lisp (LInt i) = dec_int i"
| "show_lisp (LSym n) = n"
| "show_lisp (LBox x) = show_boxed x"
| "show_lisp (LCons x y) = lit ''('' @ show_lisp x @ show_tail y @ lit '')''"
| "show_tail LNil = []"
| "show_tail (LCons x y) = lit '' '' @ show_lisp x @ show_tail y"
| "show_tail (LInt i) = lit '' . '' @ dec_int i"
| "show_tail (LSym n) = lit '' . '' @ n"
| "show_tail (LBox x) = lit '' . '' @ show_boxed x"

section \<open>Meaning\<close>

text \<open>The operator of a name, from the registry alone.\<close>

definition spelled :: "spellings \<Rightarrow> rstring \<Rightarrow> operator" where
  "spelled s name =
     (if name \<in> set (COND_SPELLINGS s) then Op_Cond
      else if name \<in> set (QUOTE_SPELLINGS s) then Op_Quote
      else if name \<in> set (CAR_SPELLINGS s) then Op_Accessor (lit ''car'') wsm_car
      else if name \<in> set (CDR_SPELLINGS s) then Op_Accessor (lit ''cdr'') wsm_cdr
      else Op_Call name)"

lemma spelled_operator: "operator_of X name = spelled (ctx_spellings X) name"
  by (simp add: operator_of_def spelled_def is_cond_spelling_def
      is_quote_spelling_def is_car_spelling_def is_cdr_spelling_def)

text \<open>
  An abstract host: what it binds, its primitives on values and on a state of its own, and the
  states in which it is still within its resources (handles, for instance).
\<close>

record 'a lisp_host =
  lh_within :: "'a \<Rightarrow> bool"
  lh_bindings :: "rstring \<Rightarrow> lisp option"
  lh_primitives :: "rstring \<Rightarrow> (lisp list \<Rightarrow> 'a \<Rightarrow> (rstring + lisp) \<times> 'a) option"

definition only_argument :: "form list \<Rightarrow> rstring \<Rightarrow> eval_error + form" where
  "only_argument fs name =
     (case fs of [f] \<Rightarrow> Inr f | _ \<Rightarrow> Inl (InvalidForm (name @ lit '' takes exactly one argument'')))"

definition clause_parts :: "form \<Rightarrow> eval_error + (form \<times> form)" where
  "clause_parts c =
     (case c of
        FList [test, body] \<Rightarrow> Inr (test, body)
      | _ \<Rightarrow> Inl (InvalidForm (lit ''cond clause takes exactly two forms'')))"

definition part_of :: "rstring \<Rightarrow> lisp \<Rightarrow> eval_error + lisp" where
  "part_of name v =
     (case v of
        LCons x y \<Rightarrow> Inr (if name = lit ''car'' then x else y)
      | _ \<Rightarrow> Inl (TypeError (name @ lit '' expects a non-empty list'')))"

definition call_host :: "'a lisp_host \<Rightarrow> rstring \<Rightarrow> lisp list \<Rightarrow> 'a \<Rightarrow> (eval_error + lisp) \<times> 'a" where
  "call_host H name vs a =
     (case lh_primitives H name of
        None \<Rightarrow> (Inl (UnknownSymbol name), a)
      | Some F \<Rightarrow>
          (case F vs a of
             (Inl message, a') \<Rightarrow> (Inl (HostPrimitiveFailed name message), a')
           | (Inr v, a') \<Rightarrow> (Inr v, a')))"

definition symbol_value :: "'a lisp_host \<Rightarrow> lisp \<Rightarrow> eval_error + lisp" where
  "symbol_value H v =
     (case v of
        LSym n \<Rightarrow>
          if n = lit ''t'' then Inr v
          else (case lh_bindings H n of Some x \<Rightarrow> Inr x | None \<Rightarrow> Inl (UnknownSymbol n))
      | _ \<Rightarrow> Inr v)"

text \<open>The operator of a list form: an atom that is a symbol, or nothing that can be called.\<close>

definition form_operator :: "spellings \<Rightarrow> form \<Rightarrow> operator option" where
  "form_operator s h =
     (case h of
        FAtom a \<Rightarrow> (case atom_value a of LSym n \<Rightarrow> Some (spelled s n) | _ \<Rightarrow> None)
      | _ \<Rightarrow> None)"

lemma only_argument_size: "only_argument fs name = Inr f \<Longrightarrow> f \<in> set fs"
  by (auto simp: only_argument_def split: list.splits)

lemma clause_parts_size: "clause_parts c = Inr (f, g) \<Longrightarrow> size f < size c \<and> size g < size c"
  by (auto simp: clause_parts_def split: form.splits list.splits)

lemma size_member: "f \<in> set fs \<Longrightarrow> size f < Suc (size_list size fs)"
  by (induction fs) auto

function feval :: "spellings \<Rightarrow> 'a lisp_host \<Rightarrow> form \<Rightarrow> 'a \<Rightarrow> (eval_error + lisp) \<times> 'a"
  and fargs :: "spellings \<Rightarrow> 'a lisp_host \<Rightarrow> form list \<Rightarrow> 'a \<Rightarrow> (eval_error + lisp list) \<times> 'a"
  and fcond :: "spellings \<Rightarrow> 'a lisp_host \<Rightarrow> form list \<Rightarrow> 'a \<Rightarrow> (eval_error + lisp) \<times> 'a"
where
  "feval s H (FAtom n) a = (symbol_value H (atom_value n), a)"
| "feval s H (FStr v) a = (Inr (LBox (Str v)), a)"
| "feval s H (FList []) a = (Inr LNil, a)"
| "feval s H (FList (h # fs)) a =
     (case form_operator s h of
        None \<Rightarrow> (Inl NotCallable, a)
      | Some Op_Cond \<Rightarrow> fcond s H fs a
      | Some Op_Quote \<Rightarrow> (and_then (only_argument fs (lit ''quote'')) (\<lambda>f. Inr (datum f)), a)
      | Some (Op_Accessor name accessor) \<Rightarrow>
          step_then (only_argument fs name, a) (\<lambda>f a.
          step_then (feval s H f a) (\<lambda>v a. (part_of name v, a)))
      | Some (Op_Call name) \<Rightarrow> step_then (fargs s H fs a) (\<lambda>vs a. call_host H name vs a))"
| "fargs s H [] a = (Inr [], a)"
| "fargs s H (f # fs) a =
     step_then (feval s H f a) (\<lambda>v a. step_then (fargs s H fs a) (\<lambda>vs a. (Inr (v # vs), a)))"
| "fcond s H [] a = (Inr LNil, a)"
| "fcond s H (c # cs) a =
     step_then (clause_parts c, a) (\<lambda>(test, body) a.
     step_then (feval s H test a) (\<lambda>v a. if v \<noteq> LNil then feval s H body a else fcond s H cs a))"
  by pat_completeness auto

termination
  by (relation "measure (\<lambda>x. case x of Inl (_, _, f, _) \<Rightarrow> size f
     | Inr (Inl (_, _, fs, _)) \<Rightarrow> size_list size fs | Inr (Inr (_, _, fs, _)) \<Rightarrow> size_list size fs)")
    (auto dest!: only_argument_size clause_parts_size size_member)

section \<open>Words that stand for values\<close>

lemma stands_truthy: "stands c st b t v \<Longrightarrow> repr A t \<Longrightarrow> is_truthy (word_of t) \<longleftrightarrow> v \<noteq> LNil"
  using tag_nil by (cases t; cases v) (auto simp: is_truthy_def)

lemma stands_pair: "stands c st b t v \<Longrightarrow> (\<exists>p l r. t = Pair p l r) \<longleftrightarrow> (\<exists>x y. v = LCons x y)"
  by (cases t; cases v) auto

lemma stands_atom: "atom_denotes st a w \<Longrightarrow> stands c st b (Leaf w) (atom_value a)"
  by (auto simp: atom_denotes_def atom_value_def sint_decode_encode encode_fixnum_tag
      split: if_splits option.splits)

lemma denotes_stands:
  "denotes c st b t f \<Longrightarrow> stands c st b t (datum f)"
  "denotes_list c st b t fs \<Longrightarrow> stands c st b t (foldr LCons (map datum fs) LNil)"
  by (induction c st b t f and c st b t fs rule: denotes_denotes_list.induct)
    (auto simp: stands_atom)

text \<open>Printing a tree writes the value it stands for.\<close>

lemma print_leaf_stands:
  "stands c st b (Leaf w) v \<Longrightarrow> print_leaf c st b w = show_lisp v"
  using tag_nil by (cases v) (auto simp: print_leaf_def split: boxed_value.splits)

lemma print_stands:
  "stands c st b t v \<Longrightarrow> print_tree c st b t = show_lisp v \<and> print_tail c st b t = show_tail v"
proof (induction t arbitrary: v)
  case (Leaf w)
  then have "print_leaf c st b w = show_lisp v" by (rule print_leaf_stands)
  then show ?case using Leaf tag_nil by (cases v) auto
next
  case (Pair p l r)
  then obtain x y where "v = LCons x y" by (cases v) auto
  then show ?case using Pair.IH(1) [of x] Pair.IH(2) [of y] Pair.prems by simp
qed

text \<open>Tables that only grow.\<close>

definition kept :: "codec \<Rightarrow> boxed_table \<Rightarrow> boxed_table \<Rightarrow> bool" where
  "kept c b b' \<longleftrightarrow> (\<forall>w e. boxed_get_entry c b w = Some e \<longrightarrow> boxed_get_entry c b' w = Some e)"

lemma kept_refl [simp]: "kept c b b" and kept_trans: "kept c b b' \<Longrightarrow> kept c b' b'' \<Longrightarrow> kept c b b''"
  by (simp_all add: kept_def)

lemma stands_kept: "stands c st b t v \<Longrightarrow> kept c b b' \<Longrightarrow> stands c st b' t v"
  by (induction c st b t v rule: stands.induct) (auto simp: kept_def)

lemma denotes_kept:
  "denotes c st b t f \<Longrightarrow> kept c b b' \<Longrightarrow> denotes c st b' t f"
  "denotes_list c st b t fs \<Longrightarrow> kept c b b' \<Longrightarrow> denotes_list c st b' t fs"
  by (erule denotes_mono [rotated -1], simp_all add: kept_def)+

definition word_stands :: "codec \<Rightarrow> symbol_table \<Rightarrow> arena \<Rightarrow> boxed_table \<Rightarrow> lisp \<Rightarrow> u64 \<Rightarrow> bool" where
  "word_stands c st A b v x \<longleftrightarrow> (\<exists>t. word_of t = x \<and> repr A t \<and> stands c st b t v)"

lemma word_stands_kept: "word_stands c st A b v x \<Longrightarrow> kept c b b' \<Longrightarrow> word_stands c st A b' v x"
  using stands_kept by (auto simp: word_stands_def)

lemma word_standsI: "repr A t \<Longrightarrow> stands c st b t v \<Longrightarrow> word_stands c st A b v (word_of t)"
  by (auto simp: word_stands_def)

section \<open>Simulation\<close>

text \<open>
  A step of the abstract host and a step on words: as long as the host stays within its
  resources, related states, tables that only grow, the same error, or results that stand for
  each other. \<open>look\<close> finds the session's table in the world.
\<close>

definition simulates :: "codec \<Rightarrow> ('w \<Rightarrow> boxed_table) \<Rightarrow> ('a \<Rightarrow> 'w \<Rightarrow> bool) \<Rightarrow> ('a \<Rightarrow> bool) \<Rightarrow>
    (boxed_table \<Rightarrow> 'v \<Rightarrow> 'x \<Rightarrow> bool) \<Rightarrow> 'w \<Rightarrow> ('e + 'v) \<times> 'a \<Rightarrow> ('e stop + 'x) \<times> 'w \<Rightarrow> bool" where
  "simulates c look sim G V w ra rc \<longleftrightarrow> (G (snd ra) \<longrightarrow>
     sim (snd ra) (snd rc) \<and> kept c (look w) (look (snd rc))
     \<and> (case fst ra of
          Inl e \<Rightarrow> fst rc = Inl (Raise e)
        | Inr v \<Rightarrow> \<exists>x. fst rc = Inr x \<and> V (look (snd rc)) v x))"

lemma simulates_error: "sim a w \<Longrightarrow> simulates c look sim G V w (Inl e, a) (Inl (Raise e), w)"
  by (simp add: simulates_def)

lemma simulates_value: "sim a w \<Longrightarrow> V (look w) v x \<Longrightarrow> simulates c look sim G V w (Inr v, a) (Inr x, w)"
  by (simp add: simulates_def)

lemma simulates_then:
  assumes "simulates c look sim G V w ra rc"
    and "\<And>v a'. G (snd (f v a')) \<Longrightarrow> G a'"
    and "\<And>v x a' w'. ra = (Inr v, a') \<Longrightarrow> V (look w') v x \<Longrightarrow> sim a' w' \<Longrightarrow> kept c (look w) (look w') \<Longrightarrow>
      simulates c look sim G U w' (f v a') (g x w')"
  shows "simulates c look sim G U w (step_then ra f) (step_then rc g)"
proof -
  obtain r a' where ra: "ra = (r, a')" by fastforce
  obtain q w' where rc: "rc = (q, w')" by fastforce
  show ?thesis
  proof (cases r)
    case (Inl e)
    then show ?thesis using assms(1) by (simp add: ra rc simulates_def)
  next
    case (Inr v)
    show ?thesis
    proof (cases "G (snd (f v a'))")
      case True
      then have "G a'" by (rule assms(2))
      then obtain x where x: "q = Inr x" "V (look w') v x" "sim a' w'" "kept c (look w) (look w')"
        using assms(1) Inr by (auto simp: ra rc simulates_def)
      have "simulates c look sim G U w' (f v a') (g x w')"
        using assms(3) x ra Inr by simp
      then show ?thesis
        using x(1,4) Inr kept_trans by (auto simp: ra rc simulates_def)
    qed (simp add: Inr ra simulates_def)
  qed
qed

text \<open>
  A concrete host implements an abstract one; resources that have run out never come back within
  an evaluation.
\<close>

definition absorbing :: "'a lisp_host \<Rightarrow> bool" where
  "absorbing H \<longleftrightarrow> (\<forall>n F vs a. lh_primitives H n = Some F \<longrightarrow> lh_within H (snd (F vs a)) \<longrightarrow> lh_within H a)"

definition implements :: "codec \<Rightarrow> 'w eval_context \<Rightarrow> ('w \<Rightarrow> boxed_table) \<Rightarrow> ('a \<Rightarrow> 'w \<Rightarrow> bool) \<Rightarrow>
    'a lisp_host \<Rightarrow> bool" where
  "implements c X look sim H \<longleftrightarrow> absorbing H
   \<and> (\<forall>a w n. sim a w \<longrightarrow>
        (case lh_bindings H n of
           None \<Rightarrow> bindings (ctx_env X) n = None
         | Some v \<Rightarrow> \<exists>x. bindings (ctx_env X) n = Some x
             \<and> word_stands c (ctx_symbols X) (ctx_arena X) (look w) v x))
   \<and> (\<forall>n. case lh_primitives H n of
           None \<Rightarrow> primitives (ctx_env X) n = None
         | Some F \<Rightarrow> \<exists>g. primitives (ctx_env X) n = Some g
             \<and> (\<forall>a w vs xs. sim a w \<longrightarrow>
                  list_all2 (word_stands c (ctx_symbols X) (ctx_arena X) (look w)) vs xs \<longrightarrow>
                  simulates c look sim (lh_within H)
                    (word_stands c (ctx_symbols X) (ctx_arena X)) w (F vs a) (g xs w)))"

lemma implements_binding:
  assumes "implements c X look sim H" and "sim a w"
  shows "lh_bindings H n = None \<Longrightarrow> bindings (ctx_env X) n = None"
    and "lh_bindings H n = Some v \<Longrightarrow> \<exists>x. bindings (ctx_env X) n = Some x
      \<and> word_stands c (ctx_symbols X) (ctx_arena X) (look w) v x"
proof -
  have "case lh_bindings H n of
      None \<Rightarrow> bindings (ctx_env X) n = None
    | Some v \<Rightarrow> \<exists>x. bindings (ctx_env X) n = Some x
        \<and> word_stands c (ctx_symbols X) (ctx_arena X) (look w) v x"
    using assms unfolding implements_def by blast
  then show "lh_bindings H n = None \<Longrightarrow> bindings (ctx_env X) n = None"
    and "lh_bindings H n = Some v \<Longrightarrow> \<exists>x. bindings (ctx_env X) n = Some x
      \<and> word_stands c (ctx_symbols X) (ctx_arena X) (look w) v x" by simp_all
qed

lemma implements_primitive:
  assumes "implements c X look sim H"
  shows "lh_primitives H n = None \<Longrightarrow> primitives (ctx_env X) n = None"
    and "lh_primitives H n = Some F \<Longrightarrow> \<exists>g. primitives (ctx_env X) n = Some g
      \<and> (\<forall>a w vs xs. sim a w \<longrightarrow>
           list_all2 (word_stands c (ctx_symbols X) (ctx_arena X) (look w)) vs xs \<longrightarrow>
           simulates c look sim (lh_within H)
             (word_stands c (ctx_symbols X) (ctx_arena X)) w (F vs a) (g xs w))"
proof -
  from assms [unfolded implements_def, THEN conjunct2, THEN conjunct2, THEN spec, of n]
  show "lh_primitives H n = None \<Longrightarrow> primitives (ctx_env X) n = None"
    and "lh_primitives H n = Some F \<Longrightarrow> \<exists>g. primitives (ctx_env X) n = Some g
      \<and> (\<forall>a w vs xs. sim a w \<longrightarrow>
           list_all2 (word_stands c (ctx_symbols X) (ctx_arena X) (look w)) vs xs \<longrightarrow>
           simulates c look sim (lh_within H)
             (word_stands c (ctx_symbols X) (ctx_arena X)) w (F vs a) (g xs w))"
    by simp_all
qed

lemma implements_absorbing: "implements c X look sim H \<Longrightarrow> absorbing H"
  by (simp add: implements_def)

lemma call_host_within:
  assumes "absorbing H" and "lh_within H (snd (call_host H n vs a))"
  shows "lh_within H a"
proof (cases "lh_primitives H n")
  case (Some F)
  obtain r a' where r: "F vs a = (r, a')" by fastforce
  then have "lh_within H a'" using assms(2) Some by (cases r) (simp_all add: call_host_def)
  then have "lh_within H (snd (F vs a))" using r by simp
  then show ?thesis using assms(1) Some unfolding absorbing_def by blast
qed (use assms(2) in \<open>simp add: call_host_def\<close>)

lemma step_then_pure [simp]: "snd (step_then r (\<lambda>v a. (h v, a))) = snd r"
  by (cases r; cases "fst r") auto

lemma step_then_within:
  assumes "G (snd (step_then r f))" and "\<And>v a. r = (Inr v, a) \<Longrightarrow> G (snd (f v a)) \<Longrightarrow> G a"
  shows "G (snd r)"
  using assms by (cases r; cases "fst r") auto

lemma feval_within:
  "absorbing H \<Longrightarrow> lh_within H (snd (feval s H f a)) \<Longrightarrow> lh_within H a"
  "absorbing H \<Longrightarrow> lh_within H (snd (fargs s H fs a)) \<Longrightarrow> lh_within H a"
  "absorbing H \<Longrightarrow> lh_within H (snd (fcond s H cs a)) \<Longrightarrow> lh_within H a"
proof (induction s H f a and s H fs a and s H cs a rule: feval_fargs_fcond.induct)
  case (4 s H h fs a)
  show ?case
  proof (cases "form_operator s h")
    case (Some opr)
    show ?thesis
    proof (cases opr)
      case (Op_Accessor name accessor)
      then show ?thesis using 4(2,4,5) Some by (cases "only_argument fs name") simp_all
    next
      case (Op_Call name)
      have "lh_within H (snd (step_then (fargs s H fs a) (\<lambda>vs a. call_host H name vs a)))"
        using 4(5) Some Op_Call by simp
      then have "lh_within H (snd (fargs s H fs a))"
        by (rule step_then_within) (rule call_host_within [OF 4(4)])
      then show ?thesis using 4(3,4) Some Op_Call by simp
    qed (use 4 Some in simp_all)
  qed (use 4 in simp)
next
  case (6 s H f fs a)
  have "lh_within H (snd (step_then (feval s H f a) (\<lambda>v a. step_then (fargs s H fs a) (\<lambda>vs a. (Inr (v # vs), a)))))"
    using 6(4) by simp
  then have "lh_within H (snd (feval s H f a))"
    by (rule step_then_within) (use 6(2,3) in simp)
  then show ?case by (rule 6(1) [OF 6(3)])
next
  case (8 s H d ds a)
  show ?case
  proof (cases "clause_parts d")
    case (Inr fg)
    obtain f g where d: "clause_parts d = Inr (f, g)" using Inr by (cases fg) simp
    have "lh_within H (snd (step_then (feval s H f a)
        (\<lambda>v a. if v \<noteq> LNil then feval s H g a else fcond s H ds a)))"
      using 8(5) d by simp
    then have "lh_within H (snd (feval s H f a))"
      by (rule step_then_within) (use 8(2-4) d in \<open>auto split: if_splits\<close>)
    then show ?thesis using 8(1,4) d by simp
  qed (use 8 in simp)
qed simp_all

text \<open>The parts of a form and of its tree.\<close>

lemma argument_agrees:
  assumes "denotes_list c st b r fs" and "repr A r"
  shows "case only_argument fs name of
      Inl e \<Rightarrow> argument_tree r name = Inl (Raise e)
    | Inr f \<Rightarrow> \<exists>u. argument_tree r name = Inr u \<and> denotes c st b u f \<and> repr A u"
proof (cases fs)
  case Nil
  then have "r = Leaf WORD_NIL" using assms(1) by (cases r) auto
  then show ?thesis using Nil by (simp add: argument_tree_def only_argument_def)
next
  case (Cons f gs)
  then obtain p l q where r: "r = Pair p l q" "denotes c st b l f" "denotes_list c st b q gs"
    using assms(1) by (cases r) auto
  have "gs = [] \<longleftrightarrow> q = Leaf WORD_NIL" using r(3) assms(2) r(1) tag_nil by (cases q; cases gs) auto
  moreover have "word_of q = WORD_NIL \<longleftrightarrow> q = Leaf WORD_NIL"
    using word_of_NIL_iff [of A q] assms(2) r(1) by simp
  ultimately show ?thesis
    using r assms(2) Cons by (auto simp: argument_tree_def only_argument_def split: list.splits)
qed

lemma denotes_list_shape:
  "denotes_list c st b t [] \<Longrightarrow> t = Leaf WORD_NIL"
  "denotes_list c st b t (f # fs) \<Longrightarrow>
     \<exists>p l r. t = Pair p l r \<and> denotes c st b l f \<and> denotes_list c st b r fs"
  by (cases t, auto)+

lemma clause_agrees:
  assumes "denotes c st b u f" and "repr A u"
  shows "case clause_parts f of
      Inl e \<Rightarrow> clause_tree u = Inl (Raise e)
    | Inr (x, y) \<Rightarrow> \<exists>l r. clause_tree u = Inr (l, r) \<and> denotes c st b l x \<and> denotes c st b r y
        \<and> repr A l \<and> repr A r"
proof (cases f)
  case (FList fs)
  show ?thesis
  proof (cases "\<exists>x y gs. fs = x # y # gs")
    case True
    then obtain x y gs where fs: "fs = x # y # gs" by blast
    then obtain p l p' r q where u: "u = Pair p l (Pair p' r q)" "denotes c st b l x"
        "denotes c st b r y" "denotes_list c st b q gs"
      using assms(1) FList by (cases u) (auto elim!: denotes_list.elims(2) [of _ _ _ _ "y # gs"])
    have "gs = [] \<longleftrightarrow> q = Leaf WORD_NIL" using u(4) assms(2) u(1) tag_nil by (cases q; cases gs) auto
    moreover have "word_of q = WORD_NIL \<longleftrightarrow> q = Leaf WORD_NIL"
      using word_of_NIL_iff [of A q] assms(2) u(1) by simp
    ultimately show ?thesis
      using u assms(2) FList fs
      by (auto simp: clause_tree_def clause_parts_def bad_clause_def split: list.splits)
  next
    case False
    then consider "fs = []" | x where "fs = [x]" by (metis list.exhaust)
    then show ?thesis
    proof cases
      case 1
      then have "u = Leaf WORD_NIL" using assms(1) FList by (cases u) auto
      then show ?thesis using 1 FList by (simp add: clause_tree_def clause_parts_def bad_clause_def)
    next
      case (2 x)
      then obtain p l where "u = Pair p l (Leaf WORD_NIL)"
        using assms(1) FList by (auto dest!: denotes_list_shape)
      then show ?thesis using 2 FList by (simp add: clause_tree_def clause_parts_def bad_clause_def)
    qed
  qed
qed (use assms(1) in \<open>cases u; simp add: clause_tree_def clause_parts_def bad_clause_def\<close>)+

text \<open>The evaluator on the tree of a form simulates the meaning of the form.\<close>

definition sound_step :: "codec \<Rightarrow> 'w eval_context \<Rightarrow> ('w \<Rightarrow> boxed_table) \<Rightarrow> ('a \<Rightarrow> 'w \<Rightarrow> bool) \<Rightarrow>
    'a lisp_host \<Rightarrow> 'w \<Rightarrow> (eval_error + lisp) \<times> 'a \<Rightarrow> (eval_error stop + u64) \<times> 'w \<Rightarrow> bool" where
  "sound_step c X look sim H =
     simulates c look sim (lh_within H) (word_stands c (ctx_symbols X) (ctx_arena X))"

lemma symbol_simulates:
  assumes "implements c X look sim H" and "sim a w"
    and "denotes c (ctx_symbols X) (look w) t (FAtom n)" and "repr (ctx_arena X) t"
  shows "sound_step c X look sim H w (symbol_value H (atom_value n), a) (eval_tree X t w)"
proof -
  obtain v where t: "t = Leaf v" using assms(3) by (cases t) auto
  have v: "stands c (ctx_symbols X) (look w) (Leaf v) (atom_value n)"
    using stands_atom assms(3) t by simp
  then have self: "word_stands c (ctx_symbols X) (ctx_arena X) (look w) (atom_value n) v"
    using word_standsI [OF assms(4)] t by simp
  show ?thesis
  proof (cases "atom_value n")
    case (LSym m)
    then have sym: "tag_of v = TAG_SYMBOL" "name_of (ctx_symbols X) v = Some m" using v by auto
    show ?thesis
    proof (cases "m = lit ''t''")
      case True
      then show ?thesis
        using self sym LSym assms(2) unfolding sound_step_def
        by (simp add: t symbol_value_def eval_symbol_def simulates_value)
    next
      case False
      show ?thesis
      proof (cases "lh_bindings H m")
        case None
        then show ?thesis
          using implements_binding(1) [OF assms(1,2) None] sym LSym False assms(2) unfolding sound_step_def
          by (simp add: t symbol_value_def eval_symbol_def simulates_error)
      next
        case (Some x)
        obtain y where "bindings (ctx_env X) m = Some y"
            "word_stands c (ctx_symbols X) (ctx_arena X) (look w) x y"
          using implements_binding(2) [OF assms(1,2) Some] by blast
        then show ?thesis
          using sym LSym False Some assms(2) unfolding sound_step_def
          by (simp add: t symbol_value_def eval_symbol_def simulates_value)
      qed
    qed
  qed (use self v assms(2) tag_nil in \<open>auto simp: t symbol_value_def sound_step_def intro: simulates_value\<close>)
qed

lemma call_simulates:
  assumes "implements c X look sim H" and "sim a w"
    and "list_all2 (word_stands c (ctx_symbols X) (ctx_arena X) (look w)) vs xs"
  shows "sound_step c X look sim H w (call_host H n vs a) (call_primitive X n xs w)"
proof (cases "lh_primitives H n")
  case None
  then show ?thesis
    using implements_primitive(1) [OF assms(1) None] assms(2)
    by (simp add: call_host_def call_primitive_def sound_step_def simulates_error)
next
  case (Some F)
  obtain g where g: "primitives (ctx_env X) n = Some g"
      "simulates c look sim (lh_within H) (word_stands c (ctx_symbols X) (ctx_arena X)) w (F vs a) (g xs w)"
    using implements_primitive(2) [OF assms(1) Some] assms(2,3) by blast
  obtain ra a' where ra: "F vs a = (ra, a')" by fastforce
  obtain rc w' where rc: "g xs w = (rc, w')" by fastforce
  show ?thesis
    using g ra rc Some
    by (cases ra) (auto simp: call_host_def call_primitive_def sound_step_def simulates_def)
qed

lemma part_simulates:
  assumes "sim a w" and "word_stands c (ctx_symbols X) (ctx_arena X) (look w) v x"
    and "name = lit ''car'' \<and> accessor = wsm_car \<or> name = lit ''cdr'' \<and> accessor = wsm_cdr"
  shows "sound_step c X look sim H w (part_of name v, a) (accessor_result X name accessor x, w)"
proof -
  obtain t where t: "word_of t = x" "repr (ctx_arena X) t" "stands c (ctx_symbols X) (look w) t v"
    using assms(2) by (auto simp: word_stands_def)
  show ?thesis
  proof (cases t)
    case (Leaf y)
    then have "part_of name v = Inl (TypeError (name @ lit '' expects a non-empty list''))"
      using t(3) by (cases v) (auto simp: part_of_def)
    then show ?thesis
      using t(1,2) Leaf assms(1) by (simp add: accessor_result_def sound_step_def simulates_error)
  next
    case (Pair p l r)
    then obtain y z where v: "v = LCons y z" "stands c (ctx_symbols X) (look w) l y"
        "stands c (ctx_symbols X) (look w) r z"
      using t(3) by (cases v) auto
    have "word_stands c (ctx_symbols X) (ctx_arena X) (look w) y (word_of l)"
      "word_stands c (ctx_symbols X) (ctx_arena X) (look w) z (word_of r)"
      using v(2,3) t(2) Pair by (auto intro: word_standsI)
    then show ?thesis
      using t(1,2) Pair v(1) assms(1,3)
      by (auto simp: accessor_result_def part_of_def sound_step_def intro!: simulates_value)
  qed
qed

lemma spelled_accessor:
  "spelled s n = Op_Accessor name accessor \<Longrightarrow>
     name = lit ''car'' \<and> accessor = wsm_car \<or> name = lit ''cdr'' \<and> accessor = wsm_cdr"
  by (auto simp: spelled_def simp del: lit_simps split: if_splits)

text \<open>The head of a call.\<close>

lemma head_agrees:
  assumes "denotes c (ctx_symbols X) b l h" and "repr (ctx_arena X) l"
  shows "form_operator (ctx_spellings X) h = None \<Longrightarrow> tag_of (word_of l) \<noteq> TAG_SYMBOL"
    and "form_operator (ctx_spellings X) h = Some opr \<Longrightarrow>
      \<exists>n. name_of (ctx_symbols X) (word_of l) = Some n \<and> tag_of (word_of l) = TAG_SYMBOL
        \<and> operator_of X n = opr"
proof -
  have *: "stands c (ctx_symbols X) b l (datum h)" by (rule denotes_stands(1) [OF assms(1)])
  show "tag_of (word_of l) \<noteq> TAG_SYMBOL" if "form_operator (ctx_spellings X) h = None"
  proof (cases h)
    case (FAtom a)
    then show ?thesis
      using * that tag_nil assms(2)
      by (cases l; cases "atom_value a") (auto simp: form_operator_def)
  next
    case (FStr v)
    then show ?thesis using * assms(2) by (cases l) auto
  next
    case (FList fs)
    then show ?thesis using * assms(2) tag_nil by (cases l; cases fs) auto
  qed
  show "\<exists>n. name_of (ctx_symbols X) (word_of l) = Some n \<and> tag_of (word_of l) = TAG_SYMBOL
      \<and> operator_of X n = opr" if opr: "form_operator (ctx_spellings X) h = Some opr"
  proof -
    obtain a n where "h = FAtom a" "atom_value a = LSym n" "spelled (ctx_spellings X) n = opr"
      using opr by (auto simp: form_operator_def split: form.splits lisp.splits)
    then show ?thesis using * by (cases l) (auto simp: spelled_operator)
  qed
qed

lemma feval_simulates:
  "implements c X look sim H \<Longrightarrow> s = ctx_spellings X \<Longrightarrow> sim a w \<Longrightarrow>
     denotes c (ctx_symbols X) (look w) t f \<Longrightarrow> repr (ctx_arena X) t \<Longrightarrow>
     sound_step c X look sim H w (feval s H f a) (eval_tree X t w)"
  "implements c X look sim H \<Longrightarrow> s = ctx_spellings X \<Longrightarrow> sim a w \<Longrightarrow>
     denotes_list c (ctx_symbols X) (look w) t fs \<Longrightarrow> repr (ctx_arena X) t \<Longrightarrow>
     simulates c look sim (lh_within H) (\<lambda>b. list_all2 (word_stands c (ctx_symbols X) (ctx_arena X) b)) w
       (fargs s H fs a) (args_tree X t w)"
  "implements c X look sim H \<Longrightarrow> s = ctx_spellings X \<Longrightarrow> sim a w \<Longrightarrow>
     denotes_list c (ctx_symbols X) (look w) t cs \<Longrightarrow> repr (ctx_arena X) t \<Longrightarrow>
     sound_step c X look sim H w (fcond s H cs a) (cond_tree X t w)"
proof (induction s H f a and s H fs a and s H cs a arbitrary: t w and t w and t w
    rule: feval_fargs_fcond.induct)
  case (1 s H n a)
  then show ?case using symbol_simulates by fastforce
next
  case (2 s H v a)
  then obtain x where t: "t = Leaf x" by (cases t) auto
  have "word_stands c (ctx_symbols X) (ctx_arena X) (look w) (LBox (Str v)) x"
    using word_standsI [OF 2(5) denotes_stands(1) [OF 2(4)]] t by simp
  then show ?case using 2 by (auto simp: t sound_step_def intro: simulates_value)
next
  case (3 s H a)
  then have t: "t = Leaf WORD_NIL" by (cases t) auto
  have "word_stands c (ctx_symbols X) (ctx_arena X) (look w) LNil WORD_NIL"
    using word_standsI [of "ctx_arena X" "Leaf WORD_NIL"] tag_nil by simp
  then show ?case using 3 tag_nil by (auto simp: t sound_step_def intro: simulates_value)
next
  case (5 s H a)
  then have "t = Leaf WORD_NIL" by (cases t) auto
  then show ?case using 5 by (simp add: simulates_value)
next
  case (7 s H a)
  then have t: "t = Leaf WORD_NIL" by (cases t) auto
  have "word_stands c (ctx_symbols X) (ctx_arena X) (look w) LNil WORD_NIL"
    using word_standsI [of "ctx_arena X" "Leaf WORD_NIL"] tag_nil by simp
  then show ?case using 7 by (auto simp: t sound_step_def intro: simulates_value)
next
  case (6 s H f fs a)
  note within = feval_within [OF implements_absorbing [OF 6(3)]]
  obtain p l r where t: "t = Pair p l r" "denotes c (ctx_symbols X) (look w) l f"
      "denotes_list c (ctx_symbols X) (look w) r fs"
    using denotes_list_shape(2) [OF 6(6)] by blast
  have rep: "repr (ctx_arena X) l" "repr (ctx_arena X) r" using 6(7) t(1) by simp_all
  show ?case
    unfolding t(1) args_tree.simps fargs.simps
  proof (rule simulates_then [OF 6(1) [OF 6(3-5) t(2) rep(1), unfolded sound_step_def]])
    show "lh_within H (snd (step_then (fargs s H fs a') (\<lambda>vs a. (Inr (v # vs), a)))) \<Longrightarrow> lh_within H a'" for v a'
      using within(2) [of s fs a'] by simp
    fix v x a' w'
    assume v: "feval s H f a = (Inr v, a')"
      "word_stands c (ctx_symbols X) (ctx_arena X) (look w') v x" "sim a' w'" "kept c (look w) (look w')"
    show "simulates c look sim (lh_within H) (\<lambda>b. list_all2 (word_stands c (ctx_symbols X) (ctx_arena X) b)) w'
        (step_then (fargs s H fs a') (\<lambda>vs a. (Inr (v # vs), a)))
        (step_then (args_tree X r w') (\<lambda>xs w. (Inr (x # xs), w)))"
    proof (rule simulates_then [OF 6(2) [OF v(1) 6(3,4) v(3) denotes_kept(2) [OF t(3) v(4)] rep(2)]])
      show "lh_within H (snd (Inr (v # vs), a2)) \<Longrightarrow> lh_within H a2" for vs a2 by simp
      fix vs xs a2 w2
      assume "list_all2 (word_stands c (ctx_symbols X) (ctx_arena X) (look w2)) vs xs" "sim a2 w2"
        "kept c (look w') (look w2)"
      then show "simulates c look sim (lh_within H) (\<lambda>b. list_all2 (word_stands c (ctx_symbols X) (ctx_arena X) b)) w2
          (Inr (v # vs), a2) (Inr (x # xs), w2)"
        using v(2) by (intro simulates_value) (auto intro: word_stands_kept)
    qed
  qed
next
  case (8 s H d ds a)
  note within = feval_within [OF implements_absorbing [OF 8(4)]]
  obtain p l r where t: "t = Pair p l r" "denotes c (ctx_symbols X) (look w) l d"
      "denotes_list c (ctx_symbols X) (look w) r ds"
    using denotes_list_shape(2) [OF 8(7)] by blast
  have rep: "repr (ctx_arena X) l" "repr (ctx_arena X) r" using 8(8) t(1) by simp_all
  show ?case
  proof (cases "clause_parts d")
    case (Inl e)
    then show ?thesis
      using clause_agrees [OF t(2) rep(1)] 8(6)
      by (simp add: t(1) sound_step_def simulates_error)
  next
    case (Inr fg)
    obtain f g where d: "clause_parts d = Inr (f, g)" using Inr by (cases fg) simp
    then obtain u u' where u: "clause_tree l = Inr (u, u')" "denotes c (ctx_symbols X) (look w) u f"
        "denotes c (ctx_symbols X) (look w) u' g" "repr (ctx_arena X) u" "repr (ctx_arena X) u'"
      using clause_agrees [OF t(2) rep(1)] by auto
    have "simulates c look sim (lh_within H) (word_stands c (ctx_symbols X) (ctx_arena X)) w
        (step_then (feval s H f a) (\<lambda>v a. if v \<noteq> LNil then feval s H g a else fcond s H ds a))
        (step_then (eval_tree X u w) (\<lambda>v w. if is_truthy v then eval_tree X u' w else cond_tree X r w))"
    proof (rule simulates_then)
      show "simulates c look sim (lh_within H) (word_stands c (ctx_symbols X) (ctx_arena X)) w (feval s H f a) (eval_tree X u w)"
        using 8(1) [OF _ refl 8(4-6) u(2,4)] d by (simp add: sound_step_def)
      show "lh_within H (snd (if v \<noteq> LNil then feval s H g a' else fcond s H ds a')) \<Longrightarrow> lh_within H a'" for v a'
        using within(1) [of s g a'] within(3) [of s ds a'] by (cases "v = LNil") simp_all
      fix v x a' w'
      assume v: "feval s H f a = (Inr v, a')"
        "word_stands c (ctx_symbols X) (ctx_arena X) (look w') v x" "sim a' w'" "kept c (look w) (look w')"
      have truth: "is_truthy x \<longleftrightarrow> v \<noteq> LNil"
        using v(2) stands_truthy by (auto simp: word_stands_def)
      have "simulates c look sim (lh_within H) (word_stands c (ctx_symbols X) (ctx_arena X)) w'
          (feval s H g a') (eval_tree X u' w')" if "v \<noteq> LNil"
        using 8(2) [OF _ refl v(1) that 8(4,5) v(3) denotes_kept(1) [OF u(3) v(4)] u(5)] d
        by (simp add: sound_step_def)
      moreover have "simulates c look sim (lh_within H) (word_stands c (ctx_symbols X) (ctx_arena X)) w'
          (fcond s H ds a') (cond_tree X r w')" if "v = LNil"
        using 8(3) [OF _ refl v(1) _ 8(4,5) v(3) denotes_kept(2) [OF t(3) v(4)] rep(2)] d that
        by (simp add: sound_step_def)
      ultimately show "simulates c look sim (lh_within H) (word_stands c (ctx_symbols X) (ctx_arena X)) w'
          (if v \<noteq> LNil then feval s H g a' else fcond s H ds a')
          (if is_truthy x then eval_tree X u' w' else cond_tree X r w')"
        using truth by simp
    qed
    then show ?thesis using d u(1) by (simp add: t(1) sound_step_def)
  qed
next
  case (4 s H h fs a)
  obtain p l r where t: "t = Pair p l r" "denotes c (ctx_symbols X) (look w) l h"
      "denotes_list c (ctx_symbols X) (look w) r fs"
    using 4(7) denotes_list_shape(2) [of c "ctx_symbols X" "look w" t h fs] by auto
  have rep: "repr (ctx_arena X) l" "repr (ctx_arena X) r" using 4(8) t(1) by simp_all
  note head = head_agrees [OF t(2) rep(1)]
  show ?case
  proof (cases "form_operator s h")
    case None
    then show ?thesis
      using head(1) 4(5,6) by (simp add: t(1) sound_step_def simulates_error)
  next
    case (Some opr)
    then obtain n where n: "name_of (ctx_symbols X) (word_of l) = Some n"
        "tag_of (word_of l) = TAG_SYMBOL" "operator_of X n = opr"
      using head(2) 4(5) by blast
    show ?thesis
    proof (cases opr)
      case Op_Cond
      have "sound_step c X look sim H w (fcond s H fs a) (cond_tree X r w)"
        using 4(1) Some Op_Cond 4(4-6) t(3) rep(2) by simp
      then show ?thesis using Some Op_Cond n by (simp add: t(1))
    next
      case Op_Quote
      show ?thesis
      proof (cases "only_argument fs (lit ''quote'')")
        case (Inl e)
        then show ?thesis
          using argument_agrees [OF t(3) rep(2), of "lit ''quote''"] Some Op_Quote n 4(6)
          by (simp add: t(1) sound_step_def simulates_error del: lit_simps)
      next
        case (Inr f)
        then obtain u where "argument_tree r (lit ''quote'') = Inr u"
            "denotes c (ctx_symbols X) (look w) u f" "repr (ctx_arena X) u"
          using argument_agrees [OF t(3) rep(2), of "lit ''quote''"] by auto
        then show ?thesis
          using Inr Some Op_Quote n 4(6) word_standsI denotes_stands(1)
          by (simp add: t(1) sound_step_def simulates_value del: lit_simps)
      qed
    next
      case (Op_Accessor name accessor)
      have acc: "name = lit ''car'' \<and> accessor = wsm_car \<or> name = lit ''cdr'' \<and> accessor = wsm_cdr"
        using n(3) Op_Accessor spelled_accessor by (simp add: spelled_operator)
      show ?thesis
      proof (cases "only_argument fs name")
        case (Inl e)
        then show ?thesis
          using argument_agrees [OF t(3) rep(2), of name] Some Op_Accessor n 4(6)
          by (simp add: t(1) sound_step_def simulates_error)
      next
        case (Inr f)
        then obtain u where u: "argument_tree r name = Inr u"
            "denotes c (ctx_symbols X) (look w) u f" "repr (ctx_arena X) u"
          using argument_agrees [OF t(3) rep(2), of name] by auto
        have "simulates c look sim (lh_within H) (word_stands c (ctx_symbols X) (ctx_arena X)) w
            (step_then (feval s H f a) (\<lambda>v a. (part_of name v, a)))
            (step_then (eval_tree X u w) (\<lambda>v w. (accessor_result X name accessor v, w)))"
        proof (rule simulates_then)
          show "simulates c look sim (lh_within H) (word_stands c (ctx_symbols X) (ctx_arena X)) w
              (feval s H f a) (eval_tree X u w)"
            using 4(2) [OF Some Op_Accessor _ 4(4-6) u(2,3)] Inr by (simp add: sound_step_def)
          show "simulates c look sim (lh_within H) (word_stands c (ctx_symbols X) (ctx_arena X)) w'
              (part_of name v, a') (accessor_result X name accessor x, w')"
            if "word_stands c (ctx_symbols X) (ctx_arena X) (look w') v x" "sim a' w'" for v x a' w'
            using part_simulates [of sim a' w' c X look v x name accessor H] that acc by (simp add: sound_step_def)
        qed simp
        then show ?thesis using Inr u(1) Some Op_Accessor n by (simp add: t(1) sound_step_def)
      qed
    next
      case (Op_Call name)
      have "simulates c look sim (lh_within H) (\<lambda>b. list_all2 (word_stands c (ctx_symbols X) (ctx_arena X) b)) w
          (fargs s H fs a) (args_tree X r w)"
        using 4(3) Some Op_Call 4(4-6) t(3) rep(2) by simp
      then have "simulates c look sim (lh_within H) (word_stands c (ctx_symbols X) (ctx_arena X)) w
          (step_then (fargs s H fs a) (\<lambda>vs a. call_host H name vs a))
          (step_then (args_tree X r w) (\<lambda>args w. call_primitive X name args w))"
        by (rule simulates_then)
          (use call_simulates [OF 4(4)] call_host_within [OF implements_absorbing [OF 4(4)]] in \<open>auto simp: sound_step_def\<close>)
      then show ?thesis using Some Op_Call n by (simp add: t(1) sound_step_def)
    qed
  qed
qed

end
