(* ===== verification/Session_Semantics.thy ===== *)
theory Session_Semantics
  imports Eval_String Semantics
begin

text \<open>
  From text to text: what \<open>eval_str\<close> and \<open>wsm_eval_string\<close> answer is what the form means
  over the abstract host that the session's environment implements.
\<close>

section \<open>The host of a session\<close>

definition look_at :: "u64 \<Rightarrow> 'h world \<Rightarrow> boxed_table" where
  "look_at p w = (case w_tables w p of None \<Rightarrow> [] | Some b \<Rightarrow> b)"

text \<open>Whatever is interned and stored later, the session's environment implements the host.\<close>

definition hosts :: "platform \<Rightarrow> u64 \<Rightarrow> 'h session \<Rightarrow> ('a \<Rightarrow> 'h world \<Rightarrow> bool) \<Rightarrow> 'a lisp_host \<Rightarrow> bool" where
  "hosts pl p S sim H \<longleftrightarrow>
     (\<forall>A st. (\<forall>v m. name_of (s_symbols S) v = Some m \<longrightarrow> name_of st v = Some m) \<longrightarrow>
        implements (pl_codec pl) \<lparr>ctx_spellings = pl_spellings pl, ctx_arena = A, ctx_env = s_env S,
          ctx_symbols = st\<rparr> (look_at p) sim H)"

text \<open>The abstract state fits every world that reading a form can lead to, with room \<open>k\<close> left.\<close>

definition starts :: "platform \<Rightarrow> u64 \<Rightarrow> 'h process \<Rightarrow> 'h session \<Rightarrow> nat \<Rightarrow> ('a \<Rightarrow> 'h world \<Rightarrow> bool) \<Rightarrow>
    'a \<Rightarrow> bool" where
  "starts pl p P S k sim a \<longleftrightarrow>
     (\<forall>b. grown (clear_transient (s_boxed S)) b \<longrightarrow> k \<le> boxed_room (pl_codec pl) b \<longrightarrow>
        sim a \<lparr>w_tables = (tables_of P)(p \<mapsto> b), w_host = p_host P\<rparr>)"

definition answer_text :: "eval_error + lisp \<Rightarrow> rstring" where
  "answer_text r = (case r of Inl e \<Rightarrow> eval_error_message e | Inr v \<Rightarrow> show_lisp v)"

lemma answer_text_simps [simp]:
  "answer_text (Inl e) = eval_error_message e" "answer_text (Inr v) = show_lisp v"
  by (simp_all add: answer_text_def)

lemma plain_symbol_value: "plain_symbol a \<Longrightarrow> atom_value a = LSym a"
  by (auto simp: plain_symbol_def atom_ok_def atom_value_def)

lemma plain_symbol_atom: "plain_symbol a \<Longrightarrow> atom_ok a"
  by (simp add: plain_symbol_def)

section \<open>Evaluation of text\<close>

lemma eval_tree_world:
  assumes "codec_ok (pl_codec pl)" and "session_ok pl p S" and "T p = Some (s_boxed S)"
    and "repr A t" and "code_tree (s_symbols S) t"
    and "eval_tree \<lparr>ctx_spellings = pl_spellings pl, ctx_arena = A, ctx_env = s_env S,
      ctx_symbols = s_symbols S\<rparr> t \<lparr>w_tables = T, w_host = h\<rparr> = (r, w)"
  shows "\<exists>es. w_tables w = T(p \<mapsto> s_boxed S @ es) \<and> boxed_text_ok es"
proof -
  let ?X = "\<lparr>ctx_spellings = pl_spellings pl, ctx_arena = A, ctx_env = s_env S,
    ctx_symbols = s_symbols S\<rparr>" and ?w = "\<lparr>w_tables = T, w_host = h\<rparr>"
  have "world_ok p T ?w"
    unfolding world_ok_def using assms(3)
    by (intro exI [of _ "s_boxed S"] exI [of _ "[]"]) (simp add: fun_upd_idem)
  moreover have "host_safe (world_ok p T) ?X"
    using assms(1,2) host_closure_safe [of pl p]
    by (fastforce simp: host_safe_def session_ok_def intro: safe_atomic)
  ultimately have "no_abort (world_ok p T) error_text_ok (safe A) (r, w)"
    using eval_tree_safe(1) [of "world_ok p T" ?X t ?w] assms(4-6) by simp
  then have "world_ok p T w" by (simp add: no_abort_def)
  then show ?thesis using assms(3) by (auto simp: world_ok_def)
qed

lemma eval_str_means:
  assumes "process_ok pl P" and "p_sessions P p = Some S" and "text_ok text"
    and "session_room pl S (length text + k)"
    and "tokenize text = Inr (toks f)" and "cells_of f \<le> ARENA_CELLS"
    and "hosts pl p S sim H" and "starts pl p P S k sim a"
    and "feval (pl_spellings pl) H f a = (r, a')" and "lh_within H a'"
  shows "\<exists>P' S' w. eval_str pl P p S text = (Inr (answer_text r), P') \<and> evaluated pl p P P'
    \<and> p_sessions P' p = Some S' \<and> s_env S' = s_env S \<and> k \<le> symbols_room (s_symbols S')
    \<and> sim a' w \<and> w_host w = p_host P' \<and> s_boxed S' = clear_transient (look_at p w)"
proof -
  let ?s0 = "\<lparr>rs_symbols = s_symbols S, rs_boxed = clear_transient (s_boxed S),
    rs_arena = wsm_arena_reset (p_arena P)\<rparr>" and ?c = "pl_codec pl"
  have S: "session_ok pl p S" and codec: "codec_ok ?c"
    using assms(1,2) by (simp_all add: process_ok_def)
  have ok: "read_ok ?c ?s0" and empty: "arena_used (rs_arena ?s0) = 0"
    using assms(1) S by (simp_all add: read_ok_def process_ok_def session_ok_def)
  have "length (toks f) \<le> length text" using tokenize_text_ok [OF assms(5,3)] by simp
  then have room: "read_room ?c ?s0 (length (toks f) + k)"
    using assms(4) by (simp add: read_room_def session_room_def)
  obtain t s where t: "read_one ?c (pl_unprintable pl) text ?s0 = (Inr (word_of t), s)"
      "read_result ?c ?s0 s k (cells_of f) t" "denotes ?c (rs_symbols s) (rs_boxed s) t f"
    using read_one_ok [OF assms(5) ok room empty assms(6)] by blast
  have short: "session_room pl S (length text)" using assms(4) by (simp add: session_room_def)
  have reading: "reading ?c ?s0 [] s"
    by (rule read_stage_outcome [OF assms(1-3) short]) (use t(1) in simp)
  let ?S1 = "S\<lparr>s_symbols := rs_symbols s, s_boxed := rs_boxed s\<rparr>"
  let ?P1 = "put_session (P\<lparr>p_arena := rs_arena s\<rparr>) p ?S1"
  note after = session_after_reading [OF assms(1,2) reading]
  let ?X = "\<lparr>ctx_spellings = pl_spellings pl, ctx_arena = rs_arena s, ctx_env = s_env S,
    ctx_symbols = rs_symbols s\<rparr>" and ?w = "\<lparr>w_tables = tables_of ?P1, w_host = p_host P\<rparr>"
  have tabs: "tables_of ?P1 = (tables_of P)(p \<mapsto> rs_boxed s)" by (auto simp: tables_of_def)
  have rep: "repr (rs_arena s) t" using t(2) by (simp add: read_result_def)
  have impl: "implements ?c ?X (look_at p) sim H"
    using assms(7) reading by (simp add: hosts_def reading_def)
  have "grown (clear_transient (s_boxed S)) (rs_boxed s)" "k \<le> boxed_room ?c (rs_boxed s)"
    using reading t(2) by (simp_all add: reading_def read_result_def read_room_def)
  then have sim: "sim a ?w" using assms(8) tabs by (simp add: starts_def)
  have look: "look_at p ?w = rs_boxed s" by (simp add: look_at_def tabs)
  obtain q w where q: "eval_tree ?X t ?w = (q, w)" by fastforce
  have "simulates ?c (look_at p) sim (lh_within H) (word_stands ?c (rs_symbols s) (rs_arena s)) ?w
      (r, a') (q, w)"
    using feval_simulates(1) [OF impl _ sim, of "pl_spellings pl" t f] assms(9) t(3) rep q look
    by (simp add: sound_step_def)
  then have res: "sim a' w" "case r of Inl e \<Rightarrow> q = Inl (Raise e)
      | Inr v \<Rightarrow> \<exists>x. q = Inr x \<and> word_stands ?c (rs_symbols s) (rs_arena s) (look_at p w) v x"
    using assms(10) by (cases r; simp add: simulates_def)+
  obtain es where es: "w_tables w = (tables_of ?P1)(p \<mapsto> rs_boxed s @ es)" "boxed_text_ok es"
    using eval_tree_world [OF codec after(1), of "tables_of ?P1" "rs_arena s" t "p_host P" q w] tabs rep q
      denotes_code(1) [OF t(3)] by auto
  let ?P2 = "put_session (?P1\<lparr>p_host := w_host w\<rparr>) p (?S1\<lparr>s_boxed := rs_boxed s @ es\<rparr>)"
  have stage: "eval_stage pl ?P1 ?S1 (word_of t) = (q, ?P2)"
    using eval_fuel_enough [of ?X t ?w] after(2) rep q es(1)
      with_tables_one [of ?P1 p ?S1 "?P1\<lparr>p_host := w_host w\<rparr>" "w_host w"]
    by (simp add: eval_stage_def)
  have final: "look_at p w = rs_boxed s @ es" by (simp add: look_at_def es(1))
  have run: "eval_str pl P p S text = (Inr (answer_text r), clear_stage ?P2 p)"
  proof (cases r)
    case (Inl e)
    then show ?thesis
      using res(2) t(1) stage by (simp add: eval_str_def read_stage_def answer_text_def)
  next
    case (Inr v)
    then obtain u where u: "q = Inr (word_of u)" "repr (rs_arena s) u"
        "stands ?c (rs_symbols s) (rs_boxed s @ es) u v"
      using res(2) final by (auto simp: word_stands_def)
    have "print_stage pl ?P2 p (word_of u) = Inr (show_lisp v)"
      using value_to_string_tree [OF after(2) u(2)] print_stands [OF u(3)]
      by (simp add: print_stage_def)
    then show ?thesis
      using Inr u(1) t(1) stage by (simp add: eval_str_def read_stage_def answer_text_def)
  qed
  have "evaluated pl p P (clear_stage ?P2 p)"
    by (cases rule: eval_str_outcome [OF assms(1-3) short]) (use run in auto)
  moreover have "k \<le> symbols_room (rs_symbols s)"
    using t(2) by (simp add: read_result_def read_room_def)
  ultimately show ?thesis
    using run res(1) final
    by (intro exI [of _ "clear_stage ?P2 p"] exI [of _ "?S1\<lparr>s_boxed := clear_transient (rs_boxed s @ es)\<rparr>"]
        exI [of _ w]) (simp add: clear_stage_simps)
qed

section \<open>Hosts that count handles\<close>

text \<open>
  The abstract state of a host that wraps values: a lower bound on the handles left in the
  session's table. It is within its resources until the bound falls below 0.
\<close>

definition room_sim :: "platform \<Rightarrow> u64 \<Rightarrow> int \<Rightarrow> 'h world \<Rightarrow> bool" where
  "room_sim pl p a w \<longleftrightarrow>
     (\<exists>b. w_tables w p = Some b \<and> a \<le> int (boxed_room (pl_codec pl) b))"

definition empty_host :: "int lisp_host" where
  "empty_host = \<lparr>lh_within = (\<lambda>a. 0 \<le> a), lh_bindings = (\<lambda>_. None), lh_primitives = (\<lambda>_. None)\<rparr>"

abbreviation served_by :: "platform \<Rightarrow> u64 \<Rightarrow> int lisp_host \<Rightarrow> 'h session \<Rightarrow> bool" where
  "served_by pl p H S \<equiv> hosts pl p S (room_sim pl p) H \<and> lh_within H = (\<lambda>a. 0 \<le> a)"

lemma served_empty: "s_env S = env_new \<Longrightarrow> served_by pl p empty_host S"
  by (simp add: hosts_def implements_def absorbing_def empty_host_def env_new_def)

lemma hosts_later:
  assumes "hosts pl p S sim H" and "s_env S' = s_env S"
    and "\<And>v m. name_of (s_symbols S) v = Some m \<Longrightarrow> name_of (s_symbols S') v = Some m"
  shows "hosts pl p S' sim H"
  using assms unfolding hosts_def by metis

lemma served_eval:
  assumes "process_ok pl P" and "p_sessions P p = Some S" and "text_ok text"
    and "session_room pl S (length text + k)"
    and "tokenize text = Inr (toks f)" and "cells_of f \<le> ARENA_CELLS"
    and "served_by pl p H S"
    and "feval (pl_spellings pl) H f (int k) = (r, int j)" and "j \<le> k"
  shows "\<exists>P' S'. eval_str pl P p S text = (Inr (answer_text r), P') \<and> evaluated pl p P P'
    \<and> p_sessions P' p = Some S' \<and> served_by pl p H S' \<and> session_room pl S' j
    \<and> transient_len (s_boxed S') = 0"
proof -
  have start: "starts pl p P S k (room_sim pl p) (int k)"
    by (simp add: starts_def room_sim_def)
  have within: "lh_within H (int j)" and hosts: "hosts pl p S (room_sim pl p) H"
    using assms(7) by simp_all
  obtain P' S' w where r: "eval_str pl P p S text = (Inr (answer_text r), P')"
      "evaluated pl p P P'" "p_sessions P' p = Some S'" "s_env S' = s_env S"
      "k \<le> symbols_room (s_symbols S')" "room_sim pl p (int j) w" "w_host w = p_host P'"
      "s_boxed S' = clear_transient (look_at p w)"
    using eval_str_means [where sim = "room_sim pl p", OF assms(1-6) hosts start assms(8) within]
    by blast
  have "settled pl S S'" using r(2,3) assms(2) by (auto simp: evaluated_def)
  then have "hosts pl p S' (room_sim pl p) H" "transient_len (s_boxed S') = 0"
    using hosts_later [OF hosts r(4)] by (simp_all add: settled_def)
  moreover have "session_room pl S' j"
    using r(5,6,8) assms(9) by (auto simp: session_room_def room_sim_def look_at_def)
  ultimately show ?thesis using r(1-3) assms(7) by blast
qed

end
