(* ===== verification/C_Strings.thy ===== *)
theory C_Strings
  imports Session_Semantics
begin

text \<open>
  Who owns the text that \<open>wsm_eval_string\<close> returns: \<open>CString::into_raw\<close> leaves an allocation to
  the C caller, \<open>wsm_free_string\<close> takes it back. The state is a process with the strings that
  were handed out and not yet freed, each with its bytes, by address.
\<close>

section \<open>Result strings\<close>

record 'h c_side =
  c_process :: "'h process"
  c_strings :: "u64 \<Rightarrow> u8 list option"

text \<open>
  The last expression of \<open>wsm_eval_string\<close>: the bytes go to an address \<open>q\<close> of the allocator's
  choice.
\<close>

definition wsm_eval_string_raw ::
  "platform \<Rightarrow> u64 \<Rightarrow> 'h c_side \<Rightarrow> u64 \<Rightarrow> u8 list option \<Rightarrow> (fatal + u64) \<times> 'h c_side" where
  "wsm_eval_string_raw pl q C session source =
     (case wsm_eval_string pl (c_process C) session source of
        (Inl f, P) \<Rightarrow> (Inl f, C\<lparr>c_process := P\<rparr>)
      | (Inr bytes, P) \<Rightarrow> (Inr q, \<lparr>c_process = P, c_strings = (c_strings C)(q \<mapsto> bytes)\<rparr>))"

definition wsm_free_string :: "'h c_side \<Rightarrow> u64 \<Rightarrow> (fatal + unit) \<times> 'h c_side" where
  "wsm_free_string C s =
     (if s = 0 then (Inr (), C)
      else case c_strings C s of
             None \<Rightarrow> (Inl (Dangling_String s), C)
           | Some bytes \<Rightarrow> (Inr (), C\<lparr>c_strings := (c_strings C)(s := None)\<rparr>))"

text \<open>\<open>CStr::from_ptr(s).to_str()\<close> on the caller's side.\<close>

definition read_c_string :: "'h c_side \<Rightarrow> u64 \<Rightarrow> fatal + rstring" where
  "read_c_string C s =
     (case c_strings C s of
        None \<Rightarrow> Inl (Dangling_String s)
      | Some bytes \<Rightarrow> (case c_to_str bytes of None \<Rightarrow> Inl Rust_Panic | Some t \<Rightarrow> Inr t))"

text \<open>The entry points that do not hand out strings.\<close>

definition on_process :: "('h process \<Rightarrow> 'a \<times> 'h process) \<Rightarrow> 'h c_side \<Rightarrow> 'a \<times> 'h c_side" where
  "on_process f C = (case f (c_process C) of (r, P) \<Rightarrow> (r, C\<lparr>c_process := P\<rparr>))"

text \<open>A caller that opens a session, works with it and frees it.\<close>

definition in_session ::
  "u64 \<Rightarrow> (u64 \<Rightarrow> 'h c_side \<Rightarrow> (fatal + unit) \<times> 'h c_side) \<Rightarrow> 'h c_side \<Rightarrow> (fatal + unit) \<times> 'h c_side" where
  "in_session p body C =
     (case on_process (wsm_session_init p) C of
        (session, C) \<Rightarrow>
          step_then (body session C) (\<lambda>_ C. on_process (\<lambda>P. wsm_session_free P session) C))"

section \<open>Ownership\<close>

text \<open>
  The result is readable until it is freed, and freeing it leaves the strings as they were before
  the call; a second free is undefined behaviour.
\<close>

lemma string_owned:
  assumes "wsm_eval_string pl (c_process C) p (Some bytes) = (Inr (utf8_encode m), P)"
    and "text_ok m" and "q \<noteq> 0" and "c_strings C q = None"
  obtains D where "wsm_eval_string_raw pl q C p (Some bytes) = (Inr q, D)"
    "read_c_string D q = Inr m" "c_process D = P"
    "wsm_free_string D q = (Inr (), C\<lparr>c_process := P\<rparr>)"
    "\<And>s. s \<noteq> q \<Longrightarrow> c_strings D s = c_strings C s"
proof -
  let ?D = "\<lparr>c_process = P, c_strings = (c_strings C)(q \<mapsto> utf8_encode m)\<rparr>"
  have "(c_strings C)(q := None) = c_strings C" using assms(4) by (simp add: fun_upd_idem)
  then show thesis
    using assms(1,3) c_to_str_encode [OF assms(2)]
    by (intro that [of ?D]) (simp_all add: wsm_eval_string_raw_def read_c_string_def wsm_free_string_def)
qed

lemma freed_twice:
  "s \<noteq> 0 \<Longrightarrow> wsm_free_string C s = (Inr (), D) \<Longrightarrow> wsm_free_string D s = (Inl (Dangling_String s), D)"
  by (auto simp: wsm_free_string_def split: option.splits)

text \<open>From the text of an evaluation to its bytes.\<close>

lemma eval_string_of_text:
  assumes "process_ok pl P" and "p_sessions P p = Some S" and "text_ok t" and "text_ok m"
    and "eval_str pl P p S t = (Inr m, P')"
  shows "wsm_eval_string pl P p (Some (utf8_encode t)) = (Inr (utf8_encode m), P')"
proof -
  have "p \<noteq> 0" using assms(1,2) by (auto simp: process_ok_def)
  then show ?thesis
    using assms(2,5) c_to_str_encode [OF assms(3)] into_c_string_text [OF assms(4)]
    by (simp add: wsm_eval_string_def catch_unwind_or_def)
qed

lemma eval_str_text_ok:
  assumes "process_ok pl P" and "p_sessions P p = Some S" and "text_ok t"
    and "session_room pl S (length t)" and "eval_str pl P p S t = (Inr m, P')"
  shows "text_ok m"
  by (cases rule: eval_str_outcome [OF assms(1-4)]) (use assms(5) in auto)

lemma eval_string_means:
  assumes "process_ok pl P" and "p_sessions P p = Some S" and "text_ok s"
    and "session_room pl S (length s + k)" and "tokenize s = Inr (toks f)" and "cells_of f \<le> ARENA_CELLS"
    and "served_by pl p H S" and "feval (pl_spellings pl) H f (int k) = (r, int j)" and "j \<le> k"
  shows "\<exists>P' S'. wsm_eval_string pl P p (Some (utf8_encode s)) = (Inr (utf8_encode (answer_text r)), P')
    \<and> evaluated pl p P P' \<and> p_sessions P' p = Some S' \<and> served_by pl p H S' \<and> session_room pl S' j
    \<and> transient_len (s_boxed S') = 0"
proof -
  obtain P' S' where e: "eval_str pl P p S s = (Inr (answer_text r), P')"
    "evaluated pl p P P'" "p_sessions P' p = Some S'" "served_by pl p H S'" "session_room pl S' j"
    "transient_len (s_boxed S') = 0"
    using served_eval [OF assms] by blast
  have "session_room pl S (length s)" using assms(4) by (simp add: session_room_def)
  then have m: "text_ok (answer_text r)" by (rule eval_str_text_ok [OF assms(1-3) _ e(1)])
  from eval_string_of_text [OF assms(1-3) m e(1)] show ?thesis using e(2-6) by blast
qed

section \<open>A caller with one session\<close>

text \<open>
  Between two evaluations: the session at \<open>p\<close> with the host it serves, room for \<open>k\<close> more entries
  and nothing transient alive, and everything else as in \<open>C0\<close>; the allocator puts the result
  strings at \<open>q\<close>.
\<close>

definition ready ::
  "platform \<Rightarrow> int lisp_host \<Rightarrow> u64 \<Rightarrow> u64 \<Rightarrow> 'h c_side \<Rightarrow> nat \<Rightarrow> 'h c_side \<Rightarrow> bool" where
  "ready pl H p q C0 k C \<longleftrightarrow> process_ok pl (c_process C) \<and> q \<noteq> 0 \<and> c_strings C0 q = None
     \<and> c_strings C = c_strings C0 \<and> (\<forall>r. r \<noteq> p \<longrightarrow> p_sessions (c_process C) r = p_sessions (c_process C0) r)
     \<and> (\<exists>S. p_sessions (c_process C) p = Some S \<and> served_by pl p H S \<and> session_room pl S k
          \<and> transient_len (s_boxed S) = 0)"

lemma ready_less: "ready pl H p q C0 k C \<Longrightarrow> j \<le> k \<Longrightarrow> ready pl H p q C0 j C"
  unfolding ready_def session_room_def by (meson order_trans)

text \<open>One call: the result is at \<open>q\<close> until it is freed.\<close>

lemma ready_call:
  assumes "ready pl H p q C0 k C" and "text_ok m"
    and "wsm_eval_string pl (c_process C) p (Some bytes) = (Inr (utf8_encode m), P)"
  obtains D where "wsm_eval_string_raw pl q C p (Some bytes) = (Inr q, D)"
    "read_c_string D q = Inr m" "wsm_free_string D q = (Inr (), C\<lparr>c_process := P\<rparr>)"
proof -
  have q: "q \<noteq> 0" "c_strings C q = None" using assms(1) by (auto simp: ready_def)
  show thesis by (rule string_owned [OF assms(3,2) q]) (rule that)
qed

lemma ready_answer:
  assumes "ready pl H p q C0 (length s + k) C" and "text_ok s"
    and "tokenize s = Inr (toks f)" and "cells_of f \<le> ARENA_CELLS"
    and "feval (pl_spellings pl) H f (int k) = (r, int j)" and "j \<le> k"
  obtains S P where "p_sessions (c_process C) p = Some S"
    "eval_str pl (c_process C) p S s = (Inr (answer_text r), P)" "text_ok (answer_text r)"
    "ready pl H p q C0 j (C\<lparr>c_process := P\<rparr>)"
proof -
  obtain S where S: "p_sessions (c_process C) p = Some S" "served_by pl p H S"
      "session_room pl S (length s + k)" and ok: "process_ok pl (c_process C)"
    using assms(1) by (auto simp: ready_def)
  obtain P S' where e: "eval_str pl (c_process C) p S s = (Inr (answer_text r), P)"
      "evaluated pl p (c_process C) P" "p_sessions P p = Some S'" "served_by pl p H S'"
      "session_room pl S' j" "transient_len (s_boxed S') = 0"
    using served_eval [OF ok S(1) assms(2) S(3) assms(3,4) S(2) assms(5,6)] by blast
  have "session_room pl S (length s)" using S(3) by (simp add: session_room_def)
  then have "text_ok (answer_text r)" by (rule eval_str_text_ok [OF ok S(1) assms(2) _ e(1)])
  moreover have "ready pl H p q C0 j (C\<lparr>c_process := P\<rparr>)"
    using assms(1) e(2-6) by (auto simp: ready_def evaluated_def only_session_def)
  ultimately show thesis using that S(1) e(1) by blast
qed

lemma ready_eval:
  assumes "ready pl H p q C0 (length s + k) C" and "text_ok s"
    and "tokenize s = Inr (toks f)" and "cells_of f \<le> ARENA_CELLS"
    and "feval (pl_spellings pl) H f (int k) = (r, int j)" and "j \<le> k"
  obtains D D' where "wsm_eval_string_raw pl q C p (Some (utf8_encode s)) = (Inr q, D)"
    "read_c_string D q = Inr (answer_text r)" "wsm_free_string D q = (Inr (), D')"
    "ready pl H p q C0 j D'"
proof -
  obtain S P where e: "p_sessions (c_process C) p = Some S"
    "eval_str pl (c_process C) p S s = (Inr (answer_text r), P)" "text_ok (answer_text r)"
    "ready pl H p q C0 j (C\<lparr>c_process := P\<rparr>)"
    by (rule ready_answer [OF assms])
  have "process_ok pl (c_process C)" using assms(1) by (simp add: ready_def)
  from eval_string_of_text [OF this e(1) assms(2) e(3,2)] show thesis
    by (rule ready_call [OF assms(1) e(3)]) (rule that [OF _ _ _ e(4)])
qed

text \<open>A form with too many cells: refused, and no room used.\<close>

lemma ready_oversized:
  assumes "ready pl H p q C0 k C" and "text_ok s"
    and "tokenize s = Inr (toks f)" and "ARENA_CELLS < cells_of f"
  obtains D D' where "wsm_eval_string_raw pl q C p (Some (utf8_encode s)) = (Inr q, D)"
    "read_c_string D q = Inr (lit ''error: form needs '' @ dec_nat (cells_of f)
      @ lit '' cons cells; arena capacity is '' @ dec_nat ARENA_CELLS)"
    "wsm_free_string D q = (Inr (), D')" "ready pl H p q C0 k D'"
proof -
  obtain S where S: "p_sessions (c_process C) p = Some S" "served_by pl p H S" "session_room pl S k"
    and ok: "process_ok pl (c_process C)"
    using assms(1) by (auto simp: ready_def)
  let ?m = "lit ''error: form needs '' @ dec_nat (cells_of f)
      @ lit '' cons cells; arena capacity is '' @ dec_nat ARENA_CELLS"
  let ?S = "S\<lparr>s_boxed := clear_transient (s_boxed S)\<rparr>"
  let ?P = "put_session (c_process C\<lparr>p_arena := wsm_arena_reset (p_arena (c_process C))\<rparr>) p ?S"
  have r: "eval_str pl (c_process C) p S s = (Inr ?m, ?P)"
    by (rule capacity_refused [OF S(1) assms(3,4)])
  have p: "p \<noteq> 0" using ok S(1) by (auto simp: process_ok_def)
  have m: "text_ok ?m" by simp
  have "session_ok pl p S" using ok S(1) by (simp add: process_ok_def)
  then have "process_ok pl ?P"
    using ok p by (auto simp: process_ok_def session_ok_def)
  moreover have "served_by pl p H ?S" using S(2) hosts_later [of pl p S "room_sim pl p" H ?S] by simp
  ultimately have later: "ready pl H p q C0 k (C\<lparr>c_process := ?P\<rparr>)"
    using assms(1) S(3) by (auto simp: ready_def session_room_def)
  show thesis
    by (rule ready_call [OF assms(1) m eval_string_of_text [OF ok S(1) assms(2) m r]])
      (rule that [OF _ _ _ later])
qed

text \<open>The beginning and the end of the session.\<close>

lemma ready_init:
  assumes "process_ok pl (c_process C0)" and "p \<noteq> 0" and "p_sessions (c_process C0) p = None"
    and "q \<noteq> 0" and "c_strings C0 q = None"
    and "k \<le> symbols_room symbols_new" and "k \<le> boxed_room (pl_codec pl) []"
  shows "ready pl empty_host p q C0 k (C0\<lparr>c_process := put_session (c_process C0) p session_new\<rparr>)"
  using assms put_session_ok [OF assms(1,2) session_new_ok] served_empty [of session_new pl p]
  by (simp add: ready_def session_new_def session_room_def boxed_new_def transient_len_def)

lemma ready_free:
  assumes "ready pl H p q C0 k C" and "p \<noteq> 0" and "p_sessions (c_process C0) p = None"
    and "process_ok pl (c_process C0)"
  shows "\<exists>P. wsm_session_free (c_process C) p = (Inr (), P)
    \<and> p_sessions P = p_sessions (c_process C0) \<and> process_ok pl P"
proof -
  obtain S where S: "p_sessions (c_process C) p = Some S" using assms(1) by (auto simp: ready_def)
  have same: "(p_sessions (c_process C))(p := None) = p_sessions (c_process C0)"
    using assms(1,3) by (auto simp: ready_def)
  have "process_ok pl (c_process C\<lparr>p_sessions := p_sessions (c_process C0)\<rparr>)"
    using assms(1,4) by (simp add: ready_def process_ok_def)
  then show ?thesis using S same assms(2) by (simp add: wsm_session_free_def)
qed

text \<open>Nothing is left behind: the strings and the sessions are those of the start.\<close>

definition left_clean :: "platform \<Rightarrow> 'h c_side \<Rightarrow> 'h c_side \<Rightarrow> bool" where
  "left_clean pl C D \<longleftrightarrow> c_strings D = c_strings C
     \<and> p_sessions (c_process D) = p_sessions (c_process C) \<and> process_ok pl (c_process D)"

text \<open>Where a session can be opened: a new address for it, one for its result strings, and room.\<close>

definition can_open :: "platform \<Rightarrow> u64 \<Rightarrow> u64 \<Rightarrow> nat \<Rightarrow> 'h c_side \<Rightarrow> bool" where
  "can_open pl p q k C \<longleftrightarrow> process_ok pl (c_process C) \<and> p \<noteq> 0 \<and> p_sessions (c_process C) p = None
     \<and> q \<noteq> 0 \<and> c_strings C q = None \<and> k \<le> symbols_room symbols_new \<and> k \<le> boxed_room (pl_codec pl) []"

lemma in_session_runs:
  assumes "can_open pl p q k C"
    and "\<And>C1. ready pl empty_host p q C k C1 \<Longrightarrow> \<exists>D H. body p C1 = (Inr (), D) \<and> ready pl H p q C 0 D"
  shows "\<exists>D. in_session p body C = (Inr (), D) \<and> left_clean pl C D"
proof -
  let ?C1 = "C\<lparr>c_process := put_session (c_process C) p session_new\<rparr>"
  note can = assms(1) [unfolded can_open_def]
  have "ready pl empty_host p q C k ?C1" using can by (intro ready_init) simp_all
  then obtain D H where D: "body p ?C1 = (Inr (), D)" "ready pl H p q C 0 D" using assms(2) by blast
  obtain P where P: "wsm_session_free (c_process D) p = (Inr (), P)"
      "p_sessions P = p_sessions (c_process C)" "process_ok pl P"
    using ready_free [OF D(2)] can by auto
  have "c_strings D = c_strings C" using D(2) by (simp add: ready_def)
  then show ?thesis
    using D(1) P by (simp add: in_session_def on_process_def wsm_session_init_def left_clean_def)
qed

end
