(* ===== verification/Callbacks.thy ===== *)
theory Callbacks
  imports C_Strings
begin

text \<open>
  Host callbacks as primitives on values: when a callback realizes a function on values, how
  registering it and binding names extend the host that a session serves, and the callbacks that
  the embedding is made of, which hand out wrapped values, read them back, or report a failure.
\<close>

section \<open>Realizing a primitive\<close>

definition realizes ::
  "platform \<Rightarrow> u64 \<Rightarrow> (lisp list \<Rightarrow> int \<Rightarrow> (rstring + lisp) \<times> int) \<Rightarrow> 'h callback \<Rightarrow> bool" where
  "realizes pl p F f \<longleftrightarrow> (\<forall>vs a. 0 \<le> snd (F vs a) \<longrightarrow> 0 \<le> a)
   \<and> (\<forall>A st a w vs xs. room_sim pl p a w \<longrightarrow>
        list_all2 (word_stands (pl_codec pl) st A (look_at p w)) vs xs \<longrightarrow>
        simulates (pl_codec pl) (look_at p) (room_sim pl p) (\<lambda>a. 0 \<le> a)
          (word_stands (pl_codec pl) st A) w (F vs a) (host_closure pl f xs w))"

definition host_register :: "'a lisp_host \<Rightarrow> rstring \<Rightarrow>
    (lisp list \<Rightarrow> 'a \<Rightarrow> (rstring + lisp) \<times> 'a) \<Rightarrow> 'a lisp_host" where
  "host_register H n F = H\<lparr>lh_primitives := (lh_primitives H)(n \<mapsto> F)\<rparr>"

definition host_bind :: "'a lisp_host \<Rightarrow> rstring \<Rightarrow> lisp \<Rightarrow> 'a lisp_host" where
  "host_bind H n v = H\<lparr>lh_bindings := (lh_bindings H)(n \<mapsto> v)\<rparr>"

lemma host_simps [simp]:
  "lh_primitives (host_register H n F) = (lh_primitives H)(n \<mapsto> F)"
  "lh_bindings (host_register H n F) = lh_bindings H" "lh_within (host_register H n F) = lh_within H"
  "lh_bindings (host_bind H n v) = (lh_bindings H)(n \<mapsto> v)"
  "lh_primitives (host_bind H n v) = lh_primitives H" "lh_within (host_bind H n v) = lh_within H"
  "lh_primitives empty_host m = None" "lh_bindings empty_host m = None"
  by (simp_all add: host_register_def host_bind_def empty_host_def)

text \<open>The three parts of \<open>implements\<close>, for a context given by its fields.\<close>

lemma implements_parts:
  "implements c \<lparr>ctx_spellings = sp, ctx_arena = A, ctx_env = E, ctx_symbols = st\<rparr> look sim H \<longleftrightarrow>
     absorbing H
   \<and> (\<forall>n a w. sim a w \<longrightarrow>
        (case lh_bindings H n of
           None \<Rightarrow> bindings E n = None
         | Some v \<Rightarrow> \<exists>x. bindings E n = Some x \<and> word_stands c st A (look w) v x))
   \<and> (\<forall>n. case lh_primitives H n of
           None \<Rightarrow> primitives E n = None
         | Some F \<Rightarrow> \<exists>g. primitives E n = Some g
             \<and> (\<forall>a w vs xs. sim a w \<longrightarrow> list_all2 (word_stands c st A (look w)) vs xs \<longrightarrow>
                  simulates c look sim (lh_within H) (word_stands c st A) w (F vs a) (g xs w)))"
  unfolding implements_def eval_context.simps by (rule conj_cong [OF refl], rule conj_cong) auto

lemma env_simps [simp]:
  "bindings (bind_name E n x) = (bindings E)(n \<mapsto> x)" "primitives (bind_name E n x) = primitives E"
  "primitives (register_primitive E n g) = (primitives E)(n \<mapsto> g)"
  "bindings (register_primitive E n g) = bindings E"
  by (simp_all add: bind_name_def register_primitive_def)

lemma implements_register:
  assumes "implements c \<lparr>ctx_spellings = sp, ctx_arena = A, ctx_env = E, ctx_symbols = st\<rparr> look sim H"
    and "\<And>vs a. lh_within H (snd (F vs a)) \<Longrightarrow> lh_within H a"
    and "\<And>a w vs xs. sim a w \<Longrightarrow> list_all2 (word_stands c st A (look w)) vs xs \<Longrightarrow>
      simulates c look sim (lh_within H) (word_stands c st A) w (F vs a) (g xs w)"
  shows "implements c \<lparr>ctx_spellings = sp, ctx_arena = A, ctx_env = register_primitive E n g,
    ctx_symbols = st\<rparr> look sim (host_register H n F)"
  unfolding implements_parts
proof (intro conjI allI)
  note bindings = assms(1) [unfolded implements_parts, THEN conjunct2, THEN conjunct1]
  note primitives = assms(1) [unfolded implements_parts, THEN conjunct2, THEN conjunct2]
  show "absorbing (host_register H n F)"
    unfolding absorbing_def host_simps
  proof (intro allI impI)
    fix m K vs a
    assume "((lh_primitives H)(n \<mapsto> F)) m = Some K" "lh_within H (snd (K vs a))"
    then show "lh_within H a"
      using assms(1) [unfolded implements_parts absorbing_def] assms(2) [of vs a]
      by (cases "m = n") (simp, metis fun_upd_other)
  qed
  show "sim a w \<longrightarrow> (case lh_bindings (host_register H n F) m of
      None \<Rightarrow> bindings (register_primitive E n g) m = None
    | Some v \<Rightarrow> \<exists>x. bindings (register_primitive E n g) m = Some x \<and> word_stands c st A (look w) v x)"
    for m a w
    unfolding env_simps host_simps by (rule spec [OF spec [OF spec [OF bindings]]])
  fix m
  show "case lh_primitives (host_register H n F) m of
      None \<Rightarrow> primitives (register_primitive E n g) m = None
    | Some K \<Rightarrow> \<exists>h. primitives (register_primitive E n g) m = Some h
        \<and> (\<forall>a w vs xs. sim a w \<longrightarrow> list_all2 (word_stands c st A (look w)) vs xs \<longrightarrow>
             simulates c look sim (lh_within (host_register H n F)) (word_stands c st A) w
               (K vs a) (h xs w))"
  proof (cases "m = n")
    case True
    then show ?thesis using assms(3) by simp
  next
    case False
    then have "lh_primitives (host_register H n F) m = lh_primitives H m"
      "primitives (register_primitive E n g) m = primitives E m" by simp_all
    then show ?thesis unfolding host_simps(3) by (simp only:) (rule spec [OF primitives])
  qed
qed

lemma implements_bind:
  assumes "implements c \<lparr>ctx_spellings = sp, ctx_arena = A, ctx_env = E, ctx_symbols = st\<rparr> look sim H"
    and "\<And>a w. sim a w \<Longrightarrow> word_stands c st A (look w) v x"
  shows "implements c \<lparr>ctx_spellings = sp, ctx_arena = A, ctx_env = bind_name E n x,
    ctx_symbols = st\<rparr> look sim (host_bind H n v)"
  unfolding implements_parts
proof (intro conjI allI)
  note bindings = assms(1) [unfolded implements_parts, THEN conjunct2, THEN conjunct1]
  note primitives = assms(1) [unfolded implements_parts, THEN conjunct2, THEN conjunct2]
  show "absorbing (host_bind H n v)"
    using implements_absorbing [OF assms(1)] by (simp add: absorbing_def)
  show "sim a w \<longrightarrow> (case lh_bindings (host_bind H n v) m of
      None \<Rightarrow> bindings (bind_name E n x) m = None
    | Some u \<Rightarrow> \<exists>y. bindings (bind_name E n x) m = Some y \<and> word_stands c st A (look w) u y)"
    for m a w
  proof (cases "m = n")
    case True
    then show ?thesis using assms(2) by simp
  next
    case False
    then have "lh_bindings (host_bind H n v) m = lh_bindings H m"
      "bindings (bind_name E n x) m = bindings E m" by simp_all
    then show ?thesis by (simp only:) (rule spec [OF spec [OF spec [OF bindings]]])
  qed
  show "case lh_primitives (host_bind H n v) m of
      None \<Rightarrow> primitives (bind_name E n x) m = None
    | Some K \<Rightarrow> \<exists>h. primitives (bind_name E n x) m = Some h
        \<and> (\<forall>a w vs xs. sim a w \<longrightarrow> list_all2 (word_stands c st A (look w)) vs xs \<longrightarrow>
             simulates c look sim (lh_within (host_bind H n v)) (word_stands c st A) w
               (K vs a) (h xs w))" for m
    unfolding env_simps host_simps by (rule spec [OF primitives])
qed

lemma served_register:
  assumes "served_by pl p H S" and "realizes pl p F f"
  shows "served_by pl p (host_register H n F)
    (S\<lparr>s_env := register_primitive (s_env S) n (host_closure pl f)\<rparr>)"
proof -
  have "implements (pl_codec pl) \<lparr>ctx_spellings = pl_spellings pl, ctx_arena = A,
      ctx_env = register_primitive (s_env S) n (host_closure pl f), ctx_symbols = st\<rparr>
      (look_at p) (room_sim pl p) (host_register H n F)"
    if "\<forall>v m. name_of (s_symbols S) v = Some m \<longrightarrow> name_of st v = Some m" for A st
  proof (rule implements_register)
    show "implements (pl_codec pl) \<lparr>ctx_spellings = pl_spellings pl, ctx_arena = A, ctx_env = s_env S,
        ctx_symbols = st\<rparr> (look_at p) (room_sim pl p) H"
      using assms(1) that by (simp add: hosts_def)
  qed (use assms in \<open>simp_all add: realizes_def\<close>)
  then show ?thesis using assms(1) by (simp add: hosts_def)
qed

text \<open>Binding a fixnum.\<close>

lemma served_bind:
  assumes "served_by pl p H S" and "\<And>A st b. word_stands (pl_codec pl) st A b v x"
  shows "served_by pl p (host_bind H n v) (S\<lparr>s_env := bind_name (s_env S) n x\<rparr>)"
proof -
  have "implements (pl_codec pl) \<lparr>ctx_spellings = pl_spellings pl, ctx_arena = A,
      ctx_env = bind_name (s_env S) n x, ctx_symbols = st\<rparr>
      (look_at p) (room_sim pl p) (host_bind H n v)"
    if "\<forall>v m. name_of (s_symbols S) v = Some m \<longrightarrow> name_of st v = Some m" for A st
  proof (rule implements_bind)
    show "implements (pl_codec pl) \<lparr>ctx_spellings = pl_spellings pl, ctx_arena = A, ctx_env = s_env S,
        ctx_symbols = st\<rparr> (look_at p) (room_sim pl p) H"
      using assms(1) that by (simp add: hosts_def)
  qed (rule assms(2))
  then show ?thesis using assms(1) by (simp add: hosts_def)
qed

lemma word_stands_fixnum: "word_stands c st A b (LInt (signed_take_bit 60 (sint i))) (encode_fixnum i)"
  using word_standsI [of A "Leaf (encode_fixnum i)"] by (simp add: sint_decode_encode)

lemma word_stands_nil: "word_stands c st A b LNil WORD_NIL"
  using word_standsI [of A "Leaf WORD_NIL"] by simp

lemma word_stands_true: "word_stands c st A b (LSym (lit ''t'')) SYM_T_WORD"
  using word_standsI [of A "Leaf SYM_T_WORD"] by simp

section \<open>Callbacks that leave the tables alone\<close>

lemma world_eta: "\<lparr>w_tables = w_tables w, w_host = w_host w\<rparr> = w"
  by (cases w) simp

lemma realizes_nil: "realizes pl p (\<lambda>vs a. (Inr LNil, a)) (\<lambda>args h. Done 0 (Some WORD_NIL) h)"
  using word_stands_nil unfolding realizes_def by (auto simp: host_closure_def world_eta intro!: simulates_value)

definition failed :: "i32 \<Rightarrow> rstring" where
  "failed rc = lit ''host primitive reported error code '' @ dec_int (sint rc)"

lemma realizes_failure:
  "rc \<noteq> 0 \<Longrightarrow> realizes pl p (\<lambda>vs a. (Inl (failed rc), a)) (\<lambda>args h. Done rc out h)"
  unfolding realizes_def by (auto simp: host_closure_def failed_def world_eta intro!: simulates_error)

section \<open>Callbacks that wrap a value\<close>

text \<open>A callback that passes the status and the word of one wrapping call on.\<close>

definition pass_on :: "boundary_call \<Rightarrow> 'h callback" where
  "pass_on q args h =
     Call q (\<lambda>r. Done (fst r) (case snd r of [w] \<Rightarrow> Some w | _ \<Rightarrow> None) h)"

lemma pass_on_ok: "is_wrap q \<Longrightarrow> call_session q = p \<Longrightarrow> callback_ok p (pass_on q)"
  by (auto simp: callback_ok_def pass_on_def plausible_def)

text \<open>With a handle left, the call appends an entry and answers with its word.\<close>

definition wraps :: "platform \<Rightarrow> u64 \<Rightarrow> boundary_call \<Rightarrow> boxed_entry \<Rightarrow> bool" where
  "wraps pl p q e \<longleftrightarrow> (\<forall>T b. T p = Some b \<longrightarrow> 0 < boxed_room (pl_codec pl) b \<longrightarrow>
     (\<exists>w. boundary pl q T = (Inr (0, [w]), T(p \<mapsto> b @ [Some e]))
        \<and> boxed_get_entry (pl_codec pl) (b @ [Some e]) w = Some e \<and> tag_of w = TAG_BOXED))"

lemma wraps_intro:
  assumes "codec_ok (pl_codec pl)" and "\<And>T. boundary pl q T = wrap_into T p add"
    and "\<And>b. add b = boxed_add (pl_codec pl) b e"
  shows "wraps pl p q e"
  unfolding wraps_def assms(2)
proof (intro allI impI)
  fix T :: tables and b
  assume b: "T p = Some b" "0 < boxed_room (pl_codec pl) b"
  obtain w where "wrap_into T p add = (Inr (0, [w]), T(p \<mapsto> b @ [Some e]))"
    "boxed_get_entry (pl_codec pl) (b @ [Some e]) w = Some e" "tag_of w = TAG_BOXED"
    by (rule wrap_into_room [where pl = pl and T = T and p = p and b = b and add = add and e = e])
      (simp_all add: assms(1,3) b)
  then show "\<exists>w. wrap_into T p add = (Inr (0, [w]), T(p \<mapsto> b @ [Some e]))
      \<and> boxed_get_entry (pl_codec pl) (b @ [Some e]) w = Some e \<and> tag_of w = TAG_BOXED"
    by blast
qed

lemma wraps_game_handle:
  "codec_ok (pl_codec pl) \<Longrightarrow> p \<noteq> 0 \<Longrightarrow> out \<noteq> 0 \<Longrightarrow>
     wraps pl p (Wrap_Game_Handle p h out) \<lparr>entry_value = GameHandle h, entry_lifetime = Persistent\<rparr>"
  by (rule wraps_intro) (simp_all add: wsm_wrap_game_handle_def add_game_handle_def)

lemma wraps_string:
  "codec_ok (pl_codec pl) \<Longrightarrow> p \<noteq> 0 \<Longrightarrow> out \<noteq> 0 \<Longrightarrow> c_to_str bytes = Some s \<Longrightarrow>
     wraps pl p (Wrap_Transient_String p (Some bytes) out) \<lparr>entry_value = Str s, entry_lifetime = Transient\<rparr>"
  by (rule wraps_intro) (simp_all add: wsm_wrap_transient_string_def add_string_def)

lemma wraps_rational:
  assumes "codec_ok (pl_codec pl)" and "p \<noteq> 0" and "out \<noteq> 0" and "d \<noteq> 0"
    and "reduce (pl_overflow_checks pl) n d = Inr (n', d')"
  shows "wraps pl p (Wrap_Rational p n d out) \<lparr>entry_value = Rational n' d', entry_lifetime = Persistent\<rparr>"
    and "wraps pl p (Wrap_Transient_Rational p n d out)
      \<lparr>entry_value = Rational n' d', entry_lifetime = Transient\<rparr>"
  by (rule wraps_intro; simp add: assms wsm_wrap_rational_def wsm_wrap_transient_rational_def
      add_rational_def add_transient_rational_def add_rational_as_def)+

lemma kept_append: "kept c b (b @ es)"
  using boxed_get_append by (auto simp: kept_def)

lemma realizes_wrap:
  assumes "wraps pl p q e"
  shows "realizes pl p (\<lambda>vs a. (Inr (LBox (entry_value e)), a - 1)) (pass_on q :: 'h callback)"
  unfolding realizes_def
proof (intro conjI allI impI)
  fix A st a vs xs and w :: "'h world"
  assume sim: "room_sim pl p a w"
  let ?c = "pl_codec pl"
  show "simulates ?c (look_at p) (room_sim pl p) (\<lambda>a. 0 \<le> a) (word_stands ?c st A) w
      (Inr (LBox (entry_value e)), a - 1) (host_closure pl (pass_on q) xs w)"
  proof (cases "0 < a")
    case True
    obtain b where b: "w_tables w p = Some b" "a \<le> int (boxed_room ?c b)"
      using sim by (auto simp: room_sim_def)
    then have "0 < boxed_room ?c b" using True by linarith
    then obtain x where x: "boundary pl q (w_tables w) = (Inr (0, [x]), (w_tables w)(p \<mapsto> b @ [Some e]))"
        "boxed_get_entry ?c (b @ [Some e]) x = Some e" "tag_of x = TAG_BOXED"
      using assms [unfolded wraps_def, THEN spec, THEN spec, of "w_tables w" b] b(1) by blast
    have "word_stands ?c st A (b @ [Some e]) (LBox (entry_value e)) x"
      using word_standsI [of A "Leaf x" ?c st "b @ [Some e]" "LBox (entry_value e)"] x by simp
    moreover have "a - 1 \<le> int (boxed_room ?c (b @ [Some e]))"
      using b(2) True by (simp only: boxed_room_def length_append list.size)
    ultimately show ?thesis
      using b(1) x(1) kept_append [of ?c b "[Some e]"]
      by (simp add: host_closure_def pass_on_def simulates_def room_sim_def look_at_def)
  qed (simp add: simulates_def)
qed simp

section \<open>A callback that reads a handle back\<close>

text \<open>What unwrapping finds in the word of a value.\<close>

lemma decode_tag:
  assumes "codec_ok c" and "decode_boxed c w = Some h"
  shows "tag_of w = TAG_BOXED"
proof -
  have w: "encode_boxed c h = Some w" using assms unfolding codec_ok_def by blast
  then have "\<not> (h = 0 \<or> boxed_handle_max c < h)" using assms(1) unfolding codec_ok_def by force
  then have "0 < h \<and> h \<le> boxed_handle_max c" by (simp add: word_gt_0 not_less)
  then obtain v where "encode_boxed c h = Some v" "tag_of v = TAG_BOXED"
    using assms(1) unfolding codec_ok_def by blast
  with w show ?thesis by simp
qed

lemma stands_handle:
  assumes "codec_ok c" and "word_stands c st A b v w"
  shows "get_game_handle c b w = (case v of LBox (GameHandle h) \<Rightarrow> Some h | _ \<Rightarrow> None)"
proof -
  obtain t where t: "word_of t = w" "repr A t" "stands c st b t v"
    using assms(2) by (auto simp: word_stands_def)
  have "decode_boxed c w = None" if "tag_of w \<noteq> TAG_BOXED"
    using decode_tag [OF assms(1)] that by (cases "decode_boxed c w") auto
  then have other: "tag_of w \<noteq> TAG_BOXED \<Longrightarrow> get_game_handle c b w = None"
    by (simp add: get_game_handle_def boxed_get_entry_def)
  show ?thesis
  proof (cases v)
    case (LBox x)
    then have "map_option entry_value (boxed_get_entry c b w) = Some x" using t by (cases t) auto
    then show ?thesis by (cases x) (auto simp: LBox get_game_handle_def)
  qed (use t other in \<open>cases t; auto\<close>)+
qed

definition check_handle :: "u64 \<Rightarrow> u64 \<Rightarrow> u64 \<Rightarrow> 'h callback" where
  "check_handle p k out args h =
     (case args of
        [] \<Rightarrow> Done 1 None h
      | word # _ \<Rightarrow>
          Call (Unwrap_Game_Handle p word out) (\<lambda>r.
            if fst r \<noteq> 0 then Done (fst r) None h
            else Done 0 (Some (if snd r = [k] then SYM_T_WORD else WORD_NIL)) h))"

definition checks :: "u64 \<Rightarrow> lisp list \<Rightarrow> int \<Rightarrow> (rstring + lisp) \<times> int" where
  "checks k vs a =
     (case vs of
        LBox (GameHandle h) # _ \<Rightarrow> (Inr (if h = k then LSym (lit ''t'') else LNil), a)
      | _ \<Rightarrow> (Inl (failed 1), a))"

lemma check_handle_ok: "callback_ok p (check_handle p k out)"
  by (auto simp: callback_ok_def check_handle_def split: list.split)

lemma realizes_check:
  assumes "p \<noteq> 0" and "out \<noteq> 0" and "codec_ok (pl_codec pl)"
  shows "realizes pl p (checks k) (check_handle p k out)"
  unfolding realizes_def
proof (intro conjI allI impI)
  fix vs a
  show "0 \<le> snd (checks k vs a) \<Longrightarrow> 0 \<le> a"
    by (auto simp: checks_def split: list.splits lisp.splits boxed_value.splits)
next
  fix A st a vs xs and w :: "'h world"
  let ?c = "pl_codec pl"
  assume sim: "room_sim pl p a w" and args: "list_all2 (word_stands ?c st A (look_at p w)) vs xs"
  obtain b where b: "w_tables w p = Some b" "look_at p w = b"
    using sim by (auto simp: room_sim_def look_at_def)
  show "simulates ?c (look_at p) (room_sim pl p) (\<lambda>a. 0 \<le> a) (word_stands ?c st A) w
      (checks k vs a) (host_closure pl (check_handle p k out) xs w)"
  proof (cases vs)
    case Nil
    then have run: "host_closure pl (check_handle p k out) xs w = (Inl (Raise (failed 1)), w)"
      using args by (simp add: host_closure_def check_handle_def failed_def world_eta)
    show ?thesis unfolding run using sim by (simp add: Nil checks_def simulates_error)
  next
    case (Cons v vs')
    then obtain x xs' where x: "xs = x # xs'" "word_stands ?c st A b v x"
      using args b(2) by (auto simp: list_all2_Cons1)
    have call: "boundary pl (Unwrap_Game_Handle p x out) (w_tables w) =
        (Inr (case get_game_handle ?c b x of Some h \<Rightarrow> (0, [h]) | None \<Rightarrow> (1, [])), w_tables w)"
      using assms b(1) by (simp add: wsm_unwrap_game_handle_def split: option.split)
    show ?thesis
    proof (cases "get_game_handle ?c b x")
      case None
      then have run: "host_closure pl (check_handle p k out) xs w = (Inl (Raise (failed 1)), w)"
        using call by (simp add: x(1) host_closure_def check_handle_def failed_def world_eta)
      have "checks k vs a = (Inl (failed 1), a)"
        using None stands_handle [OF assms(3) x(2)]
        by (auto simp: Cons checks_def split: lisp.splits boxed_value.splits)
      then show ?thesis unfolding run using sim by (simp add: simulates_error)
    next
      case (Some h)
      let ?r = "if h = k then SYM_T_WORD else WORD_NIL"
      have run: "host_closure pl (check_handle p k out) xs w = (Inr ?r, w)"
        using call Some by (simp add: x(1) host_closure_def check_handle_def world_eta)
      have "checks k vs a = (Inr (if h = k then LSym (lit ''t'') else LNil), a)"
        using Some stands_handle [OF assms(3) x(2)]
        by (auto simp: Cons checks_def split: lisp.splits boxed_value.splits)
      then show ?thesis
        unfolding run using sim word_stands_true word_stands_nil
        by (auto intro!: simulates_value simp del: lit_simps)
    qed
  qed
qed

section \<open>Registration through the C boundary\<close>

lemma ready_registered:
  assumes "ready pl H p q C0 k C" and "callback_ok p f" and "realizes pl p F f" and "text_ok n"
  obtains D where "on_process (\<lambda>P. wsm_register_primitive pl P p (Some (utf8_encode n)) f) C = (Inr 0, D)"
    "ready pl (host_register H n F) p q C0 k D"
proof -
  obtain S where S: "p_sessions (c_process C) p = Some S" "served_by pl p H S" "session_room pl S k"
      "transient_len (s_boxed S) = 0" and ok: "process_ok pl (c_process C)"
    using assms(1) by (auto simp: ready_def)
  let ?S = "S\<lparr>s_env := register_primitive (s_env S) n (host_closure pl f)\<rparr>"
  let ?P = "put_session (c_process C) p ?S"
  have p: "p \<noteq> 0" and "session_ok pl p S" using ok S(1) by (auto simp: process_ok_def)
  then have "process_ok pl ?P"
    using put_session_ok [OF ok p register_session_ok [of pl p S f n]] assms(2) by blast
  moreover have "served_by pl p (host_register H n F) ?S" by (rule served_register [OF S(2) assms(3)])
  ultimately have "ready pl (host_register H n F) p q C0 k (C\<lparr>c_process := ?P\<rparr>)"
    using assms(1) S(3,4) by (auto simp: ready_def session_room_def)
  then show thesis
    using that S(1) p c_to_str_encode [OF assms(4)]
    by (simp add: on_process_def wsm_register_primitive_def)
qed

lemma ready_bound:
  assumes "ready pl H p q C0 k C" and "tag_of x \<noteq> TAG_CONS"
    and "\<And>A st b. word_stands (pl_codec pl) st A b v x" and "text_ok n"
  obtains D where "on_process (\<lambda>P. wsm_bind P p (Some (utf8_encode n)) x) C = (Inr 0, D)"
    "ready pl (host_bind H n v) p q C0 k D"
proof -
  obtain S where S: "p_sessions (c_process C) p = Some S" "served_by pl p H S" "session_room pl S k"
      "transient_len (s_boxed S) = 0" and ok: "process_ok pl (c_process C)"
    using assms(1) by (auto simp: ready_def)
  let ?S = "S\<lparr>s_env := bind_name (s_env S) n x\<rparr>"
  let ?P = "put_session (c_process C) p ?S"
  have p: "p \<noteq> 0" and "session_ok pl p S" using ok S(1) by (auto simp: process_ok_def)
  then have "session_ok pl p ?S" using assms(2) by (auto simp: session_ok_def)
  then have "process_ok pl ?P" by (rule put_session_ok [OF ok p])
  moreover have "served_by pl p (host_bind H n v) ?S" by (rule served_bind [OF S(2) assms(3)])
  ultimately have "ready pl (host_bind H n v) p q C0 k (C\<lparr>c_process := ?P\<rparr>)"
    using assms(1) S(3,4) by (auto simp: ready_def session_room_def)
  then show thesis
    using that S(1) p c_to_str_encode [OF assms(4)] by (simp add: on_process_def wsm_bind_def)
qed

end
