(* ===== verification/Recovery.thy ===== *)
theory Recovery
  imports C_Strings
begin

text \<open>
  \<open>host-runtime/src/bin/reader_capacity_trigger.rs\<close>, the program that \<open>tests/reader_capacity_error.rs\<close>
  runs: a host that sends malformed, ill-typed and oversized forms through the C boundary and
  asserts that each is refused with the right message and that the session answers afterwards.
\<close>

section \<open>The program\<close>

definition evaluate ::
  "platform \<Rightarrow> u64 \<Rightarrow> u64 \<Rightarrow> rstring \<Rightarrow> 'h c_side \<Rightarrow> (fatal + rstring) \<times> 'h c_side" where
  "evaluate pl q session source C =
     (case cstring_new source of
        None \<Rightarrow> (Inl Rust_Panic, C)
      | Some bytes \<Rightarrow>
          step_then (wsm_eval_string_raw pl q C session (Some bytes)) (\<lambda>result C.
          step_then (read_c_string C result, C) (\<lambda>text C.
          step_then (wsm_free_string C result) (\<lambda>_ C. (Inr text, C)))))"

definition starts_with :: "rstring \<Rightarrow> rstring \<Rightarrow> bool" where
  "starts_with s p \<longleftrightarrow> take (length p) s = p"

definition panic_unless :: "bool \<Rightarrow> fatal + unit" where
  "panic_unless b = (if b then Inr () else Inl Rust_Panic)"

text \<open>The Cyrillic names of the source (\<open>first\<close>, \<open>rest\<close>, \<open>unknown-symbol\<close>, \<open>live-session\<close>).\<close>

definition pershe :: rstring where
  "pershe = [0x43F, 0x435, 0x440, 0x448, 0x435]"

definition reshta :: rstring where
  "reshta = [0x440, 0x435, 0x448, 0x442, 0x430]"

definition nevidomyi_symvol :: rstring where
  "nevidomyi_symvol = [0x43D, 0x435, 0x432, 0x456, 0x434, 0x43E, 0x43C, 0x438, 0x439, 0x2D,
     0x441, 0x438, 0x43C, 0x432, 0x43E, 0x43B]"

definition zhyva_sesiia :: rstring where
  "zhyva_sesiia = [0x436, 0x438, 0x432, 0x430, 0x2D, 0x441, 0x435, 0x441, 0x456, 0x44F]"

definition live_source :: rstring where
  "live_source = lit ''(quote '' @ zhyva_sesiia @ lit '')''"

definition rejected_sources :: "(rstring \<times> rstring) list" where
  "rejected_sources =
     [(lit ''(quote)'', lit ''error: invalid form: quote takes exactly one argument''),
      (lit ''(cond (t 1 2))'', lit ''error: invalid form: cond clause takes exactly two forms''),
      (lit ''(car 5)'', lit ''error: type error: car expects a non-empty list''),
      (lit ''('' @ pershe @ lit '' (quote ()))'', lit ''error: type error: car expects a non-empty list''),
      (lit ''('' @ reshta @ lit '' 5)'', lit ''error: type error: cdr expects a non-empty list''),
      (nevidomyi_symvol, lit ''error: unknown symbol'')]"

definition oversized_source :: rstring where
  "oversized_source = lit ''(f '' @ join_spaces (replicate 256 (lit ''a'')) @ lit '')''"

text \<open>One round: a source that must be refused, then one that must be answered.\<close>

definition round ::
  "platform \<Rightarrow> u64 \<Rightarrow> u64 \<Rightarrow> rstring \<Rightarrow> rstring \<Rightarrow> 'h c_side \<Rightarrow> (fatal + unit) \<times> 'h c_side" where
  "round pl q session source expected_prefix C =
     step_then (evaluate pl q session source C) (\<lambda>rejected C.
     step_then (panic_unless (starts_with rejected expected_prefix), C) (\<lambda>_ C.
     step_then (evaluate pl q session live_source C) (\<lambda>recovery C.
       (panic_unless (recovery = zhyva_sesiia), C))))"

fun rounds ::
  "platform \<Rightarrow> u64 \<Rightarrow> u64 \<Rightarrow> (rstring \<times> rstring) list \<Rightarrow> 'h c_side \<Rightarrow> (fatal + unit) \<times> 'h c_side" where
  "rounds pl q session [] C = (Inr (), C)"
| "rounds pl q session ((source, expected_prefix) # xs) C =
     step_then (round pl q session source expected_prefix C) (\<lambda>_ C. rounds pl q session xs C)"

text \<open>The allocator puts the session at \<open>p\<close> and every result string at \<open>q\<close>.\<close>

definition reader_capacity_trigger_main ::
  "platform \<Rightarrow> u64 \<Rightarrow> u64 \<Rightarrow> 'h c_side \<Rightarrow> (fatal + unit) \<times> 'h c_side" where
  "reader_capacity_trigger_main pl p q C =
     in_session p (\<lambda>session C.
       step_then (rounds pl q session rejected_sources C) (\<lambda>_ C.
         round pl q session oversized_source (lit ''error:'') C)) C"

section \<open>Calls of the program\<close>

lemma cstring_text: "text_ok s \<Longrightarrow> cstring_new s = Some (utf8_encode s)"
  using utf8_encode_NUL [of s] by (simp add: cstring_new_def Let_def text_ok_def)

lemma evaluate_form:
  assumes "ready pl H p q C0 (length (render f) + k) C" and "form_ok f" and "text_ok (render f)"
    and "cells_of f \<le> ARENA_CELLS"
    and "feval (pl_spellings pl) H f (int k) = (r, int j)" and "j \<le> k"
  obtains D where "evaluate pl q p (render f) C = (Inr (answer_text r), D)" "ready pl H p q C0 j D"
  by (rule ready_eval [OF assms(1,3) tokenize_render [OF assms(2)] assms(4-6)])
    (use that cstring_text [OF assms(3)] in \<open>simp add: evaluate_def\<close>)

lemma evaluate_oversized:
  assumes "ready pl H p q C0 k C" and "form_ok f" and "text_ok (render f)"
    and "ARENA_CELLS < cells_of f"
  obtains D where "evaluate pl q p (render f) C = (Inr (lit ''error: form needs '' @ dec_nat (cells_of f)
      @ lit '' cons cells; arena capacity is '' @ dec_nat ARENA_CELLS), D)" "ready pl H p q C0 k D"
  by (rule ready_oversized [OF assms(1,3) tokenize_render [OF assms(2)] assms(4)])
    (use that cstring_text [OF assms(3)] in \<open>simp add: evaluate_def\<close>)

section \<open>The spellings\<close>

text \<open>
  What the program relies on in the registry of surface spellings (a submodule): the spellings it
  uses, and that no spelling stands for two operators.
\<close>

definition trigger_spellings :: "spellings \<Rightarrow> bool" where
  "trigger_spellings s \<longleftrightarrow>
     lit ''quote'' \<in> set (QUOTE_SPELLINGS s) \<and> lit ''cond'' \<in> set (COND_SPELLINGS s)
     \<and> lit ''car'' \<in> set (CAR_SPELLINGS s) \<and> pershe \<in> set (CAR_SPELLINGS s)
     \<and> reshta \<in> set (CDR_SPELLINGS s)
     \<and> set (QUOTE_SPELLINGS s) \<inter> set (COND_SPELLINGS s) = {}
     \<and> set (CAR_SPELLINGS s) \<inter> (set (COND_SPELLINGS s) \<union> set (QUOTE_SPELLINGS s)) = {}
     \<and> set (CDR_SPELLINGS s) \<inter>
         (set (COND_SPELLINGS s) \<union> set (QUOTE_SPELLINGS s) \<union> set (CAR_SPELLINGS s)) = {}"

lemma trigger_operators:
  assumes "trigger_spellings s"
  shows "spelled s (lit ''quote'') = Op_Quote" and "spelled s (lit ''cond'') = Op_Cond"
    and "spelled s (lit ''car'') = Op_Accessor (lit ''car'') wsm_car"
    and "spelled s pershe = Op_Accessor (lit ''car'') wsm_car"
    and "spelled s reshta = Op_Accessor (lit ''cdr'') wsm_cdr"
  using assms by (auto simp: spelled_def trigger_spellings_def simp del: lit_simps)

section \<open>The run of the program\<close>

lemma plain_names:
  "plain_symbol (lit ''quote'')" "plain_symbol (lit ''cond'')" "plain_symbol (lit ''car'')"
  "plain_symbol pershe" "plain_symbol reshta" "plain_symbol nevidomyi_symvol"
  "plain_symbol zhyva_sesiia"
  by (simp_all add: plain_symbol_def atom_ok_def is_delimiter_def is_whitespace_def parse_i64_def
      pershe_def reshta_def nevidomyi_symvol_def zhyva_sesiia_def)

lemma texts:
  "text_ok pershe" "text_ok reshta" "text_ok nevidomyi_symvol" "text_ok zhyva_sesiia"
  by (simp_all add: pershe_def reshta_def nevidomyi_symvol_def zhyva_sesiia_def valid_scalar_def)

lemma atoms:
  "atom_ok (lit ''t'')" "atom_ok (lit ''1'')" "atom_ok (lit ''2'')" "atom_ok (lit ''5'')"
  "atom_ok (lit ''a'')" "atom_ok (lit ''f'')"
  by (simp_all add: atom_ok_def is_delimiter_def is_whitespace_def)

lemma five: "atom_value (lit ''5'') = LInt 5"
  by (simp add: atom_value_def parse_i64_def signed_take_bit_int_eq_self)

lemmas name_values = plain_names [THEN plain_symbol_value]
lemmas name_atoms = plain_names [THEN plain_symbol_atom]

text \<open>A source that is answered with a text, whatever the state of a host without primitives.\<close>

definition answered :: "spellings \<Rightarrow> rstring \<Rightarrow> rstring \<Rightarrow> bool" where
  "answered s source m \<longleftrightarrow>
     (\<exists>f r. source = render f \<and> form_ok f \<and> text_ok source \<and> cells_of f \<le> ARENA_CELLS
        \<and> (\<forall>a. feval s empty_host f a = (r, a)) \<and> answer_text r = m)"

lemma answeredI:
  "source = render f \<Longrightarrow> form_ok f \<Longrightarrow> text_ok source \<Longrightarrow> cells_of f \<le> ARENA_CELLS \<Longrightarrow>
     (\<And>a. feval s empty_host f a = (r, a)) \<Longrightarrow> answer_text r = m \<Longrightarrow> answered s source m"
  unfolding answered_def by blast

lemma sources_answered:
  assumes "trigger_spellings s"
  shows "answered s (lit ''(quote)'') (lit ''error: invalid form: quote takes exactly one argument'')"
    and "answered s (lit ''(cond (t 1 2))'') (lit ''error: invalid form: cond clause takes exactly two forms'')"
    and "answered s (lit ''(car 5)'') (lit ''error: type error: car expects a non-empty list'')"
    and "answered s (lit ''('' @ pershe @ lit '' (quote ()))'')
      (lit ''error: type error: car expects a non-empty list'')"
    and "answered s (lit ''('' @ reshta @ lit '' 5)'') (lit ''error: type error: cdr expects a non-empty list'')"
    and "answered s nevidomyi_symvol (unknown_symbol_message nevidomyi_symvol)"
    and "answered s live_source zhyva_sesiia"
proof -
  note vals = trigger_operators [OF assms, simplified] name_values [simplified] five [simplified]
    form_operator_def only_argument_def clause_parts_def part_of_def symbol_value_def
  note atom = name_atoms [simplified] atoms [simplified] texts
  show "answered s (lit ''(quote)'') (lit ''error: invalid form: quote takes exactly one argument'')"
    by (rule answeredI [where f = "FList [FAtom (lit ''quote'')]"
          and r = "Inl (InvalidForm (lit ''quote takes exactly one argument''))"])
      (simp_all add: vals atom)
  show "answered s (lit ''(cond (t 1 2))'') (lit ''error: invalid form: cond clause takes exactly two forms'')"
    by (rule answeredI [where f = "FList [FAtom (lit ''cond''),
            FList [FAtom (lit ''t''), FAtom (lit ''1''), FAtom (lit ''2'')]]"
          and r = "Inl (InvalidForm (lit ''cond clause takes exactly two forms''))"])
      (simp_all add: vals atom)
  show "answered s (lit ''(car 5)'') (lit ''error: type error: car expects a non-empty list'')"
    by (rule answeredI [where f = "FList [FAtom (lit ''car''), FAtom (lit ''5'')]"
          and r = "Inl (TypeError (lit ''car expects a non-empty list''))"])
      (simp_all add: vals atom)
  show "answered s (lit ''('' @ pershe @ lit '' (quote ()))'')
      (lit ''error: type error: car expects a non-empty list'')"
    by (rule answeredI [where f = "FList [FAtom pershe, FList [FAtom (lit ''quote''), FList []]]"
          and r = "Inl (TypeError (lit ''car expects a non-empty list''))"])
      (simp_all add: vals atom)
  show "answered s (lit ''('' @ reshta @ lit '' 5)'') (lit ''error: type error: cdr expects a non-empty list'')"
    by (rule answeredI [where f = "FList [FAtom reshta, FAtom (lit ''5'')]"
          and r = "Inl (TypeError (lit ''cdr expects a non-empty list''))"])
      (simp_all add: vals atom)
  show "answered s nevidomyi_symvol (unknown_symbol_message nevidomyi_symvol)"
    by (rule answeredI [where f = "FAtom nevidomyi_symvol" and r = "Inl (UnknownSymbol nevidomyi_symvol)"])
      (simp_all add: vals atom empty_host_def, simp add: nevidomyi_symvol_def)
  show "answered s live_source zhyva_sesiia"
    by (rule answeredI [where f = "FList [FAtom (lit ''quote''), FAtom zhyva_sesiia]"
          and r = "Inr (LSym zhyva_sesiia)"])
      (simp_all add: vals atom live_source_def)
qed

text \<open>A source that is refused as the program expects.\<close>

definition refused :: "spellings \<Rightarrow> rstring \<Rightarrow> rstring \<Rightarrow> bool" where
  "refused s source expected_prefix \<longleftrightarrow> (\<exists>m. answered s source m \<and> starts_with m expected_prefix)"

lemma starts_with_self [simp]: "starts_with (p @ s) p" "starts_with p p"
  by (simp_all add: starts_with_def)

lemma sources_refused:
  assumes "trigger_spellings s"
  shows "\<forall>(source, expected) \<in> set rejected_sources. refused s source expected"
proof -
  have "starts_with (unknown_symbol_message nevidomyi_symvol) (lit ''error: unknown symbol'')"
    by (simp add: unknown_symbol_message_def starts_with_def)
  then have "refused s nevidomyi_symvol (lit ''error: unknown symbol'')"
    using sources_answered(6) [OF assms] unfolding refused_def by blast
  moreover have "refused s source m" if "answered s source m" for source m
    using that starts_with_self unfolding refused_def by blast
  ultimately show ?thesis
    using sources_answered(1-5) [OF assms] by (simp add: rejected_sources_def del: lit_simps)
qed

lemma evaluate_answered:
  assumes "answered (pl_spellings pl) source m" and "ready pl empty_host p q C0 (length source + k) C"
  obtains D where "evaluate pl q p source C = (Inr m, D)" "ready pl empty_host p q C0 k D"
proof -
  obtain f r where f: "source = render f" "form_ok f" "text_ok source" "cells_of f \<le> ARENA_CELLS"
      "\<And>a. feval (pl_spellings pl) empty_host f a = (r, a)" "answer_text r = m"
    using assms(1) unfolding answered_def by blast
  show thesis
    using evaluate_form [OF assms(2) [unfolded f(1)] f(2) f(3) [unfolded f(1)] f(4,5) order_refl]
      that f(1,6) by metis
qed

lemma evaluate_live:
  assumes "trigger_spellings (pl_spellings pl)" and "ready pl empty_host p q C0 (length live_source + k) C"
  obtains D where "evaluate pl q p live_source C = (Inr zhyva_sesiia, D)" "ready pl empty_host p q C0 k D"
  by (rule evaluate_answered [OF sources_answered(7) [OF assms(1)] assms(2)])

lemma round_refused:
  assumes "trigger_spellings (pl_spellings pl)" and "refused (pl_spellings pl) source expected"
    and "ready pl empty_host p q C0 (length source + (length live_source + k)) C"
  shows "\<exists>D. round pl q p source expected C = (Inr (), D) \<and> ready pl empty_host p q C0 k D"
proof -
  obtain m where m: "answered (pl_spellings pl) source m" "starts_with m expected"
    using assms(2) unfolding refused_def by blast
  obtain C1 where C1: "evaluate pl q p source C = (Inr m, C1)"
      "ready pl empty_host p q C0 (length live_source + k) C1"
    by (rule evaluate_answered [OF m(1) assms(3)])
  obtain D where "evaluate pl q p live_source C1 = (Inr zhyva_sesiia, D)" "ready pl empty_host p q C0 k D"
    using evaluate_live [OF assms(1) C1(2)] by blast
  then show ?thesis using C1(1) m(2) by (simp add: round_def panic_unless_def)
qed

definition text_length :: "(rstring \<times> rstring) list \<Rightarrow> nat" where
  "text_length xs = sum_list (map (\<lambda>(source, _). length source + length live_source) xs)"

lemma rounds_refused:
  assumes "trigger_spellings (pl_spellings pl)"
    and "\<forall>(source, expected) \<in> set xs. refused (pl_spellings pl) source expected"
    and "ready pl empty_host p q C0 (text_length xs + k) C"
  shows "\<exists>D. rounds pl q p xs C = (Inr (), D) \<and> ready pl empty_host p q C0 k D"
  using assms(2,3)
proof (induction xs arbitrary: C)
  case (Cons x xs)
  obtain source expected where x: "x = (source, expected)" by (cases x)
  have "ready pl empty_host p q C0 (length source + (length live_source + (text_length xs + k))) C"
    using Cons.prems(2) x by (simp add: text_length_def ac_simps)
  from round_refused [OF assms(1) _ this] Cons.prems(1) x
  obtain C1 where "round pl q p source expected C = (Inr (), C1)"
      "ready pl empty_host p q C0 (text_length xs + k) C1"
    by auto
  then show ?case using Cons x by auto
qed (simp add: text_length_def)

text \<open>The oversized form has 257 cells.\<close>

abbreviation oversized_form :: form where
  "oversized_form \<equiv> FList (FAtom (lit ''f'') # replicate 256 (FAtom (lit ''a'')))"

lemma oversized_facts:
  "oversized_source = render oversized_form" "form_ok oversized_form"
  "cells_of oversized_form = 257" "text_ok oversized_source"
proof -
  show "oversized_source = render oversized_form"
    by (simp add: oversized_source_def join_spaces_Cons map_replicate)
  show "form_ok oversized_form" using atoms(5,6) by (simp add: list_all_iff)
  show "cells_of oversized_form = 257" by (simp add: map_replicate sum_list_replicate)
  have "text_ok (join_spaces (replicate n (lit ''a'')))" for n
    by (induction n) (simp_all add: join_spaces_Cons)
  then show "text_ok oversized_source" by (simp add: oversized_source_def)
qed

lemma round_oversized:
  assumes "trigger_spellings (pl_spellings pl)"
    and "ready pl empty_host p q C0 (length live_source + k) C"
  shows "\<exists>D. round pl q p oversized_source (lit ''error:'') C = (Inr (), D) \<and> ready pl empty_host p q C0 k D"
proof -
  have cells: "ARENA_CELLS < cells_of oversized_form"
    unfolding oversized_facts(3) by (simp add: ARENA_CELLS_def)
  obtain C1 where C1: "evaluate pl q p oversized_source C =
      (Inr (lit ''error: form needs '' @ dec_nat (cells_of oversized_form)
        @ lit '' cons cells; arena capacity is '' @ dec_nat ARENA_CELLS), C1)"
    "ready pl empty_host p q C0 (length live_source + k) C1"
    unfolding oversized_facts(1)
    by (rule evaluate_oversized [OF assms(2) oversized_facts(2) oversized_facts(4) [unfolded oversized_facts(1)] cells])
  obtain D where "evaluate pl q p live_source C1 = (Inr zhyva_sesiia, D)" "ready pl empty_host p q C0 k D"
    using evaluate_live [OF assms(1) C1(2)] by blast
  then show ?thesis using C1(1) by (simp add: round_def panic_unless_def starts_with_def)
qed

lemma program_length: "text_length rejected_sources + length live_source \<le> 300"
  by (simp add: text_length_def rejected_sources_def live_source_def pershe_def reshta_def
      nevidomyi_symvol_def zhyva_sesiia_def)

text \<open>
  The program runs to its end in any well-formed process: no assertion fails, every string and
  the session are given back, and the other sessions are untouched.
\<close>

lemma trigger_run:
  assumes "trigger_spellings (pl_spellings pl)" and "can_open pl p q 300 C"
  shows "\<exists>D. reader_capacity_trigger_main pl p q C = (Inr (), D) \<and> left_clean pl C D"
  unfolding reader_capacity_trigger_main_def
proof (rule in_session_runs [OF assms(2)])
  fix C1
  assume ready: "ready pl empty_host p q C 300 C1"
  let ?n = "length live_source + 0"
  have "text_length rejected_sources + ?n \<le> 300" using program_length by simp
  from rounds_refused [OF assms(1) sources_refused [OF assms(1)] ready_less [OF ready this]]
  obtain C2 where C2: "rounds pl q p rejected_sources C1 = (Inr (), C2)" "ready pl empty_host p q C ?n C2"
    by blast
  from round_oversized [OF assms(1) C2(2)] C2(1)
  show "\<exists>D H. step_then (rounds pl q p rejected_sources C1) (\<lambda>_ C.
      round pl q p oversized_source (lit ''error:'') C) = (Inr (), D) \<and> ready pl H p q C 0 D"
    by (auto simp del: lit_simps)
qed

end
