(* ===== verification/Ffi_Tests.thy ===== *)
theory Ffi_Tests
  imports Callbacks Recovery
begin

text \<open>
  The unit tests of \<open>host-runtime/src/ffi.rs\<close> as programs over the C boundary, each for any number
  of repetitions where the source repeats a call 500 times. \<open>assert_eq\<close> is a panic on difference.
  The callbacks take the session pointer that the source keeps in a thread-local variable. The
  two tests whose callbacks themselves assert are in \<open>Asserting\<close>: a panic in an \<open>extern "C"\<close>
  callback ends the process, which no contract for callbacks allows.
\<close>

section \<open>The steps of a test\<close>

definition c_string :: "rstring \<Rightarrow> fatal + u8 list" where
  "c_string s = (case cstring_new s of None \<Rightarrow> Inl Rust_Panic | Some bytes \<Rightarrow> Inr bytes)"

text \<open>Evaluate, compare the result, free it.\<close>

definition expect ::
  "platform \<Rightarrow> u64 \<Rightarrow> u64 \<Rightarrow> rstring \<Rightarrow> rstring \<Rightarrow> 'h c_side \<Rightarrow> (fatal + unit) \<times> 'h c_side" where
  "expect pl q session source expected C =
     step_then (c_string source, C) (\<lambda>bytes C.
     step_then (wsm_eval_string_raw pl q C session (Some bytes)) (\<lambda>result_ptr C.
     step_then (read_c_string C result_ptr, C) (\<lambda>result C.
     step_then (panic_unless (result = expected), C) (\<lambda>_ C.
       wsm_free_string C result_ptr))))"

definition eval_and_free ::
  "platform \<Rightarrow> u64 \<Rightarrow> u64 \<Rightarrow> rstring \<Rightarrow> 'h c_side \<Rightarrow> (fatal + unit) \<times> 'h c_side" where
  "eval_and_free pl q session source C =
     step_then (c_string source, C) (\<lambda>bytes C.
     step_then (wsm_eval_string_raw pl q C session (Some bytes)) (\<lambda>result C.
       wsm_free_string C result))"

definition register_host ::
  "platform \<Rightarrow> u64 \<Rightarrow> rstring \<Rightarrow> 'h callback \<Rightarrow> 'h c_side \<Rightarrow> (fatal + unit) \<times> 'h c_side" where
  "register_host pl session name f C =
     step_then (c_string name, C) (\<lambda>bytes C.
     step_then (on_process (\<lambda>P. wsm_register_primitive pl P session (Some bytes) f) C) (\<lambda>rc C.
       (panic_unless (rc = 0), C)))"

definition expect_no_transient :: "u64 \<Rightarrow> 'h c_side \<Rightarrow> (fatal + unit) \<times> 'h c_side" where
  "expect_no_transient session C =
     (case p_sessions (c_process C) session of
        None \<Rightarrow> (Inl (Dangling_Session session), C)
      | Some S \<Rightarrow> (panic_unless (transient_len (s_boxed S) = 0), C))"

definition and_also ::
  "('h c_side \<Rightarrow> (fatal + unit) \<times> 'h c_side) \<Rightarrow> ('h c_side \<Rightarrow> (fatal + unit) \<times> 'h c_side) \<Rightarrow>
     'h c_side \<Rightarrow> (fatal + unit) \<times> 'h c_side" where
  "and_also f g C = step_then (f C) (\<lambda>_ C. g C)"

fun repeatedly ::
  "nat \<Rightarrow> ('h c_side \<Rightarrow> (fatal + unit) \<times> 'h c_side) \<Rightarrow> 'h c_side \<Rightarrow> (fatal + unit) \<times> 'h c_side" where
  "repeatedly 0 body C = (Inr (), C)"
| "repeatedly (Suc n) body C = step_then (body C) (\<lambda>_ C. repeatedly n body C)"

section \<open>The tests\<close>

text \<open>The Cyrillic names: position-x, class, save-game, give-weapon, temporary, pistol.\<close>

definition pozytsiia_x :: rstring where
  "pozytsiia_x = [0x43F, 0x43E, 0x437, 0x438, 0x446, 0x456, 0x44F, 0x2D, 0x78]"
definition klas :: rstring where "klas = [0x43A, 0x43B, 0x430, 0x441]"
definition zberezhy_hru :: rstring where
  "zberezhy_hru = [0x437, 0x431, 0x435, 0x440, 0x435, 0x436, 0x438, 0x2D, 0x433, 0x440, 0x443]"
definition dai_zbroiu :: rstring where
  "dai_zbroiu = [0x434, 0x430, 0x439, 0x2D, 0x437, 0x431, 0x440, 0x43E, 0x44E]"
definition tymchasove :: rstring where
  "tymchasove = [0x442, 0x438, 0x43C, 0x447, 0x430, 0x441, 0x43E, 0x432, 0x435]"
definition pistolet :: rstring where
  "pistolet = [0x43F, 0x456, 0x441, 0x442, 0x43E, 0x43B, 0x435, 0x442]"

definition call0 :: "rstring \<Rightarrow> rstring" where
  "call0 name = lit ''('' @ name @ lit '')''"
definition quoted :: "rstring \<Rightarrow> rstring" where
  "quoted s = [34] @ s @ [34]"

definition string_literal_round_trips ::
  "platform \<Rightarrow> u64 \<Rightarrow> u64 \<Rightarrow> 'h c_side \<Rightarrow> (fatal + unit) \<times> 'h c_side" where
  "string_literal_round_trips pl p q =
     in_session p (\<lambda>session. expect pl q session (quoted pistolet) (quoted pistolet))"

definition unknown_symbol_is_not_mangled ::
  "platform \<Rightarrow> u64 \<Rightarrow> u64 \<Rightarrow> 'h c_side \<Rightarrow> (fatal + unit) \<times> 'h c_side" where
  "unknown_symbol_is_not_mangled pl p q =
     in_session p (\<lambda>session. expect pl q session (call0 zberezhy_hru)
       (lit ''error: unknown symbol '' @ [0xB7] @ lit '' nevidomyi symvol '' @ [0xB7]
          @ lit '' unbekanntes Symbol: '' @ zberezhy_hru))"

definition transient_rationals_are_reclaimed ::
  "platform \<Rightarrow> u64 \<Rightarrow> u64 \<Rightarrow> u64 \<Rightarrow> nat \<Rightarrow> 'h c_side \<Rightarrow> (fatal + unit) \<times> 'h c_side" where
  "transient_rationals_are_reclaimed pl p q out n =
     in_session p (\<lambda>session.
       and_also (register_host pl session pozytsiia_x (pass_on (Wrap_Transient_Rational session 5 336 out)))
       (and_also (repeatedly n (expect pl q session (call0 pozytsiia_x) (lit ''5/336'')))
          (expect_no_transient session)))"

definition transient_host_strings_are_reclaimed ::
  "platform \<Rightarrow> u64 \<Rightarrow> u64 \<Rightarrow> u64 \<Rightarrow> nat \<Rightarrow> 'h c_side \<Rightarrow> (fatal + unit) \<times> 'h c_side" where
  "transient_host_strings_are_reclaimed pl p q out n =
     in_session p (\<lambda>session.
       and_also (register_host pl session klas
                   (pass_on (Wrap_Transient_String session (Some (utf8_encode (lit ''PlayerPuppet''))) out)))
       (and_also (repeatedly n (expect pl q session (call0 klas) (quoted (lit ''PlayerPuppet''))))
          (expect_no_transient session)))"

definition rational_prints_as_n_slash_d ::
  "platform \<Rightarrow> u64 \<Rightarrow> u64 \<Rightarrow> u64 \<Rightarrow> 'h c_side \<Rightarrow> (fatal + unit) \<times> 'h c_side" where
  "rational_prints_as_n_slash_d pl p q out =
     in_session p (\<lambda>session.
       and_also (register_host pl session pozytsiia_x (pass_on (Wrap_Rational session 5 336 out)))
         (expect pl q session (call0 pozytsiia_x) (lit ''5/336'')))"

definition repeated_eval_string_calls_survive ::
  "platform \<Rightarrow> u64 \<Rightarrow> u64 \<Rightarrow> nat \<Rightarrow> 'h c_side \<Rightarrow> (fatal + unit) \<times> 'h c_side" where
  "repeated_eval_string_calls_survive pl p q n =
     in_session p (\<lambda>session. repeatedly n (expect pl q session (lit ''(quote a)'') (lit ''a'')))"

definition stub_give_weapon :: "'h callback" where
  "stub_give_weapon args h = Done 1 None h"

definition host_primitive_error_code_surfaces ::
  "platform \<Rightarrow> u64 \<Rightarrow> u64 \<Rightarrow> 'h c_side \<Rightarrow> (fatal + unit) \<times> 'h c_side" where
  "host_primitive_error_code_surfaces pl p q =
     in_session p (\<lambda>session.
       and_also (register_host pl session dai_zbroiu stub_give_weapon)
         (expect pl q session (call0 dai_zbroiu)
            (lit ''error: '' @ dai_zbroiu @ lit '' failed: host primitive reported error code 1'')))"

definition checked_sources :: "(rstring \<times> rstring) list" where
  "checked_sources =
     [(lit ''(quote)'', lit ''error: invalid form: quote takes exactly one argument''),
      (lit ''(cond (t 1 2))'', lit ''error: invalid form: cond clause takes exactly two forms''),
      (lit ''(car 5)'', lit ''error: type error: car expects a non-empty list''),
      (lit ''('' @ pershe @ lit '' (quote ()))'', lit ''error: type error: car expects a non-empty list''),
      (lit ''('' @ reshta @ lit '' 5)'', lit ''error: type error: cdr expects a non-empty list''),
      (lit ''('' @ pershe @ lit '' (quote (7 8)))'', lit ''7''),
      (lit ''('' @ reshta @ lit '' (quote (7 8)))'', lit ''(8)'')]"

fun expect_all ::
  "platform \<Rightarrow> u64 \<Rightarrow> u64 \<Rightarrow> (rstring \<times> rstring) list \<Rightarrow> 'h c_side \<Rightarrow> (fatal + unit) \<times> 'h c_side" where
  "expect_all pl q session [] C = (Inr (), C)"
| "expect_all pl q session ((source, expected) # xs) C =
     step_then (expect pl q session source expected C) (\<lambda>_ C. expect_all pl q session xs C)"

definition malformed_forms_return_errors ::
  "platform \<Rightarrow> u64 \<Rightarrow> u64 \<Rightarrow> 'h c_side \<Rightarrow> (fatal + unit) \<times> 'h c_side" where
  "malformed_forms_return_errors pl p q =
     in_session p (\<lambda>session.
       and_also (expect_all pl q session checked_sources)
         (expect pl q session live_source zhyva_sesiia))"

definition repeated_string_eval_reclaims ::
  "platform \<Rightarrow> u64 \<Rightarrow> u64 \<Rightarrow> nat \<Rightarrow> 'h c_side \<Rightarrow> (fatal + unit) \<times> 'h c_side" where
  "repeated_string_eval_reclaims pl p q n =
     in_session p (\<lambda>session.
       and_also (repeatedly n (eval_and_free pl q session (quoted tymchasove)))
         (expect_no_transient session))"

definition host_word_exports_preserve_identity :: bool where
  "host_word_exports_preserve_identity \<longleftrightarrow>
     wsm_host_abi_version = HOST_ABI_VERSION
     \<and> wsm_host_feature_bits AND HOST_FEATURE_GAME_HANDLE = HOST_FEATURE_GAME_HANDLE
     \<and> wsm_word_nil = WORD_NIL \<and> wsm_word_true = SYM_T_WORD"

section \<open>Rules for the steps\<close>

text \<open>
  \<open>steps body H k H' k'\<close>: from a session that serves \<open>H\<close> with room \<open>k\<close>, \<open>body\<close> runs through and
  leaves it serving \<open>H'\<close> with room \<open>k'\<close>.
\<close>

definition steps ::
  "platform \<Rightarrow> u64 \<Rightarrow> u64 \<Rightarrow> 'h c_side \<Rightarrow> ('h c_side \<Rightarrow> (fatal + unit) \<times> 'h c_side) \<Rightarrow>
     int lisp_host \<Rightarrow> nat \<Rightarrow> int lisp_host \<Rightarrow> nat \<Rightarrow> bool" where
  "steps pl p q C0 body H k H' k' \<longleftrightarrow>
     (\<forall>C. ready pl H p q C0 k C \<longrightarrow> (\<exists>D. body C = (Inr (), D) \<and> ready pl H' p q C0 k' D))"

lemma steps_also:
  assumes "steps pl p q C0 f H k H' k'" and "steps pl p q C0 g H' k' H'' k''"
  shows "steps pl p q C0 (and_also f g) H k H'' k''"
  unfolding steps_def and_also_def
proof (intro allI impI)
  fix C
  assume "ready pl H p q C0 k C"
  then obtain D where D: "f C = (Inr (), D)" "ready pl H' p q C0 k' D"
    using assms(1) unfolding steps_def by blast
  moreover obtain D' where "g D = (Inr (), D')" "ready pl H'' p q C0 k'' D'"
    using assms(2) D(2) unfolding steps_def by blast
  ultimately show "\<exists>D. step_then (f C) (\<lambda>_ C. g C) = (Inr (), D) \<and> ready pl H'' p q C0 k'' D" by simp
qed

lemma steps_repeatedly:
  assumes "\<And>k. steps pl p q C0 body H (c + k) H k"
  shows "steps pl p q C0 (repeatedly n body) H (n * c + k) H k"
  unfolding steps_def
proof (intro allI impI)
  fix C
  assume "ready pl H p q C0 (n * c + k) C"
  then show "\<exists>D. repeatedly n body C = (Inr (), D) \<and> ready pl H p q C0 k D"
  proof (induction n arbitrary: C)
    case (Suc n)
    then have "ready pl H p q C0 (c + (n * c + k)) C" by (simp add: ac_simps)
    then obtain D where "body C = (Inr (), D)" "ready pl H p q C0 (n * c + k) D"
      using assms unfolding steps_def by blast
    then show ?case using Suc.IH by auto
  qed simp
qed

lemma steps_less: "steps pl p q C0 f H j H' k' \<Longrightarrow> j \<le> k \<Longrightarrow> steps pl p q C0 f H k H' k'"
  using ready_less unfolding steps_def by blast

lemma c_string_text: "text_ok s \<Longrightarrow> c_string s = Inr (utf8_encode s)"
  by (simp add: c_string_def cstring_text)

lemma steps_expect:
  assumes "source = render f" and "form_ok f" and "text_ok source" and "cells_of f \<le> ARENA_CELLS"
    and "feval (pl_spellings pl) H f (int k) = (r, int j)" and "j \<le> k" and "expected = answer_text r"
  shows "steps pl p q C0 (expect pl q p source expected) H (length source + k) H j"
  unfolding steps_def
proof (intro allI impI)
  fix C
  assume ready: "ready pl H p q C0 (length source + k) C"
  have tokens: "tokenize source = Inr (toks f)" using tokenize_render [OF assms(2)] assms(1) by simp
  obtain D D' where "wsm_eval_string_raw pl q C p (Some (utf8_encode source)) = (Inr q, D)"
      "read_c_string D q = Inr (answer_text r)" "wsm_free_string D q = (Inr (), D')"
      "ready pl H p q C0 j D'"
    by (rule ready_eval [OF ready assms(3) tokens assms(4-6)])
  then show "\<exists>D. expect pl q p source expected C = (Inr (), D) \<and> ready pl H p q C0 j D"
    using assms(7) c_string_text [OF assms(3)] by (simp add: expect_def panic_unless_def)
qed

lemma steps_eval_and_free:
  assumes "source = render f" and "form_ok f" and "text_ok source" and "cells_of f \<le> ARENA_CELLS"
    and "feval (pl_spellings pl) H f (int k) = (r, int j)" and "j \<le> k"
  shows "steps pl p q C0 (eval_and_free pl q p source) H (length source + k) H j"
  unfolding steps_def
proof (intro allI impI)
  fix C
  assume ready: "ready pl H p q C0 (length source + k) C"
  have tokens: "tokenize source = Inr (toks f)" using tokenize_render [OF assms(2)] assms(1) by simp
  obtain D D' where "wsm_eval_string_raw pl q C p (Some (utf8_encode source)) = (Inr q, D)"
      "read_c_string D q = Inr (answer_text r)" "wsm_free_string D q = (Inr (), D')"
      "ready pl H p q C0 j D'"
    by (rule ready_eval [OF ready assms(3) tokens assms(4-6)])
  then show "\<exists>D. eval_and_free pl q p source C = (Inr (), D) \<and> ready pl H p q C0 j D"
    using c_string_text [OF assms(3)] by (simp add: eval_and_free_def)
qed

lemma steps_register:
  assumes "callback_ok p f" and "realizes pl p F f" and "text_ok n"
  shows "steps pl p q C0 (register_host pl p n f) H k (host_register H n F) k"
  unfolding steps_def
proof (intro allI impI)
  fix C
  assume "ready pl H p q C0 k C"
  then obtain D where "on_process (\<lambda>P. wsm_register_primitive pl P p (Some (utf8_encode n)) f) C = (Inr 0, D)"
    "ready pl (host_register H n F) p q C0 k D"
    by (rule ready_registered [OF _ assms])
  then show "\<exists>D. register_host pl p n f C = (Inr (), D) \<and> ready pl (host_register H n F) p q C0 k D"
    using c_string_text [OF assms(3)] by (simp add: register_host_def panic_unless_def)
qed

lemma steps_no_transient: "steps pl p q C0 (expect_no_transient p) H k H k"
  by (auto simp: steps_def ready_def expect_no_transient_def panic_unless_def)

lemma session_steps:
  assumes "can_open pl p q k C" and "steps pl p q C (body p) empty_host k H k'"
  shows "\<exists>D. in_session p body C = (Inr (), D) \<and> left_clean pl C D"
proof (rule in_session_runs [OF assms(1)])
  fix C1
  assume "ready pl empty_host p q C k C1"
  then obtain D where "body p C1 = (Inr (), D)" "ready pl H p q C k' D"
    using assms(2) unfolding steps_def by blast
  then show "\<exists>D H. body p C1 = (Inr (), D) \<and> ready pl H p q C 0 D"
    using ready_less by blast
qed

section \<open>The tests pass\<close>

text \<open>What the tests rely on in the registry of spellings: their names are not special forms.\<close>

definition test_spellings :: "spellings \<Rightarrow> bool" where
  "test_spellings s \<longleftrightarrow> trigger_spellings s
     \<and> (\<forall>n \<in> {pozytsiia_x, klas, zberezhy_hru, dai_zbroiu}. spelled s n = Op_Call n)"

lemmas test_name_defs = pozytsiia_x_def klas_def zberezhy_hru_def dai_zbroiu_def tymchasove_def pistolet_def

lemma test_names:
  "plain_symbol pozytsiia_x" "plain_symbol klas" "plain_symbol zberezhy_hru" "plain_symbol dai_zbroiu"
  by (simp_all add: plain_symbol_def atom_ok_def is_delimiter_def is_whitespace_def parse_i64_def test_name_defs)

lemma test_texts:
  "text_ok pozytsiia_x" "text_ok klas" "text_ok zberezhy_hru" "text_ok dai_zbroiu"
  "text_ok tymchasove" "text_ok pistolet"
  by (simp_all add: test_name_defs valid_scalar_def)

lemma feval_call0:
  assumes "plain_symbol n" and "spelled s n = Op_Call n"
  shows "feval s H (FList [FAtom n]) a = call_host H n [] a"
  using assms plain_symbol_value [OF assms(1)] by (simp add: form_operator_def)

lemma steps_call0:
  assumes "plain_symbol n" and "text_ok n" and "spelled (pl_spellings pl) n = Op_Call n"
    and "call_host H n [] (int k) = (r, int j)" and "j \<le> k" and "expected = answer_text r"
    and "c = length n + 2 + k"
  shows "steps pl p q C0 (expect pl q p (call0 n) expected) H c H j"
proof -
  have called: "feval (pl_spellings pl) H (FList [FAtom n]) (int k) = (r, int j)"
    unfolding feval_call0 [OF assms(1,3)] by (rule assms(4))
  have "steps pl p q C0 (expect pl q p (call0 n) expected) H (length (call0 n) + k) H j"
    by (rule steps_expect [where f = "FList [FAtom n]", OF _ _ _ _ called])
      (use assms(2,5,6) plain_symbol_atom [OF assms(1)] in \<open>simp_all add: call0_def ARENA_CELLS_def\<close>)
  then show ?thesis by (simp add: call0_def assms(7))
qed

lemma steps_string:
  assumes "escape_string v = v" and "text_ok v" and "c = length v + 2 + k"
  shows "steps pl p q C0 (expect pl q p (quoted v) (quoted v)) H c H k"
    and "steps pl p q C0 (eval_and_free pl q p (quoted v)) H c H k"
proof -
  have "steps pl p q C0 (expect pl q p (quoted v) (quoted v)) H (length (quoted v) + k) H k"
    by (rule steps_expect [where f = "FStr v" and r = "Inr (LBox (Str v))"])
      (use assms in \<open>simp_all add: quoted_def ARENA_CELLS_def\<close>)
  then show "steps pl p q C0 (expect pl q p (quoted v) (quoted v)) H c H k"
    by (simp add: quoted_def assms(3))
  have "steps pl p q C0 (eval_and_free pl q p (quoted v)) H (length (quoted v) + k) H k"
    by (rule steps_eval_and_free [where f = "FStr v" and r = "Inr (LBox (Str v))"])
      (use assms in \<open>simp_all add: quoted_def ARENA_CELLS_def\<close>)
  then show "steps pl p q C0 (eval_and_free pl q p (quoted v)) H c H k"
    by (simp add: quoted_def assms(3))
qed

lemma escape_words: "escape_string pistolet = pistolet" "escape_string tymchasove = tymchasove"
  by (simp_all add: escape_string_def test_name_defs)

lemma string_literal_test:
  assumes "can_open pl p q 10 C"
  shows "\<exists>D. string_literal_round_trips pl p q C = (Inr (), D) \<and> left_clean pl C D"
  unfolding string_literal_round_trips_def
proof (rule session_steps [OF assms])
  show "steps pl p q C (expect pl q p (quoted pistolet) (quoted pistolet)) empty_host 10 empty_host 0"
    by (rule steps_string(1) [OF escape_words(1) test_texts(6)]) (simp add: pistolet_def)
qed

lemma unknown_symbol_test:
  assumes "test_spellings (pl_spellings pl)" and "can_open pl p q 13 C"
  shows "\<exists>D. unknown_symbol_is_not_mangled pl p q C = (Inr (), D) \<and> left_clean pl C D"
  unfolding unknown_symbol_is_not_mangled_def
proof (rule session_steps [OF assms(2)])
  have "spelled (pl_spellings pl) zberezhy_hru = Op_Call zberezhy_hru"
    using assms(1) by (simp add: test_spellings_def)
  then show "steps pl p q C (expect pl q p (call0 zberezhy_hru)
      (lit ''error: unknown symbol '' @ [0xB7] @ lit '' nevidomyi symvol '' @ [0xB7]
          @ lit '' unbekanntes Symbol: '' @ zberezhy_hru)) empty_host 13 empty_host 0"
    by (rule steps_call0 [OF test_names(3) test_texts(3), where r = "Inl (UnknownSymbol zberezhy_hru)" and k = 0])
      (simp_all add: call_host_def unknown_symbol_message_def, simp add: zberezhy_hru_def)
qed

lemma error_code_test:
  assumes "test_spellings (pl_spellings pl)" and "can_open pl p q 11 C"
  shows "\<exists>D. host_primitive_error_code_surfaces pl p q C = (Inr (), D) \<and> left_clean pl C D"
  unfolding host_primitive_error_code_surfaces_def
proof (rule session_steps [OF assms(2)])
  let ?H = "host_register empty_host dai_zbroiu (\<lambda>vs a. (Inl (failed 1), a))"
  have "callback_ok p stub_give_weapon" by (simp add: callback_ok_def stub_give_weapon_def)
  moreover have "realizes pl p (\<lambda>vs a. (Inl (failed 1), a)) stub_give_weapon"
    using realizes_failure [of 1 pl p None] by (simp add: stub_give_weapon_def [abs_def])
  ultimately have "steps pl p q C (register_host pl p dai_zbroiu stub_give_weapon) empty_host 11 ?H 11"
    by (rule steps_register) (rule test_texts)
  moreover have "steps pl p q C (expect pl q p (call0 dai_zbroiu)
      (lit ''error: '' @ dai_zbroiu @ lit '' failed: host primitive reported error code 1'')) ?H 11 ?H 0"
  proof (rule steps_call0 [OF test_names(4) test_texts(4)])
    show "spelled (pl_spellings pl) dai_zbroiu = Op_Call dai_zbroiu"
      using assms(1) by (simp add: test_spellings_def)
    show "call_host ?H dai_zbroiu [] (int 0) = (Inl (HostPrimitiveFailed dai_zbroiu (failed 1)), int 0)"
      by (simp add: call_host_def)
    show "lit ''error: '' @ dai_zbroiu @ lit '' failed: host primitive reported error code 1''
        = answer_text (Inl (HostPrimitiveFailed dai_zbroiu (failed 1)))"
      by (simp add: failed_def dec_int_def dec_nat_def digit_char_def digits_of.simps)
    show "11 = length dai_zbroiu + 2 + 0" by (simp add: dai_zbroiu_def)
  qed simp
  ultimately show "steps pl p q C (and_also (register_host pl p dai_zbroiu stub_give_weapon)
      (expect pl q p (call0 dai_zbroiu)
        (lit ''error: '' @ dai_zbroiu @ lit '' failed: host primitive reported error code 1'')))
      empty_host 11 ?H 0"
    by (rule steps_also)
qed

text \<open>A callback that wraps a fresh value: one handle per call.\<close>

lemma steps_wrapped:
  assumes "wraps pl p c e" and "plain_symbol n" and "text_ok n"
    and "spelled (pl_spellings pl) n = Op_Call n" and "lh_primitives H n = Some (\<lambda>vs a. (Inr (LBox (entry_value e)), a - 1))"
    and "expected = show_boxed (entry_value e)"
  shows "steps pl p q C0 (expect pl q p (call0 n) expected) H (length n + 3 + k) H k"
  by (rule steps_call0 [OF assms(2-4), where r = "Inr (LBox (entry_value e))" and k = "Suc k"])
    (simp_all add: call_host_def assms(5,6))

lemma wrapped_session:
  assumes "wraps pl p c e" and "is_wrap c" and "call_session c = p"
    and "plain_symbol n" and "text_ok n" and "spelled (pl_spellings pl) n = Op_Call n"
    and "expected = show_boxed (entry_value e)" and "cost = length n + 3"
  defines "H \<equiv> host_register empty_host n (\<lambda>vs a. (Inr (LBox (entry_value e)), a - 1))"
  shows "steps pl p q C0 (register_host pl p n (pass_on c)) empty_host k H k"
    and "steps pl p q C0 (repeatedly m (expect pl q p (call0 n) expected)) H (m * cost + k) H k"
    and "steps pl p q C0 (expect pl q p (call0 n) expected) H (cost + k) H k"
proof -
  show "steps pl p q C0 (register_host pl p n (pass_on c)) empty_host k H k"
    unfolding H_def by (rule steps_register [OF pass_on_ok [OF assms(2,3)] realizes_wrap [OF assms(1)] assms(5)])
  have one: "steps pl p q C0 (expect pl q p (call0 n) expected) H (cost + k) H k" for k
    unfolding assms(8) by (rule steps_wrapped [OF assms(1,4-6) _ assms(7)]) (simp add: H_def)
  then show "steps pl p q C0 (expect pl q p (call0 n) expected) H (cost + k) H k" .
  show "steps pl p q C0 (repeatedly m (expect pl q p (call0 n) expected)) H (m * cost + k) H k"
    by (rule steps_repeatedly) (rule one)
qed

lemma reduced:
  "reduce oc 5 336 = Inr (5, 336)" "reduce oc 10 20 = Inr (1, 2)" "reduce oc 3 (- 4) = Inr (- 3, 4)"
proof -
  have "gcd 5 (336 :: int) = 1" "gcd 10 (20 :: int) = 10" "gcd 3 (4 :: int) = 1"
    by (simp_all add: gcd_non_0_int)
  then show "reduce oc 5 336 = Inr (5, 336)" "reduce oc 10 20 = Inr (1, 2)" "reduce oc 3 (- 4) = Inr (- 3, 4)"
    using reduce_in_range [of 336 5 oc] reduce_in_range [of 20 10 oc] reduce_in_range [of "- 4" 3 oc]
    by simp_all
qed

lemma transient_rationals_test:
  assumes "test_spellings (pl_spellings pl)" and "can_open pl p q (n * 12) C" and "out \<noteq> 0"
  shows "\<exists>D. transient_rationals_are_reclaimed pl p q out n C = (Inr (), D) \<and> left_clean pl C D"
  unfolding transient_rationals_are_reclaimed_def
proof (rule session_steps [OF assms(2)])
  let ?e = "\<lparr>entry_value = Rational 5 336, entry_lifetime = Transient\<rparr>"
  have "codec_ok (pl_codec pl)" "p \<noteq> 0" using assms(2) by (simp_all add: can_open_def process_ok_def)
  then have wraps: "wraps pl p (Wrap_Transient_Rational p 5 336 out) ?e"
    by (rule wraps_rational(2) [OF _ _ assms(3) _ reduced(1)]) simp
  have op: "spelled (pl_spellings pl) pozytsiia_x = Op_Call pozytsiia_x"
    using assms(1) by (simp add: test_spellings_def)
  have shown: "lit ''5/336'' = show_boxed (entry_value ?e)" and cost: "12 = length pozytsiia_x + 3"
    by (simp_all add: dec_int_def dec_nat_def digit_char_def digits_of.simps pozytsiia_x_def)
  note run = wrapped_session [OF wraps _ _ test_names(1) test_texts(1) op shown cost]
  show "steps pl p q C
      (and_also (register_host pl p pozytsiia_x (pass_on (Wrap_Transient_Rational p 5 336 out)))
      (and_also (repeatedly n (expect pl q p (call0 pozytsiia_x) (lit ''5/336'')))
        (expect_no_transient p))) empty_host (n * 12)
      (host_register empty_host pozytsiia_x (\<lambda>vs a. (Inr (LBox (entry_value ?e)), a - 1))) 0"
    by (rule steps_also [OF run(1) steps_also [OF run(2) [where k = 0, unfolded add_0_right] steps_no_transient]])
      simp_all
qed

lemma transient_strings_test:
  assumes "test_spellings (pl_spellings pl)" and "can_open pl p q (n * 7) C" and "out \<noteq> 0"
  shows "\<exists>D. transient_host_strings_are_reclaimed pl p q out n C = (Inr (), D) \<and> left_clean pl C D"
  unfolding transient_host_strings_are_reclaimed_def
proof (rule session_steps [OF assms(2)])
  let ?s = "lit ''PlayerPuppet''"
  let ?e = "\<lparr>entry_value = Str ?s, entry_lifetime = Transient\<rparr>"
  have "codec_ok (pl_codec pl)" "p \<noteq> 0" using assms(2) by (simp_all add: can_open_def process_ok_def)
  moreover have "c_to_str (utf8_encode ?s) = Some ?s" by (rule c_to_str_encode) simp
  ultimately have wraps: "wraps pl p (Wrap_Transient_String p (Some (utf8_encode ?s)) out) ?e"
    using assms(3) by (intro wraps_string)
  have op: "spelled (pl_spellings pl) klas = Op_Call klas" using assms(1) by (simp add: test_spellings_def)
  have shown: "quoted ?s = show_boxed (entry_value ?e)" and cost: "7 = length klas + 3"
    by (simp_all add: quoted_def klas_def)
  note run = wrapped_session [OF wraps _ _ test_names(2) test_texts(2) op shown cost]
  show "steps pl p q C
      (and_also (register_host pl p klas (pass_on (Wrap_Transient_String p (Some (utf8_encode ?s)) out)))
      (and_also (repeatedly n (expect pl q p (call0 klas) (quoted ?s)))
        (expect_no_transient p))) empty_host (n * 7)
      (host_register empty_host klas (\<lambda>vs a. (Inr (LBox (entry_value ?e)), a - 1))) 0"
    by (rule steps_also [OF run(1) steps_also [OF run(2) [where k = 0, unfolded add_0_right] steps_no_transient]])
      simp_all
qed

lemma rational_prints_test:
  assumes "test_spellings (pl_spellings pl)" and "can_open pl p q 12 C" and "out \<noteq> 0"
  shows "\<exists>D. rational_prints_as_n_slash_d pl p q out C = (Inr (), D) \<and> left_clean pl C D"
  unfolding rational_prints_as_n_slash_d_def
proof (rule session_steps [OF assms(2)])
  let ?e = "\<lparr>entry_value = Rational 5 336, entry_lifetime = Persistent\<rparr>"
  have "codec_ok (pl_codec pl)" "p \<noteq> 0" using assms(2) by (simp_all add: can_open_def process_ok_def)
  then have wraps: "wraps pl p (Wrap_Rational p 5 336 out) ?e"
    by (rule wraps_rational(1) [OF _ _ assms(3) _ reduced(1)]) simp
  have op: "spelled (pl_spellings pl) pozytsiia_x = Op_Call pozytsiia_x"
    using assms(1) by (simp add: test_spellings_def)
  have shown: "lit ''5/336'' = show_boxed (entry_value ?e)" and cost: "12 = length pozytsiia_x + 3"
    by (simp_all add: dec_int_def dec_nat_def digit_char_def digits_of.simps pozytsiia_x_def)
  note run = wrapped_session [OF wraps _ _ test_names(1) test_texts(1) op shown cost]
  show "steps pl p q C (and_also (register_host pl p pozytsiia_x (pass_on (Wrap_Rational p 5 336 out)))
        (expect pl q p (call0 pozytsiia_x) (lit ''5/336''))) empty_host 12
      (host_register empty_host pozytsiia_x (\<lambda>vs a. (Inr (LBox (entry_value ?e)), a - 1))) 0"
    by (rule steps_also [OF run(1) run(3) [where k = 0, unfolded add_0_right]]) simp_all
qed

text \<open>Repeated calls: the arena is reset by each, the transient values are reclaimed by each.\<close>

lemma repeated_calls_test:
  assumes "trigger_spellings (pl_spellings pl)" and "can_open pl p q (n * 9) C"
  shows "\<exists>D. repeated_eval_string_calls_survive pl p q n C = (Inr (), D) \<and> left_clean pl C D"
  unfolding repeated_eval_string_calls_survive_def
proof (rule session_steps [OF assms(2)])
  let ?f = "FList [FAtom (lit ''quote''), FAtom (lit ''a'')]"
  have a: "plain_symbol (lit ''a'')"
    by (simp add: plain_symbol_def atom_ok_def is_delimiter_def is_whitespace_def parse_i64_def)
  note ops = trigger_operators(1) [OF assms(1), simplified] plain_names(1) [THEN plain_symbol_value, simplified]
    a [THEN plain_symbol_value, simplified] plain_names(1) [THEN plain_symbol_atom, simplified]
    a [THEN plain_symbol_atom, simplified]
  have one: "steps pl p q C (expect pl q p (lit ''(quote a)'') (lit ''a'')) empty_host
      (length (lit ''(quote a)'') + k) empty_host k" for k
    by (rule steps_expect [where f = ?f and r = "Inr (LSym (lit ''a''))"])
      (simp_all add: ops form_operator_def only_argument_def ARENA_CELLS_def)
  have "steps pl p q C (repeatedly n (expect pl q p (lit ''(quote a)'') (lit ''a''))) empty_host
      (n * length (lit ''(quote a)'') + 0) empty_host 0"
    by (rule steps_repeatedly) (rule one)
  moreover have "length (lit ''(quote a)'') = 9" by simp
  ultimately show "steps pl p q C (repeatedly n (expect pl q p (lit ''(quote a)'') (lit ''a'')))
      empty_host (n * 9) empty_host 0"
    by (simp only: add_0_right)
qed

lemma repeated_string_test:
  assumes "can_open pl p q (n * 11) C"
  shows "\<exists>D. repeated_string_eval_reclaims pl p q n C = (Inr (), D) \<and> left_clean pl C D"
  unfolding repeated_string_eval_reclaims_def
proof (rule session_steps [OF assms])
  have "steps pl p q C (eval_and_free pl q p (quoted tymchasove)) empty_host (11 + k) empty_host k" for k
    by (rule steps_string(2) [OF escape_words(2) test_texts(5)]) (simp add: tymchasove_def)
  then have "steps pl p q C (repeatedly n (eval_and_free pl q p (quoted tymchasove))) empty_host
      (n * 11 + 0) empty_host 0"
    by (rule steps_repeatedly)
  then show "steps pl p q C (and_also (repeatedly n (eval_and_free pl q p (quoted tymchasove)))
      (expect_no_transient p)) empty_host (n * 11) empty_host 0"
    unfolding add_0_right by (rule steps_also) (rule steps_no_transient)
qed

lemma word_exports_test: host_word_exports_preserve_identity
  by (simp add: host_word_exports_preserve_identity_def wsm_host_abi_version_def wsm_host_feature_bits_def
      wsm_word_nil_def wsm_word_true_def HOST_FEATURE_CANONICAL_WORDS_def HOST_FEATURE_GAME_HANDLE_def
      HOST_FEATURE_TRANSIENT_STRINGS_def)

text \<open>Malformed forms and checked accessors.\<close>

lemma steps_answered:
  assumes "answered (pl_spellings pl) source m"
  shows "steps pl p q C0 (expect pl q p source m) empty_host (length source + k) empty_host k"
proof -
  obtain f r where f: "source = render f" "form_ok f" "text_ok source" "cells_of f \<le> ARENA_CELLS"
      "\<And>a. feval (pl_spellings pl) empty_host f a = (r, a)" "answer_text r = m"
    using assms unfolding answered_def by blast
  show ?thesis by (rule steps_expect [OF f(1-5) order_refl f(6) [symmetric]])
qed

lemma steps_expect_all:
  assumes "\<forall>(source, m) \<in> set xs. answered (pl_spellings pl) source m"
  shows "steps pl p q C0 (expect_all pl q p xs) empty_host (sum_list (map (\<lambda>x. length (fst x)) xs) + k) empty_host k"
  using assms
proof (induction xs)
  case Nil
  then show ?case by (simp add: steps_def)
next
  case (Cons x xs)
  obtain source m where x: "x = (source, m)" by (cases x)
  let ?n = "sum_list (map (\<lambda>x. length (fst x)) xs) + k"
  have "steps pl p q C0 (and_also (expect pl q p source m) (expect_all pl q p xs)) empty_host
      (length source + ?n) empty_host k"
    by (rule steps_also [OF steps_answered [of pl source m p q C0 ?n]]) (use Cons x in auto)
  then show ?case by (simp add: steps_def and_also_def x ac_simps)
qed

lemma checked_sources_answered:
  assumes "trigger_spellings s"
  shows "\<forall>(source, m) \<in> set checked_sources. answered s source m"
proof -
  have seven: "atom_value (lit ''7'') = LInt 7" "atom_value (lit ''8'') = LInt 8"
    by (simp_all add: atom_value_def parse_i64_def signed_take_bit_int_eq_self)
  have digits: "atom_ok (lit ''7'')" "atom_ok (lit ''8'')" "dec_int 7 = lit ''7''" "dec_int 8 = lit ''8''"
    by (simp_all add: atom_ok_def is_delimiter_def is_whitespace_def dec_int_def dec_nat_def digit_char_def
        digits_of.simps)
  let ?list = "FList [FAtom (lit ''quote''), FList [FAtom (lit ''7''), FAtom (lit ''8'')]]"
  note facts = trigger_operators [OF assms, simplified] name_values [simplified] name_atoms [simplified]
    seven [simplified] digits [simplified] texts form_operator_def only_argument_def part_of_def
  have "answered s (lit ''('' @ pershe @ lit '' (quote (7 8)))'') (lit ''7'')"
    by (rule answeredI [where f = "FList [FAtom pershe, ?list]" and r = "Inr (LInt 7)"])
      (simp_all add: facts ARENA_CELLS_def)
  moreover have "answered s (lit ''('' @ reshta @ lit '' (quote (7 8)))'') (lit ''(8)'')"
    by (rule answeredI [where f = "FList [FAtom reshta, ?list]" and r = "Inr (LCons (LInt 8) LNil)"])
      (simp_all add: facts ARENA_CELLS_def)
  ultimately show ?thesis
    using sources_answered(1-5) [OF assms] by (simp add: checked_sources_def del: lit_simps)
qed

lemma malformed_forms_test:
  assumes "trigger_spellings (pl_spellings pl)" and "can_open pl p q 200 C"
  shows "\<exists>D. malformed_forms_return_errors pl p q C = (Inr (), D) \<and> left_clean pl C D"
  unfolding malformed_forms_return_errors_def
proof (rule session_steps [OF assms(2)])
  let ?n = "sum_list (map (\<lambda>x. length (fst x)) checked_sources) + (length live_source + 0)"
  have "?n \<le> 200" by (simp add: checked_sources_def live_source_def pershe_def reshta_def zhyva_sesiia_def)
  then show "steps pl p q C (and_also (expect_all pl q p checked_sources)
      (expect pl q p live_source zhyva_sesiia)) empty_host 200 empty_host 0"
    by (rule steps_less [OF steps_also [OF
          steps_expect_all [OF checked_sources_answered [OF assms(1)]]
          steps_answered [OF sources_answered(7) [OF assms(1)]]]])
qed

section \<open>Wrapping outside an evaluation\<close>

text \<open>A boundary call whose reply is checked; the word that a reply leaves in an out variable.\<close>

definition ask ::
  "platform \<Rightarrow> boundary_call \<Rightarrow> (reply \<Rightarrow> bool) \<Rightarrow> 'h c_side \<Rightarrow> (fatal + reply) \<times> 'h c_side" where
  "ask pl call expected C =
     step_then (on_process (\<lambda>P. call_boundary pl P call) C) (\<lambda>r C.
     step_then (panic_unless (expected r), C) (\<lambda>_ C. (Inr r, C)))"

definition written :: "reply \<Rightarrow> u64" where
  "written r = (case snd r of [w] \<Rightarrow> w | _ \<Rightarrow> 0)"

definition game_handle_wraps_and_unwraps ::
  "platform \<Rightarrow> u64 \<Rightarrow> u64 \<Rightarrow> 'h c_side \<Rightarrow> (fatal + unit) \<times> 'h c_side" where
  "game_handle_wraps_and_unwraps pl p out =
     in_session p (\<lambda>session C.
       step_then (ask pl (Wrap_Game_Handle session 0x5555 out) (\<lambda>r. fst r = 0) C) (\<lambda>word C.
       step_then (ask pl (Unwrap_Game_Handle session (written word) out)
                    (\<lambda>r. fst r = 0 \<and> written r = 0x5555) C) (\<lambda>_ C.
       step_then (ask pl (Unwrap_Game_Handle session (encode_fixnum 42) out) (\<lambda>r. fst r = 1) C) (\<lambda>_ C.
         (Inr (), C)))))"

definition wrap_and_unwrap_rational ::
  "platform \<Rightarrow> u64 \<Rightarrow> u64 \<Rightarrow> (i64 \<times> i64) \<Rightarrow> (i64 \<times> i64) \<Rightarrow> 'h c_side \<Rightarrow> (fatal + unit) \<times> 'h c_side" where
  "wrap_and_unwrap_rational pl session out given expected C =
     step_then (ask pl (Wrap_Rational session (fst given) (snd given) out) (\<lambda>r. fst r = 0) C) (\<lambda>word C.
     step_then (ask pl (Unwrap_Rational session (written word) out out)
                  (\<lambda>r. fst r = 0 \<and> snd r = [fst expected, snd expected]) C) (\<lambda>_ C.
       (Inr (), C)))"

definition rational_wraps_unwraps_and_reduces ::
  "platform \<Rightarrow> u64 \<Rightarrow> u64 \<Rightarrow> 'h c_side \<Rightarrow> (fatal + unit) \<times> 'h c_side" where
  "rational_wraps_unwraps_and_reduces pl p out =
     in_session p (\<lambda>session.
       and_also (wrap_and_unwrap_rational pl session out (5, 336) (5, 336))
       (and_also (wrap_and_unwrap_rational pl session out (10, 20) (1, 2))
       (and_also (wrap_and_unwrap_rational pl session out (3, - 4) (- 3, 4)) (\<lambda>C.
          step_then (ask pl (Wrap_Rational session 1 0 out) (\<lambda>r. fst r = - 1) C) (\<lambda>_ C.
          step_then (ask pl (Unwrap_Rational session (encode_fixnum 42) out out) (\<lambda>r. fst r = 1) C) (\<lambda>_ C.
            (Inr (), C)))))))"

text \<open>A wrapping call takes one handle and leaves the session ready.\<close>

lemma ready_wrap:
  assumes "ready pl H p q C0 (Suc k) C" and "wraps pl p c e" and "call_session c = p"
    and "entry_lifetime e = Persistent"
  obtains w D S where "on_process (\<lambda>P. call_boundary pl P c) C = (Inr (0, [w]), D)"
    "ready pl H p q C0 k D" "p_sessions (c_process D) p = Some S"
    "boxed_get_entry (pl_codec pl) (s_boxed S) w = Some e"
proof -
  let ?P = "c_process C"
  obtain S where S: "p_sessions ?P p = Some S" "served_by pl p H S" "session_room pl S (Suc k)"
      "transient_len (s_boxed S) = 0" and ok: "process_ok pl ?P"
    using assms(1) by (auto simp: ready_def)
  have T: "tables_of ?P p = Some (s_boxed S)" by (simp add: tables_of_def S(1))
  obtain w where w: "boundary pl c (tables_of ?P) = (Inr (0, [w]), (tables_of ?P)(p \<mapsto> s_boxed S @ [Some e]))"
      "boxed_get_entry (pl_codec pl) (s_boxed S @ [Some e]) w = Some e"
    using assms(2) T S(3) unfolding wraps_def session_room_def by (auto dest!: spec [of _ "tables_of ?P"])
  let ?S = "S\<lparr>s_boxed := s_boxed S @ [Some e]\<rparr>"
  have call: "call_boundary pl ?P c = (Inr (0, [w]), put_session ?P p ?S)"
    using w(1) with_tables_one [OF S(1) refl refl refl] by (simp add: call_boundary_def)
  have "process_ok pl (put_session ?P p ?S)"
    using call_boundary_ok [OF ok, of c] assms(3) S(1) call by simp
  moreover have "served_by pl p H ?S"
    using S(2) hosts_later [of pl p S "room_sim pl p" H ?S] by simp
  moreover have "transient_len (s_boxed ?S) = 0"
    using S(4) assms(4) by (simp add: transient_len_def is_transient_def)
  moreover have "session_room pl ?S k"
    using S(3) by (simp add: session_room_def boxed_room_def) linarith
  ultimately have "ready pl H p q C0 k (C\<lparr>c_process := put_session ?P p ?S\<rparr>)"
    using assms(1) by (auto simp: ready_def)
  then show thesis
    using that [of w _ ?S] call w(2) by (simp add: on_process_def)
qed

lemma unwrap_reply:
  assumes "p_sessions (c_process C) p = Some S" and "p \<noteq> 0" and "out \<noteq> 0"
  shows "on_process (\<lambda>P. call_boundary pl P (Unwrap_Game_Handle p w out)) C =
      (Inr (case get_game_handle (pl_codec pl) (s_boxed S) w of Some h \<Rightarrow> (0, [h]) | None \<Rightarrow> (1, [])), C)"
    and "on_process (\<lambda>P. call_boundary pl P (Unwrap_Rational p w out out)) C =
      (Inr (case get_rational (pl_codec pl) (s_boxed S) w of Some (n, d) \<Rightarrow> (0, [n, d]) | None \<Rightarrow> (1, [])), C)"
proof -
  have "tables_of (c_process C) p = Some (s_boxed S)" by (simp add: tables_of_def assms(1))
  then show "on_process (\<lambda>P. call_boundary pl P (Unwrap_Game_Handle p w out)) C =
      (Inr (case get_game_handle (pl_codec pl) (s_boxed S) w of Some h \<Rightarrow> (0, [h]) | None \<Rightarrow> (1, [])), C)"
    and "on_process (\<lambda>P. call_boundary pl P (Unwrap_Rational p w out out)) C =
      (Inr (case get_rational (pl_codec pl) (s_boxed S) w of Some (n, d) \<Rightarrow> (0, [n, d]) | None \<Rightarrow> (1, [])), C)"
    using assms(2,3)
    by (auto simp: on_process_def call_boundary_def with_tables_same wsm_unwrap_game_handle_def
        wsm_unwrap_rational_def split: option.split)
qed

lemma fixnum_not_boxed: "codec_ok c \<Longrightarrow> boxed_get_entry c b (encode_fixnum v) = None"
  using decode_tag [of c "encode_fixnum v"]
  by (cases "decode_boxed c (encode_fixnum v)") (auto simp: boxed_get_entry_def)

lemma ready_facts:
  assumes "ready pl H p q C0 k C"
  shows "p \<noteq> 0" and "codec_ok (pl_codec pl)" and "\<exists>S. p_sessions (c_process C) p = Some S"
  using assms by (auto simp: ready_def process_ok_def)

lemma steps_rational:
  assumes "reduce (pl_overflow_checks pl) n d = Inr (n', d')" and "d \<noteq> 0" and "out \<noteq> 0"
  shows "steps pl p q C0 (wrap_and_unwrap_rational pl p out (n, d) (n', d')) H (Suc k) H k"
  unfolding steps_def
proof (intro allI impI)
  fix C
  assume ready: "ready pl H p q C0 (Suc k) C"
  note facts = ready_facts [OF ready]
  obtain w D S where D: "on_process (\<lambda>P. call_boundary pl P (Wrap_Rational p n d out)) C = (Inr (0, [w]), D)"
    "ready pl H p q C0 k D" "p_sessions (c_process D) p = Some S"
    "boxed_get_entry (pl_codec pl) (s_boxed S) w = Some \<lparr>entry_value = Rational n' d', entry_lifetime = Persistent\<rparr>"
    by (rule ready_wrap [OF ready wraps_rational(1) [OF facts(2,1) assms(3,2,1)]]) simp_all
  then show "\<exists>D. wrap_and_unwrap_rational pl p out (n, d) (n', d') C = (Inr (), D) \<and> ready pl H p q C0 k D"
    using unwrap_reply(2) [OF D(3) facts(1) assms(3), of pl w]
    by (simp add: wrap_and_unwrap_rational_def ask_def written_def panic_unless_def get_rational_def)
qed

lemma game_handle_test:
  assumes "can_open pl p q 1 C" and "out \<noteq> 0"
  shows "\<exists>D. game_handle_wraps_and_unwraps pl p out C = (Inr (), D) \<and> left_clean pl C D"
  unfolding game_handle_wraps_and_unwraps_def
proof (rule in_session_runs [OF assms(1)])
  fix C1
  assume "ready pl empty_host p q C 1 C1"
  then have ready: "ready pl empty_host p q C (Suc 0) C1" by simp
  note facts = ready_facts [OF ready]
  obtain w D S where D: "on_process (\<lambda>P. call_boundary pl P (Wrap_Game_Handle p 0x5555 out)) C1 = (Inr (0, [w]), D)"
    "ready pl empty_host p q C 0 D" "p_sessions (c_process D) p = Some S"
    "boxed_get_entry (pl_codec pl) (s_boxed S) w = Some \<lparr>entry_value = GameHandle 0x5555, entry_lifetime = Persistent\<rparr>"
    by (rule ready_wrap [OF ready wraps_game_handle [OF facts(2,1) assms(2)]]) simp_all
  note reply = unwrap_reply(1) [OF D(3) facts(1) assms(2), of pl]
  show "\<exists>D H. step_then (ask pl (Wrap_Game_Handle p 0x5555 out) (\<lambda>r. fst r = 0) C1) (\<lambda>word C.
       step_then (ask pl (Unwrap_Game_Handle p (written word) out) (\<lambda>r. fst r = 0 \<and> written r = 0x5555) C)
       (\<lambda>_ C. step_then (ask pl (Unwrap_Game_Handle p (encode_fixnum 42) out) (\<lambda>r. fst r = 1) C)
       (\<lambda>_ C. (Inr (), C)))) = (Inr (), D) \<and> ready pl H p q C 0 D"
    using D(1,2,4) reply [of w] reply [of "encode_fixnum 42"] fixnum_not_boxed [OF facts(2), of "s_boxed S" 42]
    by (auto simp: ask_def written_def panic_unless_def get_game_handle_def)
qed

lemma rational_test:
  assumes "can_open pl p q 3 C" and "out \<noteq> 0"
  shows "\<exists>D. rational_wraps_unwraps_and_reduces pl p out C = (Inr (), D) \<and> left_clean pl C D"
  unfolding rational_wraps_unwraps_and_reduces_def
proof (rule session_steps [OF assms(1)])
  let ?last = "\<lambda>C. step_then (ask pl (Wrap_Rational p 1 0 out) (\<lambda>r. fst r = - 1) C) (\<lambda>_ C.
          step_then (ask pl (Unwrap_Rational p (encode_fixnum 42) out out) (\<lambda>r. fst r = 1) C) (\<lambda>_ C.
            (Inr (), C)))"
  have "steps pl p q C ?last empty_host 0 empty_host 0"
    unfolding steps_def
  proof (intro allI impI)
    fix C1
    assume ready: "ready pl empty_host p q C 0 C1"
    note facts = ready_facts [OF ready]
    obtain S where S: "p_sessions (c_process C1) p = Some S" using facts(3) by blast
    have "on_process (\<lambda>P. call_boundary pl P (Wrap_Rational p 1 0 out)) C1 = (Inr (- 1, []), C1)"
      by (simp add: on_process_def call_boundary_def wsm_wrap_rational_def with_tables_same)
    then show "\<exists>D. ?last C1 = (Inr (), D) \<and> ready pl empty_host p q C 0 D"
      using ready unwrap_reply(2) [OF S facts(1) assms(2), of pl "encode_fixnum 42"]
        fixnum_not_boxed [OF facts(2), of "s_boxed S" 42]
      by (simp add: ask_def panic_unless_def get_rational_def)
  qed
  moreover have "(336 :: i64) \<noteq> 0" "(20 :: i64) \<noteq> 0" "(- 4 :: i64) \<noteq> 0" by simp_all
  ultimately show "steps pl p q C
     (and_also (wrap_and_unwrap_rational pl p out (5, 336) (5, 336))
       (and_also (wrap_and_unwrap_rational pl p out (10, 20) (1, 2))
       (and_also (wrap_and_unwrap_rational pl p out (3, - 4) (- 3, 4)) ?last))) empty_host 3 empty_host 0"
    unfolding numeral_3_eq_3
    by (intro steps_also [OF steps_rational [OF reduced(1) _ assms(2)]]
        steps_also [OF steps_rational [OF reduced(2) _ assms(2)]]
        steps_also [OF steps_rational [OF reduced(3) _ assms(2)]])
qed

section \<open>A handle through two callbacks\<close>

text \<open>
  What the test of the callback pair (\<open>Asserting\<close>) is about, for any two callbacks: a handle that one callback
  hands out reaches another one in the same form, which finds the pointer in it.
\<close>

definition handle_pair ::
  "platform \<Rightarrow> u64 \<Rightarrow> u64 \<Rightarrow> u64 \<Rightarrow> rstring \<Rightarrow> rstring \<Rightarrow> u64 \<Rightarrow> u64 \<Rightarrow> 'h c_side \<Rightarrow> (fatal + unit) \<times> 'h c_side" where
  "handle_pair pl p q out get_name check_name h k =
     in_session p (\<lambda>session.
       and_also (register_host pl session get_name (pass_on (Wrap_Game_Handle session h out)))
       (and_also (register_host pl session check_name (check_handle session k out))
          (expect pl q session (lit ''('' @ check_name @ lit '' ('' @ get_name @ lit ''))'')
             (if h = k then lit ''t'' else lit ''()''))))"

lemma handle_pair_runs:
  assumes "can_open pl p q (length check_name + length get_name + 6) C" and "out \<noteq> 0"
    and "get_name \<noteq> check_name" and "plain_symbol get_name" and "plain_symbol check_name"
    and "text_ok get_name" and "text_ok check_name"
    and "spelled (pl_spellings pl) get_name = Op_Call get_name"
    and "spelled (pl_spellings pl) check_name = Op_Call check_name"
  shows "\<exists>D. handle_pair pl p q out get_name check_name h k C = (Inr (), D) \<and> left_clean pl C D"
  unfolding handle_pair_def
proof (rule session_steps [OF assms(1)])
  let ?n = "length check_name + length get_name + 6"
  let ?F = "\<lambda>vs a. (Inr (LBox (GameHandle h)), a - 1)"
  let ?H1 = "host_register empty_host get_name ?F"
  let ?H2 = "host_register ?H1 check_name (checks k)"
  let ?f = "FList [FAtom check_name, FList [FAtom get_name]]"
  let ?s = "lit ''('' @ check_name @ lit '' ('' @ get_name @ lit ''))''"
  let ?v = "if h = k then LSym (lit ''t'') else LNil"
  have codec: "codec_ok (pl_codec pl)" and p: "p \<noteq> 0"
    using assms(1) by (simp_all add: can_open_def process_ok_def)
  have 1: "steps pl p q C (register_host pl p get_name (pass_on (Wrap_Game_Handle p h out))) empty_host ?n ?H1 ?n"
    using steps_register [OF pass_on_ok realizes_wrap [OF wraps_game_handle [OF codec p assms(2), of h]] assms(6)]
    by simp
  have 2: "steps pl p q C (register_host pl p check_name (check_handle p k out)) ?H1 ?n ?H2 ?n"
    by (rule steps_register [OF check_handle_ok realizes_check [OF p assms(2) codec] assms(7)])
  have "form_operator (pl_spellings pl) (FAtom check_name) = Some (Op_Call check_name)"
    "form_operator (pl_spellings pl) (FAtom get_name) = Some (Op_Call get_name)"
    using plain_symbol_value [OF assms(4)] plain_symbol_value [OF assms(5)] assms(8,9)
    by (simp_all add: form_operator_def)
  then have "feval (pl_spellings pl) ?H2 ?f (int (Suc 0)) = (Inr ?v, int 0)"
    using assms(3) by (simp add: call_host_def checks_def)
  then have "steps pl p q C (expect pl q p ?s (if h = k then lit ''t'' else lit ''()'')) ?H2
      (length ?s + Suc 0) ?H2 0"
    by (intro steps_expect [where f = ?f and r = "Inr ?v"])
      (use plain_symbol_atom [OF assms(4)] plain_symbol_atom [OF assms(5)] assms(6,7) in
        \<open>simp_all add: ARENA_CELLS_def\<close>)
  moreover have "length ?s + Suc 0 = ?n" by simp
  ultimately have 3: "steps pl p q C (expect pl q p ?s (if h = k then lit ''t'' else lit ''()'')) ?H2 ?n ?H2 0"
    by (simp only:)
  show "steps pl p q C (and_also (register_host pl p get_name (pass_on (Wrap_Game_Handle p h out)))
       (and_also (register_host pl p check_name (check_handle p k out))
          (expect pl q p ?s (if h = k then lit ''t'' else lit ''()'')))) empty_host ?n ?H2 0"
    by (rule steps_also [OF 1 steps_also [OF 2 3]])
qed

end
