(* ===== verification/Bench.thy ===== *)
theory Bench
  imports Callbacks
begin

text \<open>
  The workloads of \<open>host-runtime/src/bin/bench.rs\<close>: what its four sections compute, without the
  clock and the printed figures; the run of all sections as subprocesses is in \<open>Subprocesses\<close>. Section A goes through the C boundary, which resets the arena on
  every call; section B drives reader, evaluator and printer without the reset, so that its
  iterations share the 256 cells; section C parses once; the last section only uses the boxed
  table. The iteration counts of the source are constants; the loops take any count.
\<close>

definition CONS_BOUND_ITERATIONS :: nat where "CONS_BOUND_ITERATIONS = 200"
definition BOXED_LOOKUPS :: nat where "BOXED_LOOKUPS = 100000"

text \<open>\<open>Result::unwrap\<close>: an error value becomes a panic.\<close>

definition unwrap :: "'e stop + 'a \<Rightarrow> fatal + 'a" where
  "unwrap r =
     (case r of Inr a \<Rightarrow> Inr a | Inl (Raise e) \<Rightarrow> Inl Rust_Panic | Inl (Abort f) \<Rightarrow> Inl f)"

lemma unwrap_simps [simp]:
  "unwrap (Inr a) = Inr a" "unwrap (Inl (Raise e)) = Inl Rust_Panic" "unwrap (Inl (Abort f)) = Inl f"
  by (simp_all add: unwrap_def)

section \<open>The sections\<close>

text \<open>The host callback writes nil and returns 0.\<close>

definition noop_primitive :: "'h callback" where
  "noop_primitive args h = Done 0 (Some WORD_NIL) h"

definition noop_source :: rstring where
  "noop_source = lit ''(noop)''"

definition touch_c_string :: "'h c_side \<Rightarrow> u64 \<Rightarrow> fatal + unit" where
  "touch_c_string C s = (case c_strings C s of None \<Rightarrow> Inl (Dangling_String s) | Some bytes \<Rightarrow> Inr ())"

fun section_a_loop ::
  "platform \<Rightarrow> u64 \<Rightarrow> u64 \<Rightarrow> u8 list \<Rightarrow> nat \<Rightarrow> 'h c_side \<Rightarrow> (fatal + unit) \<times> 'h c_side" where
  "section_a_loop pl q session source 0 C = (Inr (), C)"
| "section_a_loop pl q session source (Suc n) C =
     step_then (wsm_eval_string_raw pl q C session (Some source)) (\<lambda>result_ptr C.
     step_then (touch_c_string C result_ptr, C) (\<lambda>_ C.
     step_then (wsm_free_string C result_ptr) (\<lambda>_ C.
       section_a_loop pl q session source n C)))"

definition section_a ::
  "platform \<Rightarrow> u64 \<Rightarrow> u64 \<Rightarrow> nat \<Rightarrow> 'h c_side \<Rightarrow> (fatal + unit) \<times> 'h c_side" where
  "section_a pl p q iterations C =
     in_session p (\<lambda>session C.
       step_then (on_process (\<lambda>P. wsm_register_primitive pl P session
                    (Some (utf8_encode (lit ''noop''))) noop_primitive) C) (\<lambda>rc C.
         section_a_loop pl q session (utf8_encode noop_source) iterations C)) C"

text \<open>Sections B and C register a Rust closure instead; their world is empty.\<close>

definition noop_env :: "unit env" where
  "noop_env = register_primitive env_new (lit ''noop'') (\<lambda>args w. (Inr WORD_NIL, w))"

definition bench_context :: "platform \<Rightarrow> read_state \<Rightarrow> unit eval_context" where
  "bench_context pl s = \<lparr>ctx_spellings = pl_spellings pl, ctx_arena = rs_arena s, ctx_env = noop_env,
     ctx_symbols = rs_symbols s\<rparr>"

fun section_b_loop :: "platform \<Rightarrow> nat \<Rightarrow> read_state \<Rightarrow> (fatal + unit) \<times> read_state" where
  "section_b_loop pl 0 s = (Inr (), s)"
| "section_b_loop pl (Suc n) s =
     (case read_one (pl_codec pl) (pl_unprintable pl) noop_source s of
        (r, s1) \<Rightarrow>
          step_then (unwrap r, s1) (\<lambda>word s1.
          step_then (unwrap (fst (eval (bench_context pl s1) eval_fuel word ())), s1) (\<lambda>result s1.
          step_then (value_to_string (pl_codec pl) (rs_symbols s1) (rs_boxed s1) (rs_arena s1) result, s1)
            (\<lambda>text s1. section_b_loop pl n s1))))"

definition bench_start :: "u64 \<Rightarrow> read_state" where
  "bench_start base = \<lparr>rs_symbols = symbols_new, rs_boxed = boxed_new, rs_arena = arena_load base\<rparr>"

definition section_b :: "platform \<Rightarrow> u64 \<Rightarrow> fatal + unit" where
  "section_b pl base = fst (section_b_loop pl CONS_BOUND_ITERATIONS (bench_start base))"

fun section_c_loop :: "unit eval_context \<Rightarrow> u64 \<Rightarrow> nat \<Rightarrow> fatal + unit" where
  "section_c_loop X word 0 = Inr ()"
| "section_c_loop X word (Suc n) =
     and_then (unwrap (fst (eval X eval_fuel word ()))) (\<lambda>_. section_c_loop X word n)"

definition section_c :: "platform \<Rightarrow> u64 \<Rightarrow> nat \<Rightarrow> fatal + unit" where
  "section_c pl base iterations =
     (case read_one (pl_codec pl) (pl_unprintable pl) noop_source (bench_start base) of
        (r, s) \<Rightarrow> and_then (unwrap r) (\<lambda>word. section_c_loop (bench_context pl s) word iterations))"

text \<open>\<open>BoxedTable\<close> as it grows: the words of \<open>value-0\<close>, \<open>value-1\<close>, ... and what the lookups give.\<close>

fun add_values :: "codec \<Rightarrow> nat \<Rightarrow> nat \<Rightarrow> boxed_table \<Rightarrow> (fatal + u64 list) \<times> boxed_table" where
  "add_values c i 0 b = (Inr [], b)"
| "add_values c i (Suc n) b =
     step_then (add_string c b (lit ''value-'' @ dec_nat i)) (\<lambda>word b.
     step_then (add_values c (Suc i) n b) (\<lambda>ws b. (Inr (word # ws), b)))"

definition section_boxed :: "codec \<Rightarrow> nat \<Rightarrow> nat \<Rightarrow> (fatal + rstring option list) \<times> boxed_table" where
  "section_boxed c table_size lookups =
     step_then (add_values c 0 table_size boxed_new) (\<lambda>ws b.
       if table_size = 0 \<and> 0 < lookups then (Inl Rust_Panic, b)
       else (Inr (map (\<lambda>i. get_string c b (ws ! (i mod table_size))) [0..<lookups]), b))"

definition TABLE_SIZES :: "nat list" where
  "TABLE_SIZES = [100, 10000, 1000000]"

fun boxed_sections :: "codec \<Rightarrow> nat list \<Rightarrow> fatal + unit" where
  "boxed_sections c [] = Inr ()"
| "boxed_sections c (table_size # sizes) =
     and_then (fst (section_boxed c table_size BOXED_LOOKUPS)) (\<lambda>_. boxed_sections c sizes)"

text \<open>
  \<open>main\<close> with an explicit section, as the process that \<open>all\<close> spawns for it: a process of its own,
  in the state \<open>C\<close> at its start.
\<close>

definition bench_main :: "platform \<Rightarrow> u64 \<Rightarrow> u64 \<Rightarrow> rstring \<Rightarrow> 'h c_side \<Rightarrow> fatal + unit" where
  "bench_main pl p q arg C =
     (if arg = lit ''a'' then fst (section_a pl p q CONS_BOUND_ITERATIONS C)
      else if arg = lit ''b'' then section_b pl (arena_base (p_arena (c_process C)))
      else if arg = lit ''c'' then section_c pl (arena_base (p_arena (c_process C))) CONS_BOUND_ITERATIONS
      else if arg = lit ''boxed'' then boxed_sections (pl_codec pl) TABLE_SIZES
      else Inl Rust_Panic)"

section \<open>Section A: one call at a time\<close>

abbreviation noop_form :: form where
  "noop_form \<equiv> FList [FAtom (lit ''noop'')]"

lemma noop_atom: "plain_symbol (lit ''noop'')" "atom_ok (lit ''noop'')"
  by (simp_all add: plain_symbol_def atom_ok_def is_delimiter_def is_whitespace_def parse_i64_def)

lemma noop_tokens: "tokenize noop_source = Inr (toks noop_form)" "text_ok noop_source"
  "length noop_source = 6"
proof -
  have src: "noop_source = render noop_form" by (simp add: noop_source_def)
  have "form_ok noop_form" using noop_atom by simp
  then show "tokenize noop_source = Inr (toks noop_form)" unfolding src by (rule tokenize_render)
qed (simp_all add: noop_source_def)

definition noop_host :: "int lisp_host" where
  "noop_host = host_register empty_host (lit ''noop'') (\<lambda>vs a. (Inr LNil, a))"

lemma noop_means:
  assumes "spelled s (lit ''noop'') = Op_Call (lit ''noop'')"
  shows "feval s noop_host noop_form a = (Inr LNil, a)"
  using assms plain_symbol_value [OF noop_atom(1)]
  by (simp add: form_operator_def call_host_def noop_host_def del: lit_simps)

lemma section_a_loop_runs:
  assumes "spelled (pl_spellings pl) (lit ''noop'') = Op_Call (lit ''noop'')"
    and "ready pl noop_host p q C0 (n * 6 + k) C"
  shows "\<exists>D. section_a_loop pl q p (utf8_encode noop_source) n C = (Inr (), D)
    \<and> ready pl noop_host p q C0 k D"
  using assms(2)
proof (induction n arbitrary: C)
  case (Suc n)
  have room: "ready pl noop_host p q C0 (length noop_source + (n * 6 + k)) C"
    using Suc.prems by (simp add: noop_tokens(3) ac_simps)
  have cells: "cells_of noop_form \<le> ARENA_CELLS" by (simp add: ARENA_CELLS_def)
  obtain D D' where D:
    "wsm_eval_string_raw pl q C p (Some (utf8_encode noop_source)) = (Inr q, D)"
    "read_c_string D q = Inr (answer_text (Inr LNil))" "wsm_free_string D q = (Inr (), D')"
    "ready pl noop_host p q C0 (n * 6 + k) D'"
    by (rule ready_eval [OF room noop_tokens(2,1) cells noop_means [OF assms(1)] order_refl])
  have "touch_c_string D q = Inr ()"
    using D(2) by (auto simp: touch_c_string_def read_c_string_def split: option.splits)
  then show ?case using D(1,3) Suc.IH [OF D(4)] by simp
qed simp

lemma noop_callback_ok: "callback_ok p noop_primitive"
  by (simp add: callback_ok_def noop_primitive_def tag_nil)

lemma noop_realizes: "realizes pl p (\<lambda>vs a. (Inr LNil, a)) noop_primitive"
  using realizes_nil by (simp add: noop_primitive_def [abs_def])

lemma section_a_runs:
  assumes "spelled (pl_spellings pl) (lit ''noop'') = Op_Call (lit ''noop'')"
    and "can_open pl p q (n * 6) C"
  shows "\<exists>D. section_a pl p q n C = (Inr (), D) \<and> left_clean pl C D"
  unfolding section_a_def
proof (rule in_session_runs [OF assms(2)])
  fix C1
  assume start: "ready pl empty_host p q C (n * 6) C1"
  have name: "text_ok (lit ''noop'')" by simp
  obtain C2 where C2: "on_process (\<lambda>P. wsm_register_primitive pl P p (Some (utf8_encode (lit ''noop'')))
      noop_primitive) C1 = (Inr 0, C2)" "ready pl noop_host p q C (n * 6 + 0) C2"
    using ready_registered [OF start noop_callback_ok noop_realizes name] unfolding noop_host_def
    by (metis add_0_right)
  from section_a_loop_runs [OF assms(1) C2(2)] C2(1)
  show "\<exists>D H. step_then (on_process (\<lambda>P. wsm_register_primitive pl P p
        (Some (utf8_encode (lit ''noop''))) noop_primitive) C1)
      (\<lambda>rc C. section_a_loop pl q p (utf8_encode noop_source) n C) = (Inr (), D)
      \<and> ready pl H p q C 0 D"
    by (auto simp del: lit_simps)
qed

section \<open>Section B: the shared arena\<close>

text \<open>Without the reset every form keeps its cell: the loop ends the process when they are used up.\<close>

lemma noop_value:
  assumes "spelled (pl_spellings pl) (lit ''noop'') = Op_Call (lit ''noop'')"
    and "arena_ok (rs_arena s)" and "repr (rs_arena s) t"
    and "denotes (pl_codec pl) (rs_symbols s) (rs_boxed s) t noop_form"
  shows "eval (bench_context pl s) eval_fuel (word_of t) () = (Inr WORD_NIL, ())"
proof -
  let ?look = "\<lambda>w :: unit. rs_boxed s" and ?sim = "\<lambda>(a :: int) (w :: unit). 0 \<le> a"
  have "implements (pl_codec pl) \<lparr>ctx_spellings = pl_spellings pl, ctx_arena = rs_arena s,
      ctx_env = env_new, ctx_symbols = rs_symbols s\<rparr> ?look ?sim empty_host"
    by (simp add: implements_def absorbing_def empty_host_def env_new_def)
  then have impl: "implements (pl_codec pl) (bench_context pl s) ?look ?sim noop_host"
    unfolding bench_context_def noop_env_def noop_host_def
    by (rule implements_register)
      (use word_stands_nil in \<open>auto simp: simulates_def\<close>)
  have "feval (pl_spellings pl) noop_host noop_form (0 :: int) = (Inr LNil, 0)"
    by (rule noop_means [OF assms(1)])
  then obtain w x where x: "eval_tree (bench_context pl s) t () = (Inr x, w)"
      "word_stands (pl_codec pl) (rs_symbols s) (rs_arena s) (rs_boxed s) LNil x"
    using feval_simulates(1) [where s = "pl_spellings pl" and a = 0 and w = "()" and t = t and f = noop_form, OF impl] assms(3,4)
    by (auto simp: sound_step_def simulates_def bench_context_def noop_host_def empty_host_def
        host_register_def prod_eq_iff simp del: lit_simps)
  then have "x = WORD_NIL"
    by (auto simp: word_stands_def elim: stands.elims)
  then show ?thesis
    using x(1) eval_fuel_enough [of "bench_context pl s" t] assms(2,3) by (simp add: bench_context_def)
qed

lemma section_b_loop_runs:
  assumes "spelled (pl_spellings pl) (lit ''noop'') = Op_Call (lit ''noop'')"
    and "read_ok (pl_codec pl) s" and "read_room (pl_codec pl) s (n * 3)"
  shows "fst (section_b_loop pl n s) =
    (if n \<le> arena_free (rs_arena s) then Inr () else Inl (Process_Exit 97 1 0 0))"
  using assms(2,3)
proof (induction n arbitrary: s)
  case (Suc n)
  have "Suc n * 3 = length (toks noop_form) + n * 3" by simp
  then have room: "read_room (pl_codec pl) s (length (toks noop_form) + n * 3)"
    using Suc.prems(2) by (simp only:)
  show ?case
  proof (cases "arena_free (rs_arena s) = 0")
    case True
    then show ?thesis
      using read_one_exhausted [OF noop_tokens(1) Suc.prems(1), of "pl_unprintable pl"] room
      by (auto simp: read_room_def)
  next
    case False
    then obtain t s' where t: "read_one (pl_codec pl) (pl_unprintable pl) noop_source s = (Inr (word_of t), s')"
        "read_result (pl_codec pl) s s' (n * 3) 1 t"
        "denotes (pl_codec pl) (rs_symbols s') (rs_boxed s') t noop_form"
      using read_one_free [OF noop_tokens(1) Suc.prems(1) room, of "pl_unprintable pl"] by auto
    have arena: "arena_ok (rs_arena s')" "repr (rs_arena s') t"
      using t(2) by (simp_all add: read_result_def read_ok_def)
    have "value_to_string (pl_codec pl) (rs_symbols s') (rs_boxed s') (rs_arena s') WORD_NIL = Inr (lit ''()'')"
      using value_to_string_tree [OF arena(1), of "Leaf WORD_NIL"] tag_nil tags_distinct
      by (simp add: print_leaf_def)
    then show ?thesis
      using t(1) noop_value [OF assms(1) arena t(3)] Suc.IH [of s'] t(2)
      by (auto simp: read_result_def)
  qed
qed simp

lemma section_c_loop_runs:
  assumes "eval X eval_fuel word () = (Inr v, ())"
  shows "section_c_loop X word n = Inr ()"
  by (induction n) (simp_all add: assms)

section \<open>The boxed table as it grows\<close>

lemma add_values_words:
  assumes "codec_ok c" and "n \<le> boxed_room c b"
  shows "\<exists>ws b'. add_values c i n b = (Inr ws, b') \<and> length ws = n
    \<and> (\<forall>w e. boxed_get_entry c b w = Some e \<longrightarrow> boxed_get_entry c b' w = Some e)
    \<and> (\<forall>j < n. get_string c b' (ws ! j) = Some (lit ''value-'' @ dec_nat (i + j)))"
  using assms(2)
proof (induction n arbitrary: i b)
  case (Suc n)
  have room: "0 < boxed_room c b" using Suc.prems by simp
  let ?e = "\<lparr>entry_value = Str (lit ''value-'' @ dec_nat i), entry_lifetime = Transient\<rparr>"
  obtain w b1 where w: "boxed_add c b ?e = (Inr w, b1)"
    using boxes.put_some [OF assms(1) room] by (metis surjective_pairing)
  have "n \<le> boxed_room c b1" using Suc.prems boxes.put_room [OF w] by simp
  from Suc.IH [OF this, of "Suc i"] obtain ws b' where ws:
    "add_values c (Suc i) n b1 = (Inr ws, b')" "length ws = n"
    "\<And>w e. boxed_get_entry c b1 w = Some e \<Longrightarrow> boxed_get_entry c b' w = Some e"
    "\<And>j. j < n \<Longrightarrow> get_string c b' (ws ! j) = Some (lit ''value-'' @ dec_nat (Suc i + j))"
    by blast
  have "boxed_get_entry c b' w = Some ?e"
    using ws(3) boxes.put_get [OF assms(1) room w] by blast
  then have "get_string c b' w = Some (lit ''value-'' @ dec_nat i)" by (simp add: get_string_def)
  then have "get_string c b' ((w # ws) ! j) = Some (lit ''value-'' @ dec_nat (i + j))" if "j < Suc n" for j
    using that ws(4) by (cases j) (simp_all del: lit_simps)
  moreover have "add_values c i (Suc n) b = (Inr (w # ws), b')"
    using w ws(1) by (simp add: add_string_def del: lit_simps)
  ultimately show ?case
    using ws(2,3) boxes.put_keeps [OF assms(1) room w] by (intro exI [of _ "w # ws"] exI [of _ b']) auto
qed simp

lemma section_boxed_values:
  assumes "codec_ok c" and "n \<le> boxed_room c []" and "0 < n"
  shows "\<exists>b. section_boxed c n m =
    (Inr (map (\<lambda>i. Some (lit ''value-'' @ dec_nat (i mod n))) [0..<m]), b)"
proof -
  obtain ws b where "add_values c 0 n boxed_new = (Inr ws, b)"
      "\<And>j. j < n \<Longrightarrow> get_string c b (ws ! j) = Some (lit ''value-'' @ dec_nat j)"
    using add_values_words [OF assms(1), of n boxed_new 0] assms(2) by (auto simp: boxed_new_def)
  then show ?thesis using assms(3) by (simp add: section_boxed_def del: lit_simps)
qed

section \<open>The program\<close>

text \<open>A process starts with an empty arena.\<close>

lemma bench_start_ok:
  assumes "codec_ok (pl_codec pl)" and "arena_ok (arena_load base)"
    and "n \<le> symbols_room symbols_new" and "n \<le> boxed_room (pl_codec pl) []"
  shows "read_ok (pl_codec pl) (bench_start base)" and "read_room (pl_codec pl) (bench_start base) n"
    and "arena_free (rs_arena (bench_start base)) = ARENA_CELLS"
  using assms by (simp_all add: bench_start_def read_ok_def read_room_def boxed_new_def
      arena_free_def arena_load_def arena_used_def)

lemma section_b_runs:
  assumes "spelled (pl_spellings pl) (lit ''noop'') = Op_Call (lit ''noop'')"
    and "codec_ok (pl_codec pl)" and "arena_ok (arena_load base)"
    and "n * 3 \<le> symbols_room symbols_new" and "n * 3 \<le> boxed_room (pl_codec pl) []"
  shows "fst (section_b_loop pl n (bench_start base)) =
    (if n \<le> ARENA_CELLS then Inr () else Inl (Process_Exit 97 1 0 0))"
  using section_b_loop_runs [OF assms(1) bench_start_ok(1,2) [OF assms(2-5)]]
    bench_start_ok(3) [OF assms(2-5)] by simp

lemma section_c_runs:
  assumes "spelled (pl_spellings pl) (lit ''noop'') = Op_Call (lit ''noop'')"
    and "codec_ok (pl_codec pl)" and "arena_ok (arena_load base)"
    and "3 \<le> symbols_room symbols_new" and "3 \<le> boxed_room (pl_codec pl) []"
  shows "section_c pl base n = Inr ()"
proof -
  note start = bench_start_ok [OF assms(2-5)]
  have "read_room (pl_codec pl) (bench_start base) (length (toks noop_form) + 0)"
    using start(2) by (simp add: numeral_3_eq_3)
  then obtain t s where t: "read_one (pl_codec pl) (pl_unprintable pl) noop_source (bench_start base)
      = (Inr (word_of t), s)"
      "read_result (pl_codec pl) (bench_start base) s 0 1 t"
      "denotes (pl_codec pl) (rs_symbols s) (rs_boxed s) t noop_form"
    using read_one_free [OF noop_tokens(1) start(1), of 0 "pl_unprintable pl"] start(3)
    by (auto simp: ARENA_CELLS_def)
  have arena: "arena_ok (rs_arena s)" "repr (rs_arena s) t"
    using t(2) by (simp_all add: read_result_def read_ok_def)
  from section_c_loop_runs [OF noop_value [OF assms(1) arena t(3)]]
  show ?thesis using t(1) by (simp add: section_c_def)
qed

lemma boxed_sections_run:
  "codec_ok c \<Longrightarrow> \<forall>n \<in> set sizes. 0 < n \<and> n \<le> boxed_room c [] \<Longrightarrow> boxed_sections c sizes = Inr ()"
proof (induction sizes)
  case (Cons n sizes)
  then have "n \<le> boxed_room c []" "0 < n" by simp_all
  from section_boxed_values [OF Cons.prems(1) this, of BOXED_LOOKUPS] Cons show ?case by auto
qed simp

lemma bench_runs:
  assumes "spelled (pl_spellings pl) (lit ''noop'') = Op_Call (lit ''noop'')"
    and "can_open pl p q 1200 C" and "1000000 \<le> boxed_room (pl_codec pl) []"
  shows "bench_main pl p q arg C =
    (if arg \<in> {lit ''a'', lit ''b'', lit ''c'', lit ''boxed''} then Inr () else Inl Rust_Panic)"
proof -
  let ?base = "arena_base (p_arena (c_process C))"
  have codec: "codec_ok (pl_codec pl)" and arena: "arena_ok (arena_load ?base)"
    using assms(2) arena_load_ok by (auto simp: can_open_def process_ok_def arena_ok_def [of "p_arena _"])
  have a: "fst (section_a pl p q CONS_BOUND_ITERATIONS C) = Inr ()"
    using section_a_runs [OF assms(1), of p q CONS_BOUND_ITERATIONS C] assms(2)
    by (auto simp: CONS_BOUND_ITERATIONS_def)
  have b: "section_b pl ?base = Inr ()"
    using section_b_runs [OF assms(1) codec arena, of CONS_BOUND_ITERATIONS] assms(3)
    by (auto simp: section_b_def CONS_BOUND_ITERATIONS_def ARENA_CELLS_def)
  have c: "section_c pl ?base n = Inr ()" for n
    using section_c_runs [OF assms(1) codec arena] assms(3) by simp
  have d: "boxed_sections (pl_codec pl) TABLE_SIZES = Inr ()"
    by (rule boxed_sections_run [OF codec]) (use assms(3) in \<open>auto simp: TABLE_SIZES_def\<close>)
  show ?thesis unfolding bench_main_def a b c d by simp
qed

end
