(* ===== verification/Unit_Tests.thy ===== *)
theory Unit_Tests
  imports Ffi_Tests Bench
begin

text \<open>
  The unit tests of \<open>lib.rs\<close>, \<open>word.rs\<close>, \<open>reader.rs\<close> and \<open>printer.rs\<close>. The tests of one process
  share its arena, so each runs in any arena with enough cells left; their tables are new.
  \<open>assert\<close> is a panic on failure, \<open>unwrap\<close> a panic on an error value.
\<close>

section \<open>The steps of a test\<close>

definition fresh_tables :: "arena \<Rightarrow> read_state" where
  "fresh_tables A = \<lparr>rs_symbols = symbols_new, rs_boxed = boxed_new, rs_arena = A\<rparr>"

definition reading_test ::
  "platform \<Rightarrow> rstring \<Rightarrow> (read_state \<Rightarrow> u64 \<Rightarrow> fatal + unit) \<Rightarrow> arena \<Rightarrow> fatal + unit" where
  "reading_test pl source check A =
     (case read_one (pl_codec pl) (pl_unprintable pl) source (fresh_tables A) of
        (r, s) \<Rightarrow> and_then (unwrap r) (check s))"

definition rejecting_test ::
  "platform \<Rightarrow> rstring \<Rightarrow> (read_error \<Rightarrow> bool) \<Rightarrow> arena \<Rightarrow> fatal + unit" where
  "rejecting_test pl source expected A =
     (case fst (read_one (pl_codec pl) (pl_unprintable pl) source (fresh_tables A)) of
        Inr word \<Rightarrow> Inl Rust_Panic
      | Inl (Raise e) \<Rightarrow> panic_unless (expected e)
      | Inl (Abort f) \<Rightarrow> Inl f)"

definition is_named :: "read_state \<Rightarrow> u64 \<Rightarrow> rstring \<Rightarrow> fatal + unit" where
  "is_named s word name = panic_unless (name_of (rs_symbols s) word = Some name)"

definition is_string :: "platform \<Rightarrow> read_state \<Rightarrow> u64 \<Rightarrow> rstring \<Rightarrow> fatal + unit" where
  "is_string pl s word v = panic_unless (get_string (pl_codec pl) (rs_boxed s) word = Some v)"

definition prints_as :: "platform \<Rightarrow> read_state \<Rightarrow> u64 \<Rightarrow> rstring \<Rightarrow> fatal + unit" where
  "prints_as pl s word expected =
     and_then (value_to_string (pl_codec pl) (rs_symbols s) (rs_boxed s) (rs_arena s) word)
       (\<lambda>text. panic_unless (text = expected))"

section \<open>Tests of the nucleus\<close>

definition cons_car_cdr_roundtrip :: "arena \<Rightarrow> fatal + unit" where
  "cons_car_cdr_roundtrip A =
     and_then (wsm_cons A 10 20) (\<lambda>(pair, A).
     and_then (wsm_car A pair) (\<lambda>a.
     and_then (panic_unless (a = 10)) (\<lambda>_.
     and_then (wsm_cdr A pair) (\<lambda>d. panic_unless (d = 20)))))"

definition eq_matches_and_distinguishes :: "fatal + unit" where
  "eq_matches_and_distinguishes =
     and_then (panic_unless (wsm_eq 41 41 = SYM_T_WORD)) (\<lambda>_. panic_unless (wsm_eq 41 42 = WORD_NIL))"

definition atom_distinguishes_cons_from_non_cons :: "arena \<Rightarrow> fatal + unit" where
  "atom_distinguishes_cons_from_non_cons A =
     and_then (wsm_cons A 1 2) (\<lambda>(pair, A).
     and_then (panic_unless (wsm_atom pair = WORD_NIL)) (\<lambda>_.
       panic_unless (wsm_atom SYM_T_WORD = SYM_T_WORD)))"

section \<open>Test of the boxed table\<close>

definition game_handle_round_trips_and_is_distinct :: "codec \<Rightarrow> fatal + unit" where
  "game_handle_round_trips_and_is_distinct c =
     fst (step_then (add_game_handle c boxed_new 0x1234) (\<lambda>handle_word b.
          step_then (add_string c b pistolet) (\<lambda>string_word b.
            (panic_unless (get_game_handle c b handle_word = Some 0x1234
               \<and> get_string c b handle_word = None
               \<and> get_string c b string_word = Some pistolet
               \<and> get_game_handle c b string_word = None
               \<and> kind_of c b handle_word = Some KGameHandle
               \<and> kind_of c b string_word = Some KStr
               \<and> handle_word \<noteq> string_word), b))))"

section \<open>Tests of the reader\<close>

definition teleportui :: rstring where
  "teleportui = [0x442, 0x435, 0x43B, 0x435, 0x43F, 0x43E, 0x440, 0x442, 0x443, 0x439]"
definition hravets :: rstring where
  "hravets = [0x433, 0x440, 0x430, 0x432, 0x435, 0x446, 0x44C]"
definition give_pistol :: rstring where
  "give_pistol = lit ''('' @ dai_zbroiu @ lit '' '' @ quoted pistolet @ lit '' 5)''"

definition reads_bare_fixnum :: "platform \<Rightarrow> arena \<Rightarrow> fatal + unit" where
  "reads_bare_fixnum pl = reading_test pl (lit ''42'') (\<lambda>s word. panic_unless (decode_fixnum word = 42))"

definition reads_negative_fixnum :: "platform \<Rightarrow> arena \<Rightarrow> fatal + unit" where
  "reads_negative_fixnum pl = reading_test pl (lit ''-10'') (\<lambda>s word. panic_unless (decode_fixnum word = - 10))"

definition reads_empty_call :: "platform \<Rightarrow> arena \<Rightarrow> fatal + unit" where
  "reads_empty_call pl = reading_test pl (lit ''(save-game)'') (\<lambda>s word.
     and_then (wsm_car (rs_arena s) word) (\<lambda>head.
     and_then (wsm_cdr (rs_arena s) word) (\<lambda>tail.
     and_then (is_named s head (lit ''save-game'')) (\<lambda>_. panic_unless (tail = WORD_NIL)))))"

definition reads_teleport_call :: "platform \<Rightarrow> arena \<Rightarrow> fatal + unit" where
  "reads_teleport_call pl = reading_test pl (lit ''(teleport player 100 200 50)'') (\<lambda>s word.
     and_then (wsm_car (rs_arena s) word) (\<lambda>head.
     and_then (is_named s head (lit ''teleport'')) (\<lambda>_.
     and_then (wsm_cdr (rs_arena s) word) (\<lambda>rest1.
     and_then (wsm_car (rs_arena s) rest1) (\<lambda>arg1.
     and_then (is_named s arg1 (lit ''player'')) (\<lambda>_.
     and_then (wsm_cdr (rs_arena s) rest1) (\<lambda>rest2.
     and_then (wsm_car (rs_arena s) rest2) (\<lambda>arg2. panic_unless (decode_fixnum arg2 = 100)))))))))"

definition reads_ukrainian_identifiers :: "platform \<Rightarrow> arena \<Rightarrow> fatal + unit" where
  "reads_ukrainian_identifiers pl =
     reading_test pl (lit ''('' @ teleportui @ lit '' '' @ hravets @ lit '' 100 200 50)'') (\<lambda>s word.
     and_then (wsm_car (rs_arena s) word) (\<lambda>head.
     and_then (is_named s head teleportui) (\<lambda>_.
     and_then (wsm_cdr (rs_arena s) word) (\<lambda>rest.
     and_then (wsm_car (rs_arena s) rest) (\<lambda>arg1. is_named s arg1 hravets)))))"

definition reads_string_literal_argument :: "platform \<Rightarrow> arena \<Rightarrow> fatal + unit" where
  "reads_string_literal_argument pl = reading_test pl give_pistol (\<lambda>s word.
     and_then (wsm_cdr (rs_arena s) word) (\<lambda>rest.
     and_then (wsm_car (rs_arena s) rest) (\<lambda>arg1. is_string pl s arg1 pistolet)))"

definition two_equal_string_literals_are_independent :: "platform \<Rightarrow> arena \<Rightarrow> fatal + unit" where
  "two_equal_string_literals_are_independent pl =
     reading_test pl (lit ''(f '' @ quoted (lit ''x'') @ lit '' '' @ quoted (lit ''x'') @ lit '')'') (\<lambda>s word.
     and_then (wsm_cdr (rs_arena s) word) (\<lambda>rest.
     and_then (wsm_car (rs_arena s) rest) (\<lambda>arg1.
     and_then (wsm_cdr (rs_arena s) rest) (\<lambda>rest2.
     and_then (wsm_car (rs_arena s) rest2) (\<lambda>arg2.
     and_then (panic_unless (arg1 \<noteq> arg2)) (\<lambda>_.
     and_then (is_string pl s arg1 (lit ''x'')) (\<lambda>_. is_string pl s arg2 (lit ''x''))))))))"

definition rejects_unterminated_string :: "platform \<Rightarrow> arena \<Rightarrow> fatal + unit" where
  "rejects_unterminated_string pl =
     rejecting_test pl (lit ''(f '' @ [34] @ lit ''unterminated)'') (\<lambda>e. e = UnterminatedString)"

definition rejects_trailing_input :: "platform \<Rightarrow> arena \<Rightarrow> fatal + unit" where
  "rejects_trailing_input pl =
     rejecting_test pl (lit ''42 43'') (\<lambda>e. case e of TrailingInput rest \<Rightarrow> True | _ \<Rightarrow> False)"

definition rejects_unbalanced_close_paren :: "platform \<Rightarrow> arena \<Rightarrow> fatal + unit" where
  "rejects_unbalanced_close_paren pl = rejecting_test pl (lit '')'') (\<lambda>e. e = UnexpectedCloseParen)"

definition rejects_a_form_larger_than_the_arena :: "platform \<Rightarrow> arena \<Rightarrow> fatal + unit" where
  "rejects_a_form_larger_than_the_arena pl =
     rejecting_test pl oversized_source (\<lambda>e. e = ArenaCapacityExceeded 257 256)"

text \<open>\<open>scripts/dispatcher.lisp\<close>, which the game loads: three lines.\<close>

definition hravets_prysutnii :: rstring where
  "hravets_prysutnii = [0x433, 0x440, 0x430, 0x432, 0x435, 0x446, 0x44C, 0x2D,
     0x43F, 0x440, 0x438, 0x441, 0x443, 0x442, 0x43D, 0x456, 0x439, 63]"

definition dispatcher_source :: rstring where
  "dispatcher_source = lit ''(cond'' @ [10] @ lit ''  (('' @ hravets_prysutnii @ lit '') ('' @ klas @ lit '' ''
     @ hravets @ lit ''))'' @ [10] @ lit ''  (t (quote ())))'' @ [10]"

definition active_dispatcher_script_is_readable :: "platform \<Rightarrow> arena \<Rightarrow> fatal + unit" where
  "active_dispatcher_script_is_readable pl = reading_test pl dispatcher_source (\<lambda>s word. Inr ())"

section \<open>Tests of the printer\<close>

definition prints_fixnum :: "platform \<Rightarrow> arena \<Rightarrow> fatal + unit" where
  "prints_fixnum pl = reading_test pl (lit ''42'') (\<lambda>s word. prints_as pl s word (lit ''42''))"

definition prints_negative_fixnum :: "platform \<Rightarrow> arena \<Rightarrow> fatal + unit" where
  "prints_negative_fixnum pl = reading_test pl (lit ''-10'') (\<lambda>s word. prints_as pl s word (lit ''-10''))"

definition prints_nil :: "platform \<Rightarrow> arena \<Rightarrow> fatal + unit" where
  "prints_nil pl = reading_test pl (lit ''()'') (\<lambda>s word. prints_as pl s word (lit ''()''))"

definition prints_symbol_and_t :: "platform \<Rightarrow> arena \<Rightarrow> fatal + unit" where
  "prints_symbol_and_t pl = reading_test pl (lit ''player'') (\<lambda>s sym.
     and_then (prints_as pl s sym (lit ''player'')) (\<lambda>_.
       case read_one (pl_codec pl) (pl_unprintable pl) (lit ''t'') s of
         (r, s) \<Rightarrow> and_then (unwrap r) (\<lambda>t. prints_as pl s t (lit ''t''))))"

definition prints_list_round_trip :: "platform \<Rightarrow> arena \<Rightarrow> fatal + unit" where
  "prints_list_round_trip pl = reading_test pl (lit ''(teleport player 100 200 50)'')
     (\<lambda>s word. prints_as pl s word (lit ''(teleport player 100 200 50)''))"

definition prints_dotted_pair :: "platform \<Rightarrow> arena \<Rightarrow> fatal + unit" where
  "prints_dotted_pair pl A =
     and_then (wsm_cons A (encode_fixnum 1) (encode_fixnum 2)) (\<lambda>(pair, A).
       prints_as pl (fresh_tables A) pair (lit ''(1 . 2)''))"

definition prints_string_literal_with_quotes :: "platform \<Rightarrow> arena \<Rightarrow> fatal + unit" where
  "prints_string_literal_with_quotes pl = reading_test pl give_pistol (\<lambda>s word. prints_as pl s word give_pistol)"

definition prints_game_handle_without_leaking :: "platform \<Rightarrow> arena \<Rightarrow> fatal + unit" where
  "prints_game_handle_without_leaking pl A =
     (case add_game_handle (pl_codec pl) boxed_new 0xdeadbeef of
        (r, b) \<Rightarrow> and_then r (\<lambda>word.
          prints_as pl \<lparr>rs_symbols = symbols_new, rs_boxed = b, rs_arena = A\<rparr> word (lit ''#<game-handle>'')))"

section \<open>Reading a form\<close>

definition test_room :: "platform \<Rightarrow> arena \<Rightarrow> bool" where
  "test_room pl A \<longleftrightarrow> codec_ok (pl_codec pl) \<and> arena_ok A \<and> 16 \<le> arena_free A
     \<and> 100 \<le> boxed_room (pl_codec pl) []"

text \<open>What reading gives a test: the tree of the form.\<close>

definition has_read :: "platform \<Rightarrow> read_state \<Rightarrow> form \<Rightarrow> node \<Rightarrow> bool" where
  "has_read pl s f t \<longleftrightarrow> arena_ok (rs_arena s) \<and> read_ok (pl_codec pl) s \<and> read_room (pl_codec pl) s 50
     \<and> repr (rs_arena s) t \<and> denotes (pl_codec pl) (rs_symbols s) (rs_boxed s) t f"

lemma reading_from:
  assumes "tokenize source = Inr (toks f)" and "read_ok (pl_codec pl) s0" and "read_room (pl_codec pl) s0 100"
    and "16 \<le> arena_free (rs_arena s0)" and "cells_of f \<le> 16" and "length (toks f) \<le> 50"
  obtains t s where "read_one (pl_codec pl) (pl_unprintable pl) source s0 = (Inr (word_of t), s)"
    "has_read pl s f t"
    "\<And>v m. name_of (rs_symbols s0) v = Some m \<Longrightarrow> name_of (rs_symbols s) v = Some m"
proof -
  let ?c = "pl_codec pl"
  have room: "read_room ?c s0 (length (toks f) + 50)" using assms(3,6) by (simp add: read_room_def)
  have "cells_of f \<le> arena_free (rs_arena s0)" "cells_of f \<le> ARENA_CELLS"
    using assms(4,5) by (simp_all add: ARENA_CELLS_def)
  from read_one_free [OF assms(1,2) room this, of "pl_unprintable pl"] obtain t s where
    "read_one ?c (pl_unprintable pl) source s0 = (Inr (word_of t), s)"
    "read_result ?c s0 s 50 (cells_of f) t" "denotes ?c (rs_symbols s) (rs_boxed s) t f" by blast
  then show thesis
    by (intro that [of t s]) (auto simp: has_read_def read_result_def read_ok_def extends_def)
qed

lemma fresh_tables_room:
  assumes "test_room pl A"
  shows "read_ok (pl_codec pl) (fresh_tables A)" and "read_room (pl_codec pl) (fresh_tables A) 100"
    and "16 \<le> arena_free (rs_arena (fresh_tables A))"
  using assms by (simp_all add: test_room_def fresh_tables_def read_ok_def read_room_def boxed_new_def)

lemma reading_test_tokens:
  assumes "test_room pl A" and "tokenize source = Inr (toks f)" and "cells_of f \<le> 16"
    and "length (toks f) \<le> 50"
    and "\<And>s t. has_read pl s f t \<Longrightarrow> check s (word_of t) = Inr ()"
  shows "reading_test pl source check A = Inr ()"
  by (rule reading_from [OF assms(2) fresh_tables_room [OF assms(1)] assms(3,4)])
    (use assms(5) in \<open>auto simp: reading_test_def\<close>)

lemma reading_test_form:
  assumes "test_room pl A" and "source = render f" and "form_ok f" and "cells_of f \<le> 16"
    and "length (toks f) \<le> 50"
    and "\<And>s t. has_read pl s f t \<Longrightarrow> check s (word_of t) = Inr ()"
  shows "reading_test pl source check A = Inr ()"
proof (rule reading_test_tokens [OF assms(1) _ assms(4,5)])
  show "tokenize source = Inr (toks f)" using tokenize_render [OF assms(3)] assms(2) by simp
qed (rule assms(6))

lemma prints_form:
  assumes "has_read pl s f t" and "form_ok f" and "expected = shown f"
  shows "prints_as pl s (word_of t) expected = Inr ()"
  using assms value_to_string_tree [of "rs_arena s" t] print_denotes(1) [of "pl_codec pl" "rs_symbols s" "rs_boxed s" t f]
  by (simp add: prints_as_def has_read_def panic_unless_def)

text \<open>The parts of a list that has been read.\<close>

lemma denotes_cell:
  assumes "repr A t" and "denotes_list c st b t (f # fs)"
  obtains l r where "wsm_car A (word_of t) = Inr (word_of l)" "wsm_cdr A (word_of t) = Inr (word_of r)"
    "repr A l" "repr A r" "denotes c st b l f" "denotes_list c st b r fs"
proof -
  obtain p l r where t: "t = Pair p l r" "denotes c st b l f" "denotes_list c st b r fs"
    using denotes_list_Cons [OF assms(2)] by blast
  show thesis by (rule that [of l r]) (use t assms(1) in simp_all)
qed

lemma denotes_symbol: "plain_symbol a \<Longrightarrow> denotes c st b t (FAtom a) \<Longrightarrow> name_of st (word_of t) = Some a"
  by (cases t) (auto simp: atom_denotes_def plain_symbol_def atom_ok_def is_delimiter_def split: if_splits)

lemma denotes_integer: "parse_i64 a = Some v \<Longrightarrow> denotes c st b t (FAtom a) \<Longrightarrow> a \<noteq> lit ''()'' \<Longrightarrow>
    word_of t = encode_fixnum v"
  by (cases t) (auto simp: atom_denotes_def)

lemma denotes_text: "denotes c st b t (FStr v) \<Longrightarrow> get_string c b (word_of t) = Some v"
  by (cases t) (auto simp: get_string_def)

lemma passes [simp]: "panic_unless True = Inr ()"
  by (simp add: panic_unless_def)

lemma decode_small: "- (2 ^ 60) \<le> sint v \<Longrightarrow> sint v < 2 ^ 60 \<Longrightarrow> decode_fixnum (encode_fixnum v) = v"
  by (simp add: decode_encode_iff)

lemma numerals:
  "parse_i64 (lit ''42'') = Some 42" "parse_i64 (lit ''-10'') = Some (- 10)" "parse_i64 (lit ''100'') = Some 100"
  "parse_i64 (lit ''200'') = Some 200" "parse_i64 (lit ''50'') = Some 50" "parse_i64 (lit ''5'') = Some 5"
  "decode_fixnum (encode_fixnum 42) = 42" "decode_fixnum (encode_fixnum (- 10)) = - 10"
  "decode_fixnum (encode_fixnum 100) = 100" "decode_fixnum (encode_fixnum 200) = 200"
  "decode_fixnum (encode_fixnum 50) = 50" "decode_fixnum (encode_fixnum 5) = 5"
  by (simp_all add: parse_i64_def decode_encode_iff)

lemma numeral_atoms:
  "atom_ok (lit ''42'')" "atom_ok (lit ''-10'')" "atom_ok (lit ''100'')" "atom_ok (lit ''200'')"
  "atom_ok (lit ''50'')" "atom_ok (lit ''5'')"
  by (simp_all add: atom_ok_def is_delimiter_def is_whitespace_def)

lemma numeral_texts: "dec_int 42 = lit ''42''" "dec_int (- 10) = lit ''-10''" "dec_int 100 = lit ''100''"
  "dec_int 200 = lit ''200''" "dec_int 50 = lit ''50''" "dec_int 5 = lit ''5''"
  by (simp_all add: dec_int_def dec_nat_def digits_of.simps digit_char_def)

lemma unit_names:
  "plain_symbol (lit ''save-game'')" "plain_symbol (lit ''teleport'')" "plain_symbol (lit ''player'')"
  "plain_symbol teleportui" "plain_symbol hravets" "plain_symbol dai_zbroiu" "plain_symbol (lit ''f'')"
  by (simp_all add: plain_symbol_def atom_ok_def is_delimiter_def is_whitespace_def parse_i64_def
      teleportui_def hravets_def dai_zbroiu_def)

lemmas unit_atoms = unit_names [THEN plain_symbol_atom] numeral_atoms

section \<open>The tests pass\<close>

lemma denotes_numeral:
  "denotes c st b t (FAtom (lit ''42'')) \<Longrightarrow> decode_fixnum (word_of t) = 42"
  "denotes c st b t (FAtom (lit ''-10'')) \<Longrightarrow> decode_fixnum (word_of t) = - 10"
  "denotes c st b t (FAtom (lit ''100'')) \<Longrightarrow> decode_fixnum (word_of t) = 100"
  using denotes_integer [OF numerals(1)] denotes_integer [OF numerals(2)] denotes_integer [OF numerals(3)]
    numerals(7-9) by simp_all

lemma reads_fixnum_tests:
  assumes "test_room pl A"
  shows "reads_bare_fixnum pl A = Inr ()" and "reads_negative_fixnum pl A = Inr ()"
proof -
  show "reads_bare_fixnum pl A = Inr ()"
    unfolding reads_bare_fixnum_def
    by (rule reading_test_form [OF assms, where f = "FAtom (lit ''42'')"])
      (use numeral_atoms in \<open>auto simp: has_read_def dest: denotes_numeral simp del: lit_simps\<close>)
  show "reads_negative_fixnum pl A = Inr ()"
    unfolding reads_negative_fixnum_def
    by (rule reading_test_form [OF assms, where f = "FAtom (lit ''-10'')"])
      (use numeral_atoms in \<open>auto simp: has_read_def dest: denotes_numeral simp del: lit_simps\<close>)
qed

lemmas unit_symbols = unit_names [THEN denotes_symbol]

text \<open>The forms of the sources.\<close>

abbreviation save_form :: form where "save_form \<equiv> FList [FAtom (lit ''save-game'')]"
abbreviation teleport_form :: "rstring \<Rightarrow> rstring \<Rightarrow> form" where
  "teleport_form a b \<equiv> FList [FAtom a, FAtom b, FAtom (lit ''100''), FAtom (lit ''200''), FAtom (lit ''50'')]"
abbreviation give_form :: form where
  "give_form \<equiv> FList [FAtom dai_zbroiu, FStr pistolet, FAtom (lit ''5'')]"

lemma unit_sources:
  "lit ''(save-game)'' = render save_form"
  "lit ''(teleport player 100 200 50)'' = render (teleport_form (lit ''teleport'') (lit ''player''))"
  "lit ''('' @ teleportui @ lit '' '' @ hravets @ lit '' 100 200 50)'' = render (teleport_form teleportui hravets)"
  "give_pistol = render give_form"
  using escape_words by (simp_all add: give_pistol_def quoted_def)

lemma unit_forms:
  "form_ok save_form" "form_ok (teleport_form (lit ''teleport'') (lit ''player''))"
  "form_ok (teleport_form teleportui hravets)" "form_ok give_form"
  using unit_atoms by simp_all

lemma reads_call_tests:
  assumes "test_room pl A"
  shows "reads_empty_call pl A = Inr ()" and "reads_teleport_call pl A = Inr ()"
    and "reads_ukrainian_identifiers pl A = Inr ()" and "reads_string_literal_argument pl A = Inr ()"
proof -
  note [simp del] = lit_simps denotes.simps(1-4) denotes_list.simps
  show "reads_empty_call pl A = Inr ()"
    unfolding reads_empty_call_def
    by (rule reading_test_form [OF assms unit_sources(1) unit_forms(1)])
      (auto simp: has_read_def is_named_def dest!: denotes_list_Cons denotes_list_Nil dest: unit_symbols)
  show "reads_teleport_call pl A = Inr ()"
    unfolding reads_teleport_call_def
    by (rule reading_test_form [OF assms unit_sources(2) unit_forms(2)])
      (auto simp: has_read_def is_named_def dest!: denotes_list_Cons unit_symbols denotes_numeral)
  show "reads_ukrainian_identifiers pl A = Inr ()"
    unfolding reads_ukrainian_identifiers_def
    by (rule reading_test_form [OF assms unit_sources(3) unit_forms(3)])
      (auto simp: has_read_def is_named_def dest!: denotes_list_Cons unit_symbols)
  show "reads_string_literal_argument pl A = Inr ()"
    unfolding reads_string_literal_argument_def
    by (rule reading_test_form [OF assms unit_sources(4) unit_forms(4)])
      (auto simp: has_read_def is_string_def dest!: denotes_list_Cons dest: denotes_text)
qed

lemma rejecting_tests:
  assumes "test_room pl A"
  shows "rejects_unterminated_string pl A = Inr ()" and "rejects_trailing_input pl A = Inr ()"
    and "rejects_unbalanced_close_paren pl A = Inr ()" and "rejects_a_form_larger_than_the_arena pl A = Inr ()"
proof -
  show "rejects_unterminated_string pl A = Inr ()"
    by (simp add: rejects_unterminated_string_def rejecting_test_def read_one_def is_delimiter_def is_whitespace_def)
  have fuel: "parse_fuel [Close] = Suc (Suc (Suc (Suc 0)))"
    "parse_fuel [Atom x, y] = Suc (Suc (Suc (Suc (Suc (Suc 0)))))" for x y
    by (simp_all add: parse_fuel_def)
  show "rejects_unbalanced_close_paren pl A = Inr ()"
    by (simp add: rejects_unbalanced_close_paren_def rejecting_test_def read_one_def is_delimiter_def
        is_whitespace_def required_cons_cells_def fuel)
  have tokens: "tokenize oversized_source = Inr (toks oversized_form)"
    by (rule tokenize_render [OF oversized_facts(2), folded oversized_facts(1)])
  have "ARENA_CELLS < cells_of oversized_form"
    unfolding oversized_facts(3) by (simp add: ARENA_CELLS_def)
  from read_one_too_large [OF tokens this, of "pl_codec pl" "pl_unprintable pl" "fresh_tables A"]
  show "rejects_a_form_larger_than_the_arena pl A = Inr ()"
    unfolding oversized_facts(3)
    by (simp add: rejects_a_form_larger_than_the_arena_def rejecting_test_def ARENA_CELLS_def)
  show "rejects_trailing_input pl A = Inr ()"
    using numerals(1)
    by (simp add: rejects_trailing_input_def rejecting_test_def read_one_def is_delimiter_def is_whitespace_def
        required_cons_cells_def fuel atom_to_word_def fresh_tables_def Let_def)
qed

lemma plain_symbol_no_number: "plain_symbol a \<Longrightarrow> parse_i64 a = None"
  by (simp add: plain_symbol_def)

lemma printing_tests:
  assumes "test_room pl A"
  shows "prints_fixnum pl A = Inr ()" and "prints_negative_fixnum pl A = Inr ()"
    and "prints_list_round_trip pl A = Inr ()" and "prints_string_literal_with_quotes pl A = Inr ()"
proof -
  note shown = numerals [simplified] numeral_texts [simplified] unit_names [THEN plain_symbol_no_number, simplified]
  show "prints_fixnum pl A = Inr ()"
    unfolding prints_fixnum_def
    by (rule reading_test_form [OF assms, where f = "FAtom (lit ''42'')"])
      (use numeral_atoms in \<open>simp_all add: prints_form shown\<close>)
  show "prints_negative_fixnum pl A = Inr ()"
    unfolding prints_negative_fixnum_def
    by (rule reading_test_form [OF assms, where f = "FAtom (lit ''-10'')"])
      (use numeral_atoms in \<open>simp_all add: prints_form shown\<close>)
  show "prints_list_round_trip pl A = Inr ()"
    unfolding prints_list_round_trip_def
    by (rule reading_test_form [OF assms unit_sources(2) unit_forms(2)])
      (simp, simp, erule prints_form [OF _ unit_forms(2)], simp add: shown)
  show "prints_string_literal_with_quotes pl A = Inr ()"
    unfolding prints_string_literal_with_quotes_def
    by (rule reading_test_form [OF assms unit_sources(4) unit_forms(4)])
      (simp, simp, erule prints_form [OF _ unit_forms(4)], simp add: shown give_pistol_def quoted_def)
qed

text \<open>Two equal literals: the second is a new entry of the table, so it has another word.\<close>

lemma two_strings:
  assumes "codec_ok c" and "2 \<le> boxed_room c []"
  obtains w1 w2 where "add_string c [] v = (Inr w1, [Some \<lparr>entry_value = Str v, entry_lifetime = Transient\<rparr>])"
    "add_string c [Some \<lparr>entry_value = Str v, entry_lifetime = Transient\<rparr>] v
       = (Inr w2, replicate 2 (Some \<lparr>entry_value = Str v, entry_lifetime = Transient\<rparr>))"
    "w1 \<noteq> w2"
    "get_string c (replicate 2 (Some \<lparr>entry_value = Str v, entry_lifetime = Transient\<rparr>)) w1 = Some v"
    "get_string c (replicate 2 (Some \<lparr>entry_value = Str v, entry_lifetime = Transient\<rparr>)) w2 = Some v"
proof -
  let ?e = "\<lparr>entry_value = Str v, entry_lifetime = Transient\<rparr>"
  have "0 < boxed_room c []" using assms(2) by simp
  then obtain w1 where w1: "boxed_add c [] ?e = (Inr w1, [Some ?e])"
    using boxed_add_room [OF assms(1), of "[]" ?e] by auto
  have room: "0 < boxed_room c [Some ?e]" using assms(2) by (simp add: boxed_room_def)
  then obtain w2 where w2: "boxed_add c [Some ?e] ?e = (Inr w2, replicate 2 (Some ?e))"
    using boxed_add_room [OF assms(1) room, of ?e] by (auto simp: numeral_2_eq_2)
  have get: "boxed_get_entry c [Some ?e] w1 = Some ?e"
    by (rule boxes.put_get [OF assms(1) _ w1]) (use assms(2) in simp)
  have "boxed_get_entry c [Some ?e] w2 = None" by (rule boxes.put_fresh [OF assms(1) room w2])
  then have "w1 \<noteq> w2" using get by auto
  moreover have "boxed_get_entry c (replicate 2 (Some ?e)) w1 = Some ?e"
    by (rule boxes.put_keeps [OF assms(1) room w2 get])
  moreover have "boxed_get_entry c (replicate 2 (Some ?e)) w2 = Some ?e"
    by (rule boxes.put_get [OF assms(1) room w2])
  ultimately show thesis
    using w1 w2 by (intro that [of w1 w2]) (simp_all add: add_string_def get_string_def)
qed

lemma two_literals_test:
  assumes "test_room pl A"
  shows "two_equal_string_literals_are_independent pl A = Inr ()"
proof -
  let ?c = "pl_codec pl" and ?f = "FList [FAtom (lit ''f''), FStr (lit ''x''), FStr (lit ''x'')]"
  let ?bs = "replicate 2 (Some \<lparr>entry_value = Str (lit ''x''), entry_lifetime = Transient\<rparr>)"
  let ?s = "lit ''(f '' @ quoted (lit ''x'') @ lit '' '' @ quoted (lit ''x'') @ lit '')''"
  have room: "codec_ok ?c" "2 \<le> boxed_room ?c []" and A: "arena_ok A" "3 \<le> arena_free A"
    using assms by (simp_all add: test_room_def)
  obtain w1 w2 where w: "add_string ?c [] (lit ''x'') = (Inr w1, [Some \<lparr>entry_value = Str (lit ''x''), entry_lifetime = Transient\<rparr>])"
    "add_string ?c [Some \<lparr>entry_value = Str (lit ''x''), entry_lifetime = Transient\<rparr>] (lit ''x'') = (Inr w2, ?bs)"
    "w1 \<noteq> w2" "get_string ?c ?bs w1 = Some (lit ''x'')" "get_string ?c ?bs w2 = Some (lit ''x'')"
    by (rule two_strings [OF room])
  obtain wf st where f: "atom_to_word (lit ''f'') symbols_new = (wf, st)" by fastforce
  obtain p3 A3 where c3: "wsm_cons A w2 WORD_NIL = Inr (p3, A3)" using cells.alloc_some [OF A(1)] A(2) by fastforce
  note A3 = wsm_cons_state [OF A(1) c3] cells.alloc_free [OF A(1) c3]
  obtain p2 A2 where c2: "wsm_cons A3 w1 p3 = Inr (p2, A2)" using cells.alloc_some [OF A3(1)] A(2) A3(7) by fastforce
  note A2 = wsm_cons_state [OF A3(1) c2] cells.alloc_free [OF A3(1) c2] wsm_cons_frame [OF A3(1) c2]
  obtain p1 A1 where c1: "wsm_cons A2 wf p2 = Inr (p1, A1)"
    using cells.alloc_some [OF A2(1)] A(2) A3(7) A2(7) by fastforce
  note A1 = wsm_cons_state [OF A2(1) c1] wsm_cons_frame [OF A2(1) c1]
  have "form_ok ?f" using unit_names [THEN plain_symbol_atom] by simp
  from tokenize_render [OF this] have tokens: "tokenize ?s = Inr (toks ?f)"
    by (simp add: quoted_def escape_string_def)
  have fuel: "parse_fuel (toks ?f) = Suc (Suc (Suc (Suc (Suc (Suc (Suc (Suc (Suc (Suc (Suc (Suc 0)))))))))))"
    by (simp add: parse_fuel_def)
  have "parse_form ?c (parse_fuel (toks ?f)) (toks ?f) (fresh_tables A)
      = (Inr (p1, []), \<lparr>rs_symbols = st, rs_boxed = ?bs, rs_arena = A1\<rparr>)"
    unfolding fuel using f w(1,2) c1 c2 c3 by (simp add: fresh_tables_def boxed_new_def del: lit_simps)
  then have "read_one ?c (pl_unprintable pl) ?s (fresh_tables A)
      = (Inr p1, \<lparr>rs_symbols = st, rs_boxed = ?bs, rs_arena = A1\<rparr>)"
    using tokens required_complete [of ?f "[]"]
    by (simp add: read_one_def wsm_arena_capacity_def Let_def ARENA_CELLS_def del: lit_simps toks.simps)
  then show ?thesis
    using w(3-5) A1 A2 A3
    by (simp add: two_equal_string_literals_are_independent_def reading_test_def is_string_def del: lit_simps)
qed

lemma dispatcher_test:
  assumes "test_room pl A"
  shows "active_dispatcher_script_is_readable pl A = Inr ()"
  unfolding active_dispatcher_script_is_readable_def
proof (rule reading_test_tokens [OF assms])
  let ?f = "FList [FAtom (lit ''cond''),
      FList [FList [FAtom hravets_prysutnii], FList [FAtom klas, FAtom hravets]],
      FList [FAtom (lit ''t''), FList [FAtom (lit ''quote''), FList []]]]"
  show "tokenize dispatcher_source = Inr (toks ?f)"
    by (simp add: dispatcher_source_def hravets_prysutnii_def klas_def hravets_def is_delimiter_def is_whitespace_def)
qed simp_all

section \<open>Tests of the nucleus and of the table pass\<close>

lemma nucleus_tests:
  assumes "test_room pl A"
  shows "cons_car_cdr_roundtrip A = Inr ()" and "eq_matches_and_distinguishes = Inr ()"
    and "atom_distinguishes_cons_from_non_cons A = Inr ()"
proof -
  have A: "arena_ok A" "0 < arena_free A" using assms by (simp_all add: test_room_def)
  obtain p B where "wsm_cons A 10 20 = Inr (p, B)" using cells.alloc_some [OF A] by blast
  then show "cons_car_cdr_roundtrip A = Inr ()"
    using wsm_cons_state [OF A(1)] by (simp add: cons_car_cdr_roundtrip_def)
  show "eq_matches_and_distinguishes = Inr ()"
    by (simp add: eq_matches_and_distinguishes_def wsm_eq_def WORD_NIL_def)
  obtain q D where q: "wsm_cons A 1 2 = Inr (q, D)" using cells.alloc_some [OF A] by blast
  have "tag_of q = TAG_CONS" using is_cell_tag wsm_cons_state(1,4) [OF A(1) q] by blast
  moreover have "tag_of SYM_T_WORD \<noteq> 0" by (simp add: TAG_SYMBOL_def)
  ultimately show "atom_distinguishes_cons_from_non_cons A = Inr ()"
    using q by (simp add: atom_distinguishes_cons_from_non_cons_def wsm_atom_def WORD_NIL_def tag_of_def TAG_CONS_def)
qed

lemma boxed_test:
  assumes "codec_ok c" and "2 \<le> boxed_room c []"
  shows "game_handle_round_trips_and_is_distinct c = Inr ()"
proof -
  let ?h = "\<lparr>entry_value = GameHandle 0x1234, entry_lifetime = Persistent\<rparr>"
  let ?e = "\<lparr>entry_value = Str pistolet, entry_lifetime = Transient\<rparr>"
  have room: "0 < boxed_room c []" "0 < boxed_room c [Some ?h]" using assms(2) by (simp_all add: boxed_room_def)
  obtain w1 where w1: "boxed_add c [] ?h = (Inr w1, [Some ?h])"
    using boxed_add_room [OF assms(1) room(1), of ?h] by auto
  obtain w2 where w2: "boxed_add c [Some ?h] ?e = (Inr w2, [Some ?h, Some ?e])"
    using boxed_add_room [OF assms(1) room(2), of ?e] by auto
  have get: "boxed_get_entry c [Some ?h] w1 = Some ?h" by (rule boxes.put_get [OF assms(1) room(1) w1])
  have "boxed_get_entry c [Some ?h] w2 = None" by (rule boxes.put_fresh [OF assms(1) room(2) w2])
  then have "w1 \<noteq> w2" using get by auto
  moreover have "boxed_get_entry c [Some ?h, Some ?e] w1 = Some ?h"
    by (rule boxes.put_keeps [OF assms(1) room(2) w2 get])
  moreover have "boxed_get_entry c [Some ?h, Some ?e] w2 = Some ?e" by (rule boxes.put_get [OF assms(1) room(2) w2])
  ultimately show ?thesis
    using w1 w2
    by (auto simp: game_handle_round_trips_and_is_distinct_def add_game_handle_def add_string_def boxed_new_def
        get_game_handle_def get_string_def kind_of_def)
qed

section \<open>The other tests of the printer pass\<close>

lemma printing_other_tests:
  assumes "test_room pl A"
  shows "prints_nil pl A = Inr ()" and "prints_symbol_and_t pl A = Inr ()"
    and "prints_dotted_pair pl A = Inr ()" and "prints_game_handle_without_leaking pl A = Inr ()"
proof -
  let ?c = "pl_codec pl"
  have A: "arena_ok A" "0 < arena_free A" and codec: "codec_ok ?c" "0 < boxed_room ?c []"
    using assms by (simp_all add: test_room_def)
  show "prints_nil pl A = Inr ()"
    unfolding prints_nil_def
    by (rule reading_test_form [OF assms, where f = "FList []"]) (simp, simp, simp, simp, erule prints_form, simp_all)
  show "prints_symbol_and_t pl A = Inr ()"
    unfolding prints_symbol_and_t_def
  proof (rule reading_test_form [OF assms, where f = "FAtom (lit ''player'')"])
    fix s t
    assume s: "has_read pl s (FAtom (lit ''player'')) t"
    have t: "form_ok (FAtom (lit ''t''))" "tokenize (lit ''t'') = Inr (toks (FAtom (lit ''t'')))"
      using atoms(1) tokenize_render [of "FAtom (lit ''t'')"] by (simp_all del: lit_simps tokenize.simps)
    have room: "read_room ?c s (length (toks (FAtom (lit ''t''))) + 49)" using s by (simp add: has_read_def)
    obtain u s' where u: "read_one ?c (pl_unprintable pl) (lit ''t'') s = (Inr (word_of u), s')"
        "read_result ?c s s' 49 (cells_of (FAtom (lit ''t''))) u"
        "denotes ?c (rs_symbols s') (rs_boxed s') u (FAtom (lit ''t''))"
      using read_one_free [OF t(2) _ room, of "pl_unprintable pl"] s by (auto simp: has_read_def simp del: lit_simps)
    have "shown (FAtom (lit ''t'')) = lit ''t''" by (simp add: parse_i64_def)
    then have "prints_as pl s' (word_of u) (lit ''t'') = Inr ()"
      using value_to_string_tree [of "rs_arena s'" u] print_denotes(1) [OF u(3) t(1)] u(2)
      by (simp add: prints_as_def read_result_def read_ok_def del: lit_simps)
    moreover have "prints_as pl s (word_of t) (lit ''player'') = Inr ()"
      by (rule prints_form [OF s]) (use unit_atoms unit_names [THEN plain_symbol_no_number] in \<open>simp_all del: lit_simps\<close>)
    ultimately show "and_then (prints_as pl s (word_of t) (lit ''player'')) (\<lambda>_.
        case read_one ?c (pl_unprintable pl) (lit ''t'') s of
          (r, s) \<Rightarrow> and_then (unwrap r) (\<lambda>t. prints_as pl s t (lit ''t''))) = Inr ()"
      using u(1) by (simp del: lit_simps)
  qed (use unit_atoms in \<open>simp_all del: lit_simps\<close>)
  obtain p B where p: "wsm_cons A (encode_fixnum 1) (encode_fixnum 2) = Inr (p, B)"
    using cells.alloc_some [OF A] by blast
  have "repr B (Pair p (Leaf (encode_fixnum 1)) (Leaf (encode_fixnum 2)))"
    using cells.alloc_rep [OF A(1), of "Leaf (encode_fixnum 1)" "Leaf (encode_fixnum 2)" p B] p by simp
  moreover have small: "decode_fixnum (encode_fixnum 1) = 1" "decode_fixnum (encode_fixnum 2) = 2"
    by (simp_all add: decode_encode_iff)
  ultimately have "value_to_string ?c symbols_new boxed_new B p = Inr (lit ''(1 . 2)'')"
    using value_to_string_tree [OF wsm_cons_state(1) [OF A(1) p], of "Pair p (Leaf (encode_fixnum 1)) (Leaf (encode_fixnum 2))"]
    by (simp add: print_leaf_def dec_int_def dec_nat_def digits_of.simps digit_char_def)
  then show "prints_dotted_pair pl A = Inr ()"
    using p by (simp add: prints_dotted_pair_def prints_as_def fresh_tables_def del: lit_simps)
  let ?h = "\<lparr>entry_value = GameHandle 0xdeadbeef, entry_lifetime = Persistent\<rparr>"
  obtain w where w: "boxed_add ?c [] ?h = (Inr w, [Some ?h])" "tag_of w = TAG_BOXED"
    using boxed_add_room [OF codec, of ?h] by auto
  have "boxed_get_entry ?c [Some ?h] w = Some ?h" by (rule boxes.put_get [OF codec w(1)])
  then have "value_to_string ?c symbols_new [Some ?h] A w = Inr (lit ''#<game-handle>'')"
    using value_to_string_tree [OF A(1), of "Leaf w"] w(2) by (simp add: print_leaf_def)
  then show "prints_game_handle_without_leaking pl A = Inr ()"
    using w(1) by (simp add: prints_game_handle_without_leaking_def prints_as_def add_game_handle_def boxed_new_def
        del: lit_simps)
qed

end
