(* ===== verification/Eval_Tests.thy ===== *)
theory Eval_Tests
  imports Unit_Tests
begin

text \<open>
  The unit tests of \<open>eval.rs\<close>. A test reads a form with new tables and evaluates it; its host
  closures push the arguments they get onto a list that the test looks at afterwards, so that
  list of calls is the world of the evaluator here. Each test passes on what the form means over
  an abstract host with the same calls.
\<close>

section \<open>The steps of a test\<close>

definition test_context :: "platform \<Rightarrow> read_state \<Rightarrow> u64 list list env \<Rightarrow> u64 list list eval_context" where
  "test_context pl s E = \<lparr>ctx_spellings = pl_spellings pl, ctx_arena = rs_arena s, ctx_env = E,
     ctx_symbols = rs_symbols s\<rparr>"

definition evaluating_test ::
  "platform \<Rightarrow> symbol_table \<Rightarrow> u64 list list env \<Rightarrow> rstring \<Rightarrow>
     (read_state \<Rightarrow> u64 \<Rightarrow> eval_error stop + u64 \<Rightarrow> u64 list list \<Rightarrow> fatal + unit) \<Rightarrow> arena \<Rightarrow> fatal + unit" where
  "evaluating_test pl st E source check A =
     (case read_one (pl_codec pl) (pl_unprintable pl) source ((fresh_tables A)\<lparr>rs_symbols := st\<rparr>) of
        (r, s) \<Rightarrow> and_then (unwrap r) (\<lambda>word.
          case eval (test_context pl s E) eval_fuel word [] of
            (result, calls) \<Rightarrow> check s word result calls))"

text \<open>The two ways a test looks at the result: \<open>unwrap\<close>, or equality with an error.\<close>

abbreviation evaluates_to ::
  "(u64 \<Rightarrow> fatal + unit) \<Rightarrow> read_state \<Rightarrow> u64 \<Rightarrow> eval_error stop + u64 \<Rightarrow> u64 list list \<Rightarrow> fatal + unit" where
  "evaluates_to check s word result calls \<equiv> and_then (unwrap result) check"

definition fails_with :: "eval_error \<Rightarrow> eval_error stop + u64 \<Rightarrow> fatal + unit" where
  "fails_with e result =
     (case result of
        Inr word \<Rightarrow> Inl Rust_Panic
      | Inl (Raise e') \<Rightarrow> panic_unless (e' = e)
      | Inl (Abort f) \<Rightarrow> Inl f)"

text \<open>Indexing, and the closures of the tests.\<close>

definition element :: "'a list \<Rightarrow> nat \<Rightarrow> fatal + 'a" where
  "element xs i = (if i < length xs then Inr (xs ! i) else Inl Rust_Panic)"

definition recording :: "u64 list list host_primitive" where
  "recording args calls = (Inr WORD_NIL, calls @ [args])"

definition failing :: "rstring \<Rightarrow> u64 list list host_primitive" where
  "failing message args calls = (Inl (Raise message), calls)"

definition adding :: "u64 list list host_primitive" where
  "adding args calls =
     (case and_then (element args 0) (\<lambda>a. and_then (element args 1) (\<lambda>b.
        Inr (encode_fixnum (decode_fixnum a + decode_fixnum b)))) of
        Inl f \<Rightarrow> (Inl (Abort f), calls)
      | Inr word \<Rightarrow> (Inr word, calls))"

text \<open>The argument of a recorded call, as a fixnum.\<close>

definition argument_is :: "u64 list \<Rightarrow> nat \<Rightarrow> i64 \<Rightarrow> fatal + unit" where
  "argument_is args i v = and_then (element args i) (\<lambda>word. panic_unless (decode_fixnum word = v))"

text \<open>The Cyrillic names: player-handle, as-is, by-condition, headlight.\<close>

definition hravets_handle :: rstring where "hravets_handle = hravets @ lit ''-handle''"
definition yak_ie :: rstring where "yak_ie = [0x44F, 0x43A, 0x2D, 0x454]"
definition za_umovoiu :: rstring where
  "za_umovoiu = [0x437, 0x430, 0x2D, 0x443, 0x43C, 0x43E, 0x432, 0x43E, 0x44E]"
definition fara :: rstring where "fara = [0x444, 0x430, 0x440, 0x430]"

section \<open>Tests without a host\<close>

definition fixnum_self_evaluates :: "platform \<Rightarrow> arena \<Rightarrow> fatal + unit" where
  "fixnum_self_evaluates pl = evaluating_test pl symbols_new env_new (lit ''42'')
     (evaluates_to (\<lambda>v. panic_unless (decode_fixnum v = 42)))"

definition string_self_evaluates :: "platform \<Rightarrow> arena \<Rightarrow> fatal + unit" where
  "string_self_evaluates pl = evaluating_test pl symbols_new env_new (quoted pistolet)
     (\<lambda>s word result calls. and_then (unwrap result) (\<lambda>v.
        and_then (panic_unless (v = word)) (\<lambda>_. is_string pl s v pistolet)))"

definition unbound_symbol_errors :: "platform \<Rightarrow> arena \<Rightarrow> fatal + unit" where
  "unbound_symbol_errors pl = evaluating_test pl symbols_new env_new (lit ''(undefined-symbol)'')
     (\<lambda>s word result calls. fails_with (UnknownSymbol (lit ''undefined-symbol'')) result)"

definition cond_skips_falsy_and_picks_first_truthy :: "platform \<Rightarrow> arena \<Rightarrow> fatal + unit" where
  "cond_skips_falsy_and_picks_first_truthy pl =
     evaluating_test pl symbols_new env_new (lit ''(cond (() 1) (() 2) (t 3))'')
       (evaluates_to (\<lambda>v. panic_unless (decode_fixnum v = 3)))"

definition cond_treats_fixnum_zero_as_truthy :: "platform \<Rightarrow> arena \<Rightarrow> fatal + unit" where
  "cond_treats_fixnum_zero_as_truthy pl =
     evaluating_test pl symbols_new env_new (lit ''(cond (0 1) (t 2))'')
       (evaluates_to (\<lambda>v. panic_unless (decode_fixnum v = 1)))"

definition t_self_evaluates :: "platform \<Rightarrow> arena \<Rightarrow> fatal + unit" where
  "t_self_evaluates pl = evaluating_test pl symbols_new env_new (lit ''t'')
     (evaluates_to (\<lambda>v. panic_unless (v = SYM_T_WORD)))"

definition quote_returns_its_argument_unevaluated :: "platform \<Rightarrow> arena \<Rightarrow> fatal + unit" where
  "quote_returns_its_argument_unevaluated pl =
     evaluating_test pl symbols_new env_new (lit ''(quote '' @ nevidomyi_symvol @ lit '')'')
       (\<lambda>s word result calls. and_then (unwrap result) (\<lambda>v. is_named s v nevidomyi_symvol))"

definition ukrainian_quote_is_recognized :: "platform \<Rightarrow> arena \<Rightarrow> fatal + unit" where
  "ukrainian_quote_is_recognized pl =
     evaluating_test pl symbols_new env_new (lit ''('' @ yak_ie @ lit '' '' @ fara @ lit '')'')
       (\<lambda>s word result calls. and_then (unwrap result) (\<lambda>v. is_named s v fara))"

definition ukrainian_cond_is_recognized :: "platform \<Rightarrow> arena \<Rightarrow> fatal + unit" where
  "ukrainian_cond_is_recognized pl =
     evaluating_test pl symbols_new env_new (lit ''('' @ za_umovoiu @ lit '' (0 1) (t 2))'')
       (evaluates_to (\<lambda>v. panic_unless (decode_fixnum v = 1)))"

definition cond_without_a_truthy_clause_returns_nil :: "platform \<Rightarrow> arena \<Rightarrow> fatal + unit" where
  "cond_without_a_truthy_clause_returns_nil pl =
     evaluating_test pl symbols_new env_new (lit ''(cond (() 1))'')
       (evaluates_to (\<lambda>v. panic_unless (v = WORD_NIL)))"

definition quote_rejects_more_than_one_argument :: "platform \<Rightarrow> arena \<Rightarrow> fatal + unit" where
  "quote_rejects_more_than_one_argument pl =
     evaluating_test pl symbols_new env_new (lit ''(quote a b)'')
       (\<lambda>s word result calls. fails_with (InvalidForm (lit ''quote takes exactly one argument'')) result)"

definition quote_rejects_no_arguments :: "platform \<Rightarrow> arena \<Rightarrow> fatal + unit" where
  "quote_rejects_no_arguments pl =
     evaluating_test pl symbols_new env_new (lit ''(quote)'')
       (\<lambda>s word result calls. fails_with (InvalidForm (lit ''quote takes exactly one argument'')) result)"

definition cond_rejects_a_clause_with_more_than_two_forms :: "platform \<Rightarrow> arena \<Rightarrow> fatal + unit" where
  "cond_rejects_a_clause_with_more_than_two_forms pl =
     evaluating_test pl symbols_new env_new (lit ''(cond (t 1 2))'')
       (\<lambda>s word result calls. fails_with (InvalidForm (lit ''cond clause takes exactly two forms'')) result)"

section \<open>Tests with host primitives\<close>

definition dispatches_to_host_primitive :: "platform \<Rightarrow> arena \<Rightarrow> fatal + unit" where
  "dispatches_to_host_primitive pl A =
     (case intern symbols_new (lit ''player-handle'') of
        (handle, st) \<Rightarrow>
          evaluating_test pl st
            (register_primitive (bind_name env_new (lit ''player'') handle) (lit ''teleport'') recording)
            (lit ''(teleport player 100 200 50)'')
            (\<lambda>s word result recorded. and_then (unwrap result) (\<lambda>_.
               and_then (panic_unless (length recorded = 1)) (\<lambda>_.
               and_then (element recorded 0) (\<lambda>args.
               and_then (argument_is args 1 100) (\<lambda>_.
               and_then (argument_is args 2 200) (\<lambda>_. argument_is args 3 50)))))) A)"

definition dispatches_string_argument :: "platform \<Rightarrow> arena \<Rightarrow> fatal + unit" where
  "dispatches_string_argument pl =
     evaluating_test pl symbols_new (register_primitive env_new dai_zbroiu recording) give_pistol
       (\<lambda>s word result recorded. and_then (unwrap result) (\<lambda>_.
          and_then (element recorded 0) (\<lambda>args.
          and_then (element args 0) (\<lambda>weapon.
          and_then (is_string pl s weapon pistolet) (\<lambda>_. argument_is args 1 5)))))"

definition host_primitive_failure_surfaces :: "platform \<Rightarrow> arena \<Rightarrow> fatal + unit" where
  "host_primitive_failure_surfaces pl =
     evaluating_test pl symbols_new
       (register_primitive env_new dai_zbroiu (failing (lit ''unknown weapon id''))) (call0 dai_zbroiu)
       (\<lambda>s word result calls.
          fails_with (HostPrimitiveFailed dai_zbroiu (lit ''unknown weapon id'')) result)"

definition nested_call_argument_evaluates_before_dispatch :: "platform \<Rightarrow> arena \<Rightarrow> fatal + unit" where
  "nested_call_argument_evaluates_before_dispatch pl =
     evaluating_test pl symbols_new
       (register_primitive (register_primitive
          (bind_name (bind_name env_new (lit ''player'') (encode_fixnum 42)) (lit ''x'') (encode_fixnum 5))
          (lit ''+'') adding) (lit ''teleport'') recording)
       (lit ''(teleport player (+ x 10) 200 -10)'')
       (\<lambda>s word result recorded. and_then (unwrap result) (\<lambda>_.
          and_then (element recorded 0) (\<lambda>args.
            panic_unless (map decode_fixnum args = [42, 15, 200, - 10]))))"

definition dispatches_ukrainian_identifiers :: "platform \<Rightarrow> arena \<Rightarrow> fatal + unit" where
  "dispatches_ukrainian_identifiers pl A =
     (case intern symbols_new hravets_handle of
        (handle, st) \<Rightarrow>
          evaluating_test pl st
            (register_primitive (bind_name env_new hravets handle) teleportui recording)
            (lit ''('' @ teleportui @ lit '' '' @ hravets @ lit '' 100 200 50)'')
            (\<lambda>s word result recorded. and_then (unwrap result) (\<lambda>_.
               panic_unless (length recorded = 1))) A)"

section \<open>A host that logs its calls\<close>

text \<open>The abstract state is the list of calls; \<open>None\<close> is a call on values outside the contract.\<close>

type_synonym call_log = "lisp list list option"

definition log_host :: "call_log lisp_host" where
  "log_host = \<lparr>lh_within = (\<lambda>a. a \<noteq> None), lh_bindings = (\<lambda>_. None), lh_primitives = (\<lambda>_. None)\<rparr>"

lemma log_host_simps [simp]:
  "lh_within log_host = (\<lambda>a. a \<noteq> None)" "lh_bindings log_host n = None" "lh_primitives log_host n = None"
  by (simp_all add: log_host_def)

abbreviation value_word :: "platform \<Rightarrow> read_state \<Rightarrow> lisp \<Rightarrow> u64 \<Rightarrow> bool" where
  "value_word pl s \<equiv> word_stands (pl_codec pl) (rs_symbols s) (rs_arena s) (rs_boxed s)"

definition logged :: "platform \<Rightarrow> read_state \<Rightarrow> call_log \<Rightarrow> u64 list list \<Rightarrow> bool" where
  "logged pl s a calls \<longleftrightarrow>
     (case a of None \<Rightarrow> False | Some cs \<Rightarrow> list_all2 (list_all2 (value_word pl s)) cs calls)"

definition logs_call :: "platform \<Rightarrow> (lisp list \<Rightarrow> call_log \<Rightarrow> (rstring + lisp) \<times> call_log) \<Rightarrow>
    u64 list list host_primitive \<Rightarrow> bool" where
  "logs_call pl F g \<longleftrightarrow> (\<forall>vs. snd (F vs None) = None)
   \<and> (\<forall>s a calls vs xs. logged pl s a calls \<longrightarrow> list_all2 (value_word pl s) vs xs \<longrightarrow>
        simulates (pl_codec pl) (\<lambda>_. rs_boxed s) (logged pl s) (\<lambda>a. a \<noteq> None)
          (word_stands (pl_codec pl) (rs_symbols s) (rs_arena s)) calls (F vs a) (g xs calls))"

text \<open>The environment of a test serves the host, whatever is read later.\<close>

definition later :: "symbol_table \<Rightarrow> read_state \<Rightarrow> bool" where
  "later st s \<longleftrightarrow> (\<forall>v m. name_of st v = Some m \<longrightarrow> name_of (rs_symbols s) v = Some m)"

definition logs :: "platform \<Rightarrow> symbol_table \<Rightarrow> u64 list list env \<Rightarrow> call_log lisp_host \<Rightarrow> bool" where
  "logs pl st E H \<longleftrightarrow> lh_within H = (\<lambda>a. a \<noteq> None)
   \<and> (\<forall>s. later st s \<longrightarrow>
        implements (pl_codec pl) (test_context pl s E) (\<lambda>_. rs_boxed s) (logged pl s) H)"

lemma logs_new: "logs pl st env_new log_host"
  by (simp add: logs_def implements_def absorbing_def test_context_def env_new_def)

lemma logs_bind:
  assumes "logs pl st E H" and "\<And>s. later st s \<Longrightarrow> value_word pl s v x"
  shows "logs pl st (bind_name E n x) (host_bind H n v)"
  using assms unfolding logs_def test_context_def by (auto intro!: implements_bind)

lemma logs_register:
  assumes "logs pl st E H" and "logs_call pl F g"
  shows "logs pl st (register_primitive E n g) (host_register H n F)"
proof -
  have within: "lh_within H = (\<lambda>a. a \<noteq> None)" using assms(1) by (simp add: logs_def)
  have "implements (pl_codec pl) (test_context pl s (register_primitive E n g)) (\<lambda>_. rs_boxed s) (logged pl s)
      (host_register H n F)" if "later st s" for s
    unfolding test_context_def
  proof (rule implements_register)
    show "implements (pl_codec pl) \<lparr>ctx_spellings = pl_spellings pl, ctx_arena = rs_arena s, ctx_env = E,
        ctx_symbols = rs_symbols s\<rparr> (\<lambda>_. rs_boxed s) (logged pl s) H"
      using assms(1) that by (simp add: logs_def test_context_def)
    show "lh_within H a" if "lh_within H (snd (F vs a))" for vs a
      using that assms(2) by (cases a) (simp_all add: within logs_call_def)
  qed (use assms(2) within in \<open>simp add: logs_call_def\<close>)
  then show ?thesis by (simp add: logs_def within)
qed

text \<open>The three closures.\<close>

definition log_call :: "lisp list \<Rightarrow> call_log \<Rightarrow> (rstring + lisp) \<times> call_log" where
  "log_call vs a = (Inr LNil, map_option (\<lambda>cs. cs @ [vs]) a)"

definition add_call :: "lisp list \<Rightarrow> call_log \<Rightarrow> (rstring + lisp) \<times> call_log" where
  "add_call vs a =
     (case vs of
        LInt i # LInt j # us \<Rightarrow> (Inr (LInt (signed_take_bit 60 (i + j))), a)
      | _ \<Rightarrow> (Inr LNil, None))"

lemma recording_logs: "logs_call pl log_call recording"
proof -
  have "list_all2 (list_all2 R) (cs @ [vs]) (ds @ [xs])" if "list_all2 (list_all2 R) cs ds" "list_all2 R vs xs"
    for R :: "lisp \<Rightarrow> u64 \<Rightarrow> bool" and cs ds vs xs
    using that by (simp add: list_all2_appendI)
  then show ?thesis
    by (auto simp: logs_call_def log_call_def recording_def simulates_def logged_def word_stands_nil split: option.splits)
qed

lemma failing_logs: "logs_call pl (\<lambda>vs a. (Inl message, a)) (failing message)"
  by (simp add: logs_call_def failing_def simulates_error)

lemma stands_word:
  "word_stands c st A b (LInt i) x \<Longrightarrow> sint (decode_fixnum x) = i"
  "word_stands c st A b (LSym n) x \<Longrightarrow> tag_of x = TAG_SYMBOL \<and> name_of st x = Some n"
  "word_stands c st A b (LBox (Str v)) x \<Longrightarrow> get_string c b x = Some v"
  "word_stands c st A b LNil x \<Longrightarrow> x = WORD_NIL"
  by (auto simp: word_stands_def get_string_def elim!: stands.elims(2))

lemma sum_stands:
  assumes "word_stands c st A b (LInt i) x" and "word_stands c st A b (LInt j) y"
  shows "word_stands c st A b (LInt (signed_take_bit 60 (i + j))) (encode_fixnum (decode_fixnum x + decode_fixnum y))"
proof -
  have "sint (decode_fixnum x + decode_fixnum y) = signed_take_bit 63 (i + j)"
    by (simp add: sint_word_ariths(1) stands_word(1) [OF assms(1)] stands_word(1) [OF assms(2)])
  then have "signed_take_bit 60 (sint (decode_fixnum x + decode_fixnum y)) = signed_take_bit 60 (i + j)"
    by (simp add: signed_take_bit_signed_take_bit)
  then show ?thesis using word_stands_fixnum [of c st A b "decode_fixnum x + decode_fixnum y"] by simp
qed

lemma adding_logs: "logs_call pl add_call adding"
proof -
  have "simulates (pl_codec pl) (\<lambda>_. rs_boxed s) (logged pl s) (\<lambda>a. a \<noteq> None)
      (word_stands (pl_codec pl) (rs_symbols s) (rs_arena s)) calls (add_call vs a) (adding xs calls)"
    if log: "logged pl s a calls" and args: "list_all2 (value_word pl s) vs xs" for s a calls vs xs
  proof (cases "\<exists>i j us. vs = LInt i # LInt j # us")
    case True
    then obtain i j us x y ys where "vs = LInt i # LInt j # us" "xs = x # y # ys"
        "value_word pl s (LInt i) x" "value_word pl s (LInt j) y"
      using args by (auto simp: list_all2_Cons1)
    then show ?thesis
      using log sum_stands by (simp add: add_call_def adding_def element_def simulates_value)
  next
    case False
    then have "snd (add_call vs a) = None" by (auto simp: add_call_def split: list.split lisp.split)
    then show ?thesis by (simp add: simulates_def)
  qed
  moreover have "snd (add_call vs None) = None" for vs
    by (auto simp: add_call_def split: list.split lisp.split)
  ultimately show ?thesis by (simp add: logs_call_def)
qed

section \<open>A test passes on what its form means\<close>

lemma evaluating_form:
  assumes "test_room pl A" and "symbols_ok st" and "100 \<le> symbols_room st"
    and "source = render f" and "form_ok f" and "cells_of f \<le> 16" and "length (toks f) \<le> 50"
    and "logs pl st E H" and "feval (pl_spellings pl) H f (Some []) = (r, Some cs)"
    and "\<And>s t calls. has_read pl s f t \<Longrightarrow> list_all2 (list_all2 (value_word pl s)) cs calls \<Longrightarrow>
      (case r of
         Inl e \<Rightarrow> check s (word_of t) (Inl (Raise e)) calls = Inr ()
       | Inr v \<Rightarrow> (\<forall>x. value_word pl s v x \<longrightarrow> eval_tree (test_context pl s E) t [] = (Inr x, calls) \<longrightarrow>
           check s (word_of t) (Inr x) calls = Inr ()))"
  shows "evaluating_test pl st E source check A = Inr ()"
proof -
  let ?s0 = "(fresh_tables A)\<lparr>rs_symbols := st\<rparr>"
  have start: "read_ok (pl_codec pl) ?s0" "read_room (pl_codec pl) ?s0 100" "16 \<le> arena_free (rs_arena ?s0)"
    using fresh_tables_room [OF assms(1)] assms(2,3) by (simp_all add: read_ok_def read_room_def)
  have tokens: "tokenize source = Inr (toks f)" using tokenize_render [OF assms(5)] assms(4) by simp
  obtain t s where t: "read_one (pl_codec pl) (pl_unprintable pl) source ?s0 = (Inr (word_of t), s)"
      "has_read pl s f t" and keeps: "\<And>v m. name_of st v = Some m \<Longrightarrow> name_of (rs_symbols s) v = Some m"
    using reading_from [OF tokens start assms(6,7)] by (auto simp: fresh_tables_def)
  let ?X = "test_context pl s E"
  have s: "arena_ok (rs_arena s)" "repr (rs_arena s) t" "denotes (pl_codec pl) (rs_symbols s) (rs_boxed s) t f"
    using t(2) by (simp_all add: has_read_def)
  have impl: "implements (pl_codec pl) ?X (\<lambda>_. rs_boxed s) (logged pl s) H"
    and within: "lh_within H = (\<lambda>a. a \<noteq> None)"
    using assms(8) keeps by (auto simp: logs_def later_def)
  obtain q calls where q: "eval_tree ?X t [] = (q, calls)" by fastforce
  have "sound_step (pl_codec pl) ?X (\<lambda>_. rs_boxed s) (logged pl s) H [] (r, Some cs) (q, calls)"
    using feval_simulates(1) [where s = "pl_spellings pl" and a = "Some []" and w = "[]" and t = t and f = f, OF impl]
      assms(9) s q
    by (auto simp: test_context_def logged_def)
  then have res: "list_all2 (list_all2 (value_word pl s)) cs calls"
    "case r of Inl e \<Rightarrow> q = Inl (Raise e) | Inr v \<Rightarrow> \<exists>x. q = Inr x \<and> value_word pl s v x"
    by (cases r; simp add: sound_step_def simulates_def within logged_def test_context_def)+
  have "eval ?X eval_fuel (word_of t) [] = (q, calls)"
    using eval_fuel_enough [of ?X t "[]"] s(1,2) q by (simp add: test_context_def)
  moreover have "check s (word_of t) q calls = Inr ()"
    using assms(10) [OF t(2) res(1)] res(2) q by (cases r) auto
  ultimately show ?thesis using t(1) by (simp add: evaluating_test_def)
qed

section \<open>The forms of the tests\<close>

text \<open>What the tests rely on in the registry of spellings.\<close>

definition eval_spellings :: "spellings \<Rightarrow> bool" where
  "eval_spellings s \<longleftrightarrow>
     spelled s (lit ''quote'') = Op_Quote \<and> spelled s yak_ie = Op_Quote
     \<and> spelled s (lit ''cond'') = Op_Cond \<and> spelled s za_umovoiu = Op_Cond
     \<and> (\<forall>n \<in> {lit ''undefined-symbol'', lit ''teleport'', lit ''+'', dai_zbroiu, teleportui}. spelled s n = Op_Call n)"

lemmas eval_name_defs = hravets_handle_def nevidomyi_symvol_def yak_ie_def za_umovoiu_def fara_def

lemma eval_names:
  "plain_symbol (lit ''quote'')" "plain_symbol (lit ''cond'')" "plain_symbol (lit ''undefined-symbol'')"
  "plain_symbol (lit ''+'')" "plain_symbol (lit ''x'')" "plain_symbol (lit ''a'')" "plain_symbol (lit ''b'')"
  "plain_symbol (lit ''t'')" "plain_symbol nevidomyi_symvol" "plain_symbol yak_ie" "plain_symbol za_umovoiu"
  "plain_symbol fara"
  by (simp_all add: plain_symbol_def atom_ok_def is_delimiter_def is_whitespace_def parse_i64_def eval_name_defs)

lemma eval_integers:
  "atom_value (lit ''42'') = LInt 42" "atom_value (lit ''100'') = LInt 100" "atom_value (lit ''200'') = LInt 200"
  "atom_value (lit ''50'') = LInt 50" "atom_value (lit ''5'') = LInt 5" "atom_value (lit ''10'') = LInt 10"
  "atom_value (lit ''-10'') = LInt (- 10)" "atom_value (lit ''0'') = LInt 0" "atom_value (lit ''1'') = LInt 1"
  "atom_value (lit ''2'') = LInt 2" "atom_value (lit ''3'') = LInt 3"
  by (simp_all add: atom_value_def parse_i64_def signed_take_bit_int_eq_self)

lemma eval_digits:
  "atom_ok (lit ''0'')" "atom_ok (lit ''1'')" "atom_ok (lit ''2'')" "atom_ok (lit ''3'')" "atom_ok (lit ''10'')"
  by (simp_all add: atom_ok_def is_delimiter_def is_whitespace_def)

lemmas eval_atoms = eval_names [THEN plain_symbol_atom] eval_digits unit_atoms
lemmas eval_values = eval_names [THEN plain_symbol_value] unit_names [THEN plain_symbol_value] eval_integers

lemma decodes:
  "word_stands c st A b (LInt i) x \<Longrightarrow> sint v = i \<Longrightarrow> decode_fixnum x = v"
  using stands_word(1) by (metis signed_word_eqI)

lemma decoded:
  "word_stands c st A b (LInt 42) x \<Longrightarrow> decode_fixnum x = 42" "word_stands c st A b (LInt 100) x \<Longrightarrow> decode_fixnum x = 100"
  "word_stands c st A b (LInt 200) x \<Longrightarrow> decode_fixnum x = 200" "word_stands c st A b (LInt 50) x \<Longrightarrow> decode_fixnum x = 50"
  "word_stands c st A b (LInt 5) x \<Longrightarrow> decode_fixnum x = 5" "word_stands c st A b (LInt 15) x \<Longrightarrow> decode_fixnum x = 15"
  "word_stands c st A b (LInt (- 10)) x \<Longrightarrow> decode_fixnum x = - 10" "word_stands c st A b (LInt 1) x \<Longrightarrow> decode_fixnum x = 1"
  "word_stands c st A b (LInt 3) x \<Longrightarrow> decode_fixnum x = 3"
  by (erule decodes, simp)+

lemma t_stands:
  assumes "word_stands c st A b (LSym (lit ''t'')) x" and "symbols_ok st"
  shows "x = SYM_T_WORD"
  using intern_known [OF assms(2), of x "lit ''t''"] stands_word(2) [OF assms(1)] by (simp add: intern_def)

lemma eval_operators:
  assumes "eval_spellings s"
  shows "spelled s (lit ''quote'') = Op_Quote" "spelled s yak_ie = Op_Quote" "spelled s (lit ''cond'') = Op_Cond"
    "spelled s za_umovoiu = Op_Cond" "spelled s (lit ''undefined-symbol'') = Op_Call (lit ''undefined-symbol'')"
    "spelled s (lit ''teleport'') = Op_Call (lit ''teleport'')" "spelled s (lit ''+'') = Op_Call (lit ''+'')"
    "spelled s dai_zbroiu = Op_Call dai_zbroiu" "spelled s teleportui = Op_Call teleportui"
  using assms unfolding eval_spellings_def by simp_all

lemma quote_message: "lit ''quote'' @ lit '' takes exactly one argument'' = lit ''quote takes exactly one argument''"
  by simp

abbreviation cond_form :: "rstring \<Rightarrow> (form \<times> form) list \<Rightarrow> form" where
  "cond_form name clauses \<equiv> FList (FAtom name # map (\<lambda>(test, body). FList [test, body]) clauses)"

lemma eval_sources:
  "lit ''(cond (() 1) (() 2) (t 3))'' = render (cond_form (lit ''cond'')
     [(FList [], FAtom (lit ''1'')), (FList [], FAtom (lit ''2'')), (FAtom (lit ''t''), FAtom (lit ''3''))])"
  "lit ''(cond (0 1) (t 2))'' = render (cond_form (lit ''cond'')
     [(FAtom (lit ''0''), FAtom (lit ''1'')), (FAtom (lit ''t''), FAtom (lit ''2''))])"
  "lit ''('' @ za_umovoiu @ lit '' (0 1) (t 2))'' = render (cond_form za_umovoiu
     [(FAtom (lit ''0''), FAtom (lit ''1'')), (FAtom (lit ''t''), FAtom (lit ''2''))])"
  "lit ''(cond (() 1))'' = render (cond_form (lit ''cond'') [(FList [], FAtom (lit ''1''))])"
  "lit ''(cond (t 1 2))'' = render (FList [FAtom (lit ''cond''),
     FList [FAtom (lit ''t''), FAtom (lit ''1''), FAtom (lit ''2'')]])"
  "lit ''(quote '' @ nevidomyi_symvol @ lit '')'' = render (FList [FAtom (lit ''quote''), FAtom nevidomyi_symvol])"
  "lit ''('' @ yak_ie @ lit '' '' @ fara @ lit '')'' = render (FList [FAtom yak_ie, FAtom fara])"
  "lit ''(quote a b)'' = render (FList [FAtom (lit ''quote''), FAtom (lit ''a''), FAtom (lit ''b'')])"
  "lit ''(quote)'' = render (FList [FAtom (lit ''quote'')])"
  "lit ''(undefined-symbol)'' = render (FList [FAtom (lit ''undefined-symbol'')])"
  by simp_all

lemma fails_with_self [simp]: "fails_with e (Inl (Raise e)) = Inr ()"
  by (simp add: fails_with_def)

lemma plain_test:
  assumes "test_room pl A" and "source = render f" and "form_ok f" and "cells_of f \<le> 16" and "length (toks f) \<le> 50"
    and "feval (pl_spellings pl) log_host f (Some []) = (r, Some cs)"
    and "\<And>s t calls. has_read pl s f t \<Longrightarrow> list_all2 (list_all2 (value_word pl s)) cs calls \<Longrightarrow>
      (case r of
         Inl e \<Rightarrow> check s (word_of t) (Inl (Raise e)) calls = Inr ()
       | Inr v \<Rightarrow> (\<forall>x. value_word pl s v x \<longrightarrow> eval_tree (test_context pl s env_new) t [] = (Inr x, calls) \<longrightarrow>
           check s (word_of t) (Inr x) calls = Inr ()))"
  shows "evaluating_test pl symbols_new env_new source check A = Inr ()"
  by (rule evaluating_form [OF assms(1) _ _ assms(2-5) logs_new assms(6)]) (use assms(7) in simp_all)

section \<open>The tests pass\<close>

lemma self_evaluation_tests:
  assumes "test_room pl A"
  shows "fixnum_self_evaluates pl A = Inr ()" and "string_self_evaluates pl A = Inr ()"
    and "t_self_evaluates pl A = Inr ()"
proof -
  note [simp del] = lit_simps
  show "fixnum_self_evaluates pl A = Inr ()"
    unfolding fixnum_self_evaluates_def
    by (rule plain_test [OF assms, where f = "FAtom (lit ''42'')"])
      (use eval_atoms in \<open>auto simp: eval_values symbol_value_def dest!: decoded\<close>)
  show "string_self_evaluates pl A = Inr ()"
    unfolding string_self_evaluates_def
  proof (rule plain_test [OF assms, where f = "FStr pistolet" and r = "Inr (LBox (Str pistolet))" and cs = "[]"])
    show "quoted pistolet = render (FStr pistolet)" by (simp add: quoted_def escape_words)
    fix s t calls
    assume "has_read pl s (FStr pistolet) t"
    then obtain w where t: "t = Leaf w" "tag_of w = TAG_BOXED" by (cases t) (auto simp: has_read_def)
    then have "tag_of w \<noteq> TAG_SYMBOL" using tags_distinct by simp
    then show "case Inr (LBox (Str pistolet)) of
         Inl e \<Rightarrow> (\<lambda>s word result calls. and_then (unwrap result) (\<lambda>v.
        and_then (panic_unless (v = word)) (\<lambda>_. is_string pl s v pistolet))) s (word_of t) (Inl (Raise e)) calls = Inr ()
       | Inr v \<Rightarrow> (\<forall>x. value_word pl s v x \<longrightarrow> eval_tree (test_context pl s env_new) t [] = (Inr x, calls) \<longrightarrow>
           (\<lambda>s word result calls. and_then (unwrap result) (\<lambda>v.
        and_then (panic_unless (v = word)) (\<lambda>_. is_string pl s v pistolet))) s (word_of t) (Inr x) calls = Inr ())"
      using t(1) stands_word(3) by (auto simp: is_string_def)
  qed simp_all
  show "t_self_evaluates pl A = Inr ()"
    unfolding t_self_evaluates_def
    by (rule plain_test [OF assms, where f = "FAtom (lit ''t'')"])
      (use eval_atoms in \<open>auto simp: eval_values symbol_value_def has_read_def read_ok_def dest!: t_stands\<close>)
qed

lemma cond_tests:
  assumes "test_room pl A" and "eval_spellings (pl_spellings pl)"
  shows "cond_skips_falsy_and_picks_first_truthy pl A = Inr ()"
    and "cond_treats_fixnum_zero_as_truthy pl A = Inr ()"
    and "ukrainian_cond_is_recognized pl A = Inr ()"
    and "cond_without_a_truthy_clause_returns_nil pl A = Inr ()"
    and "cond_rejects_a_clause_with_more_than_two_forms pl A = Inr ()"
proof -
  note [simp del] = lit_simps
  note facts = eval_values eval_operators [OF assms(2)] form_operator_def clause_parts_def symbol_value_def
  show "cond_skips_falsy_and_picks_first_truthy pl A = Inr ()"
    unfolding cond_skips_falsy_and_picks_first_truthy_def
    by (rule plain_test [OF assms(1) eval_sources(1)])
      (use eval_atoms in \<open>auto simp: facts dest!: decoded\<close>)
  show "cond_treats_fixnum_zero_as_truthy pl A = Inr ()"
    unfolding cond_treats_fixnum_zero_as_truthy_def
    by (rule plain_test [OF assms(1) eval_sources(2)])
      (use eval_atoms in \<open>auto simp: facts dest!: decoded\<close>)
  show "ukrainian_cond_is_recognized pl A = Inr ()"
    unfolding ukrainian_cond_is_recognized_def
    by (rule plain_test [OF assms(1) eval_sources(3)])
      (use eval_atoms in \<open>auto simp: facts dest!: decoded\<close>)
  show "cond_without_a_truthy_clause_returns_nil pl A = Inr ()"
    unfolding cond_without_a_truthy_clause_returns_nil_def
    by (rule plain_test [OF assms(1) eval_sources(4)])
      (use eval_atoms in \<open>auto simp: facts dest!: stands_word(4)\<close>)
  show "cond_rejects_a_clause_with_more_than_two_forms pl A = Inr ()"
    unfolding cond_rejects_a_clause_with_more_than_two_forms_def
    by (rule plain_test [OF assms(1) eval_sources(5)])
      (use eval_atoms in \<open>auto simp: facts\<close>)
qed

lemma quote_tests:
  assumes "test_room pl A" and "eval_spellings (pl_spellings pl)"
  shows "quote_returns_its_argument_unevaluated pl A = Inr ()"
    and "ukrainian_quote_is_recognized pl A = Inr ()"
    and "quote_rejects_more_than_one_argument pl A = Inr ()"
    and "quote_rejects_no_arguments pl A = Inr ()"
    and "unbound_symbol_errors pl A = Inr ()"
proof -
  note [simp del] = lit_simps
  note facts = eval_values eval_operators [OF assms(2)] form_operator_def only_argument_def quote_message call_host_def
    is_named_def
  show "quote_returns_its_argument_unevaluated pl A = Inr ()"
    unfolding quote_returns_its_argument_unevaluated_def
    by (rule plain_test [OF assms(1) eval_sources(6)])
      (use eval_atoms in \<open>auto simp: facts dest!: stands_word(2)\<close>)
  show "ukrainian_quote_is_recognized pl A = Inr ()"
    unfolding ukrainian_quote_is_recognized_def
    by (rule plain_test [OF assms(1) eval_sources(7)])
      (use eval_atoms in \<open>auto simp: facts dest!: stands_word(2)\<close>)
  show "quote_rejects_more_than_one_argument pl A = Inr ()"
    unfolding quote_rejects_more_than_one_argument_def
    by (rule plain_test [OF assms(1) eval_sources(8)])
      (use eval_atoms in \<open>auto simp: facts\<close>)
  show "quote_rejects_no_arguments pl A = Inr ()"
    unfolding quote_rejects_no_arguments_def
    by (rule plain_test [OF assms(1) eval_sources(9)])
      (use eval_atoms in \<open>auto simp: facts\<close>)
  show "unbound_symbol_errors pl A = Inr ()"
    unfolding unbound_symbol_errors_def
    by (rule plain_test [OF assms(1) eval_sources(10)])
      (use eval_atoms in \<open>auto simp: facts\<close>)
qed

text \<open>The tests with host primitives: one recorded call each.\<close>

lemma interned_later:
  assumes "intern symbols_new n = (w, st)"
  shows "symbols_ok st" and "100 \<le> symbols_room st"
    and "later st s \<Longrightarrow> value_word pl s (LSym n) w"
proof -
  have room: "0 < symbols_room symbols_new" by simp
  show "symbols_ok st" by (rule intern_ok [OF symbols_new_ok room assms])
  show "100 \<le> symbols_room st" using intern_room [OF room assms] by simp
  show "value_word pl s (LSym n) w" if "later st s"
    using that intern_name [OF symbols_new_ok room assms] tags_distinct word_standsI [of "rs_arena s" "Leaf w"]
    by (auto simp: later_def)
qed

lemma distinct_names:
  "lit ''player'' \<noteq> lit ''t''" "lit ''x'' \<noteq> lit ''t''" "lit ''x'' \<noteq> lit ''player''" "lit ''player'' \<noteq> lit ''x''"
  "hravets \<noteq> lit ''t''" "lit ''+'' \<noteq> lit ''teleport''" "lit ''teleport'' \<noteq> lit ''+''"
  by (simp_all add: hravets_def)

lemma nested_source:
  "lit ''(teleport player (+ x 10) 200 -10)'' = render (FList [FAtom (lit ''teleport''), FAtom (lit ''player''),
     FList [FAtom (lit ''+''), FAtom (lit ''x''), FAtom (lit ''10'')], FAtom (lit ''200''), FAtom (lit ''-10'')])"
  "call0 dai_zbroiu = render (FList [FAtom dai_zbroiu])"
  by (simp_all add: call0_def)

lemma small_sum: "signed_take_bit 60 (15 :: int) = 15"
  by (simp add: signed_take_bit_int_eq_self)

lemma dispatch_tests:
  assumes "test_room pl A" and "eval_spellings (pl_spellings pl)"
  shows "dispatches_to_host_primitive pl A = Inr ()"
    and "dispatches_ukrainian_identifiers pl A = Inr ()"
    and "dispatches_string_argument pl A = Inr ()"
    and "host_primitive_failure_surfaces pl A = Inr ()"
    and "nested_call_argument_evaluates_before_dispatch pl A = Inr ()"
proof -
  note [simp del] = lit_simps
  note facts = eval_values eval_operators [OF assms(2)] form_operator_def call_host_def log_call_def symbol_value_def
    list_all2_Cons1 element_def argument_is_def distinct_names
  obtain w st where w: "intern symbols_new (lit ''player-handle'') = (w, st)" by fastforce
  note env = logs_register [OF logs_bind [OF logs_new interned_later(3) [OF w]] recording_logs]
  show "dispatches_to_host_primitive pl A = Inr ()"
    unfolding dispatches_to_host_primitive_def w prod.case
    by (rule evaluating_form [OF assms(1) interned_later(1,2) [OF w] unit_sources(2) unit_forms(2) _ _ env])
      (auto simp: facts dest!: decoded)
  obtain v st' where v: "intern symbols_new hravets_handle = (v, st')" by fastforce
  note env' = logs_register [OF logs_bind [OF logs_new interned_later(3) [OF v]] recording_logs]
  show "dispatches_ukrainian_identifiers pl A = Inr ()"
    unfolding dispatches_ukrainian_identifiers_def v prod.case
    by (rule evaluating_form [OF assms(1) interned_later(1,2) [OF v] unit_sources(3) unit_forms(3) _ _ env'])
      (auto simp: facts)
  have room: "symbols_ok symbols_new" "100 \<le> symbols_room symbols_new" by simp_all
  show "dispatches_string_argument pl A = Inr ()"
    unfolding dispatches_string_argument_def
    by (rule evaluating_form [OF assms(1) room unit_sources(4) unit_forms(4) _ _ logs_register [OF logs_new recording_logs]])
      (auto simp: facts is_string_def dest!: decoded stands_word(3))
  show "host_primitive_failure_surfaces pl A = Inr ()"
    unfolding host_primitive_failure_surfaces_def
    by (rule evaluating_form [OF assms(1) room nested_source(2) _ _ _ logs_register [OF logs_new failing_logs]])
      (use eval_atoms in \<open>auto simp: facts\<close>)
  have "logs pl symbols_new (bind_name (bind_name env_new (lit ''player'') (encode_fixnum 42)) (lit ''x'') (encode_fixnum 5))
      (host_bind (host_bind log_host (lit ''player'') (LInt 42)) (lit ''x'') (LInt 5))"
    using word_stands_fixnum [where i = 42] word_stands_fixnum [where i = 5]
    by (intro logs_bind [OF logs_bind [OF logs_new]]) (simp_all add: signed_take_bit_int_eq_self)
  note nested = logs_register [OF logs_register [OF this adding_logs, of "lit ''+''"] recording_logs]
  show "nested_call_argument_evaluates_before_dispatch pl A = Inr ()"
    unfolding nested_call_argument_evaluates_before_dispatch_def
    by (rule evaluating_form [OF assms(1) room nested_source(1) _ _ _ nested])
      (use eval_atoms in \<open>auto simp: facts add_call_def small_sum dest!: decoded\<close>)
qed

end
