(* ===== verification/Fixture_Tests.thy ===== *)
theory Fixture_Tests
  imports Eval_Tests
begin

text \<open>
  \<open>tests/my_lisp_fixture_parity.rs\<close>: the fixtures of the language's reference implementation,
  section by section, against reader, printer, evaluator and the boxed table.
\<close>

section \<open>The fixtures\<close>

text \<open>Section 1: text is read and printed as itself.\<close>

definition round_trip :: "platform \<Rightarrow> rstring \<Rightarrow> rstring \<Rightarrow> arena \<Rightarrow> fatal + unit" where
  "round_trip pl input expected = reading_test pl input (\<lambda>s word. prints_as pl s word expected)"

definition negative_numbers_are_ordinary_tokens :: "platform \<Rightarrow> arena \<Rightarrow> fatal + unit" where
  "negative_numbers_are_ordinary_tokens pl =
     round_trip pl (lit ''('' @ teleportui @ lit '' '' @ hravets @ lit '' 100 200 -10)'')
       (lit ''('' @ teleportui @ lit '' '' @ hravets @ lit '' 100 200 -10)'')"

definition string_literal_keeps_quotes :: "platform \<Rightarrow> arena \<Rightarrow> fatal + unit" where
  "string_literal_keeps_quotes pl = round_trip pl give_pistol give_pistol"

definition zero_argument_call_is_a_one_element_list :: "platform \<Rightarrow> arena \<Rightarrow> fatal + unit" where
  "zero_argument_call_is_a_one_element_list pl = round_trip pl (call0 zberezhy_hru) (call0 zberezhy_hru)"

definition nested_list_argument_reads_as_ordinary_sublist :: "platform \<Rightarrow> arena \<Rightarrow> fatal + unit" where
  "nested_list_argument_reads_as_ordinary_sublist pl =
     round_trip pl (lit ''('' @ teleportui @ lit '' '' @ hravets @ lit '' (+ x 10) y z)'')
       (lit ''('' @ teleportui @ lit '' '' @ hravets @ lit '' (+ x 10) y z)'')"

text \<open>Section 2: dispatch, with the player bound to 42.\<close>

definition first_call_is :: "i64 list \<Rightarrow> eval_error stop + u64 \<Rightarrow> u64 list list \<Rightarrow> fatal + unit" where
  "first_call_is expected result calls =
     and_then (unwrap result) (\<lambda>_. and_then (element calls 0) (\<lambda>args.
       panic_unless (map decode_fixnum args = expected)))"

definition teleport_row :: "platform \<Rightarrow> arena \<Rightarrow> fatal + unit" where
  "teleport_row pl =
     evaluating_test pl symbols_new
       (register_primitive (bind_name env_new hravets (encode_fixnum 42)) teleportui recording)
       (lit ''('' @ teleportui @ lit '' '' @ hravets @ lit '' 100 200 -10)'')
       (\<lambda>s word result calls. first_call_is [42, 100, 200, - 10] result calls)"

definition give_weapon_row_with_string_argument :: "platform \<Rightarrow> arena \<Rightarrow> fatal + unit" where
  "give_weapon_row_with_string_argument pl =
     evaluating_test pl symbols_new (register_primitive env_new dai_zbroiu recording) give_pistol
       (\<lambda>s word result recorded. and_then (unwrap result) (\<lambda>_.
          and_then (element recorded 0) (\<lambda>args.
          and_then (element args 0) (\<lambda>weapon.
          and_then (is_string pl s weapon pistolet) (\<lambda>_. argument_is args 1 5)))))"

definition nested_row :: "platform \<Rightarrow> arena \<Rightarrow> fatal + unit" where
  "nested_row pl =
     evaluating_test pl symbols_new
       (register_primitive (register_primitive
          (bind_name (bind_name env_new hravets (encode_fixnum 42)) (lit ''x'') (encode_fixnum 5))
          (lit ''+'') adding) teleportui recording)
       (lit ''('' @ teleportui @ lit '' '' @ hravets @ lit '' (+ x 10) 200 -10)'')
       (\<lambda>s word result calls. first_call_is [42, 15, 200, - 10] result calls)"

text \<open>Section 3: \<open>cond\<close> with a host predicate on raw words. The names: known-player, unknown-player.\<close>

definition comparing :: "u64 list list host_primitive" where
  "comparing args calls =
     (case and_then (element args 0) (\<lambda>a. and_then (element args 1) (\<lambda>b.
        Inr (if a = b then SYM_T_WORD else WORD_NIL))) of
        Inl f \<Rightarrow> (Inl (Abort f), calls)
      | Inr word \<Rightarrow> (Inr word, calls))"

definition vidomyi :: rstring where
  "vidomyi = [0x432, 0x456, 0x434, 0x43E, 0x43C, 0x438, 0x439, 0x2D] @ hravets"
definition nevidomyi :: rstring where "nevidomyi = [0x43D, 0x435] @ vidomyi"

definition known_player_branch :: "platform \<Rightarrow> arena \<Rightarrow> fatal + unit" where
  "known_player_branch pl =
     evaluating_test pl symbols_new
       (register_primitive (bind_name env_new hravets (encode_fixnum 42)) (lit ''eq'') comparing)
       (lit ''(cond ((eq '' @ hravets @ lit '' 42) (quote '' @ vidomyi @ lit '')) (t (quote '' @ nevidomyi @ lit '')))'')
       (\<lambda>s word result calls. and_then (unwrap result) (\<lambda>v. prints_as pl s v vidomyi))"

text \<open>Section 4: a name without a primitive.\<close>

definition save_game_unregistered :: "platform \<Rightarrow> arena \<Rightarrow> fatal + unit" where
  "save_game_unregistered pl =
     evaluating_test pl symbols_new env_new (call0 zberezhy_hru)
       (\<lambda>s word result calls. fails_with (UnknownSymbol zberezhy_hru) result)"

text \<open>Section 5: fractions.\<close>

definition rational_prints :: "platform \<Rightarrow> i64 \<Rightarrow> i64 \<Rightarrow> rstring \<Rightarrow> arena \<Rightarrow> fatal + unit" where
  "rational_prints pl n d expected A =
     (case add_rational (pl_overflow_checks pl) (pl_codec pl) boxed_new n d of
        (r, b) \<Rightarrow> and_then r (\<lambda>word.
          prints_as pl \<lparr>rs_symbols = symbols_new, rs_boxed = b, rs_arena = A\<rparr> word expected))"

definition rational_prints_as_reduced_fraction :: "platform \<Rightarrow> arena \<Rightarrow> fatal + unit" where
  "rational_prints_as_reduced_fraction pl = rational_prints pl 5 336 (lit ''5/336'')"

definition rational_reduces_at_construction :: "platform \<Rightarrow> arena \<Rightarrow> fatal + unit" where
  "rational_reduces_at_construction pl = rational_prints pl 10 20 (lit ''1/2'')"

section \<open>They hold\<close>

definition fixture_spellings :: "spellings \<Rightarrow> bool" where
  "fixture_spellings s \<longleftrightarrow> eval_spellings s \<and> spelled s zberezhy_hru = Op_Call zberezhy_hru
     \<and> spelled s (lit ''eq'') = Op_Call (lit ''eq'')"

lemma fixture_operators:
  assumes "fixture_spellings s"
  shows "spelled s zberezhy_hru = Op_Call zberezhy_hru" "spelled s (lit ''eq'') = Op_Call (lit ''eq'')"
    "eval_spellings s"
  using assms by (simp_all add: fixture_spellings_def)

lemma fixture_names:
  "plain_symbol (lit ''y'')" "plain_symbol (lit ''z'')" "plain_symbol (lit ''eq'')"
  "plain_symbol vidomyi" "plain_symbol nevidomyi" "plain_symbol zberezhy_hru"
  using test_names(3)
  by (simp_all add: plain_symbol_def atom_ok_def is_delimiter_def is_whitespace_def parse_i64_def
      vidomyi_def nevidomyi_def hravets_def)

lemmas fixture_atoms = fixture_names [THEN plain_symbol_atom] eval_atoms
lemmas fixture_values = fixture_names [THEN plain_symbol_value] eval_values

abbreviation call_form :: "rstring \<Rightarrow> form list \<Rightarrow> form" where
  "call_form name fs \<equiv> FList (FAtom name # fs)"

lemma fixture_sources:
  "lit ''('' @ teleportui @ lit '' '' @ hravets @ lit '' 100 200 -10)'' = render (call_form teleportui
     [FAtom hravets, FAtom (lit ''100''), FAtom (lit ''200''), FAtom (lit ''-10'')])"
  "call0 zberezhy_hru = render (call_form zberezhy_hru [])"
  "lit ''('' @ teleportui @ lit '' '' @ hravets @ lit '' (+ x 10) y z)'' = render (call_form teleportui
     [FAtom hravets, call_form (lit ''+'') [FAtom (lit ''x''), FAtom (lit ''10'')], FAtom (lit ''y''), FAtom (lit ''z'')])"
  "lit ''('' @ teleportui @ lit '' '' @ hravets @ lit '' (+ x 10) 200 -10)'' = render (call_form teleportui
     [FAtom hravets, call_form (lit ''+'') [FAtom (lit ''x''), FAtom (lit ''10'')], FAtom (lit ''200''), FAtom (lit ''-10'')])"
  "lit ''(cond ((eq '' @ hravets @ lit '' 42) (quote '' @ vidomyi @ lit '')) (t (quote '' @ nevidomyi @ lit '')))''
     = render (cond_form (lit ''cond'')
         [(call_form (lit ''eq'') [FAtom hravets, FAtom (lit ''42'')], call_form (lit ''quote'') [FAtom vidomyi]),
          (FAtom (lit ''t''), call_form (lit ''quote'') [FAtom nevidomyi])])"
  by (simp_all add: call0_def)

lemma round_trip_form:
  assumes "test_room pl A" and "input = render f" and "form_ok f" and "cells_of f \<le> 16" and "length (toks f) \<le> 50"
    and "shown f = render f"
  shows "round_trip pl input input A = Inr ()"
  unfolding round_trip_def
  by (rule reading_test_form [OF assms(1-5)]) (use assms(2,3,6) in \<open>simp add: prints_form\<close>)

lemma reader_fixtures:
  assumes "test_room pl A"
  shows "negative_numbers_are_ordinary_tokens pl A = Inr ()" and "string_literal_keeps_quotes pl A = Inr ()"
    and "zero_argument_call_is_a_one_element_list pl A = Inr ()"
    and "nested_list_argument_reads_as_ordinary_sublist pl A = Inr ()"
proof -
  note [simp del] = lit_simps
  have ten: "parse_i64 (lit ''10'') = Some 10" "dec_int 10 = lit ''10''" "decode_fixnum (encode_fixnum 10) = 10"
    by (simp_all add: parse_i64_def dec_int_def dec_nat_def digits_of.simps digit_char_def decode_encode_iff lit_simps)
  note shown = numerals numeral_texts ten fixture_names [THEN plain_symbol_no_number]
    eval_names [THEN plain_symbol_no_number] unit_names [THEN plain_symbol_no_number]
  show "negative_numbers_are_ordinary_tokens pl A = Inr ()"
    unfolding negative_numbers_are_ordinary_tokens_def
    by (rule round_trip_form [OF assms fixture_sources(1)]) (use fixture_atoms in \<open>simp_all add: shown\<close>)
  show "string_literal_keeps_quotes pl A = Inr ()"
    unfolding string_literal_keeps_quotes_def
    by (rule round_trip_form [OF assms unit_sources(4) unit_forms(4)]) (simp_all add: shown escape_words)
  show "zero_argument_call_is_a_one_element_list pl A = Inr ()"
    unfolding zero_argument_call_is_a_one_element_list_def
    by (rule round_trip_form [OF assms fixture_sources(2)]) (use fixture_atoms in \<open>simp_all add: shown\<close>)
  show "nested_list_argument_reads_as_ordinary_sublist pl A = Inr ()"
    unfolding nested_list_argument_reads_as_ordinary_sublist_def
    by (rule round_trip_form [OF assms fixture_sources(3)]) (use fixture_atoms in \<open>simp_all add: shown\<close>)
qed

text \<open>The predicate on words is equality of integers on integers.\<close>

definition compare_call :: "lisp list \<Rightarrow> call_log \<Rightarrow> (rstring + lisp) \<times> call_log" where
  "compare_call vs a =
     (case vs of
        LInt i # LInt j # us \<Rightarrow> (Inr (if i = j then LSym (lit ''t'') else LNil), a)
      | _ \<Rightarrow> (Inr LNil, None))"

lemma fixnum_words:
  assumes "tag_of x = TAG_FIXNUM" and "tag_of y = TAG_FIXNUM" and "decode_fixnum x = decode_fixnum y"
  shows "x = y"
proof (rule bit_eqI)
  fix n
  assume n: "possible_bit TYPE(64 word) n"
  show "bit x n = bit y n"
  proof (cases "n < 3")
    case True
    have "take_bit 3 z = tag_of z" for z :: u64
      by (simp add: tag_of_def TAG_MASK_def take_bit_eq_mask mask_eq_exp_minus_1)
    then have "bit (take_bit 3 x) n = bit (take_bit 3 y) n" using assms(1,2) by simp
    then show ?thesis using True by (simp add: bit_take_bit_iff)
  next
    case False
    have "bit (decode_fixnum x) (n - 3) = bit (decode_fixnum y) (n - 3)" using assms(3) by simp
    moreover have "\<not> 61 \<le> n - 3" "3 + (n - 3) = n" using False n by simp_all
    ultimately show ?thesis by (simp add: decode_fixnum_def bit_signed_drop_bit_iff)
  qed
qed

lemma integers_equal:
  assumes "word_stands c st A b (LInt i) x" and "word_stands c st A b (LInt j) y"
  shows "x = y \<longleftrightarrow> i = j"
proof -
  have "tag_of x = TAG_FIXNUM" "tag_of y = TAG_FIXNUM"
    using assms by (auto simp: word_stands_def elim!: stands.elims(2))
  then show ?thesis
    using fixnum_words [of x y] stands_word(1) [OF assms(1)] stands_word(1) [OF assms(2)]
    by (auto intro: signed_word_eqI)
qed

lemma comparing_logs: "logs_call pl compare_call comparing"
proof -
  have "simulates (pl_codec pl) (\<lambda>_. rs_boxed s) (logged pl s) (\<lambda>a. a \<noteq> None)
      (word_stands (pl_codec pl) (rs_symbols s) (rs_arena s)) calls (compare_call vs a) (comparing xs calls)"
    if log: "logged pl s a calls" and args: "list_all2 (value_word pl s) vs xs" for s a calls vs xs
  proof (cases "\<exists>i j us. vs = LInt i # LInt j # us")
    case True
    then obtain i j us x y ys where v: "vs = LInt i # LInt j # us" "xs = x # y # ys"
        "value_word pl s (LInt i) x" "value_word pl s (LInt j) y"
      using args by (auto simp: list_all2_Cons1)
    then show ?thesis
      using log integers_equal [OF v(3,4)] word_stands_true word_stands_nil
      by (simp add: compare_call_def comparing_def element_def simulates_value)
  next
    case False
    then have "snd (compare_call vs a) = None" by (auto simp: compare_call_def split: list.split lisp.split)
    then show ?thesis by (simp add: simulates_def)
  qed
  moreover have "snd (compare_call vs None) = None" for vs
    by (auto simp: compare_call_def split: list.split lisp.split)
  ultimately show ?thesis by (simp add: logs_call_def)
qed

lemma prints_value:
  assumes "has_read pl s f t" and "value_word pl s v x"
  shows "prints_as pl s x (show_lisp v) = Inr ()"
proof -
  obtain u where u: "word_of u = x" "repr (rs_arena s) u" "stands (pl_codec pl) (rs_symbols s) (rs_boxed s) u v"
    using assms(2) by (auto simp: word_stands_def)
  then show ?thesis
    using value_to_string_tree [of "rs_arena s" u] print_stands [OF u(3)] assms(1)
    by (simp add: prints_as_def has_read_def panic_unless_def)
qed

lemma evaluator_fixtures:
  assumes "test_room pl A" and "fixture_spellings (pl_spellings pl)"
  shows "teleport_row pl A = Inr ()" and "give_weapon_row_with_string_argument pl A = Inr ()"
    and "nested_row pl A = Inr ()" and "known_player_branch pl A = Inr ()"
    and "save_game_unregistered pl A = Inr ()"
proof -
  note [simp del] = lit_simps
  note ops = fixture_operators(1,2) [OF assms(2)] eval_operators [OF fixture_operators(3) [OF assms(2)]]
  have other: "lit ''x'' \<noteq> hravets" "hravets \<noteq> lit ''x''" "teleportui \<noteq> lit ''+''" "lit ''+'' \<noteq> teleportui"
    by (simp_all add: hravets_def teleportui_def lit_simps)
  note facts = fixture_values ops form_operator_def call_host_def log_call_def symbol_value_def
    list_all2_Cons1 element_def distinct_names other first_call_is_def clause_parts_def only_argument_def
  have room: "symbols_ok symbols_new" "100 \<le> symbols_room symbols_new" by simp_all
  have player: "logs pl symbols_new (bind_name env_new hravets (encode_fixnum 42)) (host_bind log_host hravets (LInt 42))"
    using word_stands_fixnum [where i = 42]
    by (intro logs_bind [OF logs_new]) (simp add: signed_take_bit_int_eq_self)
  show "teleport_row pl A = Inr ()"
    unfolding teleport_row_def
    by (rule evaluating_form [OF assms(1) room fixture_sources(1) _ _ _ logs_register [OF player recording_logs]])
      (use fixture_atoms in \<open>auto simp: facts dest!: decoded\<close>)
  show "give_weapon_row_with_string_argument pl A = Inr ()"
    using dispatch_tests(3) [OF assms(1) fixture_operators(3) [OF assms(2)]]
    by (simp add: give_weapon_row_with_string_argument_def dispatches_string_argument_def)
  have "logs pl symbols_new (bind_name (bind_name env_new hravets (encode_fixnum 42)) (lit ''x'') (encode_fixnum 5))
      (host_bind (host_bind log_host hravets (LInt 42)) (lit ''x'') (LInt 5))"
    using word_stands_fixnum [where i = 5] by (intro logs_bind [OF player]) (simp add: signed_take_bit_int_eq_self)
  note nested = logs_register [OF logs_register [OF this adding_logs, of "lit ''+''"] recording_logs]
  show "nested_row pl A = Inr ()"
    unfolding nested_row_def
    by (rule evaluating_form [OF assms(1) room fixture_sources(4) _ _ _ nested])
      (use fixture_atoms in \<open>auto simp: facts add_call_def small_sum dest!: decoded\<close>)
  show "known_player_branch pl A = Inr ()"
    unfolding known_player_branch_def
    by (rule evaluating_form [OF assms(1) room fixture_sources(5) _ _ _ logs_register [OF player comparing_logs]])
      (use fixture_atoms in \<open>auto simp: facts compare_call_def intro: prints_value [where v = "LSym n" for n, simplified]\<close>)
  show "save_game_unregistered pl A = Inr ()"
    unfolding save_game_unregistered_def
    by (rule plain_test [OF assms(1) fixture_sources(2)]) (use fixture_atoms in \<open>auto simp: facts\<close>)
qed

lemma rational_fixtures:
  assumes "test_room pl A"
  shows "rational_prints_as_reduced_fraction pl A = Inr ()" and "rational_reduces_at_construction pl A = Inr ()"
proof -
  have prints: "rational_prints pl n d (show_boxed (Rational n' d')) A = Inr ()"
    if "reduce (pl_overflow_checks pl) n d = Inr (n', d')" "d \<noteq> 0" for n d n' d'
  proof -
    let ?e = "\<lparr>entry_value = Rational n' d', entry_lifetime = Persistent\<rparr>" and ?c = "pl_codec pl"
    have codec: "codec_ok ?c" "0 < boxed_room ?c []" "arena_ok A" using assms by (simp_all add: test_room_def)
    obtain w where w: "boxed_add ?c [] ?e = (Inr w, [Some ?e])" "tag_of w = TAG_BOXED"
      using boxed_add_room [OF codec(1,2), of ?e] by auto
    have "boxed_get_entry ?c [Some ?e] w = Some ?e" by (rule boxes.put_get [OF codec(1,2) w(1)])
    then have "value_to_string ?c symbols_new [Some ?e] A w = Inr (show_boxed (Rational n' d'))"
      using value_to_string_tree [OF codec(3), of "Leaf w"] w(2) by (simp add: print_leaf_def)
    then show ?thesis
      using w(1) that
      by (simp add: rational_prints_def prints_as_def add_rational_def add_rational_as_def boxed_new_def)
  qed
  show "rational_prints_as_reduced_fraction pl A = Inr ()"
    using prints [OF reduced(1)] unfolding rational_prints_as_reduced_fraction_def
    by (simp add: dec_int_def dec_nat_def digits_of.simps digit_char_def)
  show "rational_reduces_at_construction pl A = Inr ()"
    using prints [OF reduced(2)] unfolding rational_reduces_at_construction_def
    by (simp add: dec_int_def dec_nat_def digits_of.simps digit_char_def)
qed

section \<open>All of them\<close>

text \<open>The unit tests of the modules, in the order of the files, and the fixtures.\<close>

definition nucleus_test_list :: "platform \<Rightarrow> (arena \<Rightarrow> fatal + unit) list" where
  "nucleus_test_list pl = [cons_car_cdr_roundtrip, (\<lambda>A. eq_matches_and_distinguishes),
      atom_distinguishes_cons_from_non_cons, (\<lambda>A. game_handle_round_trips_and_is_distinct (pl_codec pl))]"

definition reader_and_printer_test_list :: "platform \<Rightarrow> (arena \<Rightarrow> fatal + unit) list" where
  "reader_and_printer_test_list pl =
     [reads_bare_fixnum pl, reads_negative_fixnum pl, reads_empty_call pl, reads_teleport_call pl,
      reads_ukrainian_identifiers pl, reads_string_literal_argument pl,
      two_equal_string_literals_are_independent pl, rejects_unterminated_string pl,
      rejects_trailing_input pl, rejects_unbalanced_close_paren pl,
      rejects_a_form_larger_than_the_arena pl, active_dispatcher_script_is_readable pl,
      prints_fixnum pl, prints_negative_fixnum pl, prints_nil pl, prints_symbol_and_t pl,
      prints_list_round_trip pl, prints_dotted_pair pl, prints_string_literal_with_quotes pl,
      prints_game_handle_without_leaking pl]"

definition evaluator_test_list :: "platform \<Rightarrow> (arena \<Rightarrow> fatal + unit) list" where
  "evaluator_test_list pl =
     [fixnum_self_evaluates pl, string_self_evaluates pl, unbound_symbol_errors pl,
      dispatches_to_host_primitive pl, dispatches_string_argument pl,
      host_primitive_failure_surfaces pl, nested_call_argument_evaluates_before_dispatch pl,
      dispatches_ukrainian_identifiers pl, cond_skips_falsy_and_picks_first_truthy pl,
      cond_treats_fixnum_zero_as_truthy pl, t_self_evaluates pl,
      quote_returns_its_argument_unevaluated pl, ukrainian_quote_is_recognized pl,
      ukrainian_cond_is_recognized pl, cond_without_a_truthy_clause_returns_nil pl,
      quote_rejects_more_than_one_argument pl, quote_rejects_no_arguments pl,
      cond_rejects_a_clause_with_more_than_two_forms pl]"

definition fixture_list :: "platform \<Rightarrow> (arena \<Rightarrow> fatal + unit) list" where
  "fixture_list pl =
     [negative_numbers_are_ordinary_tokens pl, string_literal_keeps_quotes pl,
      zero_argument_call_is_a_one_element_list pl,
      nested_list_argument_reads_as_ordinary_sublist pl, teleport_row pl,
      give_weapon_row_with_string_argument pl, nested_row pl, known_player_branch pl,
      save_game_unregistered pl, rational_prints_as_reduced_fraction pl,
      rational_reduces_at_construction pl]"

lemma module_tests:
  assumes "test_room pl A" and "fixture_spellings (pl_spellings pl)"
  shows "list_all (\<lambda>test. test A = Inr ()) (nucleus_test_list pl)"
    and "list_all (\<lambda>test. test A = Inr ()) (reader_and_printer_test_list pl)"
    and "list_all (\<lambda>test. test A = Inr ()) (evaluator_test_list pl)"
    and "list_all (\<lambda>test. test A = Inr ()) (fixture_list pl)"
proof -
  note spellings = fixture_operators(3) [OF assms(2)]
  have "codec_ok (pl_codec pl)" "2 \<le> boxed_room (pl_codec pl) []" using assms(1) by (simp_all add: test_room_def)
  then show "list_all (\<lambda>test. test A = Inr ()) (nucleus_test_list pl)"
    using nucleus_tests [OF assms(1)] boxed_test by (simp add: nucleus_test_list_def)
  show "list_all (\<lambda>test. test A = Inr ()) (reader_and_printer_test_list pl)"
    unfolding reader_and_printer_test_list_def
    by (simp add: reads_fixnum_tests reads_call_tests two_literals_test rejecting_tests dispatcher_test
        printing_tests printing_other_tests assms(1))
  show "list_all (\<lambda>test. test A = Inr ()) (evaluator_test_list pl)"
    unfolding evaluator_test_list_def
    by (simp add: self_evaluation_tests cond_tests quote_tests dispatch_tests assms(1) spellings)
  show "list_all (\<lambda>test. test A = Inr ()) (fixture_list pl)"
    unfolding fixture_list_def
    by (simp add: reader_fixtures evaluator_fixtures rational_fixtures assms)
qed

end
