(* ===== verification/Asserting.thy ===== *)
theory Asserting
  imports Ffi_Tests Unit_Tests
begin

text \<open>
  Callbacks that assert. A panic in an \<open>extern "C"\<close> callback aborts the process, so a callback
  with an \<open>assert_eq!\<close> on its arguments is outside the contract of \<open>Host\<close>. Its refusing twin, which
  reports a status code where the original aborts, is inside the contract; and errors are never
  caught inside the language, so wherever the evaluation with the twin does not end in that
  refusal, the evaluation with the original is the same. With this the two tests of \<open>ffi.rs\<close> whose
  callbacks assert run through.
\<close>

section \<open>Evaluation with refusing twins\<close>

definition declined :: "rstring \<Rightarrow> eval_error stop + 'a \<Rightarrow> bool" where
  "declined m r \<longleftrightarrow> (\<exists>n. r = Inl (Raise (HostPrimitiveFailed n m)))"

definition twins :: "rstring \<Rightarrow> 'w env \<Rightarrow> 'w env \<Rightarrow> bool" where
  "twins m E E' \<longleftrightarrow> bindings E' = bindings E \<and>
     (\<forall>n. case (primitives E n, primitives E' n) of
        (None, None) \<Rightarrow> True
      | (Some g, Some g') \<Rightarrow> \<forall>args w. fst (g' args w) = Inl (Raise m) \<or> g args w = g' args w
      | _ \<Rightarrow> False)"

text \<open>The run with the twin is declined, or the runs are the same.\<close>

definition same_unless :: "rstring \<Rightarrow> (eval_error stop + 'a) \<times> 'w \<Rightarrow> (eval_error stop + 'a) \<times> 'w \<Rightarrow> bool" where
  "same_unless m x y \<longleftrightarrow> declined m (fst y) \<or> x = y"

lemma same_unless_refl [simp]: "same_unless m x x"
  by (simp add: same_unless_def)

lemma same_unless_then:
  assumes "same_unless m x y" and "\<And>v w. y = (Inr v, w) \<Longrightarrow> same_unless m (f v w) (g v w)"
  shows "same_unless m (step_then x f) (step_then y g)"
  using assms by (cases y; cases "fst y") (auto simp: same_unless_def declined_def)

lemma twins_refl [simp]: "twins m E E"
  by (auto simp: twins_def split: option.split)

lemma call_agrees:
  assumes "twins m (ctx_env X) E'"
  shows "same_unless m (call_primitive X name args w) (call_primitive (X\<lparr>ctx_env := E'\<rparr>) name args w)"
proof -
  have t: "case (primitives (ctx_env X) name, primitives E' name) of
        (None, None) \<Rightarrow> True
      | (Some g, Some g') \<Rightarrow> \<forall>args w. fst (g' args w) = Inl (Raise m) \<or> g args w = g' args w
      | _ \<Rightarrow> False"
    using assms by (simp add: twins_def)
  show ?thesis
  proof (cases "primitives (ctx_env X) name")
    case None
    with t show ?thesis by (simp add: call_primitive_def split: option.splits)
  next
    case (Some g)
    with t obtain g' where g': "primitives E' name = Some g'"
        "fst (g' args w) = Inl (Raise m) \<or> g args w = g' args w"
      by (auto split: option.splits)
    then show ?thesis
      using Some by (cases "g' args w") (auto simp: call_primitive_def same_unless_def declined_def)
  qed
qed

lemma spelled_twin [simp]:
  "is_cond_spelling (X\<lparr>ctx_env := E'\<rparr>) name = is_cond_spelling X name"
  "is_quote_spelling (X\<lparr>ctx_env := E'\<rparr>) name = is_quote_spelling X name"
  "is_car_spelling (X\<lparr>ctx_env := E'\<rparr>) name = is_car_spelling X name"
  "is_cdr_spelling (X\<lparr>ctx_env := E'\<rparr>) name = is_cdr_spelling X name"
  by (simp_all add: is_cond_spelling_def is_quote_spelling_def is_car_spelling_def is_cdr_spelling_def)

lemma symbol_twin: "twins m (ctx_env X) E' \<Longrightarrow> eval_symbol (X\<lparr>ctx_env := E'\<rparr>) v = eval_symbol X v"
  by (auto simp: eval_symbol_def twins_def split: option.splits)

lemma eval_agrees:
  assumes "twins m (ctx_env X) E'"
  shows "same_unless m (eval X n v w) (eval (X\<lparr>ctx_env := E'\<rparr>) n v w)"
    and "same_unless m (eval_list X n v w) (eval_list (X\<lparr>ctx_env := E'\<rparr>) n v w)"
    and "same_unless m (eval_checked_accessor X n v c acc w) (eval_checked_accessor (X\<lparr>ctx_env := E'\<rparr>) n v c acc w)"
    and "same_unless m (eval_args X n v w) (eval_args (X\<lparr>ctx_env := E'\<rparr>) n v w)"
    and "same_unless m (eval_cond X n v w) (eval_cond (X\<lparr>ctx_env := E'\<rparr>) n v w)"
proof (induction n arbitrary: v w c acc)
  case (Suc n)
  note twin = symbol_twin [OF assms] call_agrees [OF assms]
  {
    case 1
    show ?case by (simp add: twin(1) Suc.IH(2))
  next
    case 2
    show ?case
      by (auto intro!: same_unless_then Suc.IH simp: twin simp del: lit_simps split: option.split)
  next
    case 3
    show ?case by (auto intro!: same_unless_then simp: Suc.IH)
  next
    case 4
    show ?case by (auto intro!: same_unless_then simp: Suc.IH)
  next
    case 5
    show ?case by (auto intro!: same_unless_then simp: Suc.IH)
  }
qed simp_all

section \<open>The same for text\<close>

definition with_env :: "u64 \<Rightarrow> 'h world env \<Rightarrow> 'h process \<Rightarrow> 'h process" where
  "with_env p E P =
     (case p_sessions P p of None \<Rightarrow> P | Some S \<Rightarrow> put_session P p (S\<lparr>s_env := E\<rparr>))"

lemma with_env_parts [simp]:
  "p_arena (with_env p E P) = p_arena P" "p_host (with_env p E P) = p_host P"
  "tables_of (with_env p E P) = tables_of P"
  "p_sessions (with_env p E P) r =
     (if r = p then map_option (\<lambda>S. S\<lparr>s_env := E\<rparr>) (p_sessions P p) else p_sessions P r)"
  by (auto simp: with_env_def tables_of_def put_session_def split: option.split)

lemma process_eqI:
  "p_arena P = p_arena Q \<Longrightarrow> p_host P = p_host Q \<Longrightarrow> (\<And>r. p_sessions P r = p_sessions Q r) \<Longrightarrow> P = (Q :: 'h process)"
  by (cases P; cases Q) auto

text \<open>Each stage leaves the environments alone.\<close>

definition env_at :: "u64 \<Rightarrow> 'h process \<Rightarrow> 'h world env \<Rightarrow> bool" where
  "env_at p P E \<longleftrightarrow> (\<exists>S. p_sessions P p = Some S \<and> s_env S = E)"

lemma read_stage_twin:
  assumes "p_sessions P p = Some S" and "read_stage pl P p S s = (r, Q)"
  shows "read_stage pl (with_env p E' P) p (S\<lparr>s_env := E'\<rparr>) s = (r, with_env p E' Q)"
    and "env_at p Q (s_env S)"
  using assms
  by (auto simp: read_stage_def env_at_def put_session_def intro!: process_eqI split: prod.splits)

lemma with_tables_twin: "with_tables (with_env p E' P) T = with_env p E' (with_tables P T)"
  by (rule process_eqI) (auto simp: with_tables_def split: option.splits)

lemma eval_stage_twin:
  assumes "p_sessions P p = Some S" and "twins m (s_env S) E'"
    and "eval_stage pl (with_env p E' P) (S\<lparr>s_env := E'\<rparr>) word = (r, Q')" and "\<not> declined m r"
  obtains Q where "eval_stage pl P S word = (r, Q)" and "Q' = with_env p E' Q" and "env_at p Q (s_env S)"
proof -
  let ?X = "\<lparr>ctx_spellings = pl_spellings pl, ctx_arena = p_arena P, ctx_env = s_env S, ctx_symbols = s_symbols S\<rparr>"
  let ?w = "\<lparr>w_tables = tables_of P, w_host = p_host P\<rparr>"
  obtain q w where q: "eval (?X\<lparr>ctx_env := E'\<rparr>) eval_fuel word ?w = (q, w)" by fastforce
  have host: "with_env p E' P\<lparr>p_host := h\<rparr> = with_env p E' (P\<lparr>p_host := h\<rparr>)" for h
    by (rule process_eqI) auto
  have r: "q = r" "Q' = with_env p E' (with_tables (P\<lparr>p_host := w_host w\<rparr>) (w_tables w))"
    using assms(3) q by (simp_all add: eval_stage_def host with_tables_twin)
  have "eval ?X eval_fuel word ?w = (q, w)"
    using eval_agrees(1) [of m ?X E' eval_fuel word ?w] assms(2,4) q r(1) by (simp add: same_unless_def)
  then show thesis
    by (intro that [OF _ r(2)]) (use assms(1) r(1) in \<open>auto simp: eval_stage_def env_at_def with_tables_def\<close>)
qed

lemma print_stage_twin [simp]: "print_stage pl (with_env p E' P) p v = print_stage pl P p v"
  by (simp add: print_stage_def split: option.split)

lemma clear_stage_twin: "clear_stage (with_env p E' P) p = with_env p E' (clear_stage P p)"
  by (rule process_eqI) (auto simp: clear_stage_def put_session_def split: option.splits)

lemma clear_stage_env: "env_at p P E \<Longrightarrow> env_at p (clear_stage P p) E"
  by (auto simp: env_at_def clear_stage_def)

text \<open>A message that does not end as a refusal does comes from the same evaluation.\<close>

lemma eval_str_twin:
  assumes "p_sessions P p = Some S" and "twins m (s_env S) E'"
    and "eval_str pl (with_env p E' P) p (S\<lparr>s_env := E'\<rparr>) s = (Inr x, Q')"
    and "\<And>n. x \<noteq> eval_error_message (HostPrimitiveFailed n m)"
  obtains Q where "eval_str pl P p S s = (Inr x, Q)" and "Q' = with_env p E' Q" and "env_at p Q (s_env S)"
proof -
  obtain r P1 where read: "read_stage pl P p S s = (r, P1)" by fastforce
  note twin = read_stage_twin [OF assms(1) read]
  have run: "(case (r, with_env p E' P1) of
        (Inl (Abort f), P1) \<Rightarrow> (Inl f, P1)
      | (Inl (Raise e), P1) \<Rightarrow> (Inr (read_error_message e), clear_stage P1 p)
      | (Inr word, P1) \<Rightarrow>
          (case p_sessions P1 p of
             None \<Rightarrow> (Inl (Dangling_Session p), P1)
           | Some S1 \<Rightarrow>
               (case eval_stage pl P1 S1 word of
                  (Inl (Abort f), P2) \<Rightarrow> (Inl f, P2)
                | (Inl (Raise e), P2) \<Rightarrow> (Inr (eval_error_message e), clear_stage P2 p)
                | (Inr v, P2) \<Rightarrow>
                    (case print_stage pl P2 p v of
                       Inl f \<Rightarrow> (Inl f, P2)
                     | Inr s \<Rightarrow> (Inr s, clear_stage P2 p))))) = (Inr x, Q')"
    using assms(3) unfolding eval_str_def twin(1) .
  show thesis
  proof (cases r)
    case (Inl e)
    then obtain e' where "e = Raise e'" "x = read_error_message e'" "Q' = clear_stage (with_env p E' P1) p"
      using run by (cases e) auto
    then show thesis
      using Inl read twin(2) by (intro that [of "clear_stage P1 p"]) (auto simp: eval_str_def clear_stage_twin clear_stage_env)
  next
    case (Inr word)
    obtain S1 where S1: "p_sessions P1 p = Some S1" "s_env S1 = s_env S"
      using twin(2) by (auto simp: env_at_def)
    obtain q Q1 where q: "eval_stage pl (with_env p E' P1) (S1\<lparr>s_env := E'\<rparr>) word = (q, Q1)" by fastforce
    have "\<not> declined m q"
    proof
      assume "declined m q"
      then obtain n where "q = Inl (Raise (HostPrimitiveFailed n m))" by (auto simp: declined_def)
      then have "x = eval_error_message (HostPrimitiveFailed n m)"
        using run Inr S1(1) q by (simp del: eval_error_message.simps)
      with assms(4) show False by blast
    qed
    then obtain P2 where P2: "eval_stage pl P1 S1 word = (q, P2)" "Q1 = with_env p E' P2" "env_at p P2 (s_env S)"
      using eval_stage_twin [OF S1(1) _ q] assms(2) S1(2) by metis
    show thesis
    proof (cases q)
      case (Inl e)
      then obtain e' where "e = Raise e'" "x = eval_error_message e'" "Q' = clear_stage Q1 p"
        using run Inr S1(1) q by (cases e) auto
      then show thesis
        using Inl Inr read S1(1) P2 by (intro that [of "clear_stage P2 p"]) (auto simp: eval_str_def clear_stage_twin clear_stage_env)
    next
      case (Inr v)
      then have "print_stage pl P2 p v = Inr x" "Q' = clear_stage Q1 p"
        using run \<open>r = Inr word\<close> S1(1) q P2(2) by (auto split: sum.splits)
      then show thesis
        using Inr \<open>r = Inr word\<close> read S1(1) P2
        by (intro that [of "clear_stage P2 p"]) (auto simp: eval_str_def clear_stage_twin clear_stage_env)
    qed
  qed
qed

section \<open>A caller with asserting callbacks\<close>

text \<open>The caller's state is ready once the asserting callbacks are replaced by their twins.\<close>

definition twin_of :: "u64 \<Rightarrow> 'h world env \<Rightarrow> 'h c_side \<Rightarrow> 'h c_side" where
  "twin_of p E' C = C\<lparr>c_process := with_env p E' (c_process C)\<rparr>"

definition ready_but ::
  "platform \<Rightarrow> rstring \<Rightarrow> u64 \<Rightarrow> u64 \<Rightarrow> 'h c_side \<Rightarrow> int lisp_host \<Rightarrow> nat \<Rightarrow> 'h c_side \<Rightarrow> bool" where
  "ready_but pl m p q C0 H k C \<longleftrightarrow> (\<exists>E E'. env_at p (c_process C) E \<and> twins m E E'
     \<and> ready pl H p q C0 k (twin_of p E' C))"

definition runs :: "('s \<Rightarrow> bool) \<Rightarrow> ('s \<Rightarrow> ('e + unit) \<times> 's) \<Rightarrow> ('s \<Rightarrow> bool) \<Rightarrow> bool" where
  "runs R body R' \<longleftrightarrow> (\<forall>C. R C \<longrightarrow> (\<exists>D. body C = (Inr (), D) \<and> R' D))"

lemma runs_also: "runs R f R' \<Longrightarrow> runs R' g R'' \<Longrightarrow> runs R (and_also f g) R''"
  unfolding runs_def and_also_def by fastforce

lemma with_env_same: "env_at p P E \<Longrightarrow> with_env p E P = P"
  by (rule process_eqI) (auto simp: env_at_def)

lemma ready_but_intro: "ready pl H p q C0 k C \<Longrightarrow> ready_but pl m p q C0 H k C"
proof -
  assume ready: "ready pl H p q C0 k C"
  then obtain S where "p_sessions (c_process C) p = Some S" by (auto simp: ready_def)
  then have "env_at p (c_process C) (s_env S)" by (simp add: env_at_def)
  then show ?thesis
    unfolding ready_but_def twin_of_def
    using ready with_env_same [of p "c_process C" "s_env S"]
    by (intro exI [of _ "s_env S"] exI [of _ "s_env S"]) simp
qed

lemma twins_register:
  assumes "twins m E E'" and "\<And>args w. fst (g' args w) = Inl (Raise m) \<or> g args w = g' args w"
  shows "twins m (register_primitive E n g) (register_primitive E' n g')"
  using assms by (auto simp: twins_def)

lemma twins_bind: "twins m E E' \<Longrightarrow> twins m (bind_name E n v) (bind_name E' n v)"
  by (simp add: twins_def)

lemma on_env:
  assumes "env_at p P E" and "p \<noteq> 0" and "text_ok n"
  shows "wsm_register_primitive pl P p (Some (utf8_encode n)) f =
      (Inr 0, with_env p (register_primitive E n (host_closure pl f)) P)"
    and "wsm_bind P p (Some (utf8_encode n)) v = (Inr 0, with_env p (bind_name E n v) P)"
  using assms c_to_str_encode [OF assms(3)]
  by (auto simp: env_at_def wsm_register_primitive_def wsm_bind_def intro!: process_eqI)

lemma with_env_env: "with_env p E (with_env p E' P) = with_env p E P"
  by (rule process_eqI) (auto simp: option.map_comp o_def)

lemma env_at_with [simp]: "env_at p P E \<Longrightarrow> env_at p (with_env p E' P) E'"
  by (auto simp: env_at_def)

lemma ready_but_register:
  assumes "callback_ok p f'" and "realizes pl p F f'" and "text_ok n"
    and "\<And>args w. fst (host_closure pl f' args w) = Inl (Raise m) \<or> host_closure pl f args w = host_closure pl f' args w"
  shows "runs (ready_but pl m p q C0 H k) (register_host pl p n f) (ready_but pl m p q C0 (host_register H n F) k)"
  unfolding runs_def
proof (intro allI impI)
  fix C
  assume "ready_but pl m p q C0 H k C"
  then obtain E E' where E: "env_at p (c_process C) E" "twins m E E'" "ready pl H p q C0 k (twin_of p E' C)"
    by (auto simp: ready_but_def)
  let ?G = "register_primitive E n (host_closure pl f)" and ?G' = "register_primitive E' n (host_closure pl f')"
  have p: "p \<noteq> 0" using ready_facts(1) [OF E(3)] .
  have env: "env_at p (c_process (twin_of p E' C)) E'" using E(1) by (simp add: twin_of_def)
  obtain D where "on_process (\<lambda>P. wsm_register_primitive pl P p (Some (utf8_encode n)) f') (twin_of p E' C) = (Inr 0, D)"
      "ready pl (host_register H n F) p q C0 k D"
    by (rule ready_registered [OF E(3) assms(1-3)])
  then have "ready pl (host_register H n F) p q C0 k (twin_of p ?G' (twin_of p ?G C))"
    using on_env(1) [OF env p assms(3), of pl f'] by (simp add: on_process_def twin_of_def with_env_env)
  then have "ready_but pl m p q C0 (host_register H n F) k (twin_of p ?G C)"
    unfolding ready_but_def using E(1) twins_register [OF E(2) assms(4)]
    by (intro exI [of _ ?G] exI [of _ ?G']) (simp add: twin_of_def)
  then show "\<exists>D. register_host pl p n f C = (Inr (), D) \<and> ready_but pl m p q C0 (host_register H n F) k D"
    using on_env(1) [OF E(1) p assms(3), of pl f] c_string_text [OF assms(3)]
    by (simp add: register_host_def panic_unless_def on_process_def twin_of_def)
qed

text \<open>\<open>wsm_bind\<close> with its status checked.\<close>

definition bind_host :: "u64 \<Rightarrow> rstring \<Rightarrow> u64 \<Rightarrow> 'h c_side \<Rightarrow> (fatal + unit) \<times> 'h c_side" where
  "bind_host session name v C =
     step_then (c_string name, C) (\<lambda>bytes C.
     step_then (on_process (\<lambda>P. wsm_bind P session (Some bytes) v) C) (\<lambda>rc C.
       (panic_unless (rc = 0), C)))"

lemma ready_but_bind:
  assumes "tag_of x \<noteq> TAG_CONS" and "\<And>A st b. word_stands (pl_codec pl) st A b v x" and "text_ok n"
  shows "runs (ready_but pl m p q C0 H k) (bind_host p n x) (ready_but pl m p q C0 (host_bind H n v) k)"
  unfolding runs_def
proof (intro allI impI)
  fix C
  assume "ready_but pl m p q C0 H k C"
  then obtain E E' where E: "env_at p (c_process C) E" "twins m E E'" "ready pl H p q C0 k (twin_of p E' C)"
    by (auto simp: ready_but_def)
  let ?G = "bind_name E n x" and ?G' = "bind_name E' n x"
  have p: "p \<noteq> 0" using ready_facts(1) [OF E(3)] .
  have env: "env_at p (c_process (twin_of p E' C)) E'" using E(1) by (simp add: twin_of_def)
  obtain D where "on_process (\<lambda>P. wsm_bind P p (Some (utf8_encode n)) x) (twin_of p E' C) = (Inr 0, D)"
      "ready pl (host_bind H n v) p q C0 k D"
    by (rule ready_bound [OF E(3) assms])
  then have "ready pl (host_bind H n v) p q C0 k (twin_of p ?G' (twin_of p ?G C))"
    using on_env(2) [OF env p assms(3), of x] by (simp add: on_process_def twin_of_def with_env_env)
  then have "ready_but pl m p q C0 (host_bind H n v) k (twin_of p ?G C)"
    unfolding ready_but_def using E(1) twins_bind [OF E(2)]
    by (intro exI [of _ ?G] exI [of _ ?G']) (simp add: twin_of_def)
  then show "\<exists>D. bind_host p n x C = (Inr (), D) \<and> ready_but pl m p q C0 (host_bind H n v) k D"
    using on_env(2) [OF E(1) p assms(3), of x] c_string_text [OF assms(3)]
    by (simp add: bind_host_def panic_unless_def on_process_def twin_of_def)
qed

lemma ready_but_expect:
  assumes "source = render f" and "form_ok f" and "text_ok source" and "cells_of f \<le> ARENA_CELLS"
    and "feval (pl_spellings pl) H f (int k) = (r, int j)" and "j \<le> k" and "expected = answer_text r"
    and "\<And>n. expected \<noteq> eval_error_message (HostPrimitiveFailed n m)" and "c = length source + k"
  shows "runs (ready_but pl m p q C0 H c) (expect pl q p source expected) (ready_but pl m p q C0 H j)"
  unfolding runs_def assms(9)
proof (intro allI impI)
  fix C
  assume "ready_but pl m p q C0 H (length source + k) C"
  then obtain E E' where E: "env_at p (c_process C) E" "twins m E E'"
      "ready pl H p q C0 (length source + k) (twin_of p E' C)"
    by (auto simp: ready_but_def)
  obtain S where S: "p_sessions (c_process C) p = Some S" "s_env S = E" using E(1) by (auto simp: env_at_def)
  have p: "p \<noteq> 0" using ready_facts(1) [OF E(3)] .
  have q: "q \<noteq> 0" "c_strings C q = None" using E(3) by (auto simp: ready_def twin_of_def)
  have tokens: "tokenize source = Inr (toks f)" using tokenize_render [OF assms(2)] assms(1) by simp
  obtain Q where Q: "eval_str pl (with_env p E' (c_process C)) p (S\<lparr>s_env := E'\<rparr>) source = (Inr expected, Q)"
      "text_ok expected" "ready pl H p q C0 j (twin_of p E' C\<lparr>c_process := Q\<rparr>)"
    by (rule ready_answer [OF E(3) assms(3) tokens assms(4-6)]) (use S(1) assms(7) in \<open>simp add: twin_of_def\<close>)
  obtain P where P: "eval_str pl (c_process C) p S source = (Inr expected, P)" "Q = with_env p E' P" "env_at p P E"
    using eval_str_twin [OF S(1) _ Q(1) assms(8), of thesis] E(2) S(2) by blast
  have "wsm_eval_string pl (c_process C) p (Some (utf8_encode source)) = (Inr (utf8_encode expected), P)"
    using P(1) S(1) p c_to_str_encode [OF assms(3)] into_c_string_text [OF Q(2)]
    by (simp add: wsm_eval_string_def catch_unwind_or_def)
  then obtain D where D: "wsm_eval_string_raw pl q C p (Some (utf8_encode source)) = (Inr q, D)"
      "read_c_string D q = Inr expected" "wsm_free_string D q = (Inr (), C\<lparr>c_process := P\<rparr>)"
    using string_owned [OF _ Q(2) q] by metis
  have "ready_but pl m p q C0 H j (C\<lparr>c_process := P\<rparr>)"
    unfolding ready_but_def using P(2,3) E(2) Q(3)
    by (intro exI [of _ E] exI [of _ E']) (simp add: twin_of_def)
  then show "\<exists>D. expect pl q p source expected C = (Inr (), D) \<and> ready_but pl m p q C0 H j D"
    using D c_string_text [OF assms(3)] by (simp add: expect_def panic_unless_def)
qed

text \<open>Freeing the session frees the environment with the asserting callbacks.\<close>

lemma asserting_session:
  assumes "can_open pl p q k C"
    and "runs (ready_but pl m p q C empty_host k) (body p) (ready_but pl m p q C H j)"
  shows "\<exists>D. in_session p body C = (Inr (), D) \<and> left_clean pl C D"
proof -
  let ?C1 = "C\<lparr>c_process := put_session (c_process C) p session_new\<rparr>"
  note can = assms(1) [unfolded can_open_def]
  have "ready pl empty_host p q C k ?C1" using can by (intro ready_init) simp_all
  then have "ready_but pl m p q C empty_host k ?C1" by (rule ready_but_intro)
  then obtain D where D: "body p ?C1 = (Inr (), D)" "ready_but pl m p q C H j D"
    using assms(2) unfolding runs_def by blast
  then obtain E E' where E: "env_at p (c_process D) E" "ready pl H p q C j (twin_of p E' D)"
    by (auto simp: ready_but_def)
  obtain P where P: "wsm_session_free (with_env p E' (c_process D)) p = (Inr (), P)"
      "p_sessions P = p_sessions (c_process C)" "process_ok pl P"
    using ready_free [OF E(2)] can by (auto simp: twin_of_def)
  have "wsm_session_free (c_process D) p = wsm_session_free (with_env p E' (c_process D)) p"
    using E(1) can by (auto simp: env_at_def wsm_session_free_def intro!: process_eqI)
  moreover have "c_strings D = c_strings C" using E(2) by (simp add: ready_def twin_of_def)
  ultimately show ?thesis
    using D(1) P by (simp add: in_session_def on_process_def wsm_session_init_def left_clean_def)
qed

section \<open>Callbacks that assert their number of arguments\<close>

definition asserting :: "nat \<Rightarrow> 'h callback \<Rightarrow> 'h callback" where
  "asserting n f args h = (if length args \<noteq> n then Crash Process_Abort else f args h)"

definition refusing :: "nat \<Rightarrow> 'h callback \<Rightarrow> 'h callback" where
  "refusing n f args h = (if length args \<noteq> n then Done 1 None h else f args h)"

lemma asserting_twin:
  "fst (host_closure pl (refusing n f) args w) = Inl (Raise (failed 1))
   \<or> host_closure pl (asserting n f) args w = host_closure pl (refusing n f) args w"
  by (simp add: host_closure_def asserting_def refusing_def failed_def)

lemma refusing_ok: "(\<And>args h. length args = n \<Longrightarrow> answers p (set args) (f args h)) \<Longrightarrow> callback_ok p (refusing n f)"
  by (simp add: callback_ok_def refusing_def)

definition refuses :: "nat \<Rightarrow> (lisp list \<Rightarrow> int \<Rightarrow> (rstring + lisp) \<times> int) \<Rightarrow> lisp list \<Rightarrow> int \<Rightarrow> (rstring + lisp) \<times> int" where
  "refuses n F vs a = (if length vs \<noteq> n then (Inl (failed 1), a) else F vs a)"

lemma realizes_refusing:
  assumes "\<And>vs a. length vs = n \<Longrightarrow> 0 \<le> snd (F vs a) \<Longrightarrow> 0 \<le> a"
    and "\<And>A st a w vs xs. length vs = n \<Longrightarrow> room_sim pl p a w \<Longrightarrow>
      list_all2 (word_stands (pl_codec pl) st A (look_at p w)) vs xs \<Longrightarrow>
      simulates (pl_codec pl) (look_at p) (room_sim pl p) (\<lambda>a. 0 \<le> a)
        (word_stands (pl_codec pl) st A) w (F vs a) (host_closure pl f xs w)"
  shows "realizes pl p (refuses n F) (refusing n f :: 'h callback)"
  unfolding realizes_def
proof (intro conjI allI impI)
  show "0 \<le> snd (refuses n F vs a) \<Longrightarrow> 0 \<le> a" for vs a
    using assms(1) by (auto simp: refuses_def split: if_splits)
  fix A st a vs xs and w :: "'h world"
  assume sim: "room_sim pl p a w" and args: "list_all2 (word_stands (pl_codec pl) st A (look_at p w)) vs xs"
  have len: "length xs = length vs" using args by (simp add: list_all2_lengthD)
  show "simulates (pl_codec pl) (look_at p) (room_sim pl p) (\<lambda>a. 0 \<le> a)
        (word_stands (pl_codec pl) st A) w (refuses n F vs a) (host_closure pl (refusing n f) xs w)"
  proof (cases "length vs = n")
    case True
    then have "host_closure pl (refusing n f) xs w = host_closure pl f xs w"
      using len by (simp add: host_closure_def refusing_def)
    then show ?thesis using assms(2) [OF True sim args] True by (simp add: refuses_def)
  next
    case False
    then have "host_closure pl (refusing n f) xs w = (Inl (Raise (failed 1)), w)"
      using len by (simp add: host_closure_def refusing_def failed_def world_eta)
    then show ?thesis using False sim by (simp add: refuses_def simulates_error)
  qed
qed

section \<open>The two tests\<close>

definition stub_teleport :: "'h callback" where
  "stub_teleport = asserting 4 (\<lambda>args h. Done 0 (Some (args ! 1)) h)"

definition end_to_end_register_bind_eval_print_free ::
  "platform \<Rightarrow> u64 \<Rightarrow> u64 \<Rightarrow> 'h c_side \<Rightarrow> (fatal + unit) \<times> 'h c_side" where
  "end_to_end_register_bind_eval_print_free pl p q =
     in_session p (\<lambda>session.
       and_also (bind_host session (lit ''player'') (encode_fixnum 7))
       (and_also (register_host pl session (lit ''teleport'') stub_teleport)
       (and_also (expect pl q session (lit ''(teleport player 100 200 50)'') (lit ''100''))
          (expect pl q session (lit ''(undefined-symbol)'')
             (lit ''error: unknown symbol '' @ [0xB7] @ lit '' nevidomyi symvol '' @ [0xB7]
                @ lit '' unbekanntes Symbol: undefined-symbol'')))))"

text \<open>The Cyrillic names: player-handle, check-player.\<close>

definition hravets_dash_handle :: rstring where
  "hravets_dash_handle = [0x433, 0x440, 0x430, 0x432, 0x435, 0x446, 0x44C] @ lit ''-handle''"
definition perevir_hravtsia :: rstring where
  "perevir_hravtsia = [0x43F, 0x435, 0x440, 0x435, 0x432, 0x456, 0x440, 0x2D,
     0x433, 0x440, 0x430, 0x432, 0x446, 0x44F]"

definition stub_get_player :: "u64 \<Rightarrow> u64 \<Rightarrow> 'h callback" where
  "stub_get_player session out = pass_on (Wrap_Game_Handle session 0x1234 out)"

definition stub_check_player :: "u64 \<Rightarrow> u64 \<Rightarrow> 'h callback" where
  "stub_check_player session recovered = asserting 1 (\<lambda>args h.
     Call (Unwrap_Game_Handle session (args ! 0) recovered) (\<lambda>r.
       if fst r \<noteq> 0 then Done (fst r) None h
       else Done 0 (Some (if snd r = [0x1234] then SYM_T_WORD else WORD_NIL)) h))"

definition game_handle_round_trips_through_a_host_primitive_pair ::
  "platform \<Rightarrow> u64 \<Rightarrow> u64 \<Rightarrow> u64 \<Rightarrow> 'h c_side \<Rightarrow> (fatal + unit) \<times> 'h c_side" where
  "game_handle_round_trips_through_a_host_primitive_pair pl p q out =
     in_session p (\<lambda>session.
       and_also (register_host pl session hravets_dash_handle (stub_get_player session out))
       (and_also (register_host pl session perevir_hravtsia (stub_check_player session out))
          (expect pl q session (lit ''('' @ perevir_hravtsia @ lit '' ('' @ hravets_dash_handle @ lit ''))'') (lit ''t''))))"

text \<open>Their expectations do not look like a refusal, which ends in the digit 1.\<close>

lemma refusal_last: "last (eval_error_message (HostPrimitiveFailed n (failed 1))) = 49"
  by (simp add: failed_def dec_int_def dec_nat_def digit_char_def digits_of.simps)

lemma not_a_refusal: "last x \<noteq> 49 \<Longrightarrow> x \<noteq> eval_error_message (HostPrimitiveFailed n (failed 1))"
  using refusal_last by metis

lemma refusing_teleport:
  defines "f \<equiv> \<lambda>args h. Done 0 (Some (args ! 1)) h"
  shows "callback_ok p (refusing 4 f :: 'h callback)"
    and "realizes pl p (refuses 4 (\<lambda>vs a. (Inr (vs ! 1), a))) (refusing 4 f :: 'h callback)"
proof -
  show "callback_ok p (refusing 4 f :: 'h callback)"
    by (rule refusing_ok) (simp add: f_def)
  show "realizes pl p (refuses 4 (\<lambda>vs a. (Inr (vs ! 1), a))) (refusing 4 f :: 'h callback)"
  proof (rule realizes_refusing)
    fix A st a vs xs and w :: "'h world"
    assume "length vs = 4" "room_sim pl p a w" "list_all2 (word_stands (pl_codec pl) st A (look_at p w)) vs xs"
    moreover from this have "word_stands (pl_codec pl) st A (look_at p w) (vs ! 1) (xs ! 1)"
      by (simp add: list_all2_nthD)
    ultimately show "simulates (pl_codec pl) (look_at p) (room_sim pl p) (\<lambda>a. 0 \<le> a)
        (word_stands (pl_codec pl) st A) w (Inr (vs ! 1), a) (host_closure pl f xs w)"
      by (simp add: host_closure_def f_def world_eta simulates_value)
  qed simp
qed

lemma refusing_check:
  assumes "p \<noteq> 0" and "out \<noteq> 0" and "codec_ok (pl_codec pl)"
  defines "f \<equiv> \<lambda>args h. Call (Unwrap_Game_Handle p (args ! 0) out) (\<lambda>r.
       if fst r \<noteq> 0 then Done (fst r) None h
       else Done 0 (Some (if snd r = [0x1234] then SYM_T_WORD else WORD_NIL)) h)"
  shows "callback_ok p (refusing 1 f :: 'h callback)"
    and "realizes pl p (refuses 1 (checks 0x1234)) (refusing 1 f :: 'h callback)"
proof -
  have same: "f args h = check_handle p 0x1234 out args h" if "length args = 1" for args and h :: 'h
    using that by (cases args) (simp_all add: f_def check_handle_def)
  show "callback_ok p (refusing 1 f :: 'h callback)"
    by (rule refusing_ok) (metis same check_handle_ok callback_ok_def)
  show "realizes pl p (refuses 1 (checks 0x1234)) (refusing 1 f :: 'h callback)"
  proof (rule realizes_refusing)
    note check = realizes_check [OF assms(1-3), of "0x1234", unfolded realizes_def]
    show "0 \<le> snd (checks 0x1234 vs a) \<Longrightarrow> 0 \<le> a" for vs a using check by blast
    fix A st a vs xs and w :: "'h world"
    assume vs: "length vs = 1" and r: "room_sim pl p a w"
      and args: "list_all2 (word_stands (pl_codec pl) st A (look_at p w)) vs xs"
    have "length xs = 1" using vs args by (simp add: list_all2_lengthD)
    then have "host_closure pl f xs w = host_closure pl (check_handle p 0x1234 out) xs w"
      by (simp add: host_closure_def same)
    then show "simulates (pl_codec pl) (look_at p) (room_sim pl p) (\<lambda>a. 0 \<le> a)
        (word_stands (pl_codec pl) st A) w (checks 0x1234 vs a) (host_closure pl f xs w)"
      using check r args by metis
  qed
qed

lemma runs_less: "runs (ready_but pl m p q C0 H j) f R \<Longrightarrow> j \<le> k \<Longrightarrow> runs (ready_but pl m p q C0 H k) f R"
  using ready_less unfolding runs_def ready_but_def by blast

lemma undefined_symbol_name: "plain_symbol (lit ''undefined-symbol'')"
  by (simp add: plain_symbol_def atom_ok_def is_delimiter_def is_whitespace_def parse_i64_def)

definition asserting_test_spellings :: "spellings \<Rightarrow> bool" where
  "asserting_test_spellings s \<longleftrightarrow> (\<forall>n \<in> {lit ''teleport'', lit ''undefined-symbol'', hravets_dash_handle, perevir_hravtsia}.
     spelled s n = Op_Call n)"

lemma end_to_end_test:
  assumes "asserting_test_spellings (pl_spellings pl)" and "can_open pl p q 46 C"
  shows "\<exists>D. end_to_end_register_bind_eval_print_free pl p q C = (Inr (), D) \<and> left_clean pl C D"
  unfolding end_to_end_register_bind_eval_print_free_def
proof (rule asserting_session [OF assms(2)])
  let ?F = "refuses 4 (\<lambda>vs a. (Inr (vs ! 1), a))"
  let ?H1 = "host_bind empty_host (lit ''player'') (LInt 7)"
  let ?H2 = "host_register ?H1 (lit ''teleport'') ?F"
  let ?R = "ready_but pl (failed 1) p q C"
  let ?f = "teleport_form (lit ''teleport'') (lit ''player'')"
  let ?undefined = "lit ''error: unknown symbol '' @ [0xB7] @ lit '' nevidomyi symvol '' @ [0xB7]
                @ lit '' unbekanntes Symbol: undefined-symbol''"
  have op: "spelled (pl_spellings pl) (lit ''teleport'') = Op_Call (lit ''teleport'')"
    "spelled (pl_spellings pl) (lit ''undefined-symbol'') = Op_Call (lit ''undefined-symbol'')"
    using assms(1) by (simp_all add: asserting_test_spellings_def)
  have nums0: "atom_value (lit ''100'') = LInt 100" "atom_value (lit ''200'') = LInt 200" "atom_value (lit ''50'') = LInt 50"
    by (simp_all add: atom_value_def parse_i64_def signed_take_bit_int_eq_self)
  note nums = nums0 unit_names(2,3) [THEN plain_symbol_value]
  have seven: "word_stands (pl_codec pl) st A b (LInt 7) (encode_fixnum 7)" for st A b
    using word_stands_fixnum [of "pl_codec pl" st A b 7] by (simp add: signed_take_bit_int_eq_self)
  have 1: "runs (?R empty_host 46) (bind_host p (lit ''player'') (encode_fixnum 7)) (?R ?H1 46)"
    by (rule ready_but_bind [OF _ seven]) simp_all
  have 2: "runs (?R ?H1 46) (register_host pl p (lit ''teleport'') stub_teleport) (?R ?H2 46)"
    unfolding stub_teleport_def
    by (rule ready_but_register [OF refusing_teleport _ asserting_twin]) simp
  have "feval (pl_spellings pl) ?H2 ?f (int 18) = (Inr (LInt 100), int 18)"
    by (simp add: op nums form_operator_def symbol_value_def call_host_def refuses_def del: lit_simps)
  then have 3: "runs (?R ?H2 46) (expect pl q p (lit ''(teleport player 100 200 50)'') (lit ''100'')) (?R ?H2 18)"
    using unit_forms(2) numeral_texts(3)
    by (intro ready_but_expect [OF unit_sources(2) _ _ _ _ _ _ not_a_refusal, where r = "Inr (LInt 100)" and k = 18])
      (simp_all add: ARENA_CELLS_def)
  have "feval (pl_spellings pl) ?H2 (FList [FAtom (lit ''undefined-symbol'')]) (int 0)
      = (Inl (UnknownSymbol (lit ''undefined-symbol'')), int 0)"
    unfolding feval_call0 [OF undefined_symbol_name op(2)] by (simp add: call_host_def)
  then have 4: "runs (?R ?H2 18) (expect pl q p (lit ''(undefined-symbol)'') ?undefined) (?R ?H2 0)"
    using undefined_symbol_name [THEN plain_symbol_atom]
    by (intro ready_but_expect [where f = "FList [FAtom (lit ''undefined-symbol'')]"
          and r = "Inl (UnknownSymbol (lit ''undefined-symbol''))" and k = 0] not_a_refusal)
      (simp_all add: ARENA_CELLS_def unknown_symbol_message_def)
  show "runs (?R empty_host 46) (and_also (bind_host p (lit ''player'') (encode_fixnum 7))
       (and_also (register_host pl p (lit ''teleport'') stub_teleport)
       (and_also (expect pl q p (lit ''(teleport player 100 200 50)'') (lit ''100''))
          (expect pl q p (lit ''(undefined-symbol)'') ?undefined)))) (?R ?H2 0)"
    by (rule runs_also [OF 1 runs_also [OF 2 runs_also [OF 3 4]]])
qed

lemma pair_names:
  "plain_symbol hravets_dash_handle" "plain_symbol perevir_hravtsia" "text_ok hravets_dash_handle" "text_ok perevir_hravtsia"
  "hravets_dash_handle \<noteq> perevir_hravtsia"
  by (simp_all add: plain_symbol_def atom_ok_def is_delimiter_def is_whitespace_def parse_i64_def valid_scalar_def
      hravets_dash_handle_def perevir_hravtsia_def)

lemma handle_pair_test:
  assumes "asserting_test_spellings (pl_spellings pl)" and "can_open pl p q 34 C" and "out \<noteq> 0"
  shows "\<exists>D. game_handle_round_trips_through_a_host_primitive_pair pl p q out C = (Inr (), D) \<and> left_clean pl C D"
  unfolding game_handle_round_trips_through_a_host_primitive_pair_def
proof (rule asserting_session [OF assms(2)])
  let ?F = "\<lambda>vs a. (Inr (LBox (GameHandle 0x1234)), a - 1)"
  let ?H1 = "host_register empty_host hravets_dash_handle ?F"
  let ?H2 = "host_register ?H1 perevir_hravtsia (refuses 1 (checks 0x1234))"
  let ?R = "ready_but pl (failed 1) p q C"
  let ?f = "FList [FAtom perevir_hravtsia, FList [FAtom hravets_dash_handle]]"
  let ?s = "lit ''('' @ perevir_hravtsia @ lit '' ('' @ hravets_dash_handle @ lit ''))''"
  have codec: "codec_ok (pl_codec pl)" and p: "p \<noteq> 0"
    using assms(2) by (simp_all add: can_open_def process_ok_def)
  have "form_operator (pl_spellings pl) (FAtom perevir_hravtsia) = Some (Op_Call perevir_hravtsia)"
    "form_operator (pl_spellings pl) (FAtom hravets_dash_handle) = Some (Op_Call hravets_dash_handle)"
    using pair_names(1,2) [THEN plain_symbol_value] assms(1)
    by (simp_all add: form_operator_def asserting_test_spellings_def)
  then have means: "feval (pl_spellings pl) ?H2 ?f (int 1) = (Inr (LSym (lit ''t'')), int 0)"
    using pair_names(5) by (simp add: call_host_def refuses_def checks_def)
  have 1: "runs (?R empty_host 34) (register_host pl p hravets_dash_handle (stub_get_player p out)) (?R ?H1 34)"
    unfolding stub_get_player_def
    using ready_but_register [OF pass_on_ok realizes_wrap [OF wraps_game_handle [OF codec p assms(3), of "0x1234"]]
        pair_names(3) disjI2 [OF refl]] by simp
  have 2: "runs (?R ?H1 34) (register_host pl p perevir_hravtsia (stub_check_player p out)) (?R ?H2 34)"
    unfolding stub_check_player_def
    by (rule ready_but_register [OF refusing_check [OF p assms(3) codec] pair_names(4) asserting_twin])
  have 3: "runs (?R ?H2 34) (expect pl q p ?s (lit ''t'')) (?R ?H2 0)"
    by (rule ready_but_expect [where f = ?f and r = "Inr (LSym (lit ''t''))" and k = 1, OF _ _ _ _ means _ _ not_a_refusal])
      (use pair_names pair_names(1,2) [THEN plain_symbol_atom] in \<open>simp_all add: ARENA_CELLS_def\<close>,
       simp add: hravets_dash_handle_def perevir_hravtsia_def)
  show "runs (?R empty_host 34) (and_also (register_host pl p hravets_dash_handle (stub_get_player p out))
       (and_also (register_host pl p perevir_hravtsia (stub_check_player p out)) (expect pl q p ?s (lit ''t''))))
       (?R ?H2 0)"
    by (rule runs_also [OF 1 runs_also [OF 2 3]])
qed

text \<open>A refusal would end the process: called with another number of arguments, the original aborts.\<close>

lemma asserting_aborts:
  "length args \<noteq> n \<Longrightarrow> host_closure pl (asserting n f) args w = (Inl (Abort Process_Abort), w)"
  by (simp add: host_closure_def asserting_def)

end
