(* ===== verification/Examples_Boundary.thy ===== *)
theory Examples_Boundary
  imports Examples Fixture_Tests Asserting
begin

text \<open>
  A platform whose registry has the Ukrainian spellings that the programs and tests of the
  repository use, a C caller at the start of the process, and a session with one callback.
\<close>

definition test_platform :: platform where
  "test_platform = demo_platform\<lparr>pl_spellings := \<lparr>QUOTE_SPELLINGS = [lit ''quote'', yak_ie],
     CAR_SPELLINGS = [lit ''car'', pershe], CDR_SPELLINGS = [lit ''cdr'', reshta],
     COND_SPELLINGS = [lit ''cond'', za_umovoiu]\<rparr>\<rparr>"

lemma test_platform_simps [simp]:
  "pl_codec test_platform = demo_codec" "pl_overflow_checks test_platform = False"
  "pl_spellings test_platform = \<lparr>QUOTE_SPELLINGS = [lit ''quote'', yak_ie],
     CAR_SPELLINGS = [lit ''car'', pershe], CDR_SPELLINGS = [lit ''cdr'', reshta],
     COND_SPELLINGS = [lit ''cond'', za_umovoiu]\<rparr>"
  by (simp_all add: test_platform_def)

lemma test_platform_spellings [simp]:
  "trigger_spellings (pl_spellings test_platform)" "test_spellings (pl_spellings test_platform)"
  "spelled (pl_spellings test_platform) (lit ''noop'') = Op_Call (lit ''noop'')"
  "spelled (pl_spellings test_platform) (lit ''pos'') = Op_Call (lit ''pos'')"
  "spelled (pl_spellings test_platform) (lit ''cond'') = Op_Cond"
proof -
  show *: "trigger_spellings (pl_spellings test_platform)"
    by (simp add: trigger_spellings_def pershe_def reshta_def yak_ie_def za_umovoiu_def)
  show "test_spellings (pl_spellings test_platform)"
    unfolding test_spellings_def
    by (rule conjI [OF *]) (simp add: spelled_def test_name_defs pershe_def reshta_def yak_ie_def za_umovoiu_def)
qed (simp_all add: spelled_def pershe_def reshta_def yak_ie_def za_umovoiu_def)

definition test_side :: "nat c_side" where
  "test_side = \<lparr>c_process = process_start 65536 0, c_strings = Map.empty\<rparr>"

lemma test_platform_eval_spellings [simp]: "eval_spellings (pl_spellings test_platform)"
  unfolding eval_spellings_def
  by (simp add: spelled_def dai_zbroiu_def teleportui_def pershe_def reshta_def yak_ie_def za_umovoiu_def)

lemma test_platform_fixture_spellings [simp]: "fixture_spellings (pl_spellings test_platform)"
  unfolding fixture_spellings_def
  by (rule conjI [OF test_platform_eval_spellings])
    (simp add: spelled_def zberezhy_hru_def pershe_def reshta_def yak_ie_def za_umovoiu_def)

lemma test_platform_asserting [simp]: "asserting_test_spellings (pl_spellings test_platform)"
  by (simp add: asserting_test_spellings_def spelled_def hravets_dash_handle_def perevir_hravtsia_def
      pershe_def reshta_def yak_ie_def za_umovoiu_def)

lemma test_platform_room [simp]: "test_room test_platform (arena_load 65536)"
  using process_start_ok [of test_platform 65536 0]
  by (simp add: test_room_def process_start_def process_ok_def arena_free_def arena_load_def arena_used_def
      ARENA_CELLS_def)

lemma test_can_open [simp]: "k \<le> 2000000 \<Longrightarrow> can_open test_platform 64 128 k test_side"
  using process_start_ok [of test_platform 65536 0]
  by (simp add: can_open_def test_side_def process_start_def)

text \<open>A session with one callback, which wraps the transient fraction 5/336.\<close>

definition position_callback :: "nat callback" where
  "position_callback = pass_on (Wrap_Transient_Rational 64 5 336 8)"

definition position_host :: "int lisp_host" where
  "position_host = host_register empty_host (lit ''pos'') (\<lambda>vs a. (Inr (LBox (Rational 5 336)), a - 1))"

definition position_session :: "nat session" where
  "position_session = session_new\<lparr>s_env := register_primitive (s_env session_new) (lit ''pos'')
     (host_closure test_platform position_callback)\<rparr>"

definition position_process :: "nat process" where
  "position_process = put_session (process_start 65536 0) 64 position_session"

lemma position_callback_ok: "callback_ok 64 position_callback"
  unfolding position_callback_def by (rule pass_on_ok) simp_all

lemma position_process_ok [simp]: "process_ok test_platform position_process"
  unfolding position_process_def position_session_def
  by (rule put_session_ok [OF process_start_ok _
        register_session_ok [OF session_new_ok position_callback_ok]]) simp_all

lemma position_process_session [simp]: "p_sessions position_process 64 = Some position_session"
  by (simp add: position_process_def)

lemma position_served: "served_by test_platform 64 position_host position_session"
proof -
  let ?e = "\<lparr>entry_value = Rational 5 336, entry_lifetime = Transient\<rparr>"
  have "wraps test_platform 64 (Wrap_Transient_Rational 64 5 336 8) ?e"
    by (rule wraps_rational(2)) (simp_all add: reduced)
  from realizes_wrap [OF this]
  have "realizes test_platform 64 (\<lambda>vs a. (Inr (LBox (Rational 5 336)), a - 1)) position_callback"
    by (simp add: position_callback_def)
  from served_register [OF served_empty this, of session_new "lit ''pos''"]
  show ?thesis by (simp add: position_host_def position_session_def session_new_def)
qed

lemma position_room [simp]: "n \<le> 1000 \<Longrightarrow> session_room test_platform position_session n"
  by (simp add: session_room_def position_session_def session_new_def boxed_new_def)

end
