(* ===== verification/Game_Handles.thy ===== *)
theory Game_Handles
  imports Prelude
begin

text \<open>
  The adapter's own state: the table of retained engine handles (\<open>adapter/src/GameHandleTable.cpp\<close>),
  the decision on a newly observed player (\<open>PlayerHandleEpoch.hpp\<close>) and what is logged once
  (\<open>AdapterRuntimeState.hpp\<close>). A handle of the engine is the address of its instance, 0 the empty one.
\<close>

section \<open>The table of retained handles\<close>

record game_handles =
  m_handles :: "u64 \<Rightarrow> u64 option"
  m_nextToken :: u64

definition handles_new :: game_handles where
  "handles_new = \<lparr>m_handles = (\<lambda>_. None), m_nextToken = 1\<rparr>"

text \<open>\<open>emplace\<close> keeps an entry that is already there.\<close>

definition retain :: "game_handles \<Rightarrow> u64 \<Rightarrow> u64 \<times> game_handles" where
  "retain T handle =
     (if handle = 0 then (0, T)
      else let token = m_nextToken T; T = T\<lparr>m_nextToken := m_nextToken T + 1\<rparr>
           in if token = 0 then (0, T)
              else (token, case m_handles T token of
                             Some _ \<Rightarrow> T
                           | None \<Rightarrow> T\<lparr>m_handles := (m_handles T)(token \<mapsto> handle)\<rparr>))"

definition resolve :: "game_handles \<Rightarrow> u64 \<Rightarrow> u64" where
  "resolve T token =
     (if token = 0 then 0 else case m_handles T token of None \<Rightarrow> 0 | Some handle \<Rightarrow> handle)"

definition release :: "game_handles \<Rightarrow> u64 \<Rightarrow> game_handles" where
  "release T token = T\<lparr>m_handles := (m_handles T)(token := None)\<rparr>"

definition clear_handles :: "game_handles \<Rightarrow> game_handles" where
  "clear_handles T = T\<lparr>m_handles := (\<lambda>_. None)\<rparr>"

text \<open>Tokens in use are below the next one; the table never holds the empty handle.\<close>

definition handles_ok :: "game_handles \<Rightarrow> bool" where
  "handles_ok T \<longleftrightarrow> (\<forall>t h. m_handles T t = Some h \<longrightarrow> 0 < t \<and> t < m_nextToken T \<and> h \<noteq> 0)"

lemma handles_new_ok: "handles_ok handles_new"
  by (simp add: handles_ok_def handles_new_def)

lemma next_token_less:
  fixes x y :: u64
  assumes "y + 1 \<noteq> 0"
  shows "x < y + 1 \<longleftrightarrow> x \<le> y"
proof -
  have "unat (y + 1) = unat y + 1" using unatSuc [of y] assms by (simp add: add.commute)
  then show ?thesis by (simp add: word_less_nat_alt word_le_nat_alt less_Suc_eq_le)
qed

text \<open>A retained handle gets a token that no one has, and resolves; no other token is touched.\<close>

lemma retain_fresh:
  assumes "handles_ok T" and "handle \<noteq> 0" and "m_nextToken T \<noteq> 0" and "m_nextToken T + 1 \<noteq> 0"
    and "retain T handle = (token, T')"
  shows "token = m_nextToken T" and "handles_ok T'" and "m_nextToken T' = m_nextToken T + 1"
    and "m_handles T' = (m_handles T)(token \<mapsto> handle)"
proof -
  have none: "m_handles T (m_nextToken T) = None"
    using assms(1) by (cases "m_handles T (m_nextToken T)") (force simp: handles_ok_def)+
  then show t: "token = m_nextToken T" and n: "m_nextToken T' = m_nextToken T + 1"
    and m: "m_handles T' = (m_handles T)(token \<mapsto> handle)"
    using assms by (auto simp: retain_def Let_def)
  show "handles_ok T'"
    using assms(1-4) t unfolding handles_ok_def m n next_token_less [OF assms(4)]
    by (auto simp: word_gt_0 intro: less_imp_le)
qed

lemma release_ok: "handles_ok T \<Longrightarrow> handles_ok (release T t)"
  by (auto simp: handles_ok_def release_def)

lemma resolve_simps [simp]:
  "resolve T 0 = 0" "resolve (release T t) u = (if u = t then 0 else resolve T u)"
  "resolve (clear_handles T) u = 0"
  by (simp_all add: resolve_def release_def clear_handles_def)

lemma release_next [simp]: "m_nextToken (release T t) = m_nextToken T"
  by (simp add: release_def)

lemma resolve_zero: "handles_ok T \<Longrightarrow> resolve T t = 0 \<longleftrightarrow> m_handles T t = None"
  by (force simp: resolve_def handles_ok_def split: option.splits)

section \<open>What an observation of the player leads to\<close>

datatype epoch_action = Keep | BindNew | BindNil | Preserve

definition decide :: "bool \<Rightarrow> u64 \<Rightarrow> u64 \<Rightarrow> epoch_action" where
  "decide lookup_executed observed retained =
     (if \<not> lookup_executed then Preserve
      else if observed = 0 then (if retained = 0 then Keep else BindNil)
      else if observed = retained then Keep else BindNew)"

lemma decide_cases:
  "decide e o' r = Preserve \<longleftrightarrow> \<not> e"
  "decide e o' r = Keep \<longleftrightarrow> e \<and> o' = r"
  "decide e o' r = BindNil \<longleftrightarrow> e \<and> o' = 0 \<and> r \<noteq> 0"
  "decide e o' r = BindNew \<longleftrightarrow> e \<and> o' \<noteq> 0 \<and> o' \<noteq> r"
  by (auto simp: decide_def)

section \<open>What is logged once\<close>

record runtime_state =
  m_capabilityLogged :: bool
  m_playerPresence :: "8 word"

definition runtime_new :: runtime_state where
  "runtime_new = \<lparr>m_capabilityLogged = False, m_playerPresence = - 1\<rparr>"

definition should_log_capability :: "runtime_state \<Rightarrow> bool \<times> runtime_state" where
  "should_log_capability R =
     (if m_capabilityLogged R then (False, R) else (True, R\<lparr>m_capabilityLogged := True\<rparr>))"

definition player_presence_changed :: "runtime_state \<Rightarrow> bool \<Rightarrow> bool \<times> runtime_state" where
  "player_presence_changed R present =
     (let now = (if present then 1 else 0)
      in if m_playerPresence R = now then (False, R) else (True, R\<lparr>m_playerPresence := now\<rparr>))"

definition reset_for_unload :: "runtime_state \<Rightarrow> runtime_state" where
  "reset_for_unload R = R\<lparr>m_capabilityLogged := False, m_playerPresence := - 1\<rparr>"

lemma reset_is_new: "reset_for_unload R = runtime_new"
  by (simp add: reset_for_unload_def runtime_new_def)

end
