(* ===== verification/Adapter.thy ===== *)
theory Adapter
  imports Callbacks Game_Handles
begin

text \<open>
  The host of the game: the primitives that \<open>adapter/src/Main.cpp\<close> registers, over the boundary of
  the runtime. The state of the host is the adapter's own: its handles, the token of the player, and
  what it logged. \<open>g_wsmSession\<close>, the function pointers and the words for nil and true are set
  together at \<open>Load\<close> and cleared at \<open>Unload\<close>: the session is an argument, 0 before \<open>Load\<close>, and its
  test against null stands for those of the pointers. The engine is a parameter: what a lookup of
  the player answers, and the class name of an instance.
\<close>

datatype log_line =
    Capability_Invoked | Released_Player | Bound_Player u64 | Player_Presence bool
  | Library_Missing | No_Session | Oracle_Null | Incompatible_Abi | Abi_Validated | Not_Registered nat
  | Oracle_Mismatch "u8 list" | Oracle "u8 list" | No_Dispatch | Dispatch_Loaded rstring
  | Repl_Failed | Repl_Listening | Session_Ready | Dispatch_Null | Dispatch_Result "u8 list"

text \<open>\<open>a_engine\<close> is not a variable of the code: what the engine would answer to a lookup now.\<close>

record adapter =
  a_engine :: "bool \<times> u64"
  a_logger :: bool
  a_log :: "log_line list"
  a_handles :: game_handles
  a_player :: u64
  a_runtime :: runtime_state

definition adapter_new :: adapter where
  "adapter_new = \<lparr>a_engine = (False, 0), a_logger = True, a_log = [], a_handles = handles_new, a_player = 0, a_runtime = runtime_new\<rparr>"

definition info :: "log_line \<Rightarrow> adapter \<Rightarrow> adapter" where
  "info line a = a\<lparr>a_log := a_log a @ [line]\<rparr>"

definition dispatch_lines :: "adapter \<Rightarrow> log_line list" where
  "dispatch_lines a = filter (\<lambda>line. case line of Dispatch_Null \<Rightarrow> True | Dispatch_Result _ \<Rightarrow> True | _ \<Rightarrow> False) (a_log a)"

section \<open>The primitives\<close>

text \<open>\<open>LogPrimitive\<close>; the argument and out pointers of a callback are never null.\<close>

definition log_primitive :: "adapter callback" where
  "log_primitive args a =
     (if args \<noteq> [] then Done 2 None a
      else if \<not> a_logger a then Done 3 None a
      else case should_log_capability (a_runtime a) of
             (first, R) \<Rightarrow>
               let a = a\<lparr>a_runtime := R\<rparr>
               in Done 0 (Some wsm_word_nil) (if first then info Capability_Invoked a else a))"

text \<open>
  \<open>ClassPrimitive\<close>: \<open>class_of\<close> of an instance is \<open>None\<close> without a type, \<open>Some None\<close> without a name.
  \<open>token_out\<close> is the address of its local variable, \<open>out\<close> the place for the result.
\<close>

definition class_primitive ::
  "(u64 \<Rightarrow> u8 list option option) \<Rightarrow> u64 \<Rightarrow> u64 \<Rightarrow> u64 \<Rightarrow> adapter callback" where
  "class_primitive class_of session token_out out args a =
     (if length args \<noteq> 1 then Done 2 None a
      else if session = 0 then Done 3 None a
      else Call (Unwrap_Game_Handle session (args ! 0) token_out) (\<lambda>r.
        if fst r \<noteq> 0 then Done 4 None a
        else let handle = resolve (a_handles a) (hd (snd r))
        in if handle = 0 then Done 5 None a
        else case class_of handle of
               None \<Rightarrow> Done 6 None a
             | Some None \<Rightarrow> Done 7 None a
             | Some (Some class_name) \<Rightarrow>
                 Call (Wrap_Transient_String session (Some class_name) out) (\<lambda>r.
                   if fst r = 0 then Done 0 (Some (hd (snd r))) a else Done 8 None a)))"

text \<open>
  \<open>PlayerPresentPrimitive\<close> binds a name in the session, so it is a step of the whole process. The
  observation is whether the engine executed the lookup, and the instance that it gave.
\<close>

definition finish_present :: "bool \<Rightarrow> adapter process \<Rightarrow> (fatal + (i32 \<times> u64 option)) \<times> adapter process" where
  "finish_present present P =
     (case player_presence_changed (a_runtime (p_host P)) present of
        (changed, R) \<Rightarrow>
          let a = (p_host P)\<lparr>a_runtime := R\<rparr>
          in (Inr (0, Some (if present then wsm_word_true else wsm_word_nil)),
              P\<lparr>p_host := (if changed then info (Player_Presence present) a else a)\<rparr>))"

definition bind_nil ::
  "u8 list \<Rightarrow> u64 \<Rightarrow> adapter process \<Rightarrow> (fatal + (i32 \<times> u64 option)) \<times> adapter process" where
  "bind_nil surface session P =
     (if session = 0 then (Inr (4, None), P)
      else step_then (wsm_bind P session (Some surface) wsm_word_nil) (\<lambda>rc P.
        if rc \<noteq> 0 then (Inr (4, None), P)
        else let a = p_host P
             in finish_present False (P\<lparr>p_host := info Released_Player
                  (a\<lparr>a_handles := release (a_handles a) (a_player a), a_player := 0\<rparr>)\<rparr>)))"

definition drop_token :: "u64 \<Rightarrow> adapter process \<Rightarrow> adapter process" where
  "drop_token token P = P\<lparr>p_host := (p_host P)\<lparr>a_handles := release (a_handles (p_host P)) token\<rparr>\<rparr>"

definition bind_new ::
  "platform \<Rightarrow> u8 list \<Rightarrow> u64 \<Rightarrow> u64 \<Rightarrow> u64 \<Rightarrow> adapter process \<Rightarrow>
     (fatal + (i32 \<times> u64 option)) \<times> adapter process" where
  "bind_new pl surface session word_out handle P =
     (if session = 0 then (Inr (5, None), P)
      else case retain (a_handles (p_host P)) handle of
        (token, T) \<Rightarrow>
          let P = P\<lparr>p_host := (p_host P)\<lparr>a_handles := T\<rparr>\<rparr>
          in if token = 0 then (Inr (6, None), P)
          else step_then (call_boundary pl P (Wrap_Game_Handle session token word_out)) (\<lambda>r P.
            if fst r \<noteq> 0 then (Inr (7, None), drop_token token P)
            else step_then (wsm_bind P session (Some surface) (hd (snd r))) (\<lambda>rc P.
              if rc \<noteq> 0 then (Inr (8, None), drop_token token P)
              else let previous = a_player (p_host P);
                       P = drop_token previous (P\<lparr>p_host := (p_host P)\<lparr>a_player := token\<rparr>\<rparr>)
                   in finish_present True (P\<lparr>p_host := info (Bound_Player token) (p_host P)\<rparr>))))"

definition player_present_primitive ::
  "platform \<Rightarrow> u8 list \<Rightarrow> u64 \<Rightarrow> u64 \<Rightarrow> bool \<times> u64 \<Rightarrow> u64 list \<Rightarrow> adapter process \<Rightarrow>
     (fatal + (i32 \<times> u64 option)) \<times> adapter process" where
  "player_present_primitive pl surface session word_out observation args P =
     (case observation of (executed, observed) \<Rightarrow>
        if args \<noteq> [] then (Inr (2, None), P)
        else if \<not> a_logger (p_host P) then (Inr (3, None), P)
        else let a = p_host P
             in (case decide executed observed (resolve (a_handles a) (a_player a)) of
                   BindNil \<Rightarrow> bind_nil surface session P
                 | BindNew \<Rightarrow> bind_new pl surface session word_out observed P
                 | _ \<Rightarrow> finish_present (executed \<and> observed \<noteq> 0) P))"

text \<open>
  As a callback of an evaluation: the branches that keep the player do not touch the session. The two
  that bind call \<open>wsm_bind\<close>, which is no part of what callbacks may do; \<open>rebind\<close> stands for them.
\<close>

definition present_callback :: "adapter callback \<Rightarrow> adapter callback" where
  "present_callback rebind args a =
     (if args \<noteq> [] then Done 2 None a
      else if \<not> a_logger a then Done 3 None a
      else case a_engine a of (executed, observed) \<Rightarrow>
        if decide executed observed (resolve (a_handles a) (a_player a)) \<notin> {Keep, Preserve} then rebind args a
        else let present = executed \<and> observed \<noteq> 0
             in (case player_presence_changed (a_runtime a) present of
                   (changed, R) \<Rightarrow>
                     let a = a\<lparr>a_runtime := R\<rparr>
                     in Done 0 (Some (if present then wsm_word_true else wsm_word_nil))
                          (if changed then info (Player_Presence present) a else a)))"

section \<open>The callbacks keep the contract\<close>

lemma word_constants: "tag_of wsm_word_nil \<noteq> TAG_CONS" "tag_of wsm_word_true \<noteq> TAG_CONS"
  by (simp_all add: wsm_word_nil_def wsm_word_true_def tag_defs tag_of_def)

lemma log_primitive_ok: "callback_ok p log_primitive"
  using word_constants by (auto simp: callback_ok_def log_primitive_def Let_def split: prod.split)

lemma class_primitive_ok: "callback_ok p (class_primitive class_of p token_out out)"
proof -
  have "answers p (set args) (class_primitive class_of p token_out out args a)" for args and a :: adapter
    by (auto simp: class_primitive_def Let_def plausible_def split: option.split)
  then show ?thesis by (simp add: callback_ok_def)
qed

lemma present_callback_ok:
  assumes "callback_ok p rebind"
  shows "callback_ok p (present_callback rebind)"
proof -
  have "answers p {} (rebind [] a)" for a
    using assms [unfolded callback_ok_def] by (metis list.set(1))
  then show ?thesis
    using word_constants by (auto simp: callback_ok_def present_callback_def Let_def split: prod.split)
qed

text \<open>Where it keeps the player, the callback is the primitive.\<close>

lemma present_callback_agrees:
  assumes "decide (fst (a_engine (p_host P))) (snd (a_engine (p_host P)))
      (resolve (a_handles (p_host P)) (a_player (p_host P))) \<in> {Keep, Preserve}"
  shows "\<exists>rc r a. present_callback rebind args (p_host P) = Done rc r a
    \<and> player_present_primitive pl surface session word_out (a_engine (p_host P)) args P = (Inr (rc, r), P\<lparr>p_host := a\<rparr>)"
  using assms
  by (auto simp: present_callback_def player_present_primitive_def finish_present_def Let_def split: prod.split)

section \<open>The player's handle\<close>

text \<open>
  Between two calls: the table holds the player's handle under the player's token or nothing, the
  name of the player is unbound, or nil, or the word of that token, and every handle that the session
  has wrapped has a token that was given out.
\<close>

definition player_bound :: "codec \<Rightarrow> u64 \<Rightarrow> boxed_table \<Rightarrow> u64 option \<Rightarrow> bool" where
  "player_bound c token b v \<longleftrightarrow>
     (if token = 0 then v = None \<or> v = Some WORD_NIL
      else \<exists>w. v = Some w \<and> tag_of w = TAG_BOXED
        \<and> boxed_get_entry c b w = Some \<lparr>entry_value = GameHandle token, entry_lifetime = Persistent\<rparr>)"

definition adapter_ok :: "adapter \<Rightarrow> bool" where
  "adapter_ok a \<longleftrightarrow> a_logger a \<and> handles_ok (a_handles a) \<and> a_player a < m_nextToken (a_handles a)
     \<and> dom (m_handles (a_handles a)) = (if a_player a = 0 then {} else {a_player a})"

definition session_epoch :: "platform \<Rightarrow> rstring \<Rightarrow> adapter \<Rightarrow> adapter session \<Rightarrow> bool" where
  "session_epoch pl n a S \<longleftrightarrow>
     player_bound (pl_codec pl) (a_player a) (s_boxed S) (bindings (s_env S) n)
   \<and> (\<forall>w t. get_game_handle (pl_codec pl) (s_boxed S) w = Some t \<longrightarrow> t < m_nextToken (a_handles a))"

definition epoch_ok :: "platform \<Rightarrow> rstring \<Rightarrow> u64 \<Rightarrow> nat \<Rightarrow> adapter process \<Rightarrow> bool" where
  "epoch_ok pl n p k P \<longleftrightarrow> process_ok pl P \<and> adapter_ok (p_host P)
     \<and> unat (m_nextToken (a_handles (p_host P))) + k < 2 ^ 64
     \<and> (\<exists>S. p_sessions P p = Some S \<and> session_epoch pl n (p_host P) S \<and> k \<le> boxed_room (pl_codec pl) (s_boxed S))"

lemma adapter_new_ok: "adapter_ok adapter_new"
  using handles_new_ok by (simp add: adapter_ok_def adapter_new_def handles_new_def)

lemma epoch_start:
  assumes "process_ok pl P" and "p \<noteq> 0" and "p_host P = adapter_new"
    and "k + 1 < 2 ^ 64" and "k \<le> boxed_room (pl_codec pl) []"
  shows "epoch_ok pl n p k (put_session P p session_new)"
proof -
  have "process_ok pl (put_session P p session_new)"
    by (rule put_session_ok [OF assms(1,2) session_new_ok])
  then show ?thesis
    using assms adapter_new_ok
    by (simp add: epoch_ok_def session_epoch_def player_bound_def session_new_def env_new_def boxed_new_def
        get_game_handle_def boxed_get_entry_def adapter_new_def handles_new_def split: option.split)
qed

text \<open>The player's handle is the only one there is.\<close>

lemma only_player:
  assumes "adapter_ok a" and "t \<noteq> a_player a"
  shows "resolve (a_handles a) t = 0"
proof -
  have "t \<notin> dom (m_handles (a_handles a))" using assms by (auto simp: adapter_ok_def split: if_splits)
  then show ?thesis by (auto simp: resolve_def dom_def)
qed

lemma player_resolves:
  assumes "adapter_ok a"
  shows "resolve (a_handles a) (a_player a) = 0 \<longleftrightarrow> a_player a = 0"
proof (cases "a_player a = 0")
  case False
  then have "m_handles (a_handles a) (a_player a) \<noteq> None" using assms by (auto simp: adapter_ok_def)
  then show ?thesis using False resolve_zero assms by (auto simp: adapter_ok_def)
qed simp

definition observed_handle :: "adapter \<Rightarrow> bool \<times> u64 \<Rightarrow> u64" where
  "observed_handle a obs = (if fst obs then snd obs else resolve (a_handles a) (a_player a))"

definition presence_word :: "bool \<times> u64 \<Rightarrow> u64" where
  "presence_word obs = (if fst obs \<and> snd obs \<noteq> 0 then wsm_word_true else wsm_word_nil)"

text \<open>What one call does: the new player is the observed one, under a token that is new if it changed.\<close>

definition observes :: "platform \<Rightarrow> u64 \<Rightarrow> bool \<times> u64 \<Rightarrow> adapter process \<Rightarrow> adapter process \<Rightarrow> bool" where
  "observes pl p obs P P' \<longleftrightarrow>
     resolve (a_handles (p_host P')) (a_player (p_host P')) = observed_handle (p_host P) obs
   \<and> a_player (p_host P') \<in> {0, a_player (p_host P), m_nextToken (a_handles (p_host P))}
   \<and> m_nextToken (a_handles (p_host P)) \<le> m_nextToken (a_handles (p_host P'))
   \<and> only_session p P P'
   \<and> (\<forall>S w e. p_sessions P p = Some S \<longrightarrow> boxed_get_entry (pl_codec pl) (s_boxed S) w = Some e \<longrightarrow>
        (\<exists>S'. p_sessions P' p = Some S' \<and> boxed_get_entry (pl_codec pl) (s_boxed S') w = Some e))"

lemma finish_present_runs:
  obtains P' where "finish_present present P = (Inr (0, Some (if present then wsm_word_true else wsm_word_nil)), P')"
    and "p_sessions P' = p_sessions P" "p_arena P' = p_arena P" "a_logger (p_host P') = a_logger (p_host P)"
    and "a_handles (p_host P') = a_handles (p_host P)" "a_player (p_host P') = a_player (p_host P)"
proof (rule that)
  show "finish_present present P = (Inr (0, Some (if present then wsm_word_true else wsm_word_nil)),
      snd (finish_present present P))"
    by (simp add: finish_present_def Let_def split: prod.split)
qed (simp_all add: finish_present_def info_def Let_def split: prod.split)

lemma bind_runs:
  assumes "p_sessions P p = Some S" and "p \<noteq> 0" and "text_ok n"
  shows "wsm_bind P p (Some (utf8_encode n)) v = (Inr 0, put_session P p (S\<lparr>s_env := bind_name (s_env S) n v\<rparr>))"
  using assms c_to_str_encode [OF assms(3)] by (simp add: wsm_bind_def)

lemma wrap_runs:
  assumes "codec_ok (pl_codec pl)" and "p_sessions P p = Some S" and "p \<noteq> 0" and "out \<noteq> 0"
    and "0 < boxed_room (pl_codec pl) (s_boxed S)"
  obtains w b where "call_boundary pl P (Wrap_Game_Handle p t out) = (Inr (0, [w]), put_session P p (S\<lparr>s_boxed := b\<rparr>))"
    and "b = s_boxed S @ [Some \<lparr>entry_value = GameHandle t, entry_lifetime = Persistent\<rparr>]"
    and "boxed_get_entry (pl_codec pl) b w = Some \<lparr>entry_value = GameHandle t, entry_lifetime = Persistent\<rparr>"
    and "tag_of w = TAG_BOXED"
    and "\<And>u. u \<noteq> w \<Longrightarrow> boxed_get_entry (pl_codec pl) b u = boxed_get_entry (pl_codec pl) (s_boxed S) u"
proof -
  let ?c = "pl_codec pl" and ?e = "\<lparr>entry_value = GameHandle t, entry_lifetime = Persistent\<rparr>"
  obtain w where w: "boxed_add ?c (s_boxed S) ?e = (Inr w, s_boxed S @ [Some ?e])" "tag_of w = TAG_BOXED"
    by (rule boxed_add_room [OF assms(1,5)])
  have "tables_of P p = Some (s_boxed S)" using assms(2) by (simp add: tables_of_def)
  then have "boundary pl (Wrap_Game_Handle p t out) (tables_of P) = (Inr (0, [w]), (tables_of P)(p \<mapsto> s_boxed S @ [Some ?e]))"
    using assms(3,4) w(1) by (simp add: wsm_wrap_game_handle_def wrap_into_def add_game_handle_def catch_unwind_or_def)
  then have "call_boundary pl P (Wrap_Game_Handle p t out) = (Inr (0, [w]), put_session P p (S\<lparr>s_boxed := s_boxed S @ [Some ?e]\<rparr>))"
    using with_tables_one [OF assms(2) refl refl refl] by (simp add: call_boundary_def)
  then show thesis
    by (rule that) (use w boxes.put_get [OF assms(1,5) w(1)] boxes.put_other [OF assms(1,5) w(1)] in auto)
qed

lemma bind_session_ok:
  "session_ok pl p S \<Longrightarrow> tag_of v \<noteq> TAG_CONS \<Longrightarrow> session_ok pl p (S\<lparr>s_env := bind_name (s_env S) n v\<rparr>)"
  by (auto simp: session_ok_def)


lemma presence_nil:
  assumes "epoch_ok pl n p (Suc k) P" and "obs = (True, 0)" and "a_player (p_host P) \<noteq> 0"
    and "p \<noteq> 0" and "text_ok n"
  shows "\<exists>P'. bind_nil (utf8_encode n) p P = (Inr (0, Some (presence_word obs)), P')
    \<and> epoch_ok pl n p k P' \<and> observes pl p obs P P'"
proof -
  let ?a = "p_host P"
  obtain S where S: "p_sessions P p = Some S" "session_epoch pl n ?a S" "Suc k \<le> boxed_room (pl_codec pl) (s_boxed S)"
    and ok: "process_ok pl P" "adapter_ok ?a" "unat (m_nextToken (a_handles ?a)) + Suc k < 2 ^ 64"
    using assms(1) by (auto simp: epoch_ok_def)
  let ?S = "S\<lparr>s_env := bind_name (s_env S) n wsm_word_nil\<rparr>" and ?T = "release (a_handles ?a) (a_player ?a)"
  let ?P = "(put_session P p ?S)\<lparr>p_host := info Released_Player (?a\<lparr>a_handles := ?T, a_player := 0\<rparr>)\<rparr>"
  obtain P' where P': "finish_present False ?P = (Inr (0, Some wsm_word_nil), P')"
      "p_sessions P' = (p_sessions P)(p \<mapsto> ?S)" "p_arena P' = p_arena P" "a_logger (p_host P') = a_logger ?a"
      "a_handles (p_host P') = ?T" "a_player (p_host P') = 0"
    by (rule finish_present_runs [of False ?P]) (simp add: info_def)
  have run: "bind_nil (utf8_encode n) p P = (Inr (0, Some (presence_word obs)), P')"
    using assms(2,4) bind_runs [OF S(1) assms(4,5)] P'(1) by (simp add: bind_nil_def presence_word_def Let_def)
  have "process_ok pl (put_session P p ?S)"
    using ok(1) S(1) by (intro put_session_ok assms(4) bind_session_ok word_constants(1)) (simp_all add: process_ok_def)
  then have "process_ok pl P'" by (simp add: process_ok_def P'(2,3))
  moreover have "adapter_ok (p_host P')"
    using ok(2) release_ok by (auto simp: adapter_ok_def P' release_def word_gt_0)
  moreover have "session_epoch pl n (p_host P') ?S"
    using S(2) by (simp add: session_epoch_def player_bound_def P' wsm_word_nil_def release_def)
  ultimately have "epoch_ok pl n p k P'"
    using S(3) ok(3) by (simp add: epoch_ok_def P' release_def)
  moreover have "observes pl p obs P P'"
    using S(1) by (simp add: observes_def P' observed_handle_def assms(2) release_def only_session_def)
  ultimately show ?thesis using run by blast
qed

lemma presence_new:
  assumes "epoch_ok pl n p (Suc k) P" and "obs = (True, h)" and "h \<noteq> 0"
    and "p \<noteq> 0" and "text_ok n" and "out \<noteq> 0"
  shows "\<exists>P'. bind_new pl (utf8_encode n) p out h P = (Inr (0, Some (presence_word obs)), P')
    \<and> epoch_ok pl n p k P' \<and> observes pl p obs P P'"
proof -
  let ?a = "p_host P" and ?c = "pl_codec pl"
  let ?t = "m_nextToken (a_handles ?a)"
  obtain S where S: "p_sessions P p = Some S" "session_epoch pl n ?a S" "Suc k \<le> boxed_room ?c (s_boxed S)"
    and ok: "process_ok pl P" "adapter_ok ?a" "unat ?t + Suc k < 2 ^ 64"
    using assms(1) by (auto simp: epoch_ok_def)
  have codec: "codec_ok ?c" and sok: "session_ok pl p S" using ok(1) S(1) by (simp_all add: process_ok_def)
  have fresh: "?t \<noteq> 0" "?t + 1 \<noteq> 0" "unat (?t + 1) = Suc (unat ?t)"
  proof -
    show "?t \<noteq> 0" using ok(2) by (auto simp: adapter_ok_def)
    show u: "unat (?t + 1) = Suc (unat ?t)" using ok(3) by (simp add: unat_word_ariths)
    then show "?t + 1 \<noteq> 0" by auto
  qed
  obtain T where T: "retain (a_handles ?a) h = (?t, T)" "handles_ok T" "m_nextToken T = ?t + 1"
      "m_handles T = (m_handles (a_handles ?a))(?t \<mapsto> h)"
    using retain_fresh [OF _ assms(3) fresh(1,2)] ok(2) by (metis adapter_ok_def prod.collapse)
  let ?P1 = "P\<lparr>p_host := ?a\<lparr>a_handles := T\<rparr>\<rparr>"
  have S1: "p_sessions ?P1 p = Some S" "0 < boxed_room ?c (s_boxed S)" using S(1,3) by simp_all
  obtain w b where w: "call_boundary pl ?P1 (Wrap_Game_Handle p ?t out) = (Inr (0, [w]), put_session ?P1 p (S\<lparr>s_boxed := b\<rparr>))"
      "b = s_boxed S @ [Some \<lparr>entry_value = GameHandle ?t, entry_lifetime = Persistent\<rparr>]"
      "boxed_get_entry ?c b w = Some \<lparr>entry_value = GameHandle ?t, entry_lifetime = Persistent\<rparr>"
      "tag_of w = TAG_BOXED"
      "\<And>u. u \<noteq> w \<Longrightarrow> boxed_get_entry ?c b u = boxed_get_entry ?c (s_boxed S) u"
    by (rule wrap_runs [OF codec S1(1) assms(4,6) S1(2)]) blast
  let ?S2 = "S\<lparr>s_boxed := b, s_env := bind_name (s_env S) n w\<rparr>" and ?P2 = "put_session ?P1 p (S\<lparr>s_boxed := b\<rparr>)"
  have bound: "wsm_bind ?P2 p (Some (utf8_encode n)) w = (Inr 0, put_session ?P2 p ?S2)"
    using bind_runs [of ?P2 p "S\<lparr>s_boxed := b\<rparr>" n w] assms(4,5) by simp
  let ?T = "release T (a_player ?a)"
  let ?P3 = "(put_session ?P2 p ?S2)\<lparr>p_host := info (Bound_Player ?t) (?a\<lparr>a_player := ?t, a_handles := ?T\<rparr>)\<rparr>"
  obtain P' where P': "finish_present True ?P3 = (Inr (0, Some wsm_word_true), P')"
      "p_sessions P' = (p_sessions P)(p \<mapsto> ?S2)" "p_arena P' = p_arena P" "a_logger (p_host P') = a_logger ?a"
      "a_handles (p_host P') = ?T" "a_player (p_host P') = ?t"
    by (rule finish_present_runs [of True ?P3]) (simp add: info_def)
  have run: "bind_new pl (utf8_encode n) p out h P = (Inr (0, Some (presence_word obs)), P')"
    using assms(2-4) T(1) fresh(1) w(1) bound P'(1)
    by (simp add: bind_new_def presence_word_def Let_def drop_token_def info_def)
  have "tag_of w \<noteq> TAG_CONS" using w(4) by (simp add: tag_defs)
  moreover have "session_ok pl p (S\<lparr>s_boxed := b\<rparr>)"
    using sok w(2) by (simp add: session_ok_def entry_text_ok_def boxed_text_ok_def)
  ultimately have "session_ok pl p ?S2" using bind_session_ok [of pl p "S\<lparr>s_boxed := b\<rparr>" w n] by simp
  from put_session_ok [OF ok(1) assms(4) this] have "process_ok pl P'" by (simp add: process_ok_def P'(2,3))
  moreover have old: "a_player ?a < ?t" "\<And>t. t \<noteq> a_player ?a \<Longrightarrow> m_handles (a_handles ?a) t = None"
    using ok(2) by (auto simp: adapter_ok_def split: if_splits)
  then have table: "m_handles ?T = [?t \<mapsto> h]"
    by (intro ext) (auto simp: release_def T(4))
  then have "adapter_ok (p_host P')"
    using ok(2) release_ok [OF T(2)] fresh(1) T(3) by (simp add: adapter_ok_def P' next_token_less [OF fresh(2)])
  moreover have "session_epoch pl n (p_host P') ?S2"
    unfolding session_epoch_def
  proof (intro conjI allI impI)
    show "player_bound ?c (a_player (p_host P')) (s_boxed ?S2) (bindings (s_env ?S2) n)"
      using w(3,4) fresh(1) by (simp add: player_bound_def P')
    fix u t
    assume "get_game_handle ?c (s_boxed ?S2) u = Some t"
    moreover have "t' < ?t" if "get_game_handle ?c (s_boxed S) u = Some t'" for t'
      using S(2) that by (auto simp: session_epoch_def)
    ultimately have "t \<le> ?t"
      using w(3,5) by (cases "u = w") (auto simp: get_game_handle_def intro: less_imp_le)
    then show "t < m_nextToken (a_handles (p_host P'))"
      by (simp add: P' release_def T(3) next_token_less [OF fresh(2)])
  qed
  moreover have "k \<le> boxed_room ?c b" using S(3) by (simp add: w(2) boxed_room_def)
  ultimately have "epoch_ok pl n p k P'"
    using ok(3) fresh(3) by (simp add: epoch_ok_def P' release_def T(3))
  moreover have "observes pl p obs P P'"
    unfolding observes_def
  proof (intro conjI allI impI)
    show "resolve (a_handles (p_host P')) (a_player (p_host P')) = observed_handle ?a obs"
      using table fresh(1) by (simp add: P' resolve_def observed_handle_def assms(2))
    show "m_nextToken (a_handles ?a) \<le> m_nextToken (a_handles (p_host P'))"
      using next_token_less [OF fresh(2)] by (simp add: P' release_def T(3) less_imp_le)
    show "\<exists>S'. p_sessions P' p = Some S' \<and> boxed_get_entry ?c (s_boxed S') u = Some e"
      if "p_sessions P p = Some S0" "boxed_get_entry ?c (s_boxed S0) u = Some e" for S0 u e
      using that S(1) boxed_get_append by (simp add: P' w(2))
  qed (simp_all add: P' only_session_def)
  ultimately show ?thesis using run by blast
qed

lemma presence_kept:
  assumes "epoch_ok pl n p (Suc k) P" and "observed_handle (p_host P) obs = resolve (a_handles (p_host P)) (a_player (p_host P))"
  shows "\<exists>P'. finish_present present P = (Inr (0, Some (if present then wsm_word_true else wsm_word_nil)), P')
    \<and> epoch_ok pl n p k P' \<and> observes pl p obs P P'"
proof -
  obtain P' where P': "finish_present present P = (Inr (0, Some (if present then wsm_word_true else wsm_word_nil)), P')"
    "p_sessions P' = p_sessions P" "p_arena P' = p_arena P" "a_logger (p_host P') = a_logger (p_host P)"
    "a_handles (p_host P') = a_handles (p_host P)" "a_player (p_host P') = a_player (p_host P)"
    by (rule finish_present_runs [of present P])
  have "epoch_ok pl n p k P'"
    using assms(1) by (auto simp: epoch_ok_def process_ok_def adapter_ok_def session_epoch_def P')
  moreover have "observes pl p obs P P'"
    using assms(2) by (simp add: observes_def P' only_session_def)
  ultimately show ?thesis using P'(1) by blast
qed

text \<open>Any observation at all, by any route.\<close>

lemma player_observed:
  assumes "epoch_ok pl n p (Suc k) P" and "p \<noteq> 0" and "text_ok n" and "out \<noteq> 0"
  shows "\<exists>P'. player_present_primitive pl (utf8_encode n) p out obs [] P = (Inr (0, Some (presence_word obs)), P')
    \<and> epoch_ok pl n p k P' \<and> observes pl p obs P P'"
proof -
  let ?a = "p_host P"
  let ?r = "resolve (a_handles ?a) (a_player ?a)"
  obtain executed observed where obs: "obs = (executed, observed)" by fastforce
  have ok: "adapter_ok ?a" "a_logger ?a" using assms(1) by (simp_all add: epoch_ok_def adapter_ok_def)
  show ?thesis
  proof (cases "decide executed observed ?r")
    case Keep
    then have "observed_handle ?a obs = ?r" by (simp add: decide_cases obs observed_handle_def)
    from presence_kept [OF assms(1) this, of "executed \<and> observed \<noteq> 0"] show ?thesis
      using Keep ok(2) by (simp add: player_present_primitive_def obs presence_word_def Let_def)
  next
    case Preserve
    then have "observed_handle ?a obs = ?r" by (simp add: decide_cases obs observed_handle_def)
    from presence_kept [OF assms(1) this, of "executed \<and> observed \<noteq> 0"] show ?thesis
      using Preserve ok(2) by (simp add: player_present_primitive_def obs presence_word_def Let_def)
  next
    case BindNil
    then have "obs = (True, 0)" "a_player ?a \<noteq> 0"
      using player_resolves [OF ok(1)] by (simp_all add: decide_cases obs)
    from presence_nil [OF assms(1) this assms(2,3)] show ?thesis
      using BindNil ok(2) by (simp add: player_present_primitive_def obs Let_def)
  next
    case BindNew
    then have "obs = (True, observed)" "observed \<noteq> 0" by (simp_all add: decide_cases obs)
    from presence_new [OF assms(1) this assms(2-4)] show ?thesis
      using BindNew ok(2) by (simp add: player_present_primitive_def obs Let_def)
  qed
qed

text \<open>A series of observations, each answered; the last one that was executed decides.\<close>

fun observe_all ::
  "platform \<Rightarrow> u8 list \<Rightarrow> u64 \<Rightarrow> u64 \<Rightarrow> (bool \<times> u64) list \<Rightarrow> adapter process \<Rightarrow>
     (fatal + (i32 \<times> u64 option) list) \<times> adapter process" where
  "observe_all pl surface session out [] P = (Inr [], P)"
| "observe_all pl surface session out (obs # rest) P =
     step_then (player_present_primitive pl surface session out obs [] P) (\<lambda>r P.
       step_then (observe_all pl surface session out rest P) (\<lambda>rs P. (Inr (r # rs), P)))"

definition last_observed :: "adapter \<Rightarrow> (bool \<times> u64) list \<Rightarrow> u64" where
  "last_observed a obs =
     (case filter fst (rev obs) of [] \<Rightarrow> resolve (a_handles a) (a_player a) | (_, observed) # _ \<Rightarrow> observed)"

lemma last_observed_Cons:
  assumes "resolve (a_handles a') (a_player a') = observed_handle a ob"
  shows "last_observed a' obs = last_observed a (ob # obs)"
  using assms by (cases ob) (auto simp: last_observed_def observed_handle_def split: list.split)

text \<open>
  After the series: the table holds the last observed player or nothing, the bound word leads to
  it, and the handles that were wrapped before lead to nothing, unless it is still the same token.
\<close>

lemma observe_all_runs:
  assumes "epoch_ok pl n p (length obs) P" and "p \<noteq> 0" and "text_ok n" and "out \<noteq> 0"
  obtains P' where "observe_all pl (utf8_encode n) p out obs P
      = (Inr (map (\<lambda>ob. (0, Some (presence_word ob))) obs), P')"
    and "epoch_ok pl n p 0 P'"
    and "resolve (a_handles (p_host P')) (a_player (p_host P')) = last_observed (p_host P) obs"
    and "only_session p P P'"
    and "a_player (p_host P') \<in> {0, a_player (p_host P)} \<or> m_nextToken (a_handles (p_host P)) \<le> a_player (p_host P')"
proof -
  have "\<exists>P'. observe_all pl (utf8_encode n) p out obs P
      = (Inr (map (\<lambda>ob. (0, Some (presence_word ob))) obs), P') \<and> epoch_ok pl n p 0 P'
    \<and> resolve (a_handles (p_host P')) (a_player (p_host P')) = last_observed (p_host P) obs
    \<and> only_session p P P'
    \<and> (a_player (p_host P') \<in> {0, a_player (p_host P)} \<or> m_nextToken (a_handles (p_host P)) \<le> a_player (p_host P'))"
    using assms(1)
  proof (induction obs arbitrary: P)
    case Nil
    then show ?case by (simp add: last_observed_def only_session_def)
  next
    case (Cons ob obs)
    obtain P1 where P1: "player_present_primitive pl (utf8_encode n) p out ob [] P = (Inr (0, Some (presence_word ob)), P1)"
        "epoch_ok pl n p (length obs) P1" "observes pl p ob P P1"
      using player_observed [OF _ assms(2-4), of pl "length obs" P ob] Cons.prems by auto
    obtain P' where P': "observe_all pl (utf8_encode n) p out obs P1
        = (Inr (map (\<lambda>ob. (0, Some (presence_word ob))) obs), P')" "epoch_ok pl n p 0 P'"
        "resolve (a_handles (p_host P')) (a_player (p_host P')) = last_observed (p_host P1) obs" "only_session p P1 P'"
        "a_player (p_host P') \<in> {0, a_player (p_host P1)} \<or> m_nextToken (a_handles (p_host P1)) \<le> a_player (p_host P')"
      using Cons.IH [OF P1(2)] by blast
    have "last_observed (p_host P1) obs = last_observed (p_host P) (ob # obs)"
      using P1(3) by (intro last_observed_Cons) (simp add: observes_def)
    moreover have "only_session p P P'" using P1(3) P'(4) by (simp add: observes_def only_session_def)
    moreover have "a_player (p_host P') \<in> {0, a_player (p_host P)} \<or> m_nextToken (a_handles (p_host P)) \<le> a_player (p_host P')"
      using P'(5)
    proof
      assume "a_player (p_host P') \<in> {0, a_player (p_host P1)}"
      then show ?thesis using P1(3) by (auto simp: observes_def)
    next
      assume "m_nextToken (a_handles (p_host P1)) \<le> a_player (p_host P')"
      then show ?thesis using P1(3) order_trans by (auto simp: observes_def)
    qed
    ultimately show ?case using P1(1) P' by (intro exI [of _ P']) simp
  qed
  then show thesis using that by blast
qed

end
