(* ===== verification/Adapter_Session.thy ===== *)
theory Adapter_Session
  imports Adapter
begin

text \<open>
  What the game's session means to Lisp: the primitives of the adapter as functions on values, and
  the answers of \<open>wsm_eval_string\<close> to the forms that use them, with the player's handle bound. The
  names are those of \<open>adapter/host-operations.lisp\<close> and \<open>adapter/host-bindings.lisp\<close>, from which
  the build generates the constants that the adapter registers.
\<close>

section \<open>Names\<close>

definition OP_CP_0001 :: rstring where
  "OP_CP_0001 = [0x437, 0x430, 0x43F, 0x438, 0x448, 0x438, 0x2D, 0x43B, 0x43E, 0x433]"

definition OP_CP_0002 :: rstring where
  "OP_CP_0002 = [0x433, 0x440, 0x430, 0x432, 0x435, 0x446, 0x44C, 0x2D,
     0x43F, 0x440, 0x438, 0x441, 0x443, 0x442, 0x43D, 0x456, 0x439, 63]"

definition OP_CP_0003 :: rstring where
  "OP_CP_0003 = [0x43A, 0x43B, 0x430, 0x441]"

definition CPB_0001 :: rstring where
  "CPB_0001 = [0x433, 0x440, 0x430, 0x432, 0x435, 0x446, 0x44C]"

lemma surface_names:
  "plain_symbol OP_CP_0001" "plain_symbol OP_CP_0002" "plain_symbol OP_CP_0003" "plain_symbol CPB_0001"
  "text_ok OP_CP_0001" "text_ok OP_CP_0002" "text_ok OP_CP_0003" "text_ok CPB_0001"
  "OP_CP_0001 \<noteq> OP_CP_0002" "OP_CP_0001 \<noteq> OP_CP_0003" "OP_CP_0002 \<noteq> OP_CP_0003" "CPB_0001 \<noteq> lit ''t''"
  by (simp_all add: plain_symbol_def atom_ok_def is_delimiter_def is_whitespace_def parse_i64_def valid_scalar_def
      OP_CP_0001_def OP_CP_0002_def OP_CP_0003_def CPB_0001_def)

lemmas surface_distinct = surface_names(9-11) surface_names(9-11) [symmetric]

text \<open>The engine, the addresses of the variables that the primitives use, and the branches that bind.\<close>

record game =
  gm_class_of :: "u64 \<Rightarrow> u8 list option option"
  gm_rebind :: "adapter callback"
  gm_token_out :: u64
  gm_out :: u64

definition game_ok :: "u64 \<Rightarrow> game \<Rightarrow> bool" where
  "game_ok p G \<longleftrightarrow> gm_token_out G \<noteq> 0 \<and> gm_out G \<noteq> 0 \<and> callback_ok p (gm_rebind G)"

section \<open>The adapter as an abstract host\<close>

text \<open>What the primitives do on values, for the handles that the adapter holds.\<close>

definition log_means :: "lisp list \<Rightarrow> int \<Rightarrow> (rstring + lisp) \<times> int" where
  "log_means vs a = (if vs \<noteq> [] then Inl (failed 2) else Inr LNil, a)"

definition class_means ::
  "(u64 \<Rightarrow> u8 list option option) \<Rightarrow> game_handles \<Rightarrow> lisp list \<Rightarrow> int \<Rightarrow> (rstring + lisp) \<times> int" where
  "class_means class_of T vs a =
     (case vs of
        [LBox (GameHandle t)] \<Rightarrow>
          (if resolve T t = 0 then (Inl (failed 5), a)
           else case class_of (resolve T t) of
                  None \<Rightarrow> (Inl (failed 6), a)
                | Some None \<Rightarrow> (Inl (failed 7), a)
                | Some (Some class_name) \<Rightarrow>
                    (case c_to_str class_name of
                       None \<Rightarrow> (Inl (failed 8), a)
                     | Some s \<Rightarrow> (Inr (LBox (Str s)), a - 1)))
      | [_] \<Rightarrow> (Inl (failed 4), a)
      | _ \<Rightarrow> (Inl (failed 2), a))"

definition present_means :: "adapter \<Rightarrow> lisp list \<Rightarrow> int \<Rightarrow> (rstring + lisp) \<times> int" where
  "present_means a vs k =
     (if vs \<noteq> [] then Inl (failed 2)
      else Inr (if fst (a_engine a) \<and> snd (a_engine a) \<noteq> 0 then LSym (lit ''t'') else LNil), k)"

definition player_value :: "adapter \<Rightarrow> lisp" where
  "player_value a = (if a_player a = 0 then LNil else LBox (GameHandle (a_player a)))"

definition game_host :: "game \<Rightarrow> bool \<Rightarrow> adapter \<Rightarrow> int lisp_host" where
  "game_host G bound a =
     \<lparr>lh_within = (\<lambda>k. 0 \<le> k),
      lh_bindings = (if bound then [CPB_0001 \<mapsto> player_value a] else Map.empty),
      lh_primitives = [OP_CP_0001 \<mapsto> log_means, OP_CP_0002 \<mapsto> present_means a,
        OP_CP_0003 \<mapsto> class_means (gm_class_of G) (a_handles a)]\<rparr>"

text \<open>The engine sees the player that is bound, or does not answer.\<close>

definition player_settled :: "adapter \<Rightarrow> bool" where
  "player_settled a \<longleftrightarrow> decide (fst (a_engine a)) (snd (a_engine a)) (resolve (a_handles a) (a_player a)) \<in> {Keep, Preserve}"

text \<open>The worlds in which the player is bound and the adapter is the same but for its log.\<close>

definition game_world ::
  "platform \<Rightarrow> u64 \<Rightarrow> u64 option \<Rightarrow> adapter \<Rightarrow> int \<Rightarrow> adapter world \<Rightarrow> bool" where
  "game_world pl p v a k w \<longleftrightarrow> room_sim pl p k w
     \<and> a_handles (w_host w) = a_handles a \<and> a_logger (w_host w) \<and> a_player (w_host w) = a_player a
     \<and> a_engine (w_host w) = a_engine a \<and> dispatch_lines (w_host w) = dispatch_lines a
     \<and> player_bound (pl_codec pl) (a_player a) (look_at p w) v"

lemma game_world_table: "game_world pl p v a k w \<Longrightarrow> w_tables w p = Some (look_at p w)"
  by (auto simp: game_world_def room_sim_def look_at_def)

lemma player_bound_append: "player_bound c t b v \<Longrightarrow> player_bound c t (b @ es) v"
  using boxed_get_append by (auto simp: player_bound_def split: if_splits)

lemma player_bound_stands:
  "player_bound c (a_player a) b (Some x) \<Longrightarrow> word_stands c st A b (player_value a) x"
  using word_stands_nil word_standsI [of A "Leaf x"]
  by (auto simp: player_bound_def player_value_def split: if_splits)

lemma log_simulates:
  assumes "game_world pl p v a k w" and "length xs = length vs"
  shows "simulates c (look_at p) (game_world pl p v a) G (word_stands c st A) w (log_means vs k)
    (host_closure pl log_primitive xs w)"
proof (cases "vs = []")
  case True
  obtain first R where R: "should_log_capability (a_runtime (w_host w)) = (first, R)" by fastforce
  let ?a = "(w_host w)\<lparr>a_runtime := R\<rparr>"
  let ?w = "\<lparr>w_tables = w_tables w, w_host = if first then info Capability_Invoked ?a else ?a\<rparr>"
  have "host_closure pl log_primitive xs w = (Inr WORD_NIL, ?w)"
    using True assms R by (simp add: host_closure_def log_primitive_def Let_def game_world_def wsm_word_nil_def)
  moreover have "game_world pl p v a k ?w" "look_at p ?w = look_at p w"
    using assms(1) by (auto simp: game_world_def room_sim_def look_at_def info_def dispatch_lines_def)
  ultimately show ?thesis using True word_stands_nil by (simp add: log_means_def simulates_def)
next
  case False
  then have "host_closure pl log_primitive xs w = (Inl (Raise (failed 2)), w)"
    using assms(2) by (auto simp: host_closure_def log_primitive_def failed_def world_eta)
  then show ?thesis using False assms(1) by (simp add: log_means_def simulates_error)
qed

lemma present_simulates:
  assumes "game_world pl p v a k w" and "player_settled a" and "length xs = length vs"
  shows "simulates c (look_at p) (game_world pl p v a) G (word_stands c st A) w (present_means a vs k)
    (host_closure pl (present_callback rebind) xs w)"
proof (cases "vs = []")
  case True
  let ?present = "fst (a_engine a) \<and> snd (a_engine a) \<noteq> 0"
  obtain changed R where R: "player_presence_changed (a_runtime (w_host w)) ?present = (changed, R)" by fastforce
  let ?a = "(w_host w)\<lparr>a_runtime := R\<rparr>"
  let ?w = "\<lparr>w_tables = w_tables w, w_host = if changed then info (Player_Presence ?present) ?a else ?a\<rparr>"
  have run: "host_closure pl (present_callback rebind) xs w = (Inr (if ?present then SYM_T_WORD else WORD_NIL), ?w)"
    using True assms R
    by (auto simp: host_closure_def present_callback_def Let_def game_world_def wsm_word_nil_def wsm_word_true_def
        player_settled_def split: prod.split)
  have "game_world pl p v a k ?w" "look_at p ?w = look_at p w"
    using assms(1) by (auto simp: game_world_def room_sim_def look_at_def info_def dispatch_lines_def)
  then show ?thesis
    using True word_stands_nil word_stands_true unfolding run by (auto simp: present_means_def simulates_def)
next
  case False
  then have "host_closure pl (present_callback rebind) xs w = (Inl (Raise (failed 2)), w)"
    using assms(3) by (auto simp: host_closure_def present_callback_def failed_def world_eta)
  then show ?thesis using False assms(1) by (simp add: present_means_def simulates_error)
qed

lemma class_simulates:
  assumes "game_world pl p v a k w" and "codec_ok (pl_codec pl)" and "p \<noteq> 0" "token_out \<noteq> 0" "out \<noteq> 0"
    and "list_all2 (word_stands (pl_codec pl) st A (look_at p w)) vs xs"
  shows "simulates (pl_codec pl) (look_at p) (game_world pl p v a) (\<lambda>k. 0 \<le> k) (word_stands (pl_codec pl) st A) w
    (class_means class_of (a_handles a) vs k) (host_closure pl (class_primitive class_of p token_out out) xs w)"
proof -
  let ?c = "pl_codec pl" and ?b = "look_at p w" and ?run = "host_closure pl (class_primitive class_of p token_out out) xs w"
  have error: ?thesis if "class_means class_of (a_handles a) vs k = (Inl e, k)" "?run = (Inl (Raise e), w)" for e
    using that assms(1) by (simp add: simulates_error)
  note run_defs = host_closure_def class_primitive_def failed_def world_eta Let_def
  show ?thesis
  proof (cases "length vs = 1")
    case False
    then have "class_means class_of (a_handles a) vs k = (Inl (failed 2), k)"
      by (auto simp: class_means_def split: list.splits lisp.splits boxed_value.splits)
    moreover have "?run = (Inl (Raise (failed 2)), w)"
      using False list_all2_lengthD [OF assms(6)] by (simp add: run_defs)
    ultimately show ?thesis by (rule error)
  next
    case True
    then obtain u x where u: "vs = [u]" "xs = [x]" "word_stands ?c st A ?b u x"
      using assms(6) by (auto simp: length_Suc_conv list_all2_Cons1)
    have call: "boundary pl (Unwrap_Game_Handle p x token_out) (w_tables w) =
        (Inr (case get_game_handle ?c ?b x of Some h \<Rightarrow> (0, [h]) | None \<Rightarrow> (1, [])), w_tables w)"
      using assms(3,4) game_world_table [OF assms(1)] by (simp add: wsm_unwrap_game_handle_def split: option.split)
    note handle = stands_handle [OF assms(2) u(3)]
    have same: "a_handles (w_host w) = a_handles a" using assms(1) by (simp add: game_world_def)
    show ?thesis
    proof (cases "\<exists>t. u = LBox (GameHandle t)")
      case False
      then have "class_means class_of (a_handles a) vs k = (Inl (failed 4), k)"
        by (auto simp: class_means_def u(1) split: lisp.splits boxed_value.splits)
      moreover have "get_game_handle ?c ?b x = None"
        using handle False by (auto split: lisp.splits boxed_value.splits)
      then have "?run = (Inl (Raise (failed 4)), w)" using call assms(3) by (simp add: run_defs u(2))
      ultimately show ?thesis by (rule error)
    next
      case True
      then obtain t where t: "u = LBox (GameHandle t)" "get_game_handle ?c ?b x = Some t" using handle by auto
      define h where "h = resolve (a_handles a) t"
      have means: "class_means class_of (a_handles a) vs k =
          (if h = 0 then (Inl (failed 5), k)
           else case class_of h of None \<Rightarrow> (Inl (failed 6), k) | Some None \<Rightarrow> (Inl (failed 7), k)
             | Some (Some n) \<Rightarrow> (case c_to_str n of None \<Rightarrow> (Inl (failed 8), k) | Some s \<Rightarrow> (Inr (LBox (Str s)), k - 1)))"
        by (simp add: class_means_def u(1) t(1) h_def)
      consider "h = 0" | "h \<noteq> 0" "class_of h = None" | "h \<noteq> 0" "class_of h = Some None"
        | n where "h \<noteq> 0" "class_of h = Some (Some n)" "c_to_str n = None"
        | n s where "h \<noteq> 0" "class_of h = Some (Some n)" "c_to_str n = Some s"
        by (metis option.exhaust)
      then show ?thesis
      proof cases
        case 4
        have "boundary pl (Wrap_Transient_String p (Some n) out) (w_tables w) = (Inr (- 1, []), w_tables w)"
          using 4(3) by (simp add: wsm_wrap_transient_string_def)
        then show ?thesis
          by (intro error [of "failed 8"]) (use 4 means call t(2) same assms(3) h_def in \<open>simp_all add: run_defs u(2)\<close>)
      next
        case 5
        let ?e = "\<lparr>entry_value = Str s, entry_lifetime = Transient\<rparr>"
        show ?thesis
        proof (cases "0 < k")
          case True
          then have "0 < boxed_room ?c ?b"
            using assms(1) by (auto simp: game_world_def room_sim_def look_at_def)
          then obtain z where z: "boundary pl (Wrap_Transient_String p (Some n) out) (w_tables w) =
              (Inr (0, [z]), (w_tables w)(p \<mapsto> ?b @ [Some ?e]))"
              "boxed_get_entry ?c (?b @ [Some ?e]) z = Some ?e" "tag_of z = TAG_BOXED"
            using wraps_string [OF assms(2,3,5) 5(3)] game_world_table [OF assms(1)] unfolding wraps_def by blast
          let ?w = "\<lparr>w_tables = (w_tables w)(p \<mapsto> ?b @ [Some ?e]), w_host = w_host w\<rparr>"
          have run: "?run = (Inr z, ?w)"
            using 5 call t(2) same assms(3) z(1) h_def by (simp add: run_defs u(2))
          have look: "look_at p ?w = ?b @ [Some ?e]" by (simp add: look_at_def)
          have "game_world pl p v a (k - 1) ?w"
            using assms(1) player_bound_append [of ?c "a_player a" ?b v "[Some ?e]"] game_world_table [OF assms(1)]
            by (auto simp: game_world_def room_sim_def look boxed_room_def)
          moreover have "word_stands ?c st A (?b @ [Some ?e]) (LBox (Str s)) z"
            using word_standsI [of A "Leaf z" ?c st "?b @ [Some ?e]" "LBox (Str s)"] z by simp
          ultimately show ?thesis
            unfolding run using 5 means kept_append look by (simp add: simulates_def)
        next
          case False
          then show ?thesis using 5 means by (simp add: simulates_def)
        qed
      qed (intro error; use means call t(2) same assms(3) h_def in \<open>simp add: run_defs u(2)\<close>)+
    qed
  qed
qed

section \<open>Evaluation in the game's session\<close>

text \<open>The environment after \<open>Load\<close>.\<close>

definition game_env :: "platform \<Rightarrow> game \<Rightarrow> u64 \<Rightarrow> u64 option \<Rightarrow> adapter world env \<Rightarrow> bool" where
  "game_env pl G p v E \<longleftrightarrow>
     bindings E = (\<lambda>m. if m = CPB_0001 then v else None)
   \<and> primitives E = [OP_CP_0001 \<mapsto> host_closure pl log_primitive,
       OP_CP_0002 \<mapsto> host_closure pl (present_callback (gm_rebind G)),
       OP_CP_0003 \<mapsto> host_closure pl (class_primitive (gm_class_of G) p (gm_token_out G) (gm_out G))]"

lemma game_absorbing: "absorbing (game_host G bound a)"
proof -
  have "0 \<le> snd (class_means class_of T vs k) \<Longrightarrow> 0 \<le> k" for class_of T vs k
    by (auto simp: class_means_def split: list.splits lisp.splits boxed_value.splits option.splits if_splits)
  then show ?thesis by (auto simp: absorbing_def game_host_def log_means_def present_means_def split: if_splits)
qed

lemma game_implements:
  assumes "game_env pl G p v E" and "game_ok p G" and "player_settled a" and "codec_ok (pl_codec pl)" and "p \<noteq> 0"
  shows "implements (pl_codec pl) \<lparr>ctx_spellings = sp, ctx_arena = A, ctx_env = E, ctx_symbols = st\<rparr>
    (look_at p) (game_world pl p v a) (game_host G (v \<noteq> None) a)"
  unfolding implements_parts
proof (intro conjI allI impI)
  let ?H = "game_host G (v \<noteq> None) a"
  note env = assms(1) [unfolded game_env_def]
  have out: "gm_token_out G \<noteq> 0" "gm_out G \<noteq> 0" using assms(2) by (simp_all add: game_ok_def)
  show "absorbing ?H" by (rule game_absorbing)
  fix m
  show "case lh_bindings ?H m of None \<Rightarrow> bindings E m = None
      | Some u \<Rightarrow> \<exists>x. bindings E m = Some x \<and> word_stands (pl_codec pl) st A (look_at p w) u x"
    if "game_world pl p v a k w" for k and w :: "adapter world"
    using that env player_bound_stands [of "pl_codec pl" a "look_at p w"]
    by (cases v) (auto simp: game_host_def game_world_def)
  show "case lh_primitives ?H m of None \<Rightarrow> primitives E m = None
      | Some K \<Rightarrow> \<exists>g. primitives E m = Some g \<and> (\<forall>k w vs xs. game_world pl p v a k w \<longrightarrow>
          list_all2 (word_stands (pl_codec pl) st A (look_at p w)) vs xs \<longrightarrow>
          simulates (pl_codec pl) (look_at p) (game_world pl p v a) (lh_within ?H)
            (word_stands (pl_codec pl) st A) w (K vs k) (g xs w))"
    using env surface_distinct log_simulates present_simulates [OF _ assms(3)] class_simulates [OF _ assms(4,5) out]
    by (auto simp: game_host_def dest: list_all2_lengthD)
qed

text \<open>
  Between two evaluations: the session at \<open>p\<close> has that environment and the player's handle, and room
  for \<open>k\<close> more entries; \<open>bound\<close> says whether the name of the player is bound yet.
\<close>

definition game_ready :: "platform \<Rightarrow> game \<Rightarrow> u64 \<Rightarrow> bool \<Rightarrow> nat \<Rightarrow> adapter process \<Rightarrow> bool" where
  "game_ready pl G p bound k P \<longleftrightarrow> process_ok pl P \<and> a_logger (p_host P) \<and> player_settled (p_host P)
   \<and> (\<exists>S v. p_sessions P p = Some S \<and> session_room pl S k \<and> game_env pl G p v (s_env S) \<and> (v \<noteq> None) = bound
        \<and> player_bound (pl_codec pl) (a_player (p_host P)) (s_boxed S) v)"

definition same_player :: "adapter \<Rightarrow> adapter \<Rightarrow> bool" where
  "same_player a a' \<longleftrightarrow> a_handles a' = a_handles a \<and> a_player a' = a_player a \<and> a_engine a' = a_engine a
     \<and> dispatch_lines a' = dispatch_lines a"

text \<open>
  The answer to any form over the adapter's primitives; afterwards the adapter is the same but for its
  log, and the session as ready as before, with the room that the form has left.
\<close>

lemma game_answers:
  assumes "game_ready pl G p bound (length s + k) P" and "game_ok p G"
    and "text_ok s" and "tokenize s = Inr (toks f)" and "cells_of f \<le> ARENA_CELLS"
    and "feval (pl_spellings pl) (game_host G bound (p_host P)) f (int k) = (r, int j)" and "j \<le> k"
  shows "\<exists>P'. wsm_eval_string pl P p (Some (utf8_encode s)) = (Inr (utf8_encode (answer_text r)), P')
    \<and> game_ready pl G p bound j P' \<and> only_session p P P' \<and> same_player (p_host P) (p_host P') \<and> text_ok (answer_text r)"
proof -
  obtain S v where S: "p_sessions P p = Some S" "session_room pl S (length s + k)" "game_env pl G p v (s_env S)"
      "bound = (v \<noteq> None)" "player_bound (pl_codec pl) (a_player (p_host P)) (s_boxed S) v"
    and ok: "process_ok pl P" "a_logger (p_host P)" "player_settled (p_host P)"
    using assms(1) by (auto simp: game_ready_def)
  let ?H = "game_host G bound (p_host P)" and ?sim = "game_world pl p v (p_host P)"
  have codec: "codec_ok (pl_codec pl)" and p: "p \<noteq> 0" using ok(1) S(1) by (auto simp: process_ok_def)
  have hosts: "hosts pl p S ?sim ?H"
    unfolding hosts_def S(4) using game_implements [OF S(3) assms(2) ok(3) codec p] by blast
  have starts: "starts pl p P S k ?sim (int k)"
    unfolding starts_def
  proof (intro allI impI)
    fix b
    assume b: "grown (clear_transient (s_boxed S)) b" "k \<le> boxed_room (pl_codec pl) b"
    have "player_bound (pl_codec pl) (a_player (p_host P)) b v"
      using S(5) grown_persistent [OF b(1), of "pl_codec pl"]
      by (auto simp: player_bound_def split: if_splits)
    then show "?sim (int k) \<lparr>w_tables = (tables_of P)(p \<mapsto> b), w_host = p_host P\<rparr>"
      using b(2) ok(2) by (simp add: game_world_def room_sim_def look_at_def)
  qed
  have within: "lh_within ?H (int j)" by (simp add: game_host_def)
  obtain P' S' w where e: "eval_str pl P p S s = (Inr (answer_text r), P')" "evaluated pl p P P'"
      "p_sessions P' p = Some S'" "s_env S' = s_env S" "k \<le> symbols_room (s_symbols S')"
      "?sim (int j) w" "w_host w = p_host P'" "s_boxed S' = clear_transient (look_at p w)"
    using eval_str_means [where sim = ?sim, OF ok(1) S(1) assms(3) S(2) assms(4,5) hosts starts assms(6) within]
    by blast
  have room: "session_room pl S (length s)" using S(2) by (simp add: session_room_def)
  have t: "text_ok (answer_text r)" by (rule eval_str_text_ok [OF ok(1) S(1) assms(3) room e(1)])
  have same: "same_player (p_host P) (p_host P')" "a_logger (p_host P')"
    using e(6,7) by (auto simp: same_player_def game_world_def)
  then have "player_settled (p_host P')" using ok(3) by (simp add: player_settled_def same_player_def)
  moreover have "player_bound (pl_codec pl) (a_player (p_host P')) (s_boxed S') v"
    using e(6-8)
    by (auto simp: game_world_def player_bound_def boxes.drop_get split: if_splits)
  moreover have "session_room pl S' j"
    using e(5,6,8) assms(7) by (auto simp: session_room_def game_world_def room_sim_def look_at_def boxed_room_def)
  ultimately have "game_ready pl G p bound j P'"
    using e(2-4) S(3,4) same by (auto simp: game_ready_def evaluated_def)
  moreover have "only_session p P P'" using e(2) by (simp add: evaluated_def)
  ultimately show ?thesis using eval_string_of_text [OF ok(1) S(1) assms(3) t e(1)] same(1) t by blast
qed

text \<open>The form that asks for the player's class.\<close>

definition ask_class :: form where
  "ask_class = FList [FAtom OP_CP_0003, FAtom CPB_0001]"

lemma ask_class_means:
  assumes "spelled s OP_CP_0003 = Op_Call OP_CP_0003"
  shows "feval s (game_host G True a) ask_class k =
    (case class_means (gm_class_of G) (a_handles a) [player_value a] k of
       (Inl e, k') \<Rightarrow> (Inl (HostPrimitiveFailed OP_CP_0003 e), k') | (Inr v, k') \<Rightarrow> (Inr v, k'))"
proof -
  have "form_operator s (FAtom OP_CP_0003) = Some (Op_Call OP_CP_0003)"
    using assms plain_symbol_value [OF surface_names(3)] by (simp add: form_operator_def)
  then show ?thesis
    using plain_symbol_value [OF surface_names(4)] surface_names(12) surface_distinct
    by (simp add: ask_class_def symbol_value_def game_host_def call_host_def)
qed

end
