(* ===== verification/Repl_Queue.thy ===== *)
theory Repl_Queue
  imports Prelude
begin

text \<open>
  \<open>adapter/src/LocalReplQueue.hpp\<close>: the bounded queue between the socket worker and the game
  thread. Every operation takes the queue's mutex, so each one is a single step on the queue. The
  locale \<open>bounded_fifo\<close> is what the two threads rely on; its client lemma follows any sequence of
  operations.
\<close>

type_synonym bytes = "u8 list"

definition kMaxRequestBytes :: nat where "kMaxRequestBytes = 16 * 1024"
definition kMaxPendingRequests :: nat where "kMaxPendingRequests = 32"

text \<open>A reply is a \<open>std::function\<close>; what it refers to is up to the caller (\<open>'r\<close>), \<open>None\<close> is the empty one.\<close>

record 'r request =
  rq_source :: bytes
  rq_reply :: 'r

record 'r request_queue =
  m_requests :: "'r request list"

definition empty_queue :: "'r request_queue" where "empty_queue = \<lparr>m_requests = []\<rparr>"

definition push :: "'r request_queue \<Rightarrow> bytes \<Rightarrow> 'r option \<Rightarrow> bool \<times> 'r request_queue" where
  "push Q source reply =
     (case reply of
        None \<Rightarrow> (False, Q)
      | Some r \<Rightarrow>
          if length source > kMaxRequestBytes then (False, Q)
          else if length (m_requests Q) = kMaxPendingRequests then (False, Q)
          else (True, Q\<lparr>m_requests := m_requests Q @ [\<lparr>rq_source = source, rq_reply = r\<rparr>]\<rparr>))"

definition pop :: "'r request_queue \<Rightarrow> 'r request option \<times> 'r request_queue" where
  "pop Q =
     (case m_requests Q of
        [] \<Rightarrow> (None, Q)
      | request # rest \<Rightarrow> (Some request, Q\<lparr>m_requests := rest\<rparr>))"

definition pending :: "'r request_queue \<Rightarrow> nat" where
  "pending Q = length (m_requests Q)"

text \<open>
  \<open>CancelAll\<close> swaps the requests out under the mutex and then calls the replies in order; \<open>invoke\<close>
  is what calling a reply with a text does to the rest of the program.
\<close>

fun reply_all :: "('r \<Rightarrow> bytes \<Rightarrow> 's \<Rightarrow> 's) \<Rightarrow> bytes \<Rightarrow> 'r request list \<Rightarrow> 's \<Rightarrow> 's" where
  "reply_all invoke result [] s = s"
| "reply_all invoke result (request # cancelled) s =
     reply_all invoke result cancelled (invoke (rq_reply request) result s)"

definition cancel_all ::
  "('r \<Rightarrow> bytes \<Rightarrow> 's \<Rightarrow> 's) \<Rightarrow> 'r request_queue \<Rightarrow> bytes \<Rightarrow> 's \<Rightarrow> (nat \<times> 'r request_queue) \<times> 's" where
  "cancel_all invoke Q result s =
     (let cancelled = m_requests Q
      in ((length cancelled, Q\<lparr>m_requests := []\<rparr>), reply_all invoke result cancelled s))"

section \<open>The queue as an abstract first-in first-out buffer\<close>

text \<open>
  The promise to its users: requests that are admissible come out in the order in which they went
  in, no more than \<open>bound\<close> wait, and a rejected request changes nothing.
\<close>

locale bounded_fifo =
  fixes content :: "'q \<Rightarrow> 'a list"
    and start :: 'q
    and put :: "'q \<Rightarrow> 'a \<Rightarrow> bool \<times> 'q"
    and get :: "'q \<Rightarrow> 'a option \<times> 'q"
    and bound :: nat
    and admissible :: "'a \<Rightarrow> bool"
  assumes content_start: "content start = []"
    and put_accepts: "length (content q) \<le> bound \<Longrightarrow>
      fst (put q x) \<longleftrightarrow> admissible x \<and> length (content q) < bound"
    and put_content: "content (snd (put q x)) = (if fst (put q x) then content q @ [x] else content q)"
    and get_content: "content q = (case fst (get q) of None \<Rightarrow> [] | Some x \<Rightarrow> x # content (snd (get q)))"
    and get_nothing: "content q = [] \<Longrightarrow> fst (get q) = None \<and> content (snd (get q)) = []"
begin

text \<open>A history: \<open>Some x\<close> puts, \<open>None\<close> gets. What was accepted, what came out, and the queue after it.\<close>

fun history :: "'a option list \<Rightarrow> 'q \<Rightarrow> 'a list \<times> 'a list \<times> 'q" where
  "history [] q = ([], [], q)"
| "history (Some x # ops) q =
     (case put q x of (ok, q') \<Rightarrow>
        (case history ops q' of (ins, outs, q'') \<Rightarrow> (if ok then x # ins else ins, outs, q'')))"
| "history (None # ops) q =
     (case get q of (r, q') \<Rightarrow>
        (case history ops q' of (ins, outs, q'') \<Rightarrow>
           (ins, (case r of None \<Rightarrow> outs | Some x \<Rightarrow> x # outs), q'')))"

lemma put_bound: "length (content q) \<le> bound \<Longrightarrow> length (content (snd (put q x))) \<le> bound"
  using put_accepts [of q x] put_content [of q x] by (cases "fst (put q x)") auto

lemma get_bound: "length (content q) \<le> bound \<Longrightarrow> length (content (snd (get q))) \<le> bound"
  using get_content [of q] get_nothing [of q] by (cases "fst (get q)") auto

lemma get_admissible:
  "list_all admissible (content q) \<Longrightarrow> list_all admissible (content (snd (get q)))"
  using get_content [of q] get_nothing [of q] by (cases "fst (get q)") auto

text \<open>What comes out, and then what still waits, is what was there and then what was accepted.\<close>

lemma history_in_order:
  assumes "history ops q = (ins, outs, q')" and "length (content q) \<le> bound"
    and "list_all admissible (content q)"
  shows "content q @ ins = outs @ content q'" and "length (content q') \<le> bound"
    and "list_all admissible (content q')"
proof -
  have "content q @ ins = outs @ content q' \<and> length (content q') \<le> bound \<and> list_all admissible (content q')"
    using assms
  proof (induction ops q arbitrary: ins outs q' rule: history.induct)
    case (2 x ops q)
    obtain ok p where put: "put q x = (ok, p)" by fastforce
    obtain ins' where h: "history ops p = (ins', outs, q')" "ins = (if ok then x # ins' else ins')"
      using "2.prems"(1) put by (auto split: prod.splits)
    have "list_all admissible (content p)" "length (content p) \<le> bound"
      using put_content [of q x] put_accepts [of q x] put_bound [of q x] "2.prems"(2,3) put by auto
    from "2.IH" [OF put [symmetric] h(1) this(2,1)] show ?case
      using put_content [of q x] put h(2) by (cases ok) auto
  next
    case (3 ops q)
    obtain r p where get: "get q = (r, p)" by fastforce
    obtain outs' where h: "history ops p = (ins, outs', q')" "outs = (case r of None \<Rightarrow> outs' | Some x \<Rightarrow> x # outs')"
      using "3.prems"(1) get by (auto split: prod.splits)
    from "3.IH" [OF get [symmetric] h(1)] have "content p @ ins = outs' @ content q'"
        "length (content q') \<le> bound" "list_all admissible (content q')"
      using get_bound [of q] get_admissible [of q] "3.prems"(2,3) get by auto
    then show ?case
      using get_content [of q] get_nothing [of q] get h(2) by (cases r) auto
  qed simp
  then show "content q @ ins = outs @ content q'" and "length (content q') \<le> bound"
    and "list_all admissible (content q')" by simp_all
qed

end

text \<open>The code's queue, with the reply that a request carries.\<close>

definition put_request :: "'r request_queue \<Rightarrow> 'r request \<Rightarrow> bool \<times> 'r request_queue" where
  "put_request Q request = push Q (rq_source request) (Some (rq_reply request))"

lemma push_cases:
  "push Q source (Some r) =
     (if length source \<le> kMaxRequestBytes \<and> length (m_requests Q) \<noteq> kMaxPendingRequests
      then (True, Q\<lparr>m_requests := m_requests Q @ [\<lparr>rq_source = source, rq_reply = r\<rparr>]\<rparr>) else (False, Q))"
  by (simp add: push_def)

interpretation rq: bounded_fifo m_requests empty_queue put_request pop kMaxPendingRequests
  "\<lambda>request :: 'r request. length (rq_source request) \<le> kMaxRequestBytes"
proof unfold_locales
  fix Q :: "'r request_queue" and x :: "'r request"
  show "m_requests (empty_queue :: 'r request_queue) = []" by (simp add: empty_queue_def)
  show "fst (put_request Q x) \<longleftrightarrow> length (rq_source x) \<le> kMaxRequestBytes \<and> length (m_requests Q) < kMaxPendingRequests"
    if "length (m_requests Q) \<le> kMaxPendingRequests"
    using that by (auto simp: put_request_def push_cases)
  show "m_requests (snd (put_request Q x)) = (if fst (put_request Q x) then m_requests Q @ [x] else m_requests Q)"
    by (simp add: put_request_def push_cases)
  show "m_requests Q = (case fst (pop Q) of None \<Rightarrow> [] | Some x \<Rightarrow> x # m_requests (snd (pop Q)))"
    "m_requests Q = [] \<Longrightarrow> fst (pop Q) = None \<and> m_requests (snd (pop Q)) = []"
    by (simp_all add: pop_def split: list.split)
qed

lemma cancel_all_empties:
  "cancel_all invoke Q result s = ((n, Q'), s') \<Longrightarrow> n = pending Q \<and> pending Q' = 0
     \<and> s' = fold (\<lambda>request. invoke (rq_reply request) result) (m_requests Q) s"
proof -
  have "reply_all invoke result rs s = fold (\<lambda>request. invoke (rq_reply request) result) rs s" for rs
    by (induction rs arbitrary: s) simp_all
  then show "cancel_all invoke Q result s = ((n, Q'), s') \<Longrightarrow> ?thesis"
    by (auto simp: cancel_all_def Let_def pending_def)
qed

end
