(* ===== verification/Repl_Server.thy ===== *)
theory Repl_Server
  imports Repl_Queue
begin

text \<open>
  \<open>adapter/src/LocalReplServer.cpp\<close>: the socket worker (\<open>Run\<close>, \<open>ServeClient\<close>) and the game thread
  (\<open>Start\<close>, \<open>Drain\<close>, \<open>Stop\<close>) as one step relation, a step for every access to what the two threads
  share. Sockets are the environment: a receive may time out, fail, or give any chunk of up to 1024
  bytes; an accept may fail; what is sent is a list of lines. The evaluator is the function that
  \<open>Drain\<close> is given, on a state of its own.
\<close>

section \<open>Lines in the buffer\<close>

text \<open>\<open>find('\n')\<close>, with \<open>None\<close> for \<open>npos\<close>, and the removal of one carriage return at the end.\<close>

definition find_newline :: "bytes \<Rightarrow> nat option" where
  "find_newline b = (if 10 \<in> set b then Some (length (takeWhile (\<lambda>c. c \<noteq> 10) b)) else None)"

definition strip_cr :: "bytes \<Rightarrow> bytes" where
  "strip_cr source = (if source \<noteq> [] \<and> last source = 13 then butlast source else source)"

definition ascii :: "string \<Rightarrow> bytes" where "ascii s = map of_char s"

definition too_long_reply :: bytes where
  "too_long_reply = ascii ''error: REPL request exceeds 16384 bytes''"
definition rejected_reply :: bytes where
  "rejected_reply = ascii ''error: REPL request rejected (size or queue capacity)''"
definition ended_reply :: bytes where
  "ended_reply = ascii ''error: REPL session ended''"

section \<open>The state of the two threads\<close>

text \<open>
  Where the worker is: before the test of \<open>running\<close> in \<open>Run\<close> and in \<open>accept\<close>, before the test in
  \<open>ServeClient\<close> and in \<open>recv\<close>, in the inner loop over the buffer, in the wait for a reply, or not
  there at all. And the game thread: between calls, in the loop of \<open>Drain\<close>, evaluating a request, in
  the join of \<open>Stop\<close>, or down after it has followed a null pointer.
\<close>

datatype worker_at = Accept_Check | In_Accept | Receive_Check | In_Receive | Splitting | Waiting | Ended

datatype game_at = Playing | Draining | Evaluating "nat request" | Joining | Crashed

text \<open>
  A reply is the number of a promise. \<open>sv_received\<close>, \<open>sv_base\<close> and \<open>sv_served\<close> are not variables of
  the code: the bytes of the present connection, the number of evaluations before it, and all
  evaluations with their results.
\<close>

record 'g server =
  sv_running :: bool
  sv_attached :: bool
  sv_queue :: "nat request_queue"
  sv_worker :: worker_at
  sv_buffered :: bytes
  sv_newline :: "nat option"
  sv_awaited :: nat
  sv_promises :: "nat \<Rightarrow> bytes option"
  sv_next :: nat
  sv_sent :: "bytes list"
  sv_game :: game_at
  sv_session :: 'g
  sv_received :: bytes
  sv_base :: nat
  sv_served :: "(bytes \<times> bytes) list"

definition server_new :: "'g \<Rightarrow> 'g server" where
  "server_new g = \<lparr>sv_running = False, sv_attached = False, sv_queue = empty_queue, sv_worker = Ended,
     sv_buffered = [], sv_newline = None, sv_awaited = 0, sv_promises = (\<lambda>_. None), sv_next = 0, sv_sent = [],
     sv_game = Playing, sv_session = g, sv_received = [], sv_base = 0, sv_served = []\<rparr>"

section \<open>The operations\<close>

definition send_line :: "bytes \<Rightarrow> 'g server \<Rightarrow> 'g server" where
  "send_line line s = s\<lparr>sv_sent := sv_sent s @ [line]\<rparr>"

text \<open>A new connection: \<open>ServeClient\<close> starts with an empty buffer.\<close>

definition open_client :: "'g server \<Rightarrow> 'g server" where
  "open_client s = s\<lparr>sv_buffered := [], sv_newline := None, sv_sent := [], sv_received := [],
     sv_base := length (sv_served s), sv_worker := Receive_Check\<rparr>"

text \<open>What follows a successful \<open>recv\<close>.\<close>

definition after_receive :: "bytes \<Rightarrow> 'g server \<Rightarrow> 'g server" where
  "after_receive chunk s =
     (let buffered = sv_buffered s @ chunk; s = s\<lparr>sv_buffered := buffered, sv_received := sv_received s @ chunk\<rparr>
      in if length buffered > kMaxRequestBytes \<and> find_newline buffered = None
         then (send_line too_long_reply s)\<lparr>sv_worker := Accept_Check\<rparr>
         else s\<lparr>sv_newline := find_newline buffered, sv_worker := Splitting\<rparr>)"

text \<open>
  One turn of the inner loop. Both \<open>continue\<close> branches go back to its condition with \<open>newline\<close> as it
  is.
\<close>

definition split_step :: "'g server \<Rightarrow> 'g server" where
  "split_step s =
     (case sv_newline s of
        None \<Rightarrow> s\<lparr>sv_worker := Receive_Check\<rparr>
      | Some newline \<Rightarrow>
          let source = strip_cr (take newline (sv_buffered s));
              s = s\<lparr>sv_buffered := drop (newline + 1) (sv_buffered s)\<rparr>
          in if source = [] then s
             else let reply = sv_next s; s = s\<lparr>sv_next := reply + 1\<rparr>
                  in (case push (sv_queue s) source (Some reply) of
                        (False, Q) \<Rightarrow> send_line rejected_reply s
                      | (True, Q) \<Rightarrow> s\<lparr>sv_queue := Q, sv_awaited := reply, sv_worker := Waiting\<rparr>))"

text \<open>The end of the wait: the reply is sent and the buffer is searched again.\<close>

definition reply_step :: "bytes \<Rightarrow> 'g server \<Rightarrow> 'g server" where
  "reply_step text s =
     (send_line text s)\<lparr>sv_newline := find_newline (sv_buffered s), sv_worker := Splitting\<rparr>"

definition set_value :: "nat \<Rightarrow> bytes \<Rightarrow> 'g server \<Rightarrow> 'g server" where
  "set_value reply result s = s\<lparr>sv_promises := (sv_promises s)(reply \<mapsto> result)\<rparr>"

text \<open>\<open>Start\<close> when every system call succeeds; \<open>Drain\<close> in its parts; \<open>Stop\<close> before and after the join.\<close>

definition start_server :: "'g server \<Rightarrow> 'g server" where
  "start_server s = s\<lparr>sv_attached := True, sv_running := True, sv_worker := Accept_Check\<rparr>"

definition drain_pop :: "'g server \<Rightarrow> 'g server" where
  "drain_pop s =
     (case pop (sv_queue s) of
        (None, Q) \<Rightarrow> s\<lparr>sv_game := Playing\<rparr>
      | (Some request, Q) \<Rightarrow> s\<lparr>sv_queue := Q, sv_game := Evaluating request\<rparr>)"

definition drain_reply ::
  "(bytes \<Rightarrow> 'g \<Rightarrow> bytes \<times> 'g) \<Rightarrow> nat request \<Rightarrow> 'g server \<Rightarrow> 'g server" where
  "drain_reply evaluate request s =
     (case evaluate (rq_source request) (sv_session s) of
        (result, g) \<Rightarrow>
          set_value (rq_reply request) result
            (s\<lparr>sv_session := g, sv_served := sv_served s @ [(rq_source request, result)], sv_game := Draining\<rparr>))"

definition stop_begin :: "'g server \<Rightarrow> 'g server" where
  "stop_begin s = s\<lparr>sv_running := False, sv_game := Joining\<rparr>"

definition stop_end :: "'g server \<Rightarrow> 'g server" where
  "stop_end s =
     (let s = s\<lparr>sv_game := Playing\<rparr>
      in if \<not> sv_attached s then s
         else (case cancel_all set_value (sv_queue s) ended_reply s of
                 ((n, Q), s) \<Rightarrow> s\<lparr>sv_queue := Q, sv_attached := False\<rparr>))"

inductive server_step :: "(bytes \<Rightarrow> 'g \<Rightarrow> bytes \<times> 'g) \<Rightarrow> 'g server \<Rightarrow> 'g server \<Rightarrow> bool"
  for evaluate :: "bytes \<Rightarrow> 'g \<Rightarrow> bytes \<times> 'g" where
  start: "sv_game s = Playing \<Longrightarrow> \<not> sv_running s \<Longrightarrow> sv_worker s = Ended \<Longrightarrow>
    server_step evaluate s (start_server s)"
| accept_check: "sv_worker s = Accept_Check \<Longrightarrow>
    server_step evaluate s (s\<lparr>sv_worker := (if sv_running s then In_Accept else Ended)\<rparr>)"
| accept_fails: "sv_worker s = In_Accept \<Longrightarrow> server_step evaluate s (s\<lparr>sv_worker := Ended\<rparr>)"
| accept: "sv_worker s = In_Accept \<Longrightarrow> server_step evaluate s (open_client s)"
| no_timeout_option: "sv_worker s = In_Accept \<Longrightarrow>
    server_step evaluate s ((open_client s)\<lparr>sv_worker := Accept_Check\<rparr>)"
| receive_check: "sv_worker s = Receive_Check \<Longrightarrow>
    server_step evaluate s (s\<lparr>sv_worker := (if sv_running s then In_Receive else Accept_Check)\<rparr>)"
| receive_timeout: "sv_worker s = In_Receive \<Longrightarrow> server_step evaluate s (s\<lparr>sv_worker := Receive_Check\<rparr>)"
| receive_fails: "sv_worker s = In_Receive \<Longrightarrow> server_step evaluate s (s\<lparr>sv_worker := Accept_Check\<rparr>)"
| receive: "sv_worker s = In_Receive \<Longrightarrow> chunk \<noteq> [] \<Longrightarrow> length chunk \<le> 1024 \<Longrightarrow>
    server_step evaluate s (after_receive chunk s)"
| split: "sv_worker s = Splitting \<Longrightarrow> server_step evaluate s (split_step s)"
| answered: "sv_worker s = Waiting \<Longrightarrow> sv_running s \<Longrightarrow> sv_promises s (sv_awaited s) = Some result \<Longrightarrow>
    server_step evaluate s (reply_step result s)"
| abandoned: "sv_worker s = Waiting \<Longrightarrow> \<not> sv_running s \<Longrightarrow>
    server_step evaluate s (s\<lparr>sv_worker := Accept_Check\<rparr>)"
| drain: "sv_game s = Playing \<Longrightarrow>
    server_step evaluate s (s\<lparr>sv_game := (if sv_attached s then Draining else Crashed)\<rparr>)"
| drain_next: "sv_game s = Draining \<Longrightarrow> server_step evaluate s (drain_pop s)"
| drain_done: "sv_game s = Evaluating request \<Longrightarrow> server_step evaluate s (drain_reply evaluate request s)"
| stop: "sv_game s = Playing \<Longrightarrow> server_step evaluate s (stop_begin s)"
| stopped: "sv_game s = Joining \<Longrightarrow> sv_worker s = Ended \<Longrightarrow> server_step evaluate s (stop_end s)"

section \<open>Splitting text into lines\<close>

text \<open>The complete lines of a text, and what follows the last newline.\<close>

fun split_lines :: "bytes \<Rightarrow> bytes list \<times> bytes" where
  "split_lines [] = ([], [])"
| "split_lines (c # cs) =
     (case split_lines cs of (ls, p) \<Rightarrow>
        if c = 10 then ([] # ls, p)
        else (case ls of [] \<Rightarrow> ([], c # p) | l # ls' \<Rightarrow> ((c # l) # ls', p)))"

abbreviation lines_of :: "bytes \<Rightarrow> bytes list" where "lines_of b \<equiv> fst (split_lines b)"
abbreviation rest_of :: "bytes \<Rightarrow> bytes" where "rest_of b \<equiv> snd (split_lines b)"

lemma split_lines_none: "10 \<notin> set b \<Longrightarrow> split_lines b = ([], b)"
  by (induction b) auto

lemma split_lines_line: "10 \<notin> set l \<Longrightarrow> split_lines (l @ 10 # r) = (l # lines_of r, rest_of r)"
  by (induction l) (auto split: prod.split)

lemma lines_none_iff: "lines_of b = [] \<longleftrightarrow> 10 \<notin> set b"
  by (induction b) (auto split: prod.split list.split)

lemma split_lines_append:
  "split_lines (b @ c) = (lines_of b @ lines_of (rest_of b @ c), rest_of (rest_of b @ c))"
proof (induction b)
  case (Cons x b)
  then show ?case by (auto split: prod.splits list.splits)
qed simp

lemma find_newline_Some:
  assumes "find_newline b = Some n"
  shows "b = take n b @ 10 # drop (n + 1) b" and "10 \<notin> set (take n b)"
proof -
  have n: "10 \<in> set b" "n = length (takeWhile (\<lambda>c. c \<noteq> 10) b)"
    using assms by (auto simp: find_newline_def split: if_splits)
  then obtain l r where b: "b = l @ 10 # r" "10 \<notin> set l" by (meson split_list_first)
  then have "takeWhile (\<lambda>c. c \<noteq> 10) b = l" by (simp add: takeWhile_append)
  with n b show "b = take n b @ 10 # drop (n + 1) b" "10 \<notin> set (take n b)" by simp_all
qed

lemma find_newline_split:
  "find_newline b = Some n \<Longrightarrow> split_lines b = (take n b # lines_of (drop (n + 1) b), rest_of (drop (n + 1) b))"
  using find_newline_Some [of b n] split_lines_line [of "take n b" "drop (n + 1) b"] by argo

lemma find_newline_None: "find_newline b = None \<longleftrightarrow> lines_of b = []"
  by (simp add: find_newline_def lines_none_iff)

text \<open>A line that the queue takes: not blank, and not too long.\<close>

definition good_line :: "bytes \<Rightarrow> bool" where
  "good_line l \<longleftrightarrow> strip_cr l \<noteq> [] \<and> length (strip_cr l) \<le> kMaxRequestBytes"

section \<open>The invariant of the two threads\<close>

definition in_flight :: "'g server \<Rightarrow> nat request list" where
  "in_flight s = (case sv_game s of Evaluating request \<Rightarrow> [request] | _ \<Rightarrow> []) @ m_requests (sv_queue s)"

text \<open>
  A request in flight is the one that the worker waits for, unless \<open>Stop\<close> has sent the worker away;
  a worker that waits has its request in flight or its reply in the promise.
\<close>

definition waits_for :: "'g server \<Rightarrow> nat request list \<Rightarrow> bool" where
  "waits_for s rs \<longleftrightarrow> (\<exists>source. rs = [\<lparr>rq_source = source, rq_reply = sv_awaited s\<rparr>]
     \<and> length source \<le> kMaxRequestBytes) \<and> sv_promises s (sv_awaited s) = None \<and> sv_awaited s < sv_next s"

definition threads_ok :: "'g server \<Rightarrow> bool" where
  "threads_ok s \<longleftrightarrow>
     (if sv_running s then sv_attached s \<and> sv_game s \<noteq> Joining
      else sv_game s = Joining \<or> sv_worker s = Ended \<and> \<not> sv_attached s)
   \<and> (if sv_worker s = Waiting
      then waits_for s (in_flight s) \<or> in_flight s = [] \<and> sv_promises s (sv_awaited s) \<noteq> None
      else in_flight s = []
        \<or> waits_for s (in_flight s) \<and> sv_game s = Joining \<and> sv_worker s \<in> {Accept_Check, Ended})
   \<and> (sv_attached s \<or> in_flight s = [] \<and> sv_worker s = Ended)
   \<and> (\<forall>i \<ge> sv_next s. sv_promises s i = None)"

lemma threads_ok_new: "threads_ok (server_new g)"
  by (simp add: threads_ok_def server_new_def in_flight_def empty_queue_def)

lemmas server_defs = start_server_def open_client_def after_receive_def split_step_def send_line_def
  reply_step_def set_value_def drain_pop_def drain_reply_def stop_begin_def stop_end_def Let_def

lemma threads_ok_step:
  assumes "server_step evaluate s s'" and "threads_ok s"
  shows "threads_ok s'"
  using assms
proof (induction rule: server_step.induct)
  case (split s)
  then show ?case
    by (auto simp: threads_ok_def in_flight_def waits_for_def split_step_def send_line_def Let_def push_cases
        split: option.splits if_splits game_at.splits)
next
  case (drain_next s)
  then show ?case
    by (auto simp: threads_ok_def in_flight_def waits_for_def drain_pop_def pop_def
        split: option.splits if_splits list.splits)
next
  case (drain_done s request)
  then show ?case
    by (auto simp: threads_ok_def in_flight_def waits_for_def drain_reply_def set_value_def
        split: option.splits if_splits prod.splits)
next
  case (stopped s)
  then show ?case
    by (auto simp: threads_ok_def in_flight_def waits_for_def stop_end_def Let_def cancel_all_def set_value_def
        split: option.splits if_splits prod.splits)
qed (auto simp: threads_ok_def in_flight_def waits_for_def server_defs split: if_splits game_at.splits)

section \<open>What was evaluated, and what the client was told\<close>

fun replay :: "(bytes \<Rightarrow> 'g \<Rightarrow> bytes \<times> 'g) \<Rightarrow> 'g \<Rightarrow> bytes list \<Rightarrow> bytes list \<times> 'g" where
  "replay evaluate g [] = ([], g)"
| "replay evaluate g (source # sources) =
     (case evaluate source g of (result, g') \<Rightarrow>
        (case replay evaluate g' sources of (results, g'') \<Rightarrow> (result # results, g'')))"

lemma replay_snoc:
  "replay evaluate g (sources @ [source]) =
     (case replay evaluate g sources of (results, g') \<Rightarrow>
        (case evaluate source g' of (result, g'') \<Rightarrow> (results @ [result], g'')))"
  by (induction sources arbitrary: g) (auto split: prod.split)

definition log_ok :: "(bytes \<Rightarrow> 'g \<Rightarrow> bytes \<times> 'g) \<Rightarrow> 'g \<Rightarrow> 'g server \<Rightarrow> bool" where
  "log_ok evaluate g s \<longleftrightarrow>
     replay evaluate g (map fst (sv_served s)) = (map snd (sv_served s), sv_session s)"

lemma log_ok_new: "log_ok evaluate g (server_new g)"
  by (simp add: log_ok_def server_new_def)

lemma cancel_all_simp:
  "cancel_all set_value Q result s = ((length (m_requests Q), Q\<lparr>m_requests := []\<rparr>),
     reply_all set_value result (m_requests Q) s)"
  by (simp add: cancel_all_def Let_def)

lemma reply_all_fields:
  "sv_served (reply_all set_value r rs s) = sv_served s" "sv_session (reply_all set_value r rs s) = sv_session s"
  "sv_worker (reply_all set_value r rs s) = sv_worker s"
  by (induction rs arbitrary: s) (simp_all add: set_value_def)

lemma log_ok_step: "server_step evaluate s s' \<Longrightarrow> log_ok evaluate g s \<Longrightarrow> log_ok evaluate g s'"
proof (induction rule: server_step.induct)
  case (drain_done s request)
  then show ?case
    by (auto simp: log_ok_def drain_reply_def set_value_def replay_snoc split: prod.split)
next
  case (stopped s)
  then show ?case by (simp add: log_ok_def stop_end_def Let_def cancel_all_simp reply_all_fields)
qed (auto simp: log_ok_def server_defs split: option.splits prod.splits bool.splits)

definition serving :: "'g server \<Rightarrow> bool" where
  "serving s \<longleftrightarrow> sv_worker s \<in> {Receive_Check, In_Receive, Splitting, Waiting}"

definition answers_of :: "'g server \<Rightarrow> (bytes \<times> bytes) list" where
  "answers_of s = drop (sv_base s) (sv_served s)"

text \<open>
  The lines of a connection so far: those dealt with and those still in the buffer. The lines
  dealt with have been evaluated, one after the other, and their results sent; the last of them may
  be in flight.
\<close>

definition dealt_with :: "bytes list \<Rightarrow> 'g server \<Rightarrow> bool" where
  "dealt_with ds s \<longleftrightarrow>
     split_lines (sv_received s) = (ds @ lines_of (sv_buffered s), rest_of (sv_buffered s))
   \<and> (if sv_worker s \<noteq> Waiting
      then map fst (answers_of s) = map strip_cr ds \<and> map snd (answers_of s) = sv_sent s
      else if in_flight s = []
      then map fst (answers_of s) = map strip_cr ds
        \<and> map snd (answers_of s) = sv_sent s @ [the (sv_promises s (sv_awaited s))]
      else ds \<noteq> [] \<and> map rq_source (in_flight s) = [strip_cr (last ds)]
        \<and> map fst (answers_of s) = map strip_cr (butlast ds) \<and> map snd (answers_of s) = sv_sent s)"

definition client_ok :: "'g server \<Rightarrow> bool" where
  "client_ok s \<longleftrightarrow> sv_base s \<le> length (sv_served s) \<and> (\<exists>ds. dealt_with ds s)
   \<and> (sv_worker s = Splitting \<longrightarrow> sv_newline s = find_newline (sv_buffered s))
   \<and> (sv_worker s \<in> {Receive_Check, In_Receive} \<longrightarrow> lines_of (sv_buffered s) = [])"

definition served_ok :: "'g server \<Rightarrow> bool" where
  "served_ok s \<longleftrightarrow> (serving s \<and> list_all good_line (lines_of (sv_received s)) \<longrightarrow> client_ok s)"

lemma served_ok_new: "served_ok (server_new g)"
  by (simp add: served_ok_def serving_def server_new_def)

lemma served_okI:
  assumes "served_ok s" and "serving s' \<Longrightarrow> serving s"
    and "\<exists>c. sv_received s' = sv_received s @ c"
    and "serving s' \<Longrightarrow> list_all good_line (lines_of (sv_received s')) \<Longrightarrow> client_ok s \<Longrightarrow> client_ok s'"
  shows "served_ok s'"
  using assms split_lines_append [of "sv_received s"] by (auto simp: served_ok_def)

lemma client_other:
  assumes "client_ok s" and "sv_worker s' = sv_worker s" and "in_flight s' = in_flight s"
    and "sv_base s' = sv_base s" "sv_served s' = sv_served s" "sv_received s' = sv_received s"
      "sv_buffered s' = sv_buffered s" "sv_sent s' = sv_sent s" "sv_newline s' = sv_newline s"
      "sv_promises s' = sv_promises s" "sv_awaited s' = sv_awaited s"
  shows "client_ok s'"
  using assms(1) unfolding client_ok_def dealt_with_def answers_of_def assms(2-) .

lemma client_moves:
  assumes "client_ok s" and "sv_worker s \<in> {Receive_Check, In_Receive}" "sv_worker s' \<in> {Receive_Check, In_Receive}"
    and "sv_base s' = sv_base s" "sv_served s' = sv_served s" "sv_received s' = sv_received s"
      "sv_buffered s' = sv_buffered s" "sv_sent s' = sv_sent s"
  shows "client_ok s'"
proof -
  have "sv_worker s \<noteq> Waiting" "sv_worker s' \<noteq> Waiting" "sv_worker s' \<noteq> Splitting"
    using assms(2,3) by auto
  then show ?thesis
    using assms unfolding client_ok_def dealt_with_def answers_of_def by auto
qed

lemma not_serving: "\<not> serving s \<Longrightarrow> served_ok s"
  by (simp add: served_ok_def)

lemma client_receives:
  assumes "client_ok s" and "sv_worker s = In_Receive" and "serving (after_receive chunk s)"
  shows "client_ok (after_receive chunk s)"
proof -
  let ?s = "after_receive chunk s"
  have w: "sv_worker ?s = Splitting" "sv_newline ?s = find_newline (sv_buffered s @ chunk)"
    "sv_buffered ?s = sv_buffered s @ chunk" "sv_received ?s = sv_received s @ chunk"
    "sv_sent ?s = sv_sent s" "sv_base ?s = sv_base s" "sv_served ?s = sv_served s"
    using assms(3) by (auto simp: after_receive_def Let_def serving_def send_line_def split: if_splits)
  obtain ds where "dealt_with ds s" and none: "lines_of (sv_buffered s) = []"
    using assms(1,2) by (auto simp: client_ok_def)
  moreover have "split_lines (sv_buffered s) = ([], sv_buffered s)"
    using none by (simp add: lines_none_iff split_lines_none)
  ultimately have "dealt_with ds ?s"
    using assms(2) split_lines_append [of "sv_received s" chunk]
    by (simp add: dealt_with_def answers_of_def w)
  then show ?thesis using assms(1) by (auto simp: client_ok_def w)
qed

lemma client_splits:
  assumes "client_ok s" and "sv_worker s = Splitting" and "threads_ok s"
    and "list_all good_line (lines_of (sv_received s))"
  shows "client_ok (split_step s)"
proof -
  obtain ds where base: "sv_base s \<le> length (sv_served s)" and d: "dealt_with ds s"
    and newline: "sv_newline s = find_newline (sv_buffered s)"
    using assms(1,2) by (auto simp: client_ok_def)
  have idle: "in_flight s = []" using assms(2,3) by (auto simp: threads_ok_def split: if_splits)
  show ?thesis
  proof (cases "find_newline (sv_buffered s)")
    case None
    then have "dealt_with ds (split_step s)"
      using d assms(2) newline by (simp add: dealt_with_def answers_of_def split_step_def)
    moreover have "lines_of (sv_buffered s) = []" using None by (simp add: find_newline_None)
    ultimately show ?thesis using base newline None by (auto simp: client_ok_def split_step_def)
  next
    case (Some n)
    let ?l = "take n (sv_buffered s)" and ?rest = "drop (n + 1) (sv_buffered s)"
    have lines: "split_lines (sv_received s) = ((ds @ [?l]) @ lines_of ?rest, rest_of ?rest)"
      and before: "map fst (answers_of s) = map strip_cr ds" "map snd (answers_of s) = sv_sent s"
      using d assms(2) find_newline_split [OF Some] by (simp_all add: dealt_with_def)
    then have "good_line ?l" using assms(4) by simp
    moreover have queue: "m_requests (sv_queue s) = []" "\<And>r. sv_game s \<noteq> Evaluating r"
      using idle by (auto simp: in_flight_def split: game_at.splits)
    moreover define s' where "s' = split_step s"
    ultimately have s': "sv_worker s' = Waiting" "sv_buffered s' = ?rest" "sv_received s' = sv_received s"
        "sv_served s' = sv_served s" "sv_base s' = sv_base s" "sv_sent s' = sv_sent s" "sv_game s' = sv_game s"
        "m_requests (sv_queue s') = [\<lparr>rq_source = strip_cr ?l, rq_reply = sv_next s\<rparr>]"
      using newline Some
      by (simp_all add: split_step_def Let_def push_cases good_line_def kMaxPendingRequests_def)
    then have "map rq_source (in_flight s') = [strip_cr ?l]"
      using queue(2) by (simp add: in_flight_def split: game_at.split)
    then have "dealt_with (ds @ [?l]) s'"
      using lines before by (auto simp: dealt_with_def answers_of_def s')
    then show ?thesis using base by (auto simp: client_ok_def s' simp flip: s'_def)
  qed
qed

lemma client_answered:
  assumes "client_ok s" and "sv_worker s = Waiting" and "threads_ok s"
    and "sv_promises s (sv_awaited s) = Some result"
  shows "client_ok (reply_step result s)"
proof -
  obtain ds where base: "sv_base s \<le> length (sv_served s)" and d: "dealt_with ds s"
    using assms(1) by (auto simp: client_ok_def)
  have "in_flight s = []" using assms(2-4) by (auto simp: threads_ok_def waits_for_def)
  then have "dealt_with ds (reply_step result s)"
    using d assms(2,4) by (simp add: dealt_with_def answers_of_def reply_step_def send_line_def)
  then show ?thesis using base by (auto simp: client_ok_def reply_step_def send_line_def)
qed

lemma client_evaluated:
  assumes "client_ok s" and "sv_game s = Evaluating request" and "threads_ok s"
  shows "client_ok (drain_reply evaluate request s)"
proof -
  obtain ds where base: "sv_base s \<le> length (sv_served s)" and d: "dealt_with ds s"
    using assms(1) by (auto simp: client_ok_def)
  obtain result g where e: "evaluate (rq_source request) (sv_session s) = (result, g)" by fastforce
  have w: "sv_worker s = Waiting" "m_requests (sv_queue s) = []" "rq_reply request = sv_awaited s"
    using assms(2,3) by (auto simp: threads_ok_def waits_for_def in_flight_def split: if_splits)
  then have f: "in_flight s = [request]" using assms(2) by (simp add: in_flight_def)
  then have last: "ds \<noteq> []" "strip_cr (last ds) = rq_source request"
    and before: "map fst (answers_of s) = map strip_cr (butlast ds)" "map snd (answers_of s) = sv_sent s"
    using d w(1) by (simp_all add: dealt_with_def)
  then have "map strip_cr ds = map strip_cr (butlast ds) @ [rq_source request]"
    by (metis append_butlast_last_id list.simps(8,9) map_append)
  moreover define s' where "s' = drain_reply evaluate request s"
  then have s': "sv_worker s' = Waiting" "sv_buffered s' = sv_buffered s" "sv_received s' = sv_received s"
      "sv_served s' = sv_served s @ [(rq_source request, result)]" "sv_base s' = sv_base s" "sv_sent s' = sv_sent s"
      "sv_promises s' (sv_awaited s') = Some result" "in_flight s' = []"
    using w e by (simp_all add: drain_reply_def set_value_def in_flight_def)
  then have "answers_of s' = answers_of s @ [(rq_source request, result)]"
    using base by (simp add: answers_of_def)
  ultimately have "dealt_with ds s'"
    using d before by (simp add: dealt_with_def s')
  then show ?thesis using base by (auto simp: client_ok_def s' simp flip: s'_def)
qed

lemma in_flight_pop: "sv_game s = Draining \<Longrightarrow> in_flight (drain_pop s) = in_flight s"
  by (simp add: in_flight_def drain_pop_def pop_def split: list.split)

lemma served_ok_step:
  assumes "server_step evaluate s s'" and "threads_ok s" and "served_ok s"
  shows "served_ok s'"
  using assms
proof (induction rule: server_step.induct)
  case (accept s)
  have "client_ok (open_client s)"
    by (simp add: client_ok_def dealt_with_def answers_of_def open_client_def)
  then show ?case by (simp add: served_ok_def)
next
  case (receive_check s)
  show ?case
    by (rule served_okI [OF receive_check(3)])
      (auto simp: serving_def receive_check(1) elim!: client_moves)
next
  case (receive_timeout s)
  show ?case
    by (rule served_okI [OF receive_timeout(3)])
      (auto simp: serving_def receive_timeout(1) elim!: client_moves)
next
  case (receive s chunk)
  show ?case
  proof (rule served_okI [OF receive.prems(2)])
    show "\<exists>c. sv_received (after_receive chunk s) = sv_received s @ c"
      by (simp add: after_receive_def Let_def send_line_def)
    show "client_ok (after_receive chunk s)" if "serving (after_receive chunk s)" "client_ok s"
      using client_receives receive(1) that by blast
  qed (simp add: serving_def receive(1))
next
  case (split s)
  show ?case
  proof (rule served_okI [OF split.prems(2)])
    show r: "\<exists>c. sv_received (split_step s) = sv_received s @ c"
      by (simp add: split_step_def Let_def push_cases send_line_def split: option.split)
    show "client_ok (split_step s)" if "list_all good_line (lines_of (sv_received (split_step s)))" "client_ok s"
    proof (rule client_splits [OF that(2) split(1) split.prems(1)])
      have "sv_received (split_step s) = sv_received s"
        by (simp add: split_step_def Let_def push_cases send_line_def split: option.split)
      then show "list_all good_line (lines_of (sv_received s))" using that(1) by simp
    qed
  qed (simp add: serving_def split(1))
next
  case (answered s result)
  show ?case
    by (rule served_okI [OF answered.prems(2)])
      (use answered in \<open>auto simp: serving_def reply_step_def send_line_def
        intro: client_answered [unfolded reply_step_def send_line_def]\<close>)
next
  case (drain s)
  show ?case
    by (rule served_okI [OF drain.prems(2)])
      (use drain(1) in \<open>auto simp: serving_def in_flight_def elim!: client_other\<close>)
next
  case (drain_next s)
  show ?case
  proof (rule served_okI [OF drain_next.prems(2)])
    show "client_ok (drain_pop s)" if "client_ok s"
      by (rule client_other [OF that])
        (use in_flight_pop [OF drain_next(1)] in \<open>auto simp: drain_pop_def pop_def split: list.split\<close>)
  qed (simp_all add: serving_def drain_pop_def pop_def split: list.splits)
next
  case (drain_done s request)
  show ?case
  proof (rule served_okI [OF drain_done.prems(2)])
    show "client_ok (drain_reply evaluate request s)" if "client_ok s"
      using client_evaluated that drain_done by blast
  qed (auto simp: serving_def drain_reply_def set_value_def split: prod.splits)
next
  case (stop s)
  show ?case
    by (rule served_okI [OF stop.prems(2)])
      (use stop(1) in \<open>auto simp: serving_def stop_begin_def in_flight_def elim!: client_other\<close>)
next
  case (stopped s)
  show ?case
    by (rule not_serving) (simp add: serving_def stop_end_def Let_def cancel_all_simp reply_all_fields stopped(2))
qed (auto intro!: not_serving simp: serving_def start_server_def)

section \<open>All runs\<close>

definition server_ok :: "(bytes \<Rightarrow> 'g \<Rightarrow> bytes \<times> 'g) \<Rightarrow> 'g \<Rightarrow> 'g server \<Rightarrow> bool" where
  "server_ok evaluate g s \<longleftrightarrow> threads_ok s \<and> log_ok evaluate g s \<and> served_ok s"

lemma server_reachable:
  assumes "(server_step evaluate)\<^sup>*\<^sup>* (server_new g) s"
  shows "server_ok evaluate g s"
  using assms
proof (induction rule: rtranclp_induct)
  case base
  show ?case by (simp add: server_ok_def threads_ok_new log_ok_new served_ok_new)
next
  case (step s s')
  have "threads_ok s" "log_ok evaluate g s" "served_ok s" using step.IH by (simp_all add: server_ok_def)
  then show ?case
    unfolding server_ok_def
    using threads_ok_step [OF step.hyps(2)] log_ok_step [OF step.hyps(2), of g] served_ok_step [OF step.hyps(2)]
    by blast
qed

lemma replay_append:
  "replay evaluate g (xs @ ys) =
     (case replay evaluate g xs of (rs, g') \<Rightarrow> (case replay evaluate g' ys of (rs', g'') \<Rightarrow> (rs @ rs', g'')))"
  by (induction xs arbitrary: g) (auto split: prod.split)

lemma replay_length: "replay evaluate g xs = (rs, g') \<Longrightarrow> length rs = length xs"
  by (induction xs arbitrary: g rs) (auto split: prod.splits)

text \<open>
  A client that only sends good lines: the sources evaluated for it are its lines in order, each
  once and with nothing in between, the results are those of the evaluator from the state in which
  the connection found it, and the client has been sent them in order, the last one perhaps not
  yet. When the worker waits for more input, every complete line has its answer.
\<close>

lemma client_served:
  assumes "(server_step evaluate)\<^sup>*\<^sup>* (server_new g) s" and "serving s"
    and "list_all good_line (lines_of (sv_received s))"
  obtains k results g0 where "k \<le> length (lines_of (sv_received s))"
    and "g0 = snd (replay evaluate g (map fst (take (sv_base s) (sv_served s))))"
    and "replay evaluate g0 (map strip_cr (take k (lines_of (sv_received s)))) = (results, sv_session s)"
    and "sv_sent s = results \<or> (\<exists>result. results = sv_sent s @ [result])"
    and "sv_worker s \<in> {Receive_Check, In_Receive} \<Longrightarrow>
      sv_sent s = results \<and> k = length (lines_of (sv_received s))"
proof -
  have ok: "log_ok evaluate g s" "client_ok s"
    using server_reachable [OF assms(1)] assms(2,3) by (auto simp: server_ok_def served_ok_def)
  let ?before = "map fst (take (sv_base s) (sv_served s))" and ?mine = "map fst (answers_of s)"
  obtain rs g0 where r0: "replay evaluate g ?before = (rs, g0)" by fastforce
  obtain rs' g' where r1: "replay evaluate g0 ?mine = (rs', g')" by fastforce
  have "map fst (sv_served s) = ?before @ ?mine"
    by (simp add: answers_of_def flip: map_append)
  then have "(rs @ rs', g') = (map snd (sv_served s), sv_session s)"
    using ok(1) r0 r1 by (simp add: log_ok_def replay_append)
  moreover have "map snd (sv_served s) = map snd (take (sv_base s) (sv_served s)) @ map snd (answers_of s)"
    by (simp add: answers_of_def flip: map_append)
  moreover have "length rs = length (map snd (take (sv_base s) (sv_served s)))"
    using replay_length [OF r0] by simp
  ultimately have mine: "replay evaluate g0 ?mine = (map snd (answers_of s), sv_session s)"
    using r1 by simp
  obtain ds where d: "dealt_with ds s" using ok(2) by (auto simp: client_ok_def)
  then have lines: "lines_of (sv_received s) = ds @ lines_of (sv_buffered s)" by (simp add: dealt_with_def)
  define k where "k = length (answers_of s)"
  have "?mine = map strip_cr (take k ds) \<and> k \<le> length ds"
  proof (cases "?mine = map strip_cr ds")
    case True
    then have "length (answers_of s) = length ds" by (metis length_map)
    then show ?thesis using True by (simp add: k_def)
  next
    case False
    then have "?mine = map strip_cr (butlast ds)" using d by (auto simp: dealt_with_def split: if_splits)
    moreover from this have "length (answers_of s) = length (butlast ds)" by (metis length_map)
    ultimately show ?thesis by (simp add: k_def butlast_conv_take)
  qed
  then have k: "?mine = map strip_cr (take k (lines_of (sv_received s)))" "k \<le> length ds"
    by (simp_all add: lines)
  show thesis
  proof (rule that [of k g0 "map snd (answers_of s)"])
    show "k \<le> length (lines_of (sv_received s))" using k(2) lines by simp
    show "g0 = snd (replay evaluate g ?before)" using r0 by simp
    show "replay evaluate g0 (map strip_cr (take k (lines_of (sv_received s)))) = (map snd (answers_of s), sv_session s)"
      using mine k(1) by simp
    show "sv_sent s = map snd (answers_of s) \<or> (\<exists>result. map snd (answers_of s) = sv_sent s @ [result])"
      using d by (auto simp: dealt_with_def split: if_splits)
    show "sv_sent s = map snd (answers_of s) \<and> k = length (lines_of (sv_received s))"
      if "sv_worker s \<in> {Receive_Check, In_Receive}"
    proof -
      have "lines_of (sv_buffered s) = []" "sv_worker s \<noteq> Waiting" using ok(2) that by (auto simp: client_ok_def)
      with d have "map fst (answers_of s) = map strip_cr ds" "map snd (answers_of s) = sv_sent s"
        by (simp_all add: dealt_with_def)
      then show ?thesis using lines \<open>lines_of (sv_buffered s) = []\<close> k_def by (metis append_Nil2 length_map)
    qed
  qed
qed

text \<open>
  And nothing keeps the two threads from getting there: from any state in which the worker has
  begun on a buffer of good lines, they can go on until every line has its answer.
\<close>

lemma line_gets_answered:
  assumes "threads_ok s" and "sv_worker s = Splitting" "sv_game s = Playing" "sv_running s"
    and "sv_newline s = Some n" and "good_line (take n (sv_buffered s))"
  obtains s' where "(server_step evaluate)\<^sup>*\<^sup>* s s'"
    and "sv_worker s' = Splitting" "sv_game s' = Playing" "sv_running s'"
    and "sv_buffered s' = drop (n + 1) (sv_buffered s)" "sv_newline s' = find_newline (sv_buffered s')"
    and "sv_received s' = sv_received s" "sv_base s' = sv_base s"
proof -
  let ?source = "strip_cr (take n (sv_buffered s))" and ?p = "sv_next s"
  obtain result g where e: "evaluate ?source (sv_session s) = (result, g)" by fastforce
  have idle: "m_requests (sv_queue s) = []" "sv_attached s"
    using assms(1-4) by (auto simp: threads_ok_def in_flight_def split: if_splits)
  define s1 where "s1 = split_step s"
  define s2 where "s2 = s1\<lparr>sv_game := Draining\<rparr>"
  define s3 where "s3 = drain_pop s2"
  define s4 where "s4 = drain_reply evaluate \<lparr>rq_source = ?source, rq_reply = ?p\<rparr> s3"
  define s5 where "s5 = drain_pop s4"
  define s6 where "s6 = reply_step result s5"
  have s1: "sv_worker s1 = Waiting" "sv_game s1 = Playing" "sv_running s1" "sv_attached s1"
      "sv_buffered s1 = drop (n + 1) (sv_buffered s)" "sv_received s1 = sv_received s" "sv_base s1 = sv_base s" "sv_awaited s1 = ?p"
      "sv_session s1 = sv_session s" "m_requests (sv_queue s1) = [\<lparr>rq_source = ?source, rq_reply = ?p\<rparr>]"
    using assms(3-6) idle by (simp_all add: s1_def split_step_def Let_def push_cases good_line_def kMaxPendingRequests_def)
  then have s3: "sv_game s3 = Evaluating \<lparr>rq_source = ?source, rq_reply = ?p\<rparr>" "sv_worker s3 = Waiting" "sv_running s3"
      "sv_buffered s3 = drop (n + 1) (sv_buffered s)" "sv_received s3 = sv_received s" "sv_base s3 = sv_base s" "sv_awaited s3 = ?p"
      "m_requests (sv_queue s3) = []" "sv_session s3 = sv_session s"
    by (simp_all add: s3_def s2_def drain_pop_def pop_def)
  then have s5: "sv_game s4 = Draining" "sv_game s5 = Playing" "sv_worker s5 = Waiting" "sv_running s5"
      "sv_buffered s5 = drop (n + 1) (sv_buffered s)" "sv_received s5 = sv_received s" "sv_base s5 = sv_base s"
      "sv_promises s5 (sv_awaited s5) = Some result"
    by (simp_all add: s5_def s4_def drain_reply_def set_value_def drain_pop_def pop_def e)
  have "server_step evaluate s s1" unfolding s1_def by (rule server_step.split [OF assms(2)])
  moreover have "server_step evaluate s1 s2"
    unfolding s2_def using server_step.drain [OF s1(2), of evaluate] s1(4) by simp
  moreover have "server_step evaluate s2 s3"
    unfolding s3_def by (rule server_step.drain_next) (simp add: s2_def)
  moreover have "server_step evaluate s3 s4" unfolding s4_def by (rule server_step.drain_done [OF s3(1)])
  moreover have "server_step evaluate s4 s5" unfolding s5_def by (rule server_step.drain_next [OF s5(1)])
  moreover have "server_step evaluate s5 s6" unfolding s6_def by (rule server_step.answered [OF s5(3,4,8)])
  ultimately have "(server_step evaluate)\<^sup>*\<^sup>* s s6"
    by (meson converse_rtranclp_into_rtranclp rtranclp.rtrancl_refl)
  then show thesis
    by (rule that) (simp_all add: s6_def reply_step_def send_line_def s5)
qed

lemma threads_ok_run: "(server_step evaluate)\<^sup>*\<^sup>* s s' \<Longrightarrow> threads_ok s \<Longrightarrow> threads_ok s'"
  by (induction rule: rtranclp_induct) (auto intro: threads_ok_step)

lemma lines_get_answered:
  assumes "threads_ok s" and "sv_worker s = Splitting" "sv_game s = Playing" "sv_running s"
    and "sv_newline s = find_newline (sv_buffered s)" and "list_all good_line (lines_of (sv_buffered s))"
  shows "\<exists>s'. (server_step evaluate)\<^sup>*\<^sup>* s s' \<and> sv_worker s' = Receive_Check
    \<and> sv_received s' = sv_received s \<and> sv_base s' = sv_base s"
  using assms
proof (induction "length (lines_of (sv_buffered s))" arbitrary: s)
  case 0
  then have "sv_newline s = None" by (simp add: find_newline_None)
  then have "split_step s = s\<lparr>sv_worker := Receive_Check\<rparr>" by (simp add: split_step_def)
  then show ?case using server_step.split [OF "0.prems"(2), of evaluate]
    by (intro exI [of _ "split_step s"]) auto
next
  case (Suc k)
  then obtain n where n: "find_newline (sv_buffered s) = Some n"
    by (cases "find_newline (sv_buffered s)") (auto simp: find_newline_None)
  have good: "good_line (take n (sv_buffered s))" "list_all good_line (lines_of (drop (n + 1) (sv_buffered s)))"
    and k: "k = length (lines_of (drop (n + 1) (sv_buffered s)))"
    using Suc.prems(6) Suc.hyps(2) find_newline_split [OF n] by simp_all
  have "sv_newline s = Some n" using Suc.prems(5) n by simp
  from line_gets_answered [OF Suc.prems(1-4) this good(1)] obtain s' where s':
      "(server_step evaluate)\<^sup>*\<^sup>* s s'" "sv_worker s' = Splitting" "sv_game s' = Playing" "sv_running s'"
      "sv_buffered s' = drop (n + 1) (sv_buffered s)" "sv_newline s' = find_newline (sv_buffered s')"
      "sv_received s' = sv_received s" "sv_base s' = sv_base s" .
  from Suc.hyps(1) [of s'] s' k good(2) threads_ok_run [OF s'(1) Suc.prems(1)] show ?case
    by (metis rtranclp_trans)
qed

section \<open>A blank line\<close>

text \<open>
  The worker goes round the inner loop for ever once \<open>newline\<close> is 0, or the buffer is empty with
  \<open>newline\<close> left over, as after a lone carriage return and newline: every turn finds an empty source
  and looks for nothing.
\<close>

definition spinning :: "'g server \<Rightarrow> bool" where
  "spinning s \<longleftrightarrow> sv_worker s = Splitting \<and> (\<exists>n. sv_newline s = Some n
     \<and> (n = 0 \<or> sv_buffered s = [] \<or> n = 1 \<and> sv_buffered s = [13, 10]))"

lemma spinning_step: "server_step evaluate s s' \<Longrightarrow> spinning s \<Longrightarrow> spinning s'
  \<and> sv_sent s' = sv_sent s \<and> (sv_game s = Joining \<longrightarrow> sv_game s' = Joining)"
proof (induction rule: server_step.induct)
  case (split s)
  then show ?case by (auto simp: spinning_def split_step_def strip_cr_def)
qed (auto simp: spinning_def stop_begin_def drain_pop_def drain_reply_def set_value_def
    split: option.splits prod.splits)

lemma spinning_for_ever:
  assumes "(server_step evaluate)\<^sup>*\<^sup>* s s'" and "spinning s"
  shows "spinning s' \<and> sv_sent s' = sv_sent s \<and> (sv_game s = Joining \<longrightarrow> sv_game s' = Joining)"
  using assms(1)
proof (induction rule: rtranclp_induct)
  case (step s' s'')
  then show ?case using spinning_step [of evaluate s' s''] assms(2) by auto
qed (simp add: assms(2))

lemma blank_line_spins:
  assumes "sv_worker s = In_Receive" and "sv_buffered s = []" and "length chunk \<le> 1024"
    and "chunk = 10 # c \<or> chunk = [13, 10]"
  shows "spinning (after_receive chunk s)" and "sv_game (after_receive chunk s) = sv_game s"
    and "sv_sent (after_receive chunk s) = sv_sent s"
  using assms by (auto simp: spinning_def after_receive_def Let_def find_newline_def kMaxRequestBytes_def)

text \<open>An oversized line that ends the buffer is refused, and then it is the same.\<close>

lemma oversized_line_spins:
  assumes "sv_worker s = Splitting" and "sv_newline s = Some n" and "sv_buffered s = l @ [10]"
    and "n = length l" and "length (strip_cr l) > kMaxRequestBytes"
  shows "spinning (split_step s) \<and> sv_sent (split_step s) = sv_sent s @ [rejected_reply]"
proof -
  have "strip_cr l \<noteq> []" using assms(5) by auto
  then show ?thesis
    using assms by (simp add: spinning_def split_step_def Let_def push_def send_line_def)
qed

text \<open>Without a port to listen on, \<open>Start\<close> leaves the queue unset, and the first \<open>Drain\<close> follows it.\<close>

lemma drain_without_start:
  "server_step evaluate (server_new g) ((server_new g)\<lparr>sv_game := Crashed\<rparr>)"
  using server_step.drain [of "server_new g" evaluate] by (simp add: server_new_def)

end
