(* ===== verification/Repl_Session.thy ===== *)
theory Repl_Session
  imports Repl_Server C_Strings
begin

text \<open>
  From the socket to the language: the evaluator that \<open>adapter/src/Main.cpp\<close> gives to \<open>Drain\<close>
  calls \<open>wsm_eval_string\<close> and frees its result, so a client of the server is answered with what its
  forms mean over the host that the session serves.
\<close>

section \<open>The evaluator of the game thread\<close>

text \<open>
  The lambda in \<open>DispatchRunningTick\<close>. A result pointer is null only if the allocator gave null,
  and \<open>std::string(result)\<close> copies up to the first NUL. After a fatal outcome there is no process.
\<close>

definition null_reply :: bytes where
  "null_reply = ascii ''error: Lisp evaluation returned null''"

definition drain_evaluate ::
  "platform \<Rightarrow> u64 \<Rightarrow> u64 \<Rightarrow> bytes \<Rightarrow> fatal + 'h c_side \<Rightarrow> bytes \<times> (fatal + 'h c_side)" where
  "drain_evaluate pl q session source g =
     (case g of
        Inl f \<Rightarrow> ([], Inl f)
      | Inr C \<Rightarrow>
          (case wsm_eval_string_raw pl q C session (Some source) of
             (Inl f, C) \<Rightarrow> ([], Inl f)
           | (Inr result, C) \<Rightarrow>
               if result = 0 then (null_reply, Inr C)
               else (case c_strings C result of
                       None \<Rightarrow> ([], Inl (Dangling_String result))
                     | Some bytes \<Rightarrow>
                         (case wsm_free_string C result of
                            (Inl f, C) \<Rightarrow> ([], Inl f)
                          | (Inr _, C) \<Rightarrow> (c_str bytes, Inr C)))))"

section \<open>What a series of forms means\<close>

text \<open>
  The meanings of the forms one after the other, with \<open>k\<close> handles to begin with: reading a text
  takes at most one for each character, and the evaluation takes its own. \<open>None\<close> when they run out.
\<close>

fun means_all :: "spellings \<Rightarrow> int lisp_host \<Rightarrow> nat \<Rightarrow> form list \<Rightarrow> (eval_error + lisp) list option" where
  "means_all s H k [] = Some []"
| "means_all s H k (f # fs) =
     (if k < length (render f) then None
      else case feval s H f (int (k - length (render f))) of
             (r, a) \<Rightarrow>
               (if a < 0 \<or> a > int (k - length (render f)) then None
                else map_option ((#) r) (means_all s H (nat a) fs)))"

lemma means_all_length: "means_all s H k fs = Some rs \<Longrightarrow> length rs = length fs"
  by (induction fs arbitrary: k rs) (auto split: if_splits prod.splits)

text \<open>The same with the room that they leave.\<close>

fun means_left ::
  "spellings \<Rightarrow> int lisp_host \<Rightarrow> nat \<Rightarrow> form list \<Rightarrow> ((eval_error + lisp) list \<times> nat) option" where
  "means_left s H k [] = Some ([], k)"
| "means_left s H k (f # fs) =
     (if k < length (render f) then None
      else case feval s H f (int (k - length (render f))) of
             (r, a) \<Rightarrow>
               (if a < 0 \<or> a > int (k - length (render f)) then None
                else case means_left s H (nat a) fs of
                       None \<Rightarrow> None | Some (rs, k') \<Rightarrow> Some (r # rs, k')))"

lemma means_all_left: "means_all s H k fs = map_option fst (means_left s H k fs)"
  by (induction fs arbitrary: k) (auto split: option.splits prod.splits)

abbreviation answer_bytes :: "eval_error + lisp \<Rightarrow> bytes" where
  "answer_bytes r \<equiv> utf8_encode (answer_text r)"

definition line_form :: "form \<Rightarrow> bool" where
  "line_form f \<longleftrightarrow> form_ok f \<and> cells_of f \<le> ARENA_CELLS \<and> text_ok (render f)
     \<and> list_all (\<lambda>c. c \<noteq> 10 \<and> c \<noteq> 13) (render f) \<and> length (utf8_encode (render f)) \<le> kMaxRequestBytes"

abbreviation line_of :: "form \<Rightarrow> bytes" where "line_of f \<equiv> utf8_encode (render f)"

text \<open>One form through the evaluator of the game thread.\<close>

lemma drain_evaluates:
  assumes "ready pl H p q C0 (length (render f) + k) C" and "line_form f"
    and "feval (pl_spellings pl) H f (int k) = (r, int j)" and "j \<le> k"
  obtains D where "drain_evaluate pl q p (line_of f) (Inr C) = (answer_bytes r, Inr D)"
    and "ready pl H p q C0 j D"
proof -
  have f: "text_ok (render f)" "tokenize (render f) = Inr (toks f)" "cells_of f \<le> ARENA_CELLS"
    using assms(2) tokenize_render by (simp_all add: line_form_def)
  obtain S P where e: "p_sessions (c_process C) p = Some S"
      "eval_str pl (c_process C) p S (render f) = (Inr (answer_text r), P)" "text_ok (answer_text r)"
      "ready pl H p q C0 j (C\<lparr>c_process := P\<rparr>)"
    by (rule ready_answer [OF assms(1) f assms(3,4)])
  have "process_ok pl (c_process C)" and q: "q \<noteq> 0" "c_strings C q = None"
    using assms(1) by (auto simp: ready_def)
  then have eval: "wsm_eval_string pl (c_process C) p (Some (line_of f)) = (Inr (utf8_encode (answer_text r)), P)"
    by (intro eval_string_of_text [OF _ e(1) f(1) e(3,2)])
  have "0 \<notin> set (utf8_encode (answer_text r))"
    using e(3) utf8_encode_NUL [of "answer_text r"] by (simp add: text_ok_def)
  then have "c_str (utf8_encode (answer_text r)) = utf8_encode (answer_text r)"
    unfolding c_str_def by (subst takeWhile_eq_all_conv) auto
  moreover have "(c_strings C)(q := None) = c_strings C" using q(2) by (simp add: fun_upd_idem)
  ultimately have "drain_evaluate pl q p (line_of f) (Inr C) = (utf8_encode (answer_text r), Inr (C\<lparr>c_process := P\<rparr>))"
    using eval q(1) by (cases C) (simp add: drain_evaluate_def wsm_eval_string_raw_def wsm_free_string_def)
  then show thesis using e(4) by (rule that)
qed

section \<open>Lines of text\<close>

lemma utf8_char_ascii: "b < 128 \<Longrightarrow> b \<in> set (utf8_char c) \<longleftrightarrow> c = b"
  by (auto simp: utf8_char_def)

lemma utf8_encode_ascii:
  assumes "list_all valid_scalar s" and "b < 128"
  shows "(of_nat b :: u8) \<in> set (utf8_encode s) \<longleftrightarrow> b \<in> set s"
proof -
  have "(of_nat b' :: u8) = of_nat b \<longleftrightarrow> b' = b" if "b' \<in> set (utf8_char c)" "c \<in> set s" for b' c
  proof -
    have "b' < 256" using that assms(1) utf8_char_bound [of c b'] by (auto simp: list_all_iff)
    then show ?thesis using assms(2) by (simp add: word_of_nat_eq_iff take_bit_nat_eq_self)
  qed
  then show ?thesis
    using utf8_char_ascii [OF assms(2)] by (auto simp: utf8_encode_def image_iff) metis+
qed

lemma render_not_Nil: "form_ok f \<Longrightarrow> render f \<noteq> []"
  using tokenize_render [of f] by (cases f) auto

lemma line_form_line:
  assumes "line_form f"
  shows "10 \<notin> set (line_of f)" and "strip_cr (line_of f) = line_of f" and "good_line (line_of f)"
proof -
  have scalars: "list_all valid_scalar (render f)" and ctl: "10 \<notin> set (render f)" "13 \<notin> set (render f)"
    using assms by (auto simp: line_form_def text_ok_def list_all_iff)
  then show n: "10 \<notin> set (line_of f)" using utf8_encode_ascii [OF scalars, of 10] by simp
  have "13 \<notin> set (line_of f)" using utf8_encode_ascii [OF scalars, of 13] ctl by simp
  then show cr: "strip_cr (line_of f) = line_of f"
    by (metis last_in_set strip_cr_def)
  have "line_of f \<noteq> []"
    using render_not_Nil [of f] assms by (auto simp: utf8_encode_def line_form_def)
  then show "good_line (line_of f)" using assms cr by (simp add: good_line_def line_form_def)
qed

definition transmission :: "form list \<Rightarrow> bytes" where
  "transmission fs = concat (map (\<lambda>f. line_of f @ [10]) fs)"

lemma lines_of_transmission: "list_all line_form fs \<Longrightarrow> split_lines (transmission fs) = (map line_of fs, [])"
proof (induction fs)
  case (Cons f fs)
  then show ?case
    using split_lines_line [of "line_of f" "transmission fs"] line_form_line(1) [of f]
    by (simp add: transmission_def)
qed (simp add: transmission_def)

lemma means_all_take: "means_all s H k fs = Some rs \<Longrightarrow> means_all s H k (take m fs) = Some (take m rs)"
proof (induction fs arbitrary: k rs m)
  case (Cons f fs)
  then show ?case by (cases m) (auto split: if_splits prod.splits)
qed simp

section \<open>The first client of a session\<close>

text \<open>
  What the server needs of its evaluator: a state that is \<open>good\<close> for so many characters and handles
  answers a line that is a form with what the form means over a host, and is good for what is left.
\<close>

locale line_evaluator =
  fixes evaluate :: "bytes \<Rightarrow> 'g \<Rightarrow> bytes \<times> 'g"
    and good :: "nat \<Rightarrow> 'g \<Rightarrow> bool"
    and s :: spellings
    and H :: "int lisp_host"
  assumes evaluates: "good (length (render f) + k) g \<Longrightarrow> line_form f \<Longrightarrow> feval s H f (int k) = (r, int j) \<Longrightarrow>
      j \<le> k \<Longrightarrow> \<exists>g'. evaluate (line_of f) g = (answer_bytes r, g') \<and> good j g'"
begin

lemma replays:
  assumes "good k g" and "list_all line_form fs" and "means_left s H k fs = Some (rs, j)"
  shows "\<exists>g'. replay evaluate g (map line_of fs) = (map answer_bytes rs, g') \<and> good j g'"
  using assms
proof (induction fs arbitrary: k g rs)
  case Nil
  then show ?case by simp
next
  case (Cons f fs)
  obtain m r a rs' where k: "k = length (render f) + m" and r: "feval s H f (int m) = (r, a)"
    and a: "0 \<le> a" "a \<le> int m" and rs: "means_left s H (nat a) fs = Some (rs', j)" "rs = r # rs'"
    using Cons.prems(3) by (auto simp: not_less le_iff_add split: if_splits prod.splits option.splits)
  obtain i where i: "a = int i" "i \<le> m" using a by (metis int_nat_eq nat_int zle_int)
  obtain g' where g': "evaluate (line_of f) g = (answer_bytes r, g')" "good i g'"
    using evaluates [of f m g r i] Cons.prems(1,2) k r i by auto
  obtain g'' where "replay evaluate g' (map line_of fs) = (map answer_bytes rs', g'')" "good j g''"
    using Cons.IH [OF g'(2)] Cons.prems(2) rs(1) i(1) by auto
  then show ?case using g'(1) rs(2) by simp
qed

lemma answers:
  assumes "(server_step evaluate)\<^sup>*\<^sup>* (server_new g) S" and "serving S" and "sv_base S = 0"
    and "sv_received S = transmission fs" and "list_all line_form fs"
    and "good k g" and "means_all s H k fs = Some rs"
  obtains n where "n \<le> length fs" and "sv_sent S = map answer_bytes (take n rs)"
    and "sv_worker S \<in> {Receive_Check, In_Receive} \<Longrightarrow> n = length fs"
proof -
  have lines: "lines_of (sv_received S) = map line_of fs"
    using lines_of_transmission [OF assms(5)] assms(4) by simp
  have strip: "map strip_cr (map line_of gs) = map line_of gs" if "set gs \<subseteq> set fs" for gs
    using that assms(5) line_form_line(2) by (auto simp: list_all_iff)
  have "list_all good_line (lines_of (sv_received S))"
    unfolding lines using assms(5) line_form_line(3) by (auto simp: list_all_iff)
  then obtain m results g0 where r: "m \<le> length (lines_of (sv_received S))"
      "g0 = snd (replay evaluate g (map fst (take (sv_base S) (sv_served S))))"
      "replay evaluate g0 (map strip_cr (take m (lines_of (sv_received S)))) = (results, sv_session S)"
      "sv_sent S = results \<or> (\<exists>result. results = sv_sent S @ [result])"
      "sv_worker S \<in> {Receive_Check, In_Receive} \<Longrightarrow> sv_sent S = results \<and> m = length (lines_of (sv_received S))"
    using client_served [OF assms(1,2)] by metis
  have "list_all line_form (take m fs)" using assms(5) by (auto simp: list_all_iff dest: in_set_takeD)
  moreover obtain j where "means_left s H k (take m fs) = Some (take m rs, j)"
    using means_all_take [OF assms(7), of m] by (auto simp: means_all_left)
  ultimately obtain g' where "replay evaluate g (map line_of (take m fs)) = (map answer_bytes (take m rs), g')"
    using replays [OF assms(6)] by blast
  moreover have "g0 = g" using r(2) assms(3) by simp
  moreover have "map strip_cr (take m (lines_of (sv_received S))) = map line_of (take m fs)"
    using strip [of "take m fs"] by (simp add: lines take_map set_take_subset)
  ultimately have results: "results = map answer_bytes (take m rs)" using r(3) by simp
  show thesis
  proof (cases "sv_sent S = results")
    case True
    then show thesis using that [of m] r(1,5) results lines by simp
  next
    case False
    then obtain x where "results = sv_sent S @ [x]" and idle: "sv_worker S \<notin> {Receive_Check, In_Receive}"
      using r(4,5) by blast
    then have "sv_sent S = butlast results" by simp
    then have "sv_sent S = map answer_bytes (take (m - 1) rs)"
      using r(1) lines means_all_length [OF assms(7)] by (simp add: results butlast_take flip: map_butlast)
    then show thesis using that [of "m - 1"] r(1) lines idle by simp
  qed
qed

text \<open>
  And from any state in which the worker has begun on the buffer the two threads can go on until
  the client has all the answers.
\<close>

lemma gets_all:
  assumes "(server_step evaluate)\<^sup>*\<^sup>* (server_new g) S" and "sv_base S = 0"
    and "sv_received S = transmission fs" and "list_all line_form fs"
    and "good k g" and "means_all s H k fs = Some rs"
    and "sv_worker S = Splitting" and "sv_running S" and "sv_game S \<in> {Playing, Draining}"
  obtains S' where "(server_step evaluate)\<^sup>*\<^sup>* S S'"
    and "sv_sent S' = map answer_bytes rs"
proof -
  let ?step = "server_step evaluate"
  have ok: "threads_ok S" "served_ok S" using server_reachable [OF assms(1)] by (simp_all add: server_ok_def)
  have lines: "lines_of (sv_received S) = map line_of fs"
    using lines_of_transmission [OF assms(4)] assms(3) by simp
  have good: "list_all good_line (lines_of (sv_received S))"
    unfolding lines using assms(4) line_form_line(3) by (auto simp: list_all_iff)
  then have client: "client_ok S" using ok(2) assms(7) by (simp add: served_ok_def serving_def)
  then have newline: "sv_newline S = find_newline (sv_buffered S)" using assms(7) by (simp add: client_ok_def)
  obtain ds where "lines_of (sv_received S) = ds @ lines_of (sv_buffered S)"
    using client by (auto simp: client_ok_def dealt_with_def)
  then have rest: "list_all good_line (lines_of (sv_buffered S))" using good by simp
  define S1 where "S1 = S\<lparr>sv_game := Playing\<rparr>"
  have S1: "?step\<^sup>*\<^sup>* S S1"
  proof (cases "sv_game S = Draining")
    case True
    then have "m_requests (sv_queue S) = []"
      using ok(1) assms(7) by (auto simp: threads_ok_def in_flight_def split: if_splits)
    then have "drain_pop S = S1" by (simp add: drain_pop_def pop_def S1_def)
    then show ?thesis using server_step.drain_next [OF True, of evaluate] by auto
  next
    case False
    then have "S1 = S" using assms(9) by (cases S) (simp add: S1_def)
    then show ?thesis by simp
  qed
  obtain S' where S': "?step\<^sup>*\<^sup>* S1 S'" "sv_worker S' = Receive_Check"
      "sv_received S' = sv_received S1" "sv_base S' = sv_base S1"
    using lines_get_answered [OF threads_ok_run [OF S1 ok(1)], of evaluate] assms(7,8) newline rest
    by (auto simp: S1_def)
  have run: "?step\<^sup>*\<^sup>* S S'" using S1 S'(1) by simp
  from answers [OF rtranclp_trans [OF assms(1) run] _ _ _ assms(4-6)] obtain n where
      "sv_sent S' = map answer_bytes (take n rs)" "n = length fs"
    using S'(2-4) assms(2,3) by (auto simp: serving_def S1_def)
  then have "sv_sent S' = map answer_bytes rs"
    using means_all_length [OF assms(6)] by simp
  with run show thesis by (rule that)
qed

lemma serves:
  assumes "(server_step evaluate)\<^sup>*\<^sup>* (server_new g) S" and "serving S" and "sv_base S = 0"
    and "sv_received S = transmission fs" and "list_all line_form fs"
    and "good k g" and "means_all s H k fs = Some rs"
  shows "(\<exists>n \<le> length fs. sv_sent S = map answer_bytes (take n rs)
      \<and> (sv_worker S \<in> {Receive_Check, In_Receive} \<longrightarrow> n = length fs))
    \<and> (sv_worker S = Splitting \<and> sv_running S \<and> sv_game S \<in> {Playing, Draining} \<longrightarrow>
      (\<exists>S'. (server_step evaluate)\<^sup>*\<^sup>* S S' \<and> sv_sent S' = map answer_bytes rs))"
proof (intro conjI impI)
  show "\<exists>n \<le> length fs. sv_sent S = map answer_bytes (take n rs)
      \<and> (sv_worker S \<in> {Receive_Check, In_Receive} \<longrightarrow> n = length fs)"
    using answers [OF assms] by metis
  show "\<exists>S'. (server_step evaluate)\<^sup>*\<^sup>* S S' \<and> sv_sent S' = map answer_bytes rs"
    if "sv_worker S = Splitting \<and> sv_running S \<and> sv_game S \<in> {Playing, Draining}"
    using gets_all [OF assms(1,3-7)] that by metis
qed

end

interpretation repl: line_evaluator "drain_evaluate pl q p" "\<lambda>k g. \<exists>C. g = Inr C \<and> ready pl H p q C0 k C"
    "pl_spellings pl" H
  for pl q p H C0
  by unfold_locales (metis drain_evaluates)

end
