(* ===== verification/Plugin.thy ===== *)
theory Plugin
  imports Adapter_Session Repl_Session Unit_Tests
begin

text \<open>
  The life of the plug-in (\<open>adapter/src/Main.cpp\<close>): \<open>Main\<close> with \<open>Load\<close> and \<open>Unload\<close>, and
  \<open>DispatchRunningTick\<close>, which the game calls in every frame. The files, the library and the port are
  the environment: what a file holds, whether the library loads, whether the server can listen. The
  server is the one of \<open>Repl_Server\<close>; here a tick is given the requests that its \<open>Drain\<close> pops.
\<close>

section \<open>The dispatch file\<close>

text \<open>\<open>SurfaceExt.hpp\<close>; a file that is there and empty counts as missing.\<close>

type_synonym files = "rstring \<Rightarrow> bytes option"

definition read_file_if_exists :: "files \<Rightarrow> rstring \<Rightarrow> bytes option" where
  "read_file_if_exists files path =
     (case files path of None \<Rightarrow> None | Some content \<Rightarrow> if content = [] then None else Some content)"

definition dispetcher :: rstring where
  "dispetcher = [0x434, 0x438, 0x441, 0x43F, 0x435, 0x442, 0x447, 0x435, 0x440]"

definition dispatch_candidates :: "rstring list" where
  "dispatch_candidates =
     [lit ''dispatcher.lisp'', dispetcher @ [46, 0x43B, 0x456, 0x441, 0x43F], dispetcher @ [46, 0x43C, 0x456, 0x439],
      dispetcher @ lit ''.my'', lit ''dispatcher.my'', lit ''dispatcher'' @ [46, 0x43C, 0x456, 0x439]]"

fun load_first_existing :: "files \<Rightarrow> rstring list \<Rightarrow> (rstring \<times> bytes) option" where
  "load_first_existing files [] = None"
| "load_first_existing files (path # candidates) =
     (case read_file_if_exists files path of
        Some source \<Rightarrow> Some (path, source)
      | None \<Rightarrow> load_first_existing files candidates)"

lemma load_first_existing_found:
  "load_first_existing files paths = Some (path, source) \<Longrightarrow>
     path \<in> set paths \<and> files path = Some source \<and> source \<noteq> []"
  by (induction paths) (auto simp: read_file_if_exists_def split: option.splits if_splits)

section \<open>The state of the plug-in\<close>

text \<open>
  \<open>pg_session\<close> is \<open>g_wsmSession\<close>, 0 when it is null; the function pointers are set and cleared with
  it. The logger, the handles and the player's token are in the host state of the process.
\<close>

record plugin =
  pg_side :: "adapter c_side"
  pg_session :: u64
  pg_dispatch :: bytes
  pg_last :: bytes

definition on_side :: "(adapter c_side \<Rightarrow> (fatal + 'a) \<times> adapter c_side) \<Rightarrow> plugin \<Rightarrow> (fatal + 'a) \<times> plugin" where
  "on_side f PG = (case f (pg_side PG) of (r, C) \<Rightarrow> (r, PG\<lparr>pg_side := C\<rparr>))"

definition host_side :: "(adapter \<Rightarrow> adapter) \<Rightarrow> adapter c_side \<Rightarrow> adapter c_side" where
  "host_side f C = C\<lparr>c_process := (c_process C)\<lparr>p_host := f (p_host (c_process C))\<rparr>\<rparr>"

definition on_host :: "(adapter \<Rightarrow> adapter) \<Rightarrow> plugin \<Rightarrow> plugin" where
  "on_host f PG = PG\<lparr>pg_side := host_side f (pg_side PG)\<rparr>"

abbreviation say :: "log_line \<Rightarrow> plugin \<Rightarrow> plugin" where "say line \<equiv> on_host (info line)"

abbreviation pg_host :: "plugin \<Rightarrow> adapter" where "pg_host PG \<equiv> p_host (c_process (pg_side PG))"

section \<open>Load\<close>

definition kExpectedHostAbiVersion :: u32 where "kExpectedHostAbiVersion = 1"
definition kRequiredHostFeatures :: u64 where "kRequiredHostFeatures = 7"

text \<open>A return before \<open>guard.Release()\<close>: the guard frees the session.\<close>

definition fail_load :: "log_line \<Rightarrow> u64 \<Rightarrow> plugin \<Rightarrow> (fatal + bool) \<times> plugin" where
  "fail_load line session PG =
     step_then (on_side (on_process (\<lambda>P. wsm_session_free P session)) (say line PG)) (\<lambda>_ PG. (Inr False, PG))"

definition load_source :: "u64 \<Rightarrow> files \<Rightarrow> bool \<Rightarrow> plugin \<Rightarrow> (fatal + bool) \<times> plugin" where
  "load_source session files listens PG =
     (case load_first_existing files dispatch_candidates of
        None \<Rightarrow> fail_load No_Dispatch session PG
      | Some (path, source) \<Rightarrow>
          (Inr True, say Session_Ready (say (if listens then Repl_Listening else Repl_Failed)
             ((say (Dispatch_Loaded path) PG)\<lparr>pg_dispatch := source, pg_session := session\<rparr>))))"

definition load_oracle ::
  "platform \<Rightarrow> u64 \<Rightarrow> u64 \<Rightarrow> files \<Rightarrow> bool \<Rightarrow> plugin \<Rightarrow> (fatal + bool) \<times> plugin" where
  "load_oracle pl q session files listens PG =
     step_then (on_side (\<lambda>C. wsm_eval_string_raw pl q C session (Some (utf8_encode (lit ''(quote ())'')))) PG)
       (\<lambda>result PG.
          if result = 0 then fail_load Oracle_Null session PG
          else case c_strings (pg_side PG) result of
                 None \<Rightarrow> (Inl (Dangling_String result), PG)
               | Some bytes \<Rightarrow>
                   if c_str bytes \<noteq> utf8_encode (lit ''()'')
                   then step_then (on_side (\<lambda>C. wsm_free_string C result) (say (Oracle_Mismatch (c_str bytes)) PG))
                     (\<lambda>_ PG. step_then (on_side (on_process (\<lambda>P. wsm_session_free P session)) PG)
                        (\<lambda>_ PG. (Inr False, PG)))
                   else step_then (on_side (\<lambda>C. wsm_free_string C result) (say (Oracle (c_str bytes)) PG))
                     (\<lambda>_. load_source session files listens))"

definition register_or_fail ::
  "platform \<Rightarrow> u64 \<Rightarrow> nat \<Rightarrow> rstring \<Rightarrow> adapter callback \<Rightarrow> (plugin \<Rightarrow> (fatal + bool) \<times> plugin) \<Rightarrow>
     plugin \<Rightarrow> (fatal + bool) \<times> plugin" where
  "register_or_fail pl session i n f continue PG =
     step_then (on_side (on_process (\<lambda>P. wsm_register_primitive pl P session (Some (utf8_encode n)) f)) PG)
       (\<lambda>rc PG. if rc \<noteq> 0 then fail_load (Not_Registered i) session PG else continue PG)"

text \<open>\<open>EMainReason::Load\<close>; the allocator gives the session the address \<open>p\<close> and its strings \<open>q\<close>.\<close>

definition plugin_load ::
  "platform \<Rightarrow> u64 \<Rightarrow> u64 \<Rightarrow> game \<Rightarrow> files \<Rightarrow> bool \<Rightarrow> bool \<Rightarrow> plugin \<Rightarrow> (fatal + bool) \<times> plugin" where
  "plugin_load pl p q G files library listens PG =
     (let PG = on_host (\<lambda>a. a\<lparr>a_logger := True\<rparr>) PG
      in if \<not> library then (Inr False, say Library_Missing PG)
      else if wsm_host_abi_version \<noteq> kExpectedHostAbiVersion
          \<or> wsm_host_feature_bits AND kRequiredHostFeatures \<noteq> kRequiredHostFeatures
      then (Inr False, say Incompatible_Abi PG)
      else case on_process (wsm_session_init p) (pg_side (say Abi_Validated PG)) of
        (session, C) \<Rightarrow>
          if session = 0 then (Inr False, say No_Session (PG\<lparr>pg_side := C\<rparr>))
          else register_or_fail pl session 1 OP_CP_0001 log_primitive
            (register_or_fail pl session 2 OP_CP_0002 (present_callback (gm_rebind G))
            (register_or_fail pl session 3 OP_CP_0003
              (class_primitive (gm_class_of G) session (gm_token_out G) (gm_out G))
            (load_oracle pl q session files listens))) (PG\<lparr>pg_side := C\<rparr>))"

section \<open>A tick\<close>

text \<open>\<open>DispatchRunningTick\<close>, with the replies to the requests that it drains.\<close>

definition dispatch_result :: "platform \<Rightarrow> u64 \<Rightarrow> plugin \<Rightarrow> (fatal + unit) \<times> plugin" where
  "dispatch_result pl q PG =
     step_then (on_side (\<lambda>C. wsm_eval_string_raw pl q C (pg_session PG) (Some (pg_dispatch PG))) PG) (\<lambda>result PG.
       if result = 0 then (Inr (), say Dispatch_Null PG)
       else case c_strings (pg_side PG) result of
              None \<Rightarrow> (Inl (Dangling_String result), PG)
            | Some bytes \<Rightarrow>
                on_side (\<lambda>C. wsm_free_string C result)
                  (if pg_last PG \<noteq> c_str bytes
                   then (say (Dispatch_Result (c_str bytes)) PG)\<lparr>pg_last := c_str bytes\<rparr> else PG))"

definition dispatch_running_tick ::
  "platform \<Rightarrow> u64 \<Rightarrow> bytes list \<Rightarrow> plugin \<Rightarrow> (fatal + (bool \<times> bytes list)) \<times> plugin" where
  "dispatch_running_tick pl q requests PG =
     (if pg_session PG = 0 \<or> \<not> a_logger (pg_host PG) then (Inr (True, []), PG)
      else case replay (drain_evaluate pl q (pg_session PG)) (Inr (pg_side PG)) requests of
        (results, Inl f) \<Rightarrow> (Inl f, PG)
      | (results, Inr C) \<Rightarrow>
          let PG = PG\<lparr>pg_side := C\<rparr>
          in if pg_dispatch PG = [] then (Inr (False, results), PG)
             else step_then (dispatch_result pl q PG) (\<lambda>_ PG. (Inr (False, results), PG)))"

section \<open>Unload\<close>

text \<open>\<open>EMainReason::Unload\<close>, after the server has stopped.\<close>

definition plugin_unload :: "plugin \<Rightarrow> (fatal + bool) \<times> plugin" where
  "plugin_unload PG =
     (let PG = on_host (\<lambda>a. a\<lparr>a_runtime := reset_for_unload (a_runtime a), a_player := 0,
             a_handles := clear_handles (a_handles a)\<rparr>) (PG\<lparr>pg_dispatch := [], pg_last := []\<rparr>)
      in step_then (on_side (on_process (\<lambda>P. wsm_session_free P (pg_session PG))) PG)
           (\<lambda>_ PG. (Inr True, on_host (\<lambda>a. a\<lparr>a_logger := False\<rparr>) (PG\<lparr>pg_session := 0\<rparr>))))"

text \<open>From \<open>Load\<close> through a series of ticks, each with its requests, to \<open>Unload\<close>.\<close>

fun plugin_ticks ::
  "platform \<Rightarrow> u64 \<Rightarrow> bytes list list \<Rightarrow> plugin \<Rightarrow> (fatal + bytes list list) \<times> plugin" where
  "plugin_ticks pl q [] PG = (Inr [], PG)"
| "plugin_ticks pl q (requests # rest) PG =
     step_then (dispatch_running_tick pl q requests PG) (\<lambda>(ran, results) PG.
       step_then (plugin_ticks pl q rest PG) (\<lambda>all PG. (Inr (results # all), PG)))"

definition plugin_life ::
  "platform \<Rightarrow> u64 \<Rightarrow> u64 \<Rightarrow> game \<Rightarrow> files \<Rightarrow> bool \<Rightarrow> bytes list list \<Rightarrow> plugin \<Rightarrow>
     (fatal + bytes list list) \<times> plugin" where
  "plugin_life pl p q G files listens requests PG =
     step_then (plugin_load pl p q G files True listens PG) (\<lambda>loaded PG.
       if \<not> loaded then (Inr [], PG)
       else step_then (plugin_ticks pl q requests PG) (\<lambda>results PG.
              step_then (plugin_unload PG) (\<lambda>_ PG. (Inr results, PG))))"

end
