(* ===== verification/Plugin_Correct.thy ===== *)
theory Plugin_Correct
  imports Plugin
begin

text \<open>
  What the plug-in does over its life: \<open>Load\<close> makes the session ready or leaves nothing behind, every
  tick answers the requests and the dispatch file with what they mean, logs what has changed, and
  keeps the session ready, and \<open>Unload\<close> gives everything back.
\<close>

section \<open>The session between two calls\<close>

lemma host_side_simps [simp]:
  "c_strings (host_side f C) = c_strings C" "p_sessions (c_process (host_side f C)) = p_sessions (c_process C)"
  "p_arena (c_process (host_side f C)) = p_arena (c_process C)"
  "p_host (c_process (host_side f C)) = f (p_host (c_process C))"
  by (simp_all add: host_side_def)

lemma on_host_simps [simp]:
  "pg_side (on_host f PG) = host_side f (pg_side PG)" "pg_session (on_host f PG) = pg_session PG"
  "pg_dispatch (on_host f PG) = pg_dispatch PG" "pg_last (on_host f PG) = pg_last PG"
  by (simp_all add: on_host_def)

lemma info_simps [simp]:
  "a_handles (info l a) = a_handles a" "a_player (info l a) = a_player a" "a_engine (info l a) = a_engine a"
  "a_logger (info l a) = a_logger a"
  "dispatch_lines (info l a) = dispatch_lines a
     @ (case l of Dispatch_Null \<Rightarrow> [l] | Dispatch_Result _ \<Rightarrow> [l] | _ \<Rightarrow> [])"
  by (simp_all add: info_def dispatch_lines_def split: log_line.split)

definition game_side ::
  "platform \<Rightarrow> game \<Rightarrow> u64 \<Rightarrow> u64 \<Rightarrow> adapter c_side \<Rightarrow> bool \<Rightarrow> nat \<Rightarrow> adapter c_side \<Rightarrow> bool" where
  "game_side pl G p q C0 bound k C \<longleftrightarrow> game_ready pl G p bound k (c_process C) \<and> q \<noteq> 0
     \<and> c_strings C = c_strings C0 \<and> c_strings C0 q = None
     \<and> (\<forall>r. r \<noteq> p \<longrightarrow> p_sessions (c_process C) r = p_sessions (c_process C0) r)"

text \<open>The host state may change in what the session does not depend on.\<close>

lemma game_side_host:
  assumes "game_side pl G p q C0 bound k C" and "a_logger (f (p_host (c_process C)))"
    and "a_handles (f (p_host (c_process C))) = a_handles (p_host (c_process C))"
    and "a_player (f (p_host (c_process C))) = a_player (p_host (c_process C))"
    and "a_engine (f (p_host (c_process C))) = a_engine (p_host (c_process C))"
  shows "game_side pl G p q C0 bound k (host_side f C)"
  using assms by (auto simp: game_side_def game_ready_def process_ok_def player_settled_def)

lemma game_side_nonzero: "game_side pl G p q C0 bound k C \<Longrightarrow> p \<noteq> 0 \<and> a_logger (p_host (c_process C))"
  by (auto simp: game_side_def game_ready_def process_ok_def)

lemma game_host_same: "same_player a a' \<Longrightarrow> game_host G bound a' = game_host G bound a"
  by (simp add: same_player_def game_host_def player_value_def present_means_def fun_eq_iff cong: if_cong)

lemma same_player_trans: "same_player a b \<Longrightarrow> same_player b c \<Longrightarrow> same_player a c"
  by (simp add: same_player_def)

lemma text_bytes: "text_ok t \<Longrightarrow> c_str (utf8_encode t) = utf8_encode t"
  using utf8_encode_NUL [of t] unfolding c_str_def
  by (subst takeWhile_eq_all_conv) (auto simp: text_ok_def)

lemma utf8_encode_not_Nil: "s \<noteq> [] \<Longrightarrow> utf8_encode s \<noteq> []"
  by (cases s) (simp_all add: utf8_encode_def utf8_char_def)

text \<open>One evaluation: the result is at \<open>q\<close> until it is freed.\<close>

lemma game_side_evaluates:
  assumes "game_side pl G p q C0 bound (length s + k) C" and "game_ok p G"
    and "text_ok s" "tokenize s = Inr (toks f)" "cells_of f \<le> ARENA_CELLS"
    and "feval (pl_spellings pl) (game_host G bound (p_host (c_process C))) f (int k) = (r, int j)" and "j \<le> k"
  obtains D where "wsm_eval_string_raw pl q C p (Some (utf8_encode s))
      = (Inr q, D\<lparr>c_strings := (c_strings D)(q \<mapsto> utf8_encode (answer_text r))\<rparr>)"
    and "wsm_free_string (D\<lparr>c_strings := (c_strings D)(q \<mapsto> utf8_encode (answer_text r))\<rparr>) q = (Inr (), D)"
    and "game_side pl G p q C0 bound j D" and "same_player (p_host (c_process C)) (p_host (c_process D))"
    and "c_str (utf8_encode (answer_text r)) = utf8_encode (answer_text r)"
proof -
  have ready: "game_ready pl G p bound (length s + k) (c_process C)" and q: "q \<noteq> 0" "c_strings C q = None"
    using assms(1) by (simp_all add: game_side_def)
  obtain P where P: "wsm_eval_string pl (c_process C) p (Some (utf8_encode s)) = (Inr (utf8_encode (answer_text r)), P)"
      "game_ready pl G p bound j P" "only_session p (c_process C) P" "same_player (p_host (c_process C)) (p_host P)"
      "text_ok (answer_text r)"
    using game_answers [OF ready assms(2-7)] by blast
  let ?D = "C\<lparr>c_process := P\<rparr>"
  have "(c_strings C)(q := None) = c_strings C" using q(2) by (simp add: fun_upd_idem)
  show thesis
    by (rule that [of ?D])
      (use assms(1) P q \<open>(c_strings C)(q := None) = c_strings C\<close> in
        \<open>auto simp: wsm_eval_string_raw_def wsm_free_string_def game_side_def only_session_def text_bytes\<close>)
qed

section \<open>Requests\<close>

lemma game_drains:
  assumes "game_side pl G p q C0 bound (length (render f) + k) C" and "game_ok p G" and "line_form f"
    and "feval (pl_spellings pl) (game_host G bound (p_host (c_process C))) f (int k) = (r, int j)" and "j \<le> k"
  obtains D where "drain_evaluate pl q p (line_of f) (Inr C) = (answer_bytes r, Inr D)"
    and "game_side pl G p q C0 bound j D" and "same_player (p_host (c_process C)) (p_host (c_process D))"
proof -
  have f: "text_ok (render f)" "tokenize (render f) = Inr (toks f)" "cells_of f \<le> ARENA_CELLS"
    using assms(3) tokenize_render by (simp_all add: line_form_def)
  have q: "q \<noteq> 0" using assms(1) by (simp add: game_side_def)
  obtain D where D: "wsm_eval_string_raw pl q C p (Some (line_of f))
      = (Inr q, D\<lparr>c_strings := (c_strings D)(q \<mapsto> answer_bytes r)\<rparr>)"
      "wsm_free_string (D\<lparr>c_strings := (c_strings D)(q \<mapsto> answer_bytes r)\<rparr>) q = (Inr (), D)"
      "game_side pl G p q C0 bound j D" "same_player (p_host (c_process C)) (p_host (c_process D))"
      "c_str (answer_bytes r) = answer_bytes r"
    by (rule game_side_evaluates [OF assms(1,2) f assms(4,5)])
  have "drain_evaluate pl q p (line_of f) (Inr C) = (answer_bytes r, Inr D)"
    using q D(1,2,5) by (simp add: drain_evaluate_def)
  then show thesis using D(3,4) by (rule that)
qed

text \<open>The session of the game as an evaluator of lines, as long as handles and player are those of \<open>a\<close>.\<close>

definition game_good :: "platform \<Rightarrow> game \<Rightarrow> u64 \<Rightarrow> u64 \<Rightarrow> adapter c_side \<Rightarrow> bool \<Rightarrow> adapter \<Rightarrow> nat \<Rightarrow> fatal + adapter c_side \<Rightarrow> bool" where
  "game_good pl G p q C0 bound a k g \<longleftrightarrow> game_ok p G
     \<and> (\<exists>C. g = Inr C \<and> game_side pl G p q C0 bound k C \<and> same_player a (p_host (c_process C)))"

lemma game_good_evaluates:
  assumes "game_good pl G p q C0 bound a (length (render f) + k) g" and "line_form f"
    and "feval (pl_spellings pl) (game_host G bound a) f (int k) = (r, int j)" and "j \<le> k"
  shows "\<exists>g'. drain_evaluate pl q p (line_of f) g = (answer_bytes r, g') \<and> game_good pl G p q C0 bound a j g'"
proof -
  obtain C where C: "g = Inr C" "game_side pl G p q C0 bound (length (render f) + k) C" "game_ok p G"
      "same_player a (p_host (c_process C))"
    using assms(1) by (auto simp: game_good_def)
  have "feval (pl_spellings pl) (game_host G bound (p_host (c_process C))) f (int k) = (r, int j)"
    using assms(3) game_host_same [OF C(4)] by simp
  from game_drains [OF C(2,3) assms(2) this assms(4)] obtain D where
      "drain_evaluate pl q p (line_of f) (Inr C) = (answer_bytes r, Inr D)" "game_side pl G p q C0 bound j D"
      "same_player (p_host (c_process C)) (p_host (c_process D))" .
  then show ?thesis
    using C(1,3) same_player_trans [OF C(4)] by (intro exI [of _ "Inr D"]) (auto simp: game_good_def)
qed

interpretation game_lines: line_evaluator "drain_evaluate pl q p" "game_good pl G p q C0 bound a" "pl_spellings pl"
    "game_host G bound a"
  for pl q p G C0 bound a
  by unfold_locales (rule game_good_evaluates)

lemma game_good_start: "game_side pl G p q C0 bound k C \<Longrightarrow> game_ok p G \<Longrightarrow>
    game_good pl G p q C0 bound (p_host (c_process C)) k (Inr C)"
  by (simp add: game_good_def same_player_def)

lemma game_replays:
  assumes "game_side pl G p q C0 bound k C" and "game_ok p G" and "list_all line_form fs"
    and "means_left (pl_spellings pl) (game_host G bound (p_host (c_process C))) k fs = Some (rs, j)"
  shows "\<exists>D. replay (drain_evaluate pl q p) (Inr C) (map line_of fs) = (map answer_bytes rs, Inr D)
    \<and> game_side pl G p q C0 bound j D \<and> same_player (p_host (c_process C)) (p_host (c_process D))"
  using game_lines.replays [OF game_good_start [OF assms(1,2)] assms(3,4)] by (auto simp: game_good_def)

section \<open>Ticks\<close>

text \<open>
  A tick means the requests and then the dispatch form, whose text has \<open>n\<close> characters; a series of
  ticks one after the other. Of the dispatch results those are logged that differ from the last one.
\<close>

definition tick_means ::
  "spellings \<Rightarrow> int lisp_host \<Rightarrow> form \<Rightarrow> nat \<Rightarrow> nat \<Rightarrow> form list \<Rightarrow>
     ((eval_error + lisp) list \<times> (eval_error + lisp) \<times> nat) option" where
  "tick_means s H f n k fs =
     (case means_left s H k fs of
        None \<Rightarrow> None
      | Some (rs, k') \<Rightarrow>
          if k' < n then None
          else case feval s H f (int (k' - n)) of
                 (r, a) \<Rightarrow> if a < 0 \<or> a > int (k' - n) then None else Some (rs, r, nat a))"

fun ticks_mean ::
  "spellings \<Rightarrow> int lisp_host \<Rightarrow> form \<Rightarrow> nat \<Rightarrow> nat \<Rightarrow> form list list \<Rightarrow>
     ((eval_error + lisp) list \<times> (eval_error + lisp)) list option" where
  "ticks_mean s H f n k [] = Some []"
| "ticks_mean s H f n k (fs # rest) =
     (case tick_means s H f n k fs of
        None \<Rightarrow> None
      | Some (rs, r, k') \<Rightarrow> map_option ((#) (rs, r)) (ticks_mean s H f n k' rest))"

fun changes :: "'a \<Rightarrow> 'a list \<Rightarrow> 'a list" where
  "changes x [] = []"
| "changes x (y # ys) = (if y \<noteq> x then [y] else []) @ changes y ys"

lemma changes_same: "changes x (replicate n y) = (if n = 0 \<or> y = x then [] else [y])"
  by (induction n arbitrary: x) auto

text \<open>The plug-in between two ticks.\<close>

definition plugin_ready ::
  "platform \<Rightarrow> game \<Rightarrow> u64 \<Rightarrow> u64 \<Rightarrow> adapter c_side \<Rightarrow> bool \<Rightarrow> bytes \<Rightarrow> nat \<Rightarrow> plugin \<Rightarrow> bool" where
  "plugin_ready pl G p q C0 bound source k PG \<longleftrightarrow> pg_session PG = p \<and> pg_dispatch PG = source
     \<and> game_side pl G p q C0 bound k (pg_side PG)"

definition same_game :: "plugin \<Rightarrow> plugin \<Rightarrow> bool" where
  "same_game PG PG' \<longleftrightarrow> a_handles (pg_host PG') = a_handles (pg_host PG)
     \<and> a_player (pg_host PG') = a_player (pg_host PG) \<and> a_engine (pg_host PG') = a_engine (pg_host PG)"

lemma same_game_host: "same_game PG PG' \<Longrightarrow> game_host G bound (pg_host PG') = game_host G bound (pg_host PG)"
  by (simp add: same_game_def game_host_def player_value_def present_means_def fun_eq_iff cong: if_cong)

lemma dispatch_result_runs:
  assumes "plugin_ready pl G p q C0 bound (utf8_encode s) (length s + k) PG" and "game_ok p G"
    and "text_ok s" "tokenize s = Inr (toks f)" "cells_of f \<le> ARENA_CELLS"
    and "feval (pl_spellings pl) (game_host G bound (pg_host PG)) f (int k) = (r, int j)" and "j \<le> k"
  obtains PG' where "dispatch_result pl q PG = (Inr (), PG')"
    and "plugin_ready pl G p q C0 bound (utf8_encode s) j PG'" and "same_game PG PG'"
    and "pg_last PG' = answer_bytes r"
    and "dispatch_lines (pg_host PG') = dispatch_lines (pg_host PG)
      @ map Dispatch_Result (if answer_bytes r \<noteq> pg_last PG then [answer_bytes r] else [])"
proof -
  have side: "game_side pl G p q C0 bound (length s + k) (pg_side PG)" "pg_session PG = p" "pg_dispatch PG = utf8_encode s"
    using assms(1) by (simp_all add: plugin_ready_def)
  have q: "q \<noteq> 0" using side(1) by (simp add: game_side_def)
  obtain D where D: "wsm_eval_string_raw pl q (pg_side PG) p (Some (utf8_encode s))
      = (Inr q, D\<lparr>c_strings := (c_strings D)(q \<mapsto> answer_bytes r)\<rparr>)"
      "wsm_free_string (D\<lparr>c_strings := (c_strings D)(q \<mapsto> answer_bytes r)\<rparr>) q = (Inr (), D)"
      "game_side pl G p q C0 bound j D" "same_player (pg_host PG) (p_host (c_process D))"
      "c_str (answer_bytes r) = answer_bytes r"
    by (rule game_side_evaluates [OF side(1) assms(2-7)])
  let ?new = "answer_bytes r \<noteq> pg_last PG" and ?say = "info (Dispatch_Result (answer_bytes r))"
  let ?PG = "PG\<lparr>pg_side := if ?new then host_side ?say D else D, pg_last := answer_bytes r\<rparr>"
  have free: "(c_strings D)(q := None) = c_strings D"
    using D(3) by (simp add: game_side_def fun_upd_idem)
  have "game_side pl G p q C0 bound j (host_side ?say D)"
    using game_side_nonzero [OF D(3)] by (intro game_side_host [OF D(3)]) simp_all
  moreover have "dispatch_result pl q PG = (Inr (), ?PG)"
    using D(1,2,5) q side(2,3) free
    by (cases PG) (auto simp: dispatch_result_def on_side_def on_host_def host_side_def wsm_free_string_def)
  ultimately show thesis
    using D(3,4) side(2,3) that [of ?PG]
    by (simp add: plugin_ready_def same_game_def same_player_def)
qed

lemma tick_runs:
  assumes "plugin_ready pl G p q C0 bound (utf8_encode s) k PG" and "game_ok p G"
    and "text_ok s" "s \<noteq> []" "tokenize s = Inr (toks f)" "cells_of f \<le> ARENA_CELLS" and "list_all line_form fs"
    and "tick_means (pl_spellings pl) (game_host G bound (pg_host PG)) f (length s) k fs = Some (rs, r, j)"
  obtains PG' where "dispatch_running_tick pl q (map line_of fs) PG = (Inr (False, map answer_bytes rs), PG')"
    and "plugin_ready pl G p q C0 bound (utf8_encode s) j PG'" and "same_game PG PG'"
    and "pg_last PG' = answer_bytes r"
    and "dispatch_lines (pg_host PG') = dispatch_lines (pg_host PG)
      @ map Dispatch_Result (if answer_bytes r \<noteq> pg_last PG then [answer_bytes r] else [])"
proof -
  let ?H = "game_host G bound (pg_host PG)" and ?s = "pl_spellings pl"
  obtain m a where m: "means_left ?s ?H k fs = Some (rs, length s + m)"
      "feval ?s ?H f (int m) = (r, a)" "0 \<le> a" "a \<le> int m" "j = nat a"
    using assms(8) by (auto simp: tick_means_def not_less le_iff_add split: option.splits if_splits prod.splits)
  have side: "game_side pl G p q C0 bound k (pg_side PG)" "pg_session PG = p" "pg_dispatch PG = utf8_encode s"
    using assms(1) by (simp_all add: plugin_ready_def)
  obtain D where D: "replay (drain_evaluate pl q p) (Inr (pg_side PG)) (map line_of fs) = (map answer_bytes rs, Inr D)"
      "game_side pl G p q C0 bound (length s + m) D" "same_player (pg_host PG) (p_host (c_process D))"
    using game_replays [OF side(1) assms(2,7) m(1)] by blast
  let ?PG = "PG\<lparr>pg_side := D\<rparr>"
  have ready: "plugin_ready pl G p q C0 bound (utf8_encode s) (length s + m) ?PG"
    using D(2) side(2,3) by (simp add: plugin_ready_def)
  have "feval ?s (game_host G bound (pg_host ?PG)) f (int m) = (r, int j)" "j \<le> m"
    using m game_host_same [OF D(3)] by simp_all
  from dispatch_result_runs [OF ready assms(2,3,5,6) this] obtain PG' where PG': "dispatch_result pl q ?PG = (Inr (), PG')"
      "plugin_ready pl G p q C0 bound (utf8_encode s) j PG'" "same_game ?PG PG'" "pg_last PG' = answer_bytes r"
      "dispatch_lines (pg_host PG') = dispatch_lines (pg_host ?PG)
        @ map Dispatch_Result (if answer_bytes r \<noteq> pg_last ?PG then [answer_bytes r] else [])" .
  have "utf8_encode s \<noteq> []" by (rule utf8_encode_not_Nil [OF assms(4)])
  then have "dispatch_running_tick pl q (map line_of fs) PG = (Inr (False, map answer_bytes rs), PG')"
    using D(1) PG'(1) side(2,3) game_side_nonzero [OF side(1)]
    by (simp add: dispatch_running_tick_def Let_def)
  moreover have "same_game PG PG'" "dispatch_lines (p_host (c_process D)) = dispatch_lines (pg_host PG)"
    using PG'(3) D(3) by (simp_all add: same_game_def same_player_def)
  ultimately show thesis using PG'(2,4,5) by (intro that) simp_all
qed

lemma ticks_run:
  assumes "game_ok p G" and "text_ok s" "s \<noteq> []" "tokenize s = Inr (toks f)" "cells_of f \<le> ARENA_CELLS"
    and "plugin_ready pl G p q C0 bound (utf8_encode s) k PG" and "list_all (list_all line_form) requests"
    and "ticks_mean (pl_spellings pl) (game_host G bound (pg_host PG)) f (length s) k requests = Some means"
  shows "\<exists>PG' j. plugin_ticks pl q (map (map line_of) requests) PG = (Inr (map (map answer_bytes \<circ> fst) means), PG')
    \<and> plugin_ready pl G p q C0 bound (utf8_encode s) j PG' \<and> same_game PG PG'
    \<and> dispatch_lines (pg_host PG') = dispatch_lines (pg_host PG)
        @ map Dispatch_Result (changes (pg_last PG) (map (answer_bytes \<circ> snd) means))"
  using assms(6-8)
proof (induction requests arbitrary: PG k means)
  case Nil
  then show ?case by (auto simp: same_game_def)
next
  case (Cons fs rest)
  let ?H = "\<lambda>PG. game_host G bound (pg_host PG)" and ?s = "pl_spellings pl"
  obtain rs r j means' where t: "tick_means ?s (?H PG) f (length s) k fs = Some (rs, r, j)"
      "ticks_mean ?s (?H PG) f (length s) j rest = Some means'" "means = (rs, r) # means'"
    using Cons.prems(3) by (auto split: option.splits prod.splits)
  have fs: "list_all line_form fs" "list_all (list_all line_form) rest" using Cons.prems(2) by simp_all
  obtain PG1 where 1: "dispatch_running_tick pl q (map line_of fs) PG = (Inr (False, map answer_bytes rs), PG1)"
      "plugin_ready pl G p q C0 bound (utf8_encode s) j PG1" "same_game PG PG1" "pg_last PG1 = answer_bytes r"
      "dispatch_lines (pg_host PG1) = dispatch_lines (pg_host PG)
        @ map Dispatch_Result (if answer_bytes r \<noteq> pg_last PG then [answer_bytes r] else [])"
    by (rule tick_runs [OF Cons.prems(1) assms(1-5) fs(1) t(1)])
  have "ticks_mean ?s (?H PG1) f (length s) j rest = Some means'" using t(2) same_game_host [OF 1(3)] by simp
  from Cons.IH [OF 1(2) fs(2) this] obtain PG' i where
      "plugin_ticks pl q (map (map line_of) rest) PG1 = (Inr (map (map answer_bytes \<circ> fst) means'), PG')"
      "plugin_ready pl G p q C0 bound (utf8_encode s) i PG'" "same_game PG1 PG'"
      "dispatch_lines (pg_host PG') = dispatch_lines (pg_host PG1)
        @ map Dispatch_Result (changes (answer_bytes r) (map (answer_bytes \<circ> snd) means'))"
    using 1(4) by (auto simp: comp_def)
  moreover from this(3) 1(3) have "same_game PG PG'" by (simp add: same_game_def)
  ultimately show ?case using 1(1,5) t(3) by (intro exI [of _ PG'] exI [of _ i]) (simp add: comp_def)
qed

section \<open>Load\<close>

lemma register_runs:
  assumes "p_sessions (c_process (pg_side PG)) p = Some S" and "p \<noteq> 0" and "text_ok n"
  shows "register_or_fail pl p i n f continue PG = continue (PG\<lparr>pg_side := (pg_side PG)\<lparr>c_process :=
    put_session (c_process (pg_side PG)) p (S\<lparr>s_env := register_primitive (s_env S) n (host_closure pl f)\<rparr>)\<rparr>\<rparr>)"
  using assms c_to_str_encode [OF assms(3)]
  by (simp add: register_or_fail_def on_side_def on_process_def wsm_register_primitive_def)

text \<open>The session with the three primitives.\<close>

definition game_session_new :: "platform \<Rightarrow> game \<Rightarrow> u64 \<Rightarrow> adapter session" where
  "game_session_new pl G p = session_new\<lparr>s_env :=
     register_primitive (register_primitive (register_primitive env_new OP_CP_0001 (host_closure pl log_primitive))
       OP_CP_0002 (host_closure pl (present_callback (gm_rebind G))))
       OP_CP_0003 (host_closure pl (class_primitive (gm_class_of G) p (gm_token_out G) (gm_out G)))\<rparr>"

lemma game_session_new_ok:
  assumes "game_ok p G"
  shows "session_ok pl p (game_session_new pl G p)"
proof -
  have "callback_ok p (gm_rebind G)" using assms by (simp add: game_ok_def)
  note ok = register_session_ok [OF register_session_ok [OF register_session_ok [OF session_new_ok log_primitive_ok]
      present_callback_ok [OF this]] class_primitive_ok]
  then show ?thesis by (simp add: game_session_new_def session_new_def)
qed

lemma game_session_new_env: "game_env pl G p None (s_env (game_session_new pl G p))"
  by (simp add: game_env_def game_session_new_def env_new_def register_primitive_def)

definition no_player :: "adapter \<Rightarrow> bool" where
  "no_player a \<longleftrightarrow> a_player a = 0 \<and> \<not> (fst (a_engine a) \<and> snd (a_engine a) \<noteq> 0)"

lemma game_side_new:
  assumes "can_open pl p q k C" and "game_ok p G" and "no_player (p_host (c_process C))"
    and "a_logger (p_host (c_process C))"
  shows "game_side pl G p q C False k (C\<lparr>c_process := put_session (c_process C) p (game_session_new pl G p)\<rparr>)"
proof -
  note can = assms(1) [unfolded can_open_def]
  have "process_ok pl (put_session (c_process C) p (game_session_new pl G p))"
    using can game_session_new_ok [OF assms(2)] by (intro put_session_ok) simp_all
  moreover have "session_room pl (game_session_new pl G p) k"
    using can by (simp add: session_room_def game_session_new_def session_new_def boxed_new_def)
  ultimately show ?thesis
    using can assms(3,4) game_session_new_env [of pl G p]
    by (auto simp: game_side_def game_ready_def player_settled_def no_player_def player_bound_def decide_cases
        intro!: exI [of _ "None :: u64 option"])
qed

lemma abi_matches:
  "wsm_host_abi_version = kExpectedHostAbiVersion"
  "wsm_host_feature_bits AND kRequiredHostFeatures = kRequiredHostFeatures"
  by (simp_all add: wsm_host_abi_version_def HOST_ABI_VERSION_def kExpectedHostAbiVersion_def
      wsm_host_feature_bits_def HOST_FEATURE_CANONICAL_WORDS_def HOST_FEATURE_GAME_HANDLE_def
      HOST_FEATURE_TRANSIENT_STRINGS_def kRequiredHostFeatures_def)

lemma load_registers:
  assumes "p \<noteq> 0"
  shows "plugin_load pl p q G files True listens PG = load_oracle pl q p files listens (PG\<lparr>pg_side :=
    (host_side (info Abi_Validated) (host_side (\<lambda>a. a\<lparr>a_logger := True\<rparr>) (pg_side PG)))\<lparr>c_process :=
      put_session (c_process (host_side (info Abi_Validated) (host_side (\<lambda>a. a\<lparr>a_logger := True\<rparr>) (pg_side PG)))) p
        (game_session_new pl G p)\<rparr>\<rparr>)"
  using assms
  by (simp add: plugin_load_def Let_def abi_matches on_process_def wsm_session_init_def register_runs
      surface_names(5-7) on_host_def put_session_def game_session_new_def session_new_def)

definition quoted_nil :: form where "quoted_nil = FList [FAtom (lit ''quote''), FList []]"

lemma quoted_nil:
  "tokenize (lit ''(quote ())'') = Inr (toks quoted_nil)" "cells_of quoted_nil \<le> ARENA_CELLS"
  "text_ok (lit ''(quote ())'')" "length (lit ''(quote ())'') = 10"
proof -
  have "form_ok quoted_nil" using plain_names(1) [THEN plain_symbol_atom] by (simp add: quoted_nil_def del: lit_simps)
  from tokenize_render [OF this] show "tokenize (lit ''(quote ())'') = Inr (toks quoted_nil)"
    by (simp add: quoted_nil_def)
qed (simp_all add: quoted_nil_def ARENA_CELLS_def)

lemma quoted_nil_means: "spelled s (lit ''quote'') = Op_Quote \<Longrightarrow> feval s H quoted_nil k = (Inr LNil, k)"
  using plain_symbol_value [OF plain_names(1)]
  by (simp add: quoted_nil_def form_operator_def only_argument_def del: lit_simps)

lemma can_open_host: "can_open pl p q k (host_side f C) = can_open pl p q k C"
  by (simp add: can_open_def process_ok_def)

text \<open>Freeing the session leaves the sessions and strings of the start.\<close>

lemma game_side_frees:
  assumes "game_side pl G p q C0 bound k C" and "p_sessions (c_process C0) p = None"
  shows "\<exists>S. p_sessions (c_process C) p = Some S"
    and "(p_sessions (c_process C))(p := None) = p_sessions (c_process C0)" and "c_strings C = c_strings C0"
    and "codec_ok (pl_codec pl)" "arena_ok (p_arena (c_process C))" "p_sessions (c_process C0) 0 = None"
    and "\<And>r S. p_sessions (c_process C0) r = Some S \<Longrightarrow> session_ok pl r S"
proof -
  show "\<exists>S. p_sessions (c_process C) p = Some S" "c_strings C = c_strings C0"
    using assms(1) by (auto simp: game_side_def game_ready_def)
  show eq: "(p_sessions (c_process C))(p := None) = p_sessions (c_process C0)"
    using assms by (auto simp: game_side_def)
  have ok: "process_ok pl (c_process C)" using assms(1) by (simp add: game_side_def game_ready_def)
  then show "codec_ok (pl_codec pl)" "arena_ok (p_arena (c_process C))" by (simp_all add: process_ok_def)
  show "p_sessions (c_process C0) 0 = None"
    using ok unfolding eq [symmetric] by (simp add: process_ok_def)
  show "session_ok pl r S" if "p_sessions (c_process C0) r = Some S" for r S
    using ok that unfolding eq [symmetric] by (auto simp: process_ok_def split: if_splits)
qed

text \<open>
  The end of \<open>Load\<close>: with a dispatch file that is there and not empty the session is ready, without
  one nothing is left behind.
\<close>

lemma load_source_runs:
  assumes "game_side pl G p q C0 False k (pg_side PG)" and "p_sessions (c_process C0) p = None" and "p \<noteq> 0"
  shows "case load_first_existing files dispatch_candidates of
      Some (path, source) \<Rightarrow> \<exists>PG'. load_source p files listens PG = (Inr True, PG')
        \<and> plugin_ready pl G p q C0 False source k PG' \<and> same_game PG PG' \<and> pg_last PG' = pg_last PG
        \<and> dispatch_lines (pg_host PG') = dispatch_lines (pg_host PG)
    | None \<Rightarrow> \<exists>PG'. load_source p files listens PG = (Inr False, PG')
        \<and> left_clean pl C0 (pg_side PG') \<and> same_game PG PG' \<and> pg_session PG' = pg_session PG"
proof (cases "load_first_existing files dispatch_candidates")
  case None
  note free = game_side_frees [OF assms(1,2)]
  obtain S where "p_sessions (c_process (pg_side PG)) p = Some S" using free(1) by blast
  then show ?thesis
    using None assms(3) free(2-7)
    by (simp add: load_source_def fail_load_def on_side_def on_process_def wsm_session_free_def left_clean_def
        same_game_def process_ok_def flip: fun_upd_apply)
next
  case (Some found)
  have logger: "a_logger (pg_host PG)" using game_side_nonzero [OF assms(1)] by simp
  have "game_side pl G p q C0 False k (host_side (info l) C)"
    if "game_side pl G p q C0 False k C" for l C
    using game_side_nonzero [OF that] by (intro game_side_host [OF that]) simp_all
  then have "game_side pl G p q C0 False k (host_side (info l3) (host_side (info l2) (host_side (info l1) (pg_side PG))))"
    for l1 l2 l3
    using assms(1) by blast
  then show ?thesis
    using Some by (cases found) (auto simp: load_source_def plugin_ready_def same_game_def on_host_def)
qed

lemma load_runs:
  assumes "can_open pl p q (10 + k) (pg_side PG)" and "game_ok p G" and "no_player (pg_host PG)"
    and "spelled (pl_spellings pl) (lit ''quote'') = Op_Quote"
  shows "case load_first_existing files dispatch_candidates of
      Some (path, source) \<Rightarrow> \<exists>PG'. plugin_load pl p q G files True listens PG = (Inr True, PG')
        \<and> plugin_ready pl G p q (pg_side PG) False source k PG' \<and> same_game PG PG' \<and> pg_last PG' = pg_last PG
        \<and> dispatch_lines (pg_host PG') = dispatch_lines (pg_host PG)
    | None \<Rightarrow> \<exists>PG'. plugin_load pl p q G files True listens PG = (Inr False, PG')
        \<and> left_clean pl (pg_side PG) (pg_side PG') \<and> same_game PG PG' \<and> pg_session PG' = pg_session PG"
proof -
  let ?f = "\<lambda>a. info Abi_Validated (a\<lparr>a_logger := True\<rparr>)"
  let ?C = "host_side ?f (pg_side PG)"
  let ?D = "?C\<lparr>c_process := put_session (c_process ?C) p (game_session_new pl G p)\<rparr>"
  have p: "p \<noteq> 0" "q \<noteq> 0" "p_sessions (c_process (pg_side PG)) p = None" "c_strings (pg_side PG) q = None"
    using assms(1) by (simp_all add: can_open_def)
  have C: "host_side (info Abi_Validated) (host_side (\<lambda>a. a\<lparr>a_logger := True\<rparr>) (pg_side PG)) = ?C"
    by (simp add: host_side_def)
  have "game_side pl G p q ?C False (10 + k) ?D"
    by (rule game_side_new) (use assms(1-3) in \<open>simp_all add: can_open_host no_player_def\<close>)
  then have "game_side pl G p q (pg_side PG) False (length (lit ''(quote ())'') + k) ?D"
    unfolding quoted_nil(4) by (simp add: game_side_def)
  from game_side_evaluates [OF this assms(2) quoted_nil(3,1,2) quoted_nil_means [OF assms(4)]]
  obtain E where E: "wsm_eval_string_raw pl q ?D p (Some (utf8_encode (lit ''(quote ())'')))
      = (Inr q, E\<lparr>c_strings := (c_strings E)(q \<mapsto> utf8_encode (lit ''()''))\<rparr>)"
      "game_side pl G p q (pg_side PG) False k E" "same_player (p_host (c_process ?D)) (p_host (c_process E))"
      "c_str (utf8_encode (lit ''()'')) = utf8_encode (lit ''()'')"
    by (auto simp del: lit_simps simp add: lit_def)
  let ?E = "host_side (info (Oracle (utf8_encode (lit ''()'')))) E"
  have "(c_strings E)(q := None) = c_strings E" using E(2) by (simp add: game_side_def fun_upd_idem)
  then have "plugin_load pl p q G files True listens PG = load_source p files listens (PG\<lparr>pg_side := ?E\<rparr>)"
    using E(1,4) p(2)
    by (simp add: load_registers [OF p(1)] C load_oracle_def on_side_def on_host_def host_side_def
        wsm_free_string_def del: lit_simps)
  moreover have "game_side pl G p q (pg_side PG) False k ?E"
    using game_side_nonzero [OF E(2)] by (intro game_side_host [OF E(2)]) simp_all
  moreover have "same_game PG (PG\<lparr>pg_side := ?E\<rparr>)" "dispatch_lines (p_host (c_process ?E)) = dispatch_lines (pg_host PG)"
    using E(3) by (simp_all add: same_game_def same_player_def dispatch_lines_def info_def)
  ultimately show ?thesis
    using load_source_runs [of pl G p q "pg_side PG" k "PG\<lparr>pg_side := ?E\<rparr>" files listens] p(1,3)
    by (auto simp: same_game_def split: option.splits)
qed

section \<open>Unload\<close>

lemma unload_runs:
  assumes "plugin_ready pl G p q C0 bound source k PG" and "p_sessions (c_process C0) p = None"
  shows "\<exists>PG'. plugin_unload PG = (Inr True, PG') \<and> left_clean pl C0 (pg_side PG') \<and> pg_session PG' = 0
    \<and> pg_dispatch PG' = [] \<and> pg_last PG' = [] \<and> (\<forall>t. resolve (a_handles (pg_host PG')) t = 0)
    \<and> a_player (pg_host PG') = 0 \<and> a_runtime (pg_host PG') = runtime_new \<and> \<not> a_logger (pg_host PG')
    \<and> dispatch_lines (pg_host PG') = dispatch_lines (pg_host PG)"
proof -
  have side: "game_side pl G p q C0 bound k (pg_side PG)" "pg_session PG = p"
    using assms(1) by (simp_all add: plugin_ready_def)
  note free = game_side_frees [OF side(1) assms(2)]
  obtain S where "p_sessions (c_process (pg_side PG)) p = Some S" using free(1) by blast
  then show ?thesis
    using side(2) game_side_nonzero [OF side(1)] free(2-7)
    by (simp add: plugin_unload_def Let_def on_side_def on_process_def wsm_session_free_def left_clean_def
        process_ok_def reset_is_new dispatch_lines_def flip: fun_upd_apply)
qed

section \<open>The whole life\<close>

lemma life_runs:
  assumes "can_open pl p q (10 + k) (pg_side PG)" and "game_ok p G" and "no_player (pg_host PG)" and "pg_last PG = []"
    and "spelled (pl_spellings pl) (lit ''quote'') = Op_Quote"
    and "load_first_existing files dispatch_candidates = Some (path, utf8_encode s)"
    and "text_ok s" "s \<noteq> []" "tokenize s = Inr (toks f)" "cells_of f \<le> ARENA_CELLS"
    and "list_all (list_all line_form) requests"
    and "ticks_mean (pl_spellings pl) (game_host G False (pg_host PG)) f (length s) k requests = Some means"
  shows "\<exists>PG'. plugin_life pl p q G files listens (map (map line_of) requests) PG
      = (Inr (map (map answer_bytes \<circ> fst) means), PG')
    \<and> left_clean pl (pg_side PG) (pg_side PG') \<and> pg_session PG' = 0
    \<and> (\<forall>t. resolve (a_handles (pg_host PG')) t = 0)
    \<and> dispatch_lines (pg_host PG') = dispatch_lines (pg_host PG)
        @ map Dispatch_Result (changes [] (map (answer_bytes \<circ> snd) means))"
proof -
  have none: "p_sessions (c_process (pg_side PG)) p = None" using assms(1) by (simp add: can_open_def)
  obtain PG1 where 1: "plugin_load pl p q G files True listens PG = (Inr True, PG1)"
      "plugin_ready pl G p q (pg_side PG) False (utf8_encode s) k PG1" "same_game PG PG1" "pg_last PG1 = []"
      "dispatch_lines (pg_host PG1) = dispatch_lines (pg_host PG)"
    using load_runs [OF assms(1-3,5), of files listens] assms(4,6) by auto
  have "ticks_mean (pl_spellings pl) (game_host G False (pg_host PG1)) f (length s) k requests = Some means"
    using assms(12) same_game_host [OF 1(3)] by simp
  from ticks_run [OF assms(2,7-10) 1(2) assms(11) this] obtain PG2 j where 2:
      "plugin_ticks pl q (map (map line_of) requests) PG1 = (Inr (map (map answer_bytes \<circ> fst) means), PG2)"
      "plugin_ready pl G p q (pg_side PG) False (utf8_encode s) j PG2"
      "dispatch_lines (pg_host PG2) = dispatch_lines (pg_host PG1)
        @ map Dispatch_Result (changes (pg_last PG1) (map (answer_bytes \<circ> snd) means))" by blast
  obtain PG3 where 3: "plugin_unload PG2 = (Inr True, PG3)" "left_clean pl (pg_side PG) (pg_side PG3)" "pg_session PG3 = 0"
      "\<forall>t. resolve (a_handles (pg_host PG3)) t = 0" "dispatch_lines (pg_host PG3) = dispatch_lines (pg_host PG2)"
    using unload_runs [OF 2(2) none] by blast
  have "plugin_life pl p q G files listens (map (map line_of) requests) PG
      = (Inr (map (map answer_bytes \<circ> fst) means), PG3)"
    unfolding plugin_life_def 1(1) step_then_simps using 2(1) 3(1) by simp
  then show ?thesis using 1(4,5) 2(3) 3(2-5) by metis
qed

section \<open>The dispatch file of the repository\<close>

definition dispatcher_form :: form where
  "dispatcher_form = FList [FAtom (lit ''cond''),
     FList [FList [FAtom OP_CP_0002], FList [FAtom OP_CP_0003, FAtom CPB_0001]],
     FList [FAtom (lit ''t''), FList [FAtom (lit ''quote''), FList []]]]"

definition dispatcher_spellings :: "spellings \<Rightarrow> bool" where
  "dispatcher_spellings s \<longleftrightarrow> spelled s (lit ''quote'') = Op_Quote \<and> spelled s (lit ''cond'') = Op_Cond
     \<and> spelled s OP_CP_0002 = Op_Call OP_CP_0002 \<and> spelled s OP_CP_0003 = Op_Call OP_CP_0003"

lemma dispatcher_source:
  "tokenize dispatcher_source = Inr (toks dispatcher_form)" "text_ok dispatcher_source" "dispatcher_source \<noteq> []"
  "cells_of dispatcher_form \<le> ARENA_CELLS" "length dispatcher_source = 64"
proof -
  have names: "hravets_prysutnii = OP_CP_0002" "klas = OP_CP_0003" "hravets = CPB_0001"
    by (simp_all add: hravets_prysutnii_def klas_def hravets_def OP_CP_0002_def OP_CP_0003_def CPB_0001_def)
  show "tokenize dispatcher_source = Inr (toks dispatcher_form)"
    unfolding dispatcher_source_def dispatcher_form_def names
    by (simp add: OP_CP_0002_def OP_CP_0003_def CPB_0001_def is_delimiter_def is_whitespace_def)
  show "text_ok dispatcher_source" "dispatcher_source \<noteq> []" "length dispatcher_source = 64"
    by (simp_all add: dispatcher_source_def hravets_prysutnii_def klas_def hravets_def valid_scalar_def)
qed (simp add: dispatcher_form_def ARENA_CELLS_def)

text \<open>It asks for the player's class when there is a player.\<close>

lemma dispatcher_means:
  assumes "dispatcher_spellings s"
  shows "feval s (game_host G bound a) dispatcher_form k =
    (if fst (a_engine a) \<and> snd (a_engine a) \<noteq> 0 then feval s (game_host G bound a) ask_class k else (Inr LNil, k))"
proof -
  let ?H = "game_host G bound a" and ?present = "fst (a_engine a) \<and> snd (a_engine a) \<noteq> 0"
  have ops: "form_operator s (FAtom (lit ''cond'')) = Some Op_Cond" "form_operator s (FAtom OP_CP_0002) = Some (Op_Call OP_CP_0002)"
    using assms plain_symbol_value [OF plain_names(2)] plain_symbol_value [OF surface_names(2)]
    by (simp_all add: dispatcher_spellings_def form_operator_def del: lit_simps)
  have present: "feval s ?H (FList [FAtom OP_CP_0002]) k = (Inr (if ?present then LSym (lit ''t'') else LNil), k)"
    using ops(2) surface_distinct by (simp add: call_host_def game_host_def present_means_def)
  have t: "feval s ?H (FAtom (lit ''t'')) k = (Inr (LSym (lit ''t'')), k)"
    by (simp add: symbol_value_def atom_value_def parse_i64_def)
  have quoted: "feval s ?H quoted_nil k = (Inr LNil, k)"
    using assms by (intro quoted_nil_means) (simp add: dispatcher_spellings_def)
  show ?thesis
    unfolding dispatcher_form_def
    using ops(1) present t quoted unfolding quoted_nil_def
    by (simp add: clause_parts_def ask_class_def del: lit_simps feval.simps(1))
qed

lemma ticks_mean_const:
  assumes "\<And>j. feval s H f (int (j + c)) = (r, int j)" and "m * (n + c) \<le> k"
  shows "ticks_mean s H f n k (replicate m []) = Some (replicate m ([], r))"
  using assms(2)
proof (induction m arbitrary: k)
  case (Suc m)
  then obtain j where k: "k = n + (j + c)" "m * (n + c) \<le> j"
    by (metis add.assoc add.commute add_le_cancel_left le_add1 le_iff_add mult_Suc order_trans)
  have "tick_means s H f n k [] = Some ([], r, j)"
    using assms(1) [of j] by (simp add: tick_means_def k(1))
  then show ?case using Suc.IH [OF k(2)] by simp
qed simp

text \<open>With the player's handle bound, every tick gives the class name, logged once.\<close>

lemma dispatcher_runs:
  assumes "plugin_ready pl G p q C0 True (utf8_encode dispatcher_source) (n * 65) PG" and "game_ok p G"
    and "dispatcher_spellings (pl_spellings pl)"
    and "a_engine (pg_host PG) = (True, h)" and "h \<noteq> 0" and "gm_class_of G h = Some (Some c)" and "c_to_str c = Some t"
  shows "\<exists>PG' j. plugin_ticks pl q (replicate n []) PG = (Inr (replicate n []), PG')
    \<and> plugin_ready pl G p q C0 True (utf8_encode dispatcher_source) j PG' \<and> same_game PG PG'
    \<and> dispatch_lines (pg_host PG') = dispatch_lines (pg_host PG)
        @ (if n = 0 \<or> pg_last PG = utf8_encode (show_boxed (Str t)) then []
           else [Dispatch_Result (utf8_encode (show_boxed (Str t)))])"
proof -
  let ?a = "pg_host PG" and ?s = "pl_spellings pl"
  have settled: "player_settled ?a" using assms(1) by (simp add: plugin_ready_def game_side_def game_ready_def)
  then have h: "resolve (a_handles ?a) (a_player ?a) = h"
    using assms(4) by (simp add: player_settled_def decide_cases)
  then have "a_player ?a \<noteq> 0" using assms(5) by auto
  then have cm: "class_means (gm_class_of G) (a_handles ?a) [player_value ?a] k = (Inr (LBox (Str t)), k - 1)" for k
    using h assms(5-7) by (simp add: class_means_def player_value_def)
  have "feval ?s (game_host G True ?a) dispatcher_form (int (j + 1)) = (Inr (LBox (Str t)), int j)" for j
    using assms(3,4,5) cm [of "int (j + 1)"]
    by (simp add: dispatcher_means ask_class_means dispatcher_spellings_def)
  then have "ticks_mean ?s (game_host G True ?a) dispatcher_form 64 (n * 65) (replicate n [])
      = Some (replicate n ([], Inr (LBox (Str t))))"
    by (rule ticks_mean_const) simp
  moreover have "list_all (list_all line_form) (replicate n [])" by (simp add: list_all_iff)
  ultimately show ?thesis
    using ticks_run [OF assms(2) dispatcher_source(2,3,1,4) assms(1), of "replicate n []"
        "replicate n ([], Inr (LBox (Str t)))"]
    by (auto simp: dispatcher_source(5) changes_same)
qed

end
