(* ===== verification/Neural_Deck.thy ===== *)
theory Neural_Deck
  imports Repl_Queue
begin

text \<open>
  The in-game terminal of the adapter: \<open>adapter/src/NeuralDeckState.hpp\<close> (input, history,
  transcript), \<open>NeuralDeckInput.hpp\<close> (the F10 key) and \<open>NeuralDeckRepl.hpp\<close> (submission to the
  request queue).
\<close>

definition kMaxHistoryEntries :: nat where "kMaxHistoryEntries = 128"
definition kMaxTranscriptEntries :: nat where "kMaxTranscriptEntries = 512"

record transcript_entry =
  te_sequence :: u64
  te_source :: bytes
  te_result :: bytes

record deck =
  d_open :: bool
  d_input :: bytes
  d_history :: "bytes list"
  d_transcript :: "transcript_entry list"
  d_nextSequence :: u64

definition deck_new :: deck where
  "deck_new = \<lparr>d_open = False, d_input = [], d_history = [], d_transcript = [], d_nextSequence = 1\<rparr>"

definition toggle :: "deck \<Rightarrow> deck" where "toggle d = d\<lparr>d_open := \<not> d_open d\<rparr>"
definition close_deck :: "deck \<Rightarrow> deck" where "close_deck d = d\<lparr>d_open := False\<rparr>"
definition set_input :: "deck \<Rightarrow> bytes \<Rightarrow> deck" where "set_input d source = d\<lparr>d_input := source\<rparr>"

text \<open>A full container loses its first element before the next one is added.\<close>

definition make_room :: "nat \<Rightarrow> 'a list \<Rightarrow> 'a list" where
  "make_room n xs = (if length xs = n then tl xs else xs)"

definition remember :: "deck \<Rightarrow> bytes \<Rightarrow> deck" where
  "remember d source =
     (if d_history d = [] \<or> last (d_history d) \<noteq> source
      then d\<lparr>d_history := make_room kMaxHistoryEntries (d_history d) @ [source]\<rparr>
      else d)"

definition take_input :: "deck \<Rightarrow> bytes \<times> deck" where
  "take_input d =
     (let source = d_input d; d = d\<lparr>d_input := []\<rparr>
      in (source, if source \<noteq> [] then remember d source else d))"

definition record_entry :: "deck \<Rightarrow> bytes \<Rightarrow> bytes \<Rightarrow> deck" where
  "record_entry d source result =
     d\<lparr>d_transcript := make_room kMaxTranscriptEntries (d_transcript d)
          @ [\<lparr>te_sequence = d_nextSequence d, te_source = source, te_result = result\<rparr>],
       d_nextSequence := d_nextSequence d + 1\<rparr>"

definition clear_transcript :: "deck \<Rightarrow> deck" where
  "clear_transcript d = d\<lparr>d_transcript := []\<rparr>"

section \<open>The key\<close>

datatype deck_key = F10 | Tab

text \<open>The controller's state is \<open>m_f10Down\<close>.\<close>

definition handle_key :: "deck_key \<Rightarrow> bool \<Rightarrow> bool \<times> deck \<Rightarrow> bool \<times> bool \<times> deck" where
  "handle_key key pressed s =
     (case s of (f10_down, d) \<Rightarrow>
        if key \<noteq> F10 then (False, f10_down, d)
        else if \<not> pressed then (False, False, d)
        else if f10_down then (False, f10_down, d)
        else (True, True, toggle d))"

text \<open>
  A series of key events: the deck is open when the number of presses that follow a release is odd,
  however often a held key repeats.
\<close>

fun f10_presses :: "bool \<Rightarrow> (deck_key \<times> bool) list \<Rightarrow> nat" where
  "f10_presses down [] = 0"
| "f10_presses down ((key, pressed) # events) =
     (if key = F10 then (if pressed \<and> \<not> down then 1 else 0) + f10_presses pressed events
      else f10_presses down events)"

lemma keys_toggle:
  "snd (fold (\<lambda>(key, pressed) s. snd (handle_key key pressed s)) events (down, d))
     = d\<lparr>d_open := (d_open d = even (f10_presses down events))\<rparr>"
proof (induction events arbitrary: down d)
  case (Cons e events)
  obtain key pressed where "e = (key, pressed)" by fastforce
  with Cons.IH show ?case by (cases "even (f10_presses True events)") (auto simp: handle_key_def toggle_def)
qed simp

section \<open>Submission\<close>

text \<open>A reply of the deck carries the source that its transcript entry shows.\<close>

definition submit :: "deck \<Rightarrow> bytes request_queue \<Rightarrow> bool \<times> deck \<times> bytes request_queue" where
  "submit d Q =
     (case take_input d of
        (source, d) \<Rightarrow>
          if source = [] then (False, d, Q)
          else (case push Q source (Some source) of (ok, Q) \<Rightarrow> (ok, d, Q)))"

definition deck_reply :: "bytes \<Rightarrow> bytes \<Rightarrow> deck \<Rightarrow> deck" where
  "deck_reply source result d = record_entry d source result"

section \<open>What every use of the deck keeps\<close>

datatype deck_use =
    Toggle | Close_Deck | Set_Input bytes | Submit | Reply bytes | Clear_Transcript | Cancel bytes

fun use_deck :: "deck_use \<Rightarrow> deck \<times> bytes request_queue \<Rightarrow> deck \<times> bytes request_queue" where
  "use_deck Toggle (d, Q) = (toggle d, Q)"
| "use_deck Close_Deck (d, Q) = (close_deck d, Q)"
| "use_deck (Set_Input source) (d, Q) = (set_input d source, Q)"
| "use_deck Submit (d, Q) = snd (submit d Q)"
| "use_deck (Reply result) (d, Q) =
     (case pop Q of
        (None, Q) \<Rightarrow> (d, Q)
      | (Some request, Q) \<Rightarrow> (deck_reply (rq_reply request) result d, Q))"
| "use_deck Clear_Transcript (d, Q) = (clear_transcript d, Q)"
| "use_deck (Cancel result) (d, Q) =
     (case cancel_all deck_reply Q result d of ((n, Q), d) \<Rightarrow> (d, Q))"

text \<open>The entries are numbered in a row up to the last one given out.\<close>

definition numbered :: "deck \<Rightarrow> bool" where
  "numbered d \<longleftrightarrow> (\<forall>i < length (d_transcript d).
     te_sequence (d_transcript d ! i) = d_nextSequence d - word_of_nat (length (d_transcript d) - i))"

definition deck_ok :: "deck \<Rightarrow> bool" where
  "deck_ok d \<longleftrightarrow> length (d_history d) \<le> kMaxHistoryEntries \<and> distinct_adj (d_history d)
     \<and> [] \<notin> set (d_history d) \<and> length (d_transcript d) \<le> kMaxTranscriptEntries \<and> numbered d"

definition queue_ok :: "bytes request_queue \<Rightarrow> bool" where
  "queue_ok Q \<longleftrightarrow> length (m_requests Q) \<le> kMaxPendingRequests
     \<and> (\<forall>request \<in> set (m_requests Q). rq_reply request = rq_source request \<and> rq_source request \<noteq> []
          \<and> length (rq_source request) \<le> kMaxRequestBytes)"

lemma deck_new_ok: "deck_ok deck_new"
  by (simp add: deck_ok_def deck_new_def numbered_def)

lemma distinct_adj_tl: "distinct_adj xs \<Longrightarrow> distinct_adj (tl xs)"
  by (cases xs rule: remdups_adj.cases) auto

lemma make_room:
  "0 < n \<Longrightarrow> length xs \<le> n \<Longrightarrow> length (make_room n xs) < n" "set (make_room n xs) \<subseteq> set xs"
  "distinct_adj xs \<Longrightarrow> distinct_adj (make_room n xs)" "make_room n xs \<noteq> [] \<Longrightarrow> last (make_room n xs) = last xs"
  by (cases xs; auto simp: make_room_def distinct_adj_tl last_tl dest: distinct_adj_tl)+

lemma remember_ok: "deck_ok d \<Longrightarrow> source \<noteq> [] \<Longrightarrow> deck_ok (remember d source)"
proof -
  assume ok: "deck_ok d" and source: "source \<noteq> []"
  let ?h = "make_room kMaxHistoryEntries (d_history d)"
  note h = make_room [where n = kMaxHistoryEntries and xs = "d_history d"]
  have "distinct_adj (?h @ [source])" if "d_history d = [] \<or> last (d_history d) \<noteq> source"
    using ok h(3,4) that
    by (cases "d_history d = []") (auto simp: deck_ok_def distinct_adj_append_iff make_room_def)
  moreover have "length ?h < kMaxHistoryEntries" "[] \<notin> set ?h"
    using ok h(1,2) by (auto simp: deck_ok_def kMaxHistoryEntries_def)
  ultimately show ?thesis
    using ok source by (auto simp: remember_def deck_ok_def numbered_def)
qed

lemma numbered_record:
  assumes "numbered d"
  shows "numbered (record_entry d source result)"
proof -
  let ?t = "d_transcript d" and ?m = "make_room kMaxTranscriptEntries (d_transcript d)"
  have m: "te_sequence (?m ! i) = d_nextSequence d - word_of_nat (length ?m - i)" if i: "i < length ?m" for i
  proof (cases "length ?t = kMaxTranscriptEntries")
    case True
    then have e: "?m = tl ?t" "Suc i < length ?t" using i by (auto simp: make_room_def)
    then have "te_sequence (?t ! Suc i) = d_nextSequence d - word_of_nat (length ?t - Suc i)"
      using assms unfolding numbered_def by blast
    then show ?thesis using e i by (simp add: nth_tl)
  next
    case False
    then show ?thesis using assms i by (simp add: numbered_def make_room_def)
  qed
  have "te_sequence (?m ! i) = d_nextSequence d + 1 - word_of_nat (Suc (length ?m) - i)" if "i < length ?m" for i
    using m [OF that] that by (simp add: Suc_diff_le)
  then show ?thesis by (simp add: numbered_def record_entry_def nth_append less_Suc_eq)
qed

lemma record_ok: "deck_ok d \<Longrightarrow> deck_ok (record_entry d source result)"
  using numbered_record [of d source result]
  using make_room(1) [where n = kMaxTranscriptEntries and xs = "d_transcript d"]
  by (auto simp: deck_ok_def record_entry_def kMaxTranscriptEntries_def)

lemma reply_all_ok: "deck_ok d \<Longrightarrow> deck_ok (reply_all deck_reply result rs d)"
  by (induction rs arbitrary: d) (simp_all add: deck_reply_def record_ok)

lemma take_input_ok: "deck_ok d \<Longrightarrow> deck_ok (snd (take_input d))"
  using remember_ok [of "d\<lparr>d_input := []\<rparr>" "d_input d"]
  by (simp add: take_input_def Let_def deck_ok_def numbered_def)

lemma use_deck_ok: "deck_ok d \<Longrightarrow> queue_ok Q \<Longrightarrow> use_deck u (d, Q) = (d', Q') \<Longrightarrow> deck_ok d' \<and> queue_ok Q'"
proof (induction u "(d, Q)" rule: use_deck.induct)
  case 4
  then show ?case
    using take_input_ok [OF 4(1)]
    by (auto simp: submit_def queue_ok_def push_cases split: prod.splits if_splits)
next
  case (5 result)
  then show ?case
    by (auto simp: pop_def queue_ok_def deck_reply_def intro: record_ok split: list.splits)
next
  case (7 result)
  then show ?case
    by (auto simp: cancel_all_def Let_def queue_ok_def intro: reply_all_ok)
qed (auto simp: toggle_def close_deck_def set_input_def clear_transcript_def deck_ok_def numbered_def)

lemma uses_ok:
  "deck_ok d \<Longrightarrow> queue_ok Q \<Longrightarrow> fold use_deck us (d, Q) = (d', Q') \<Longrightarrow> deck_ok d' \<and> queue_ok Q'"
proof (induction us arbitrary: d Q)
  case (Cons u us)
  obtain d1 Q1 where u: "use_deck u (d, Q) = (d1, Q1)" by fastforce
  from use_deck_ok [OF Cons.prems(1,2) u] Cons.IH [of d1 Q1] Cons.prems(3) u show ?case by simp
qed simp

section \<open>What the transcript shows\<close>

text \<open>
  The sources that the queue accepted; \<open>entered\<close> says that the sources of \<open>recorded\<close> have come
  through the deck in this order, the transcript showing the last of them.
\<close>

fun submitted :: "deck_use list \<Rightarrow> deck \<times> bytes request_queue \<Rightarrow> bytes list" where
  "submitted [] s = []"
| "submitted (u # us) s =
     (if u = Submit \<and> fst (submit (fst s) (snd s)) then [d_input (fst s)] else []) @ submitted us (use_deck u s)"

definition entered :: "bytes list \<Rightarrow> deck \<Rightarrow> bool" where
  "entered recorded d \<longleftrightarrow> d_nextSequence d = 1 + word_of_nat (length recorded)
     \<and> map te_source (d_transcript d) = drop (length recorded - kMaxTranscriptEntries) recorded"

lemma entered_record:
  assumes "entered recorded d"
  shows "entered (recorded @ [source]) (record_entry d source result)"
proof -
  let ?n = "kMaxTranscriptEntries"
  have n: "0 < ?n" by (simp add: kMaxTranscriptEntries_def)
  have t: "map te_source (d_transcript d) = drop (length recorded - ?n) recorded"
    using assms by (simp add: entered_def)
  then have "length (d_transcript d) = min (length recorded) ?n"
    by (metis diff_diff_right length_drop length_map min_def diff_diff_cancel diff_is_0_eq diff_zero nat_le_linear)
  then have "map te_source (make_room ?n (d_transcript d)) @ [source]
      = drop (Suc (length recorded) - ?n) (recorded @ [source])"
    using t n by (auto simp: make_room_def min_def map_tl tl_drop drop_Suc Suc_diff_le split: if_splits)
  then show ?thesis using assms by (simp add: entered_def record_entry_def add.assoc)
qed

lemma entered_replies:
  "entered recorded d \<Longrightarrow> \<forall>request \<in> set rs. rq_reply request = rq_source request \<Longrightarrow>
     entered (recorded @ map rq_source rs) (reply_all deck_reply result rs d)"
proof (induction rs arbitrary: recorded d)
  case (Cons r rs)
  then show ?case
    using Cons.IH [of "recorded @ [rq_source r]" "deck_reply (rq_source r) result d"]
    by (simp add: deck_reply_def entered_record)
qed simp

lemma use_deck_enters:
  assumes "queue_ok Q" and "entered recorded d" and "u \<noteq> Clear_Transcript" and "use_deck u (d, Q) = (d', Q')"
  obtains out where "entered (recorded @ out) d'"
    and "map rq_source (m_requests Q) @ (if u = Submit \<and> fst (submit d Q) then [d_input d] else [])
      = out @ map rq_source (m_requests Q')"
proof -
  have still: "entered recorded d'" if "d_transcript d' = d_transcript d" "d_nextSequence d' = d_nextSequence d" for d'
    using assms(2) that by (simp add: entered_def)
  show thesis
  proof (cases u)
    case Submit
    obtain ok where s: "submit d Q = (ok, d', Q')" using assms(4) Submit by (cases "submit d Q") simp
    have "entered recorded d'"
      using s by (intro still) (auto simp: submit_def take_input_def remember_def Let_def split: prod.splits if_splits)
    moreover have "map rq_source (m_requests Q') = map rq_source (m_requests Q) @ (if ok then [d_input d] else [])"
      using s rq.put_content [of Q "\<lparr>rq_source = d_input d, rq_reply = d_input d\<rparr>"]
      by (auto simp: submit_def take_input_def put_request_def Let_def split: prod.splits if_splits)
    ultimately show thesis using that [of "[]"] Submit s by simp
  next
    case (Reply result)
    show thesis
    proof (cases "m_requests Q")
      case Nil
      then show thesis using that [of "[]"] Reply assms(2,4) by (simp add: pop_def)
    next
      case (Cons r rs)
      then have "rq_reply r = rq_source r" using assms(1) by (simp add: queue_ok_def)
      then show thesis
        using that [of "[rq_source r]"] Reply Cons assms(2,4) by (auto simp: pop_def deck_reply_def entered_record)
    qed
  next
    case (Cancel result)
    have "\<forall>request \<in> set (m_requests Q). rq_reply request = rq_source request"
      using assms(1) by (simp add: queue_ok_def)
    from entered_replies [OF assms(2) this] show thesis
      using that [of "map rq_source (m_requests Q)"] Cancel assms(4) by (auto simp: cancel_all_def Let_def)
  qed (use that [of "[]"] assms in \<open>auto simp: entered_def toggle_def close_deck_def set_input_def\<close>)
qed

lemma uses_enter:
  assumes "deck_ok d" "queue_ok Q" and "entered recorded d" and "Clear_Transcript \<notin> set us"
    and "fold use_deck us (d, Q) = (d', Q')"
  shows "\<exists>out. entered (recorded @ out) d'
    \<and> map rq_source (m_requests Q) @ submitted us (d, Q) = out @ map rq_source (m_requests Q')"
  using assms
proof (induction us arbitrary: d Q recorded)
  case Nil
  then show ?case by (intro exI [of _ "[]"]) simp
next
  case (Cons u us)
  obtain d1 Q1 where u: "use_deck u (d, Q) = (d1, Q1)" by fastforce
  obtain out1 where 1: "entered (recorded @ out1) d1"
      "map rq_source (m_requests Q) @ (if u = Submit \<and> fst (submit d Q) then [d_input d] else [])
        = out1 @ map rq_source (m_requests Q1)"
    by (rule use_deck_enters [OF Cons.prems(2,3) _ u]) (use Cons.prems(4) in auto)
  obtain out2 where "entered ((recorded @ out1) @ out2) d'"
      "map rq_source (m_requests Q1) @ submitted us (d1, Q1) = out2 @ map rq_source (m_requests Q')"
    using Cons.IH [OF _ _ 1(1)] use_deck_ok [OF Cons.prems(1,2) u] Cons.prems(4,5) u by auto
  moreover from 1(2) have "map rq_source (m_requests Q) @ submitted (u # us) (d, Q)
      = out1 @ map rq_source (m_requests Q1) @ submitted us (d1, Q1)"
    by (metis append_assoc fst_conv snd_conv submitted.simps(2) u)
  ultimately show ?case by (intro exI [of _ "out1 @ out2"]) simp
qed

end
