(* ===== verification/Examples_Adapter.thy ===== *)
theory Examples_Adapter
  imports Examples_Boundary Plugin_Correct Neural_Deck
begin

text \<open>
  The adapter with a player: a session whose table has the player's token, bound to a name, and the
  adapter's primitives; and the server in the middle of its first connection.
\<close>

section \<open>A session of the game\<close>

definition demo_game :: game where
  "demo_game = \<lparr>gm_class_of = (\<lambda>h. Some (Some (utf8_encode (lit ''PlayerPuppet'')))), gm_rebind = (\<lambda>args. Done 8 None),
     gm_token_out = 8, gm_out = 16\<rparr>"

definition demo_adapter :: adapter where
  "demo_adapter = adapter_new\<lparr>a_engine := (True, 4096),
     a_handles := \<lparr>m_handles = [1 \<mapsto> 4096], m_nextToken = 2\<rparr>, a_player := 1\<rparr>"

definition player_word :: u64 where "player_word = push_bit 3 1 OR TAG_BOXED"

definition game_session :: "adapter session" where
  "game_session = (game_session_new demo_platform demo_game 64)\<lparr>
     s_boxed := [Some \<lparr>entry_value = GameHandle 1, entry_lifetime = Persistent\<rparr>],
     s_env := bind_name (s_env (game_session_new demo_platform demo_game 64)) CPB_0001 player_word\<rparr>"

definition game_process :: "adapter process" where
  "game_process = put_session (process_start 65536 demo_adapter) 64 game_session"

lemma demo_game_ok: "game_ok 64 demo_game"
  by (simp add: game_ok_def demo_game_def callback_ok_def)

lemma player_word_value: "player_word = 15"
  by (simp add: player_word_def TAG_BOXED_def)

lemma player_word_entry:
  "boxed_get_entry demo_codec [Some \<lparr>entry_value = GameHandle 1, entry_lifetime = Persistent\<rparr>] player_word
     = Some \<lparr>entry_value = GameHandle 1, entry_lifetime = Persistent\<rparr>"
  "tag_of player_word = TAG_BOXED"
  by (simp_all add: boxed_get_entry_def demo_codec_def player_word_value tag_of_def tag_defs)

lemma game_session_simps [simp]:
  "s_symbols game_session = symbols_new"
  "s_boxed game_session = [Some \<lparr>entry_value = GameHandle 1, entry_lifetime = Persistent\<rparr>]"
  by (simp_all add: game_session_def game_session_new_def session_new_def)

lemma game_session_env: "game_env demo_platform demo_game 64 (Some player_word) (s_env game_session)"
  using game_session_new_env [of demo_platform demo_game 64]
  by (auto simp: game_env_def game_session_def fun_eq_iff)

lemma game_session_ok: "session_ok demo_platform 64 game_session"
proof -
  let ?S = "game_session_new demo_platform demo_game 64"
  have "session_ok demo_platform 64 ?S" by (rule game_session_new_ok [OF demo_game_ok])
  then have "session_ok demo_platform 64 (?S\<lparr>s_boxed := [Some \<lparr>entry_value = GameHandle 1, entry_lifetime = Persistent\<rparr>]\<rparr>)"
    by (simp add: session_ok_def entry_text_ok_def)
  from bind_session_ok [OF this, of player_word CPB_0001] show ?thesis
    by (simp add: game_session_def player_word_entry(2) tag_defs)
qed

lemma game_process_ok [simp]: "process_ok demo_platform game_process"
  unfolding game_process_def
  by (rule put_session_ok) (simp_all add: process_start_ok game_session_ok)

lemma game_process_parts [simp]:
  "p_sessions game_process 64 = Some game_session" "p_host game_process = demo_adapter"
  by (simp_all add: game_process_def process_start_def)

lemma game_room [simp]: "n \<le> 1000 \<Longrightarrow> session_room demo_platform game_session n"
  by (simp add: session_room_def boxed_room_def demo_codec_def)

lemma demo_adapter_ok: "adapter_ok demo_adapter"
  by (auto simp: adapter_ok_def demo_adapter_def adapter_new_def handles_ok_def)

lemma game_entry_unique:
  assumes "boxed_get_entry demo_codec [Some x] w = Some e"
  shows "w = player_word" and "e = x"
proof -
  obtain h where h: "tag_of w = TAG_BOXED" "h = drop_bit 3 w" "h \<noteq> 0" "unat (h - 1) = 0" "e = x"
    using assms by (auto simp: boxed_get_entry_def demo_codec_def Let_def split: option.splits if_splits)
  then have "h = 1" by (simp add: unat_eq_zero)
  then show "w = player_word" "e = x"
    using h word_split_tag [of w] by (simp_all add: player_word_def)
qed

lemma game_epoch:
  assumes "k \<le> 1000"
  shows "epoch_ok demo_platform CPB_0001 64 k game_process"
proof -
  have "session_epoch demo_platform CPB_0001 demo_adapter game_session"
    unfolding session_epoch_def
  proof (intro conjI allI impI)
    show "player_bound (pl_codec demo_platform) (a_player demo_adapter) (s_boxed game_session)
        (bindings (s_env game_session) CPB_0001)"
      using game_session_env by (simp add: player_bound_def demo_adapter_def player_word_entry game_env_def)
    show "t < m_nextToken (a_handles demo_adapter)"
      if "get_game_handle (pl_codec demo_platform) (s_boxed game_session) w = Some t" for w t
      using that by (auto simp: get_game_handle_def demo_adapter_def dest: game_entry_unique split: option.splits)
  qed
  then show ?thesis
    using assms demo_adapter_ok
    by (simp add: epoch_ok_def demo_adapter_def adapter_new_def boxed_room_def demo_codec_def)
qed

lemma game_process_bound:
  "player_bound demo_codec (a_player (p_host game_process)) (s_boxed game_session) (Some player_word)"
  by (simp add: player_bound_def demo_adapter_def player_word_entry)

lemma game_process_ready: "k \<le> 1000 \<Longrightarrow> game_ready demo_platform demo_game 64 True k game_process"
  using game_session_env game_process_bound
  by (auto simp: game_ready_def player_settled_def demo_adapter_def adapter_new_def decide_cases resolve_def
      intro!: exI [of _ "Some player_word"])

lemma demo_dispatcher_spellings: "dispatcher_spellings (pl_spellings demo_platform)"
  by (simp add: dispatcher_spellings_def spelled_def OP_CP_0002_def OP_CP_0003_def)

text \<open>A form that asks for the class of the player.\<close>

lemma demo_ask_text:
  "form_ok ask_class" "text_ok (render ask_class)" "cells_of ask_class \<le> ARENA_CELLS"
  using surface_names by (simp_all add: ask_class_def plain_symbol_atom ARENA_CELLS_def)

lemma demo_ask_line: "line_form ask_class" "length (line_of ask_class) \<le> 100" "length (render ask_class) \<le> 100"
  using demo_ask_text
  by (simp_all add: line_form_def ask_class_def OP_CP_0003_def CPB_0001_def utf8_encode_def utf8_char_def kMaxRequestBytes_def)

lemma demo_class_means:
  "feval (pl_spellings demo_platform) (game_host demo_game True demo_adapter) ask_class 1
     = (Inr (LBox (Str (lit ''PlayerPuppet''))), 0)"
proof -
  have "c_to_str (utf8_encode (lit ''PlayerPuppet'')) = Some (lit ''PlayerPuppet'')"
    by (rule c_to_str_encode) simp
  then have "class_means (gm_class_of demo_game) (a_handles demo_adapter) [player_value demo_adapter] 1
      = (Inr (LBox (Str (lit ''PlayerPuppet''))), 0)"
    by (simp add: class_means_def player_value_def demo_adapter_def demo_game_def resolve_def del: lit_simps)
  then show ?thesis using demo_dispatcher_spellings by (simp add: ask_class_means dispatcher_spellings_def)
qed

text \<open>The plug-in in that session, and before it is loaded; the dispatch file is the repository's.\<close>

definition demo_plugin :: plugin where
  "demo_plugin = \<lparr>pg_side = \<lparr>c_process = game_process, c_strings = Map.empty\<rparr>, pg_session = 64,
     pg_dispatch = utf8_encode dispatcher_source, pg_last = []\<rparr>"

definition demo_side :: "adapter c_side" where
  "demo_side = \<lparr>c_process = (process_start 65536 demo_adapter), c_strings = Map.empty\<rparr>"

lemma demo_plugin_ready:
  "k \<le> 1000 \<Longrightarrow> plugin_ready demo_platform demo_game 64 128 demo_side True (utf8_encode dispatcher_source) k demo_plugin"
  using game_process_ready
  by (simp add: plugin_ready_def game_side_def demo_plugin_def demo_side_def game_process_def)

definition demo_unloaded :: plugin where
  "demo_unloaded = \<lparr>pg_side = \<lparr>c_process = process_start 65536 adapter_new, c_strings = Map.empty\<rparr>, pg_session = 0,
     pg_dispatch = [], pg_last = []\<rparr>"

definition demo_files :: files where
  "demo_files = [lit ''dispatcher.lisp'' \<mapsto> utf8_encode dispatcher_source]"

lemma demo_files_found:
  "load_first_existing demo_files dispatch_candidates = Some (lit ''dispatcher.lisp'', utf8_encode dispatcher_source)"
proof -
  have "utf8_encode dispatcher_source \<noteq> []"
    by (rule utf8_encode_not_Nil [OF dispatcher_source(3)])
  then show ?thesis
    by (simp add: dispatch_candidates_def demo_files_def read_file_if_exists_def del: lit_simps)
qed

lemma demo_unloaded_opens: "k \<le> 1000 \<Longrightarrow> can_open demo_platform 64 128 k (pg_side demo_unloaded)"
  using process_start_ok [of demo_platform 65536 adapter_new]
  by (simp add: can_open_def demo_unloaded_def process_start_def)

section \<open>A server with a client\<close>

text \<open>From \<open>Start\<close> to the wait for the first chunk of the first client.\<close>

definition demo_listening :: "'g \<Rightarrow> 'g server" where
  "demo_listening g = (open_client ((start_server (server_new g))\<lparr>sv_worker := In_Accept\<rparr>))\<lparr>sv_worker := In_Receive\<rparr>"

lemma demo_listening_reached: "(server_step ev)\<^sup>*\<^sup>* (server_new g) (demo_listening g)"
proof -
  let ?s1 = "start_server (server_new g)"
  let ?s2 = "?s1\<lparr>sv_worker := In_Accept\<rparr>"
  have "server_step ev (server_new g) ?s1"
    by (rule server_step.start) (simp_all add: server_new_def)
  moreover have "server_step ev ?s1 ?s2"
    using server_step.accept_check [of ?s1 ev] by (simp add: start_server_def)
  moreover have "server_step ev ?s2 (open_client ?s2)" by (rule server_step.accept) simp
  moreover have "server_step ev (open_client ?s2) (demo_listening g)"
    using server_step.receive_check [of "open_client ?s2" ev]
    by (simp add: demo_listening_def open_client_def start_server_def)
  ultimately show ?thesis by (meson converse_rtranclp_into_rtranclp rtranclp.rtrancl_refl)
qed

lemma demo_listening_at:
  "sv_worker (demo_listening g) = In_Receive" "sv_buffered (demo_listening g) = []"
  "sv_game (demo_listening g) = Playing"
  by (simp_all add: demo_listening_def open_client_def start_server_def server_new_def)

lemma demo_receives:
  fixes g :: 'g
  assumes "length chunk \<le> 1024"
  shows "sv_worker (after_receive chunk (demo_listening g)) = Splitting"
    and "sv_running (after_receive chunk (demo_listening g))"
    and "sv_game (after_receive chunk (demo_listening g)) = Playing"
    and "sv_base (after_receive chunk (demo_listening g)) = 0"
    and "sv_received (after_receive chunk (demo_listening g)) = chunk"
    and "serving (after_receive chunk (demo_listening g))"
  using assms by (simp_all add: after_receive_def Let_def kMaxRequestBytes_def demo_listening_def open_client_def
      start_server_def server_new_def serving_def)

end
