(* ===== verification/Bridge.thy ===== *)
theory Bridge
  imports Repl_Session
begin

text \<open>
  The in-process bridge: \<open>bridge/src/CanonicalReplHost.cpp\<close>, the owner of one session of the embedded
  language, and \<open>bridge/src/BridgeRuntime.cpp\<close>, the thread that runs it behind the server of
  \<open>Repl_Server\<close> (\<open>RunCanonicalRepl\<close>) and the thread that shuts it down (\<open>ShutdownCanonicalRepl\<close>), a
  step for every access to their atomics and to the event. The embedded language is not part of the
  repository: its ABI version, what its session constructor gives and its evaluator are parameters.
\<close>

section \<open>The host of the session\<close>

record 's embed =
  em_abi_version :: u32
  em_session_new :: "'s option"
  em_eval :: "'s \<Rightarrow> bytes \<Rightarrow> bytes option \<times> 's"

record 's canonical_host =
  m_session :: "'s option"
  m_abiVersion :: u32

definition host_new :: "'s canonical_host" where
  "host_new = \<lparr>m_session = None, m_abiVersion = 0\<rparr>"

text \<open>\<open>Stop\<close>, \<open>Start\<close> and \<open>Evaluate\<close>; a session of \<open>None\<close> is the null pointer.\<close>

definition host_stop :: "'s canonical_host \<Rightarrow> 's canonical_host" where
  "host_stop h = (if m_session h \<noteq> None then h\<lparr>m_session := None\<rparr> else h)\<lparr>m_abiVersion := 0\<rparr>"

definition host_start :: "u32 \<Rightarrow> 's embed \<Rightarrow> 's canonical_host \<Rightarrow> bool \<times> 's canonical_host" where
  "host_start expected E h =
     (let h = (host_stop h)\<lparr>m_abiVersion := em_abi_version E\<rparr>
      in if m_abiVersion h \<noteq> expected then (False, h\<lparr>m_abiVersion := 0\<rparr>)
         else let h = h\<lparr>m_session := em_session_new E\<rparr>
              in if m_session h = None then (False, h\<lparr>m_abiVersion := 0\<rparr>) else (True, h))"

definition host_evaluate :: "'s embed \<Rightarrow> bytes \<Rightarrow> 's canonical_host \<Rightarrow> bytes \<times> 's canonical_host" where
  "host_evaluate E source h =
     (case m_session h of
        None \<Rightarrow> (ascii ''error: canonical my-lisp session is not running'', h)
      | Some session \<Rightarrow>
          (case em_eval E session (c_str source) of
             (None, session) \<Rightarrow>
               (ascii ''error: canonical my-lisp embed returned no result'', h\<lparr>m_session := Some session\<rparr>)
           | (Some answer, session) \<Rightarrow> (c_str answer, h\<lparr>m_session := Some session\<rparr>)))"

lemma host_stop_none: "m_session (host_stop h) = None"
  by (simp add: host_stop_def)

lemma host_start_fails: "host_start expected E h = (False, h') \<Longrightarrow> m_session h' = None"
  by (auto simp: host_start_def host_stop_none Let_def split: if_splits)

lemma host_start_starts:
  "host_start expected E h = (True, h') \<Longrightarrow>
     m_session h' = em_session_new E \<and> m_session h' \<noteq> None \<and> m_abiVersion h' = expected \<and> em_abi_version E = expected"
  by (auto simp: host_start_def Let_def split: if_splits)

section \<open>The two threads\<close>

text \<open>The bridge thread, with the exit code it is going to return, and a thread that calls \<open>Shutdown\<close>.\<close>

datatype run_at =
    Delayed | Checking | Starting_Host | Recording | Starting_Server | Looping | Stopping_Server
  | Stopping_Host u32 | Finishing u32 | Loading_Event u32 | Setting_Event u32 | Exited u32

datatype shutdown_at = Idle | Poll_Finished | Poll_Event | Waiting_Event | Taking | Closing | Returned bool

text \<open>
  \<open>br_event\<close>: \<open>g_stoppedEvent\<close> is not null; \<open>br_open\<close>, \<open>br_signalled\<close>: the kernel's event. \<open>br_misused\<close>
  records a call of \<open>SetEvent\<close> on a handle that was closed. The session is that of the server.
\<close>

record 's bridge =
  br_stop_requested :: bool
  br_finished :: bool
  br_event :: bool
  br_open :: bool
  br_signalled :: bool
  br_misused :: bool
  br_run :: run_at
  br_shutdown :: shutdown_at
  br_server :: "'s canonical_host server"

definition bridge_prepared :: "'s bridge" where
  "bridge_prepared = \<lparr>br_stop_requested = False, br_finished = False, br_event = False, br_open = False,
     br_signalled = False, br_misused = False, br_run = Delayed, br_shutdown = Idle, br_server = server_new host_new\<rparr>"

definition with_host :: "'s canonical_host \<Rightarrow> 's bridge \<Rightarrow> 's bridge" where
  "with_host h b = b\<lparr>br_server := (br_server b)\<lparr>sv_session := h\<rparr>\<rparr>"

definition set_event :: "'s bridge \<Rightarrow> 's bridge" where
  "set_event b = (if br_open b then b\<lparr>br_signalled := True\<rparr> else b\<lparr>br_misused := True\<rparr>)"

inductive bridge_step :: "u32 \<Rightarrow> 's embed \<Rightarrow> 's bridge \<Rightarrow> 's bridge \<Rightarrow> bool"
  for expected :: u32 and E :: "'s embed" where
  create_fails: "br_run b = Delayed \<Longrightarrow> bridge_step expected E b (b\<lparr>br_run := Exited 20, br_finished := True\<rparr>)"
| create: "br_run b = Delayed \<Longrightarrow>
    bridge_step expected E b (b\<lparr>br_run := Checking, br_event := True, br_open := True\<rparr>)"
| check: "br_run b = Checking \<Longrightarrow>
    bridge_step expected E b (b\<lparr>br_run := (if br_stop_requested b then Finishing 0 else Starting_Host)\<rparr>)"
| host: "br_run b = Starting_Host \<Longrightarrow> host_start expected E (sv_session (br_server b)) = (started, h) \<Longrightarrow>
    bridge_step expected E b ((with_host h b)\<lparr>br_run := (if started then Recording else Finishing 21)\<rparr>)"
| recorded: "br_run b = Recording \<Longrightarrow> bridge_step expected E b (b\<lparr>br_run := Starting_Server\<rparr>)"
| not_recorded: "br_run b = Recording \<Longrightarrow> bridge_step expected E b (b\<lparr>br_run := Stopping_Host 23\<rparr>)"
| serve: "br_run b = Starting_Server \<Longrightarrow>
    bridge_step expected E b (b\<lparr>br_run := Looping, br_server := start_server (br_server b)\<rparr>)"
| not_serving: "br_run b = Starting_Server \<Longrightarrow> bridge_step expected E b (b\<lparr>br_run := Stopping_Host 22\<rparr>)"
| socket: "server_step (host_evaluate E) (br_server b) s \<Longrightarrow> sv_game s = sv_game (br_server b) \<Longrightarrow>
    sv_running s = sv_running (br_server b) \<Longrightarrow> bridge_step expected E b (b\<lparr>br_server := s\<rparr>)"
| drain: "br_run b = Looping \<Longrightarrow> server_step (host_evaluate E) (br_server b) s \<Longrightarrow>
    sv_game s \<noteq> sv_game (br_server b) \<Longrightarrow> sv_game s \<noteq> Joining \<Longrightarrow> bridge_step expected E b (b\<lparr>br_server := s\<rparr>)"
| leave: "br_run b = Looping \<Longrightarrow> sv_game (br_server b) = Playing \<Longrightarrow> br_stop_requested b \<Longrightarrow>
    bridge_step expected E b (b\<lparr>br_run := Stopping_Server, br_server := stop_begin (br_server b)\<rparr>)"
| joined: "br_run b = Stopping_Server \<Longrightarrow> sv_worker (br_server b) = Ended \<Longrightarrow>
    bridge_step expected E b (b\<lparr>br_run := Stopping_Host 0, br_server := stop_end (br_server b)\<rparr>)"
| host_stop: "br_run b = Stopping_Host code \<Longrightarrow>
    bridge_step expected E b ((with_host (host_stop (sv_session (br_server b))) b)\<lparr>br_run := Finishing code\<rparr>)"
| finish: "br_run b = Finishing code \<Longrightarrow>
    bridge_step expected E b (b\<lparr>br_run := Loading_Event code, br_finished := True\<rparr>)"
| load_event: "br_run b = Loading_Event code \<Longrightarrow>
    bridge_step expected E b (b\<lparr>br_run := (if br_event b then Setting_Event code else Exited code)\<rparr>)"
| signal: "br_run b = Setting_Event code \<Longrightarrow> bridge_step expected E b ((set_event b)\<lparr>br_run := Exited code\<rparr>)"
| shutdown: "br_shutdown b = Idle \<or> br_shutdown b = Returned r \<Longrightarrow>
    bridge_step expected E b (b\<lparr>br_shutdown := Poll_Finished, br_stop_requested := True\<rparr>)"
| poll_finished: "br_shutdown b = Poll_Finished \<Longrightarrow>
    bridge_step expected E b (b\<lparr>br_shutdown := (if br_finished b then Taking else Poll_Event)\<rparr>)"
| poll_event: "br_shutdown b = Poll_Event \<Longrightarrow>
    bridge_step expected E b (b\<lparr>br_shutdown := (if br_event b then Waiting_Event else Poll_Finished)\<rparr>)"
| timeout: "br_shutdown b = Poll_Event \<or> br_shutdown b = Waiting_Event \<Longrightarrow>
    bridge_step expected E b (b\<lparr>br_shutdown := Returned False\<rparr>)"
| woken: "br_shutdown b = Waiting_Event \<Longrightarrow> br_signalled b \<Longrightarrow> bridge_step expected E b (b\<lparr>br_shutdown := Taking\<rparr>)"
| take_event: "br_shutdown b = Taking \<Longrightarrow> bridge_step expected E b
    (b\<lparr>br_shutdown := (if br_event b then Closing else Returned True), br_event := False\<rparr>)"
| close_event: "br_shutdown b = Closing \<Longrightarrow>
    bridge_step expected E b (b\<lparr>br_shutdown := Returned True, br_open := False\<rparr>)"

section \<open>What holds in every run\<close>

text \<open>The bridge thread has stored \<open>g_finished\<close>; the session is freed; the socket worker is not there.\<close>

definition run_ending :: "run_at \<Rightarrow> bool" where
  "run_ending r \<longleftrightarrow> (case r of Loading_Event _ \<Rightarrow> True | Setting_Event _ \<Rightarrow> True | Exited _ \<Rightarrow> True | _ \<Rightarrow> False)"

definition session_free :: "'s bridge \<Rightarrow> bool" where
  "session_free b \<longleftrightarrow> m_session (sv_session (br_server b)) = None"

definition server_off :: "'g server \<Rightarrow> bool" where
  "server_off s \<longleftrightarrow> sv_worker s = Ended \<and> sv_game s = Playing \<and> \<not> sv_running s \<and> \<not> sv_attached s
     \<and> m_requests (sv_queue s) = []"

definition run_ok :: "'s bridge \<Rightarrow> bool" where
  "run_ok b \<longleftrightarrow> threads_ok (br_server b)
     \<and> (case br_run b of
          Looping \<Rightarrow> sv_running (br_server b)
        | Stopping_Server \<Rightarrow> sv_game (br_server b) = Joining
        | Starting_Host \<Rightarrow> server_off (br_server b)
        | Recording \<Rightarrow> server_off (br_server b)
        | Starting_Server \<Rightarrow> server_off (br_server b)
        | Stopping_Host _ \<Rightarrow> server_off (br_server b)
        | _ \<Rightarrow> server_off (br_server b) \<and> session_free b)"

definition shutdown_ok :: "'s bridge \<Rightarrow> bool" where
  "shutdown_ok b \<longleftrightarrow> (br_finished b \<longleftrightarrow> run_ending (br_run b)) \<and> (br_signalled b \<longrightarrow> br_finished b)
     \<and> (br_shutdown b \<in> {Taking, Closing, Returned True} \<longrightarrow> br_finished b)
     \<and> (br_shutdown b \<noteq> Idle \<longrightarrow> br_stop_requested b)"

definition bridge_ok :: "'s bridge \<Rightarrow> bool" where
  "bridge_ok b \<longleftrightarrow> run_ok b \<and> shutdown_ok b"

lemma bridge_ok_prepared: "bridge_ok bridge_prepared"
  using threads_ok_new [of host_new]
  by (simp add: bridge_ok_def run_ok_def shutdown_ok_def bridge_prepared_def run_ending_def session_free_def
      server_off_def server_new_def host_new_def empty_queue_def)

text \<open>The server of a bridge between its steps.\<close>

lemma reply_all_threads:
  "sv_game (reply_all set_value r rs s) = sv_game s" "sv_running (reply_all set_value r rs s) = sv_running s"
  "sv_attached (reply_all set_value r rs s) = sv_attached s"
  by (induction rs arbitrary: s) (simp_all add: set_value_def)

lemmas server_changes = server_defs cancel_all_simp reply_all_fields reply_all_threads pop_def push_cases

lemma socket_needs_worker:
  assumes "server_step evaluate s s'" and "sv_game s' = sv_game s" and "sv_running s' = sv_running s"
  shows "sv_worker s \<noteq> Ended"
  using assms
  by (induction rule: server_step.induct)
    (auto simp: server_changes split: option.splits prod.splits list.splits if_splits)

lemma drain_keeps_running:
  assumes "server_step evaluate s s'" and "sv_game s' \<noteq> sv_game s" and "sv_game s' \<noteq> Joining"
  shows "sv_running s' = sv_running s"
  using assms
  by (induction rule: server_step.induct)
    (auto simp: server_changes split: option.splits prod.splits list.splits if_splits)

lemma threads_ok_session [simp]: "threads_ok (s\<lparr>sv_session := g\<rparr>) \<longleftrightarrow> threads_ok s"
  by (simp add: threads_ok_def in_flight_def waits_for_def)

lemma server_off_session [simp]: "server_off (s\<lparr>sv_session := g\<rparr>) \<longleftrightarrow> server_off s"
  by (simp add: server_off_def)

lemma server_off_start: "server_off s \<Longrightarrow> threads_ok s \<Longrightarrow> threads_ok (start_server s) \<and> sv_running (start_server s)"
  using threads_ok_step [OF server_step.start, of s] by (simp add: server_off_def start_server_def)

lemma joining_ends:
  assumes "threads_ok s" and "sv_game s = Joining" and "sv_worker s = Ended"
  shows "threads_ok (stop_end s)" and "server_off (stop_end s)"
proof -
  show "threads_ok (stop_end s)"
    using threads_ok_step [OF server_step.stopped] assms by blast
  show "server_off (stop_end s)"
    using assms by (auto simp: server_off_def server_changes threads_ok_def in_flight_def split: if_splits)
qed

lemma run_ok_step: "bridge_step expected E b b' \<Longrightarrow> run_ok b \<Longrightarrow> run_ok b'"
proof (induction rule: bridge_step.induct)
  case (socket b s)
  have "threads_ok s" using threads_ok_step [OF socket(1)] socket(4) by (simp add: run_ok_def)
  moreover have "sv_worker (br_server b) \<noteq> Ended" using socket_needs_worker [OF socket(1-3)] .
  ultimately show ?case using socket(2-) by (auto simp: run_ok_def server_off_def session_free_def split: run_at.splits)
next
  case (drain b s)
  then show ?case using threads_ok_step drain_keeps_running by (fastforce simp: run_ok_def)
next
  case (leave b)
  then show ?case using threads_ok_step [OF server_step.stop] by (fastforce simp: run_ok_def stop_begin_def)
next
  case (serve b)
  then show ?case using server_off_start by (auto simp: run_ok_def)
next
  case (joined b)
  then show ?case using joining_ends by (auto simp: run_ok_def)
qed (auto simp: run_ok_def session_free_def with_host_def set_event_def host_stop_none dest: host_start_fails
    split: run_at.splits)

lemma shutdown_ok_step: "bridge_step expected E b b' \<Longrightarrow> shutdown_ok b \<Longrightarrow> shutdown_ok b'"
  by (induction rule: bridge_step.induct)
    (auto simp: shutdown_ok_def run_ending_def with_host_def set_event_def split: if_splits)

lemma bridge_reachable:
  assumes "(bridge_step expected E)\<^sup>*\<^sup>* bridge_prepared b"
  shows "bridge_ok b"
  using assms
proof (induction rule: rtranclp_induct)
  case (step b b')
  then show ?case using run_ok_step shutdown_ok_step by (auto simp: bridge_ok_def)
qed (rule bridge_ok_prepared)

section \<open>What Shutdown promises\<close>

lemma finished_means_stopped: "bridge_ok b \<Longrightarrow> br_finished b \<Longrightarrow> session_free b \<and> server_off (br_server b)"
  by (auto simp: bridge_ok_def run_ok_def shutdown_ok_def run_ending_def split: run_at.splits)

lemma returned_finished: "bridge_ok b \<Longrightarrow> br_shutdown b = Returned True \<Longrightarrow> br_finished b"
  unfolding bridge_ok_def shutdown_ok_def by blast

lemma shutdown_requests_stop: "bridge_ok b \<Longrightarrow> br_shutdown b \<noteq> Idle \<Longrightarrow> br_stop_requested b"
  unfolding bridge_ok_def shutdown_ok_def by blast

text \<open>A worker that spins over a blank line is never joined.\<close>

lemma spinning_bridge_step:
  assumes "bridge_step expected E b b'" and "bridge_ok b" and "spinning (br_server b)"
  shows "spinning (br_server b')"
  using assms
proof (induction rule: bridge_step.induct)
  case (joined b)
  then show ?case by (simp add: spinning_def)
next
  case (serve b)
  then show ?case by (simp add: spinning_def bridge_ok_def run_ok_def server_off_def)
qed (auto simp: with_host_def set_event_def stop_begin_def spinning_def dest: spinning_step [unfolded spinning_def])

lemma spinning_not_finished: "bridge_ok b \<Longrightarrow> spinning (br_server b) \<Longrightarrow> \<not> br_finished b"
  using finished_means_stopped by (fastforce simp: spinning_def server_off_def)

lemma spinning_bridge:
  assumes "(bridge_step expected E)\<^sup>*\<^sup>* b b'" and "bridge_ok b" and "spinning (br_server b)"
  shows "bridge_ok b' \<and> spinning (br_server b')"
  using assms(1)
proof (induction rule: rtranclp_induct)
  case (step b' b'')
  then show ?case
    using run_ok_step [OF step(2)] shutdown_ok_step [OF step(2)] spinning_bridge_step [OF step(2)]
    by (auto simp: bridge_ok_def)
qed (simp add: assms(2,3))


text \<open>Any other worker can leave once the server stops, and then \<open>Shutdown\<close> can return true.\<close>

abbreviation worker_goes :: "worker_at \<Rightarrow> 's bridge \<Rightarrow> 's bridge" where
  "worker_goes w b \<equiv> b\<lparr>br_server := (br_server b)\<lparr>sv_worker := w\<rparr>\<rparr>"

lemma worker_steps:
  assumes "server_step (host_evaluate E) (br_server b) ((br_server b)\<lparr>sv_worker := w\<rparr>)"
    and "(bridge_step expected E)\<^sup>*\<^sup>* (worker_goes w b) b'"
  shows "(bridge_step expected E)\<^sup>*\<^sup>* b b'"
  using bridge_step.socket [OF assms(1)] assms(2) by (auto intro: converse_rtranclp_into_rtranclp)

lemma worker_leaves:
  assumes "\<not> sv_running (br_server b)" and "sv_worker (br_server b) \<noteq> Splitting"
  shows "(bridge_step expected E)\<^sup>*\<^sup>* b (worker_goes Ended b)"
proof -
  have accept: "(bridge_step expected E)\<^sup>*\<^sup>* b (worker_goes Ended b)"
    if "sv_worker (br_server b) = Accept_Check" "\<not> sv_running (br_server b)" for b :: "'a bridge"
    using worker_steps [OF server_step.accept_check [of "br_server b" "host_evaluate E", simplified that(2) if_False]] that
    by auto
  have receive: "(bridge_step expected E)\<^sup>*\<^sup>* b (worker_goes Ended b)"
    if "sv_worker (br_server b) = Receive_Check" "\<not> sv_running (br_server b)" for b :: "'a bridge"
    using worker_steps [OF server_step.receive_check [of "br_server b" "host_evaluate E", simplified that(2) if_False]] that
      accept [of "worker_goes Accept_Check b"] by auto
  show ?thesis
  proof (cases "sv_worker (br_server b)")
    case In_Accept
    then show ?thesis using worker_steps [OF server_step.accept_fails] by auto
  next
    case In_Receive
    then show ?thesis
      using worker_steps [OF server_step.receive_timeout] receive [of "worker_goes Receive_Check b"] assms by auto
  next
    case Waiting
    then show ?thesis
      using worker_steps [OF server_step.abandoned] accept [of "worker_goes Accept_Check b"] assms by auto
  next
    case Ended
    then have "worker_goes Ended b = b" by simp
    then show ?thesis by (metis rtranclp.rtrancl_refl)
  qed (use accept receive assms in auto)
qed

lemma taking_returns:
  assumes "br_shutdown b = Taking"
  shows "\<exists>b'. (bridge_step expected E)\<^sup>*\<^sup>* b b' \<and> br_shutdown b' = Returned True"
proof (cases "br_event b")
  case True
  let ?x = "b\<lparr>br_shutdown := Closing, br_event := False\<rparr>"
  have "bridge_step expected E b ?x" using bridge_step.take_event [OF assms] True by simp
  moreover have "bridge_step expected E ?x (?x\<lparr>br_shutdown := Returned True, br_open := False\<rparr>)"
    by (rule bridge_step.close_event) simp
  ultimately have "(bridge_step expected E)\<^sup>*\<^sup>* b (?x\<lparr>br_shutdown := Returned True, br_open := False\<rparr>)"
    by (meson converse_rtranclp_into_rtranclp rtranclp.rtrancl_refl)
  then show ?thesis by (intro exI [of _ "?x\<lparr>br_shutdown := Returned True, br_open := False\<rparr>"] conjI) simp_all
next
  case False
  with assms have "bridge_step expected E b (b\<lparr>br_shutdown := Returned True, br_event := False\<rparr>)"
    using bridge_step.take_event by fastforce
  then show ?thesis by (intro exI conjI, rule r_into_rtranclp) simp_all
qed

lemma finishing_returns:
  assumes "br_run b = Finishing code" and "br_shutdown b = Poll_Finished"
  shows "\<exists>b'. (bridge_step expected E)\<^sup>*\<^sup>* b b' \<and> br_shutdown b' = Returned True"
proof -
  let ?f = "b\<lparr>br_run := Loading_Event code, br_finished := True\<rparr>"
  have "bridge_step expected E b ?f" using bridge_step.finish [OF assms(1)] .
  moreover have "bridge_step expected E ?f (?f\<lparr>br_shutdown := Taking\<rparr>)"
    using bridge_step.poll_finished [of ?f] assms(2) by simp
  moreover obtain b' where "(bridge_step expected E)\<^sup>*\<^sup>* (?f\<lparr>br_shutdown := Taking\<rparr>) b'" "br_shutdown b' = Returned True"
    using taking_returns [of "?f\<lparr>br_shutdown := Taking\<rparr>"] by auto
  ultimately show ?thesis by (meson converse_rtranclp_into_rtranclp)
qed

lemma looping_returns:
  assumes "br_run b = Looping" and "sv_game (br_server b) = Playing" and "sv_worker (br_server b) \<noteq> Splitting"
    and "br_shutdown b = Poll_Finished" and "br_stop_requested b"
  shows "\<exists>b'. (bridge_step expected E)\<^sup>*\<^sup>* b b' \<and> br_shutdown b' = Returned True"
proof -
  let ?l = "b\<lparr>br_run := Stopping_Server, br_server := stop_begin (br_server b)\<rparr>"
  let ?w = "worker_goes Ended ?l"
  let ?j = "?w\<lparr>br_run := Stopping_Host 0, br_server := stop_end (br_server ?w)\<rparr>"
  let ?h = "(with_host (host_stop (sv_session (br_server ?j))) ?j)\<lparr>br_run := Finishing 0\<rparr>"
  have "bridge_step expected E b ?l" using bridge_step.leave assms by blast
  moreover have "(bridge_step expected E)\<^sup>*\<^sup>* ?l ?w"
    using worker_leaves [of ?l] assms(3) by (simp add: stop_begin_def)
  moreover have "bridge_step expected E ?w ?j" using bridge_step.joined [of ?w] by simp
  moreover have "bridge_step expected E ?j ?h" using bridge_step.host_stop [of ?j 0] by simp
  ultimately have "(bridge_step expected E)\<^sup>*\<^sup>* b ?h" by (meson converse_rtranclp_into_rtranclp rtranclp.rtrancl_into_rtrancl)
  moreover obtain b' where "(bridge_step expected E)\<^sup>*\<^sup>* ?h b'" "br_shutdown b' = Returned True"
    using finishing_returns [of ?h 0] assms(4) by (auto simp: with_host_def)
  ultimately show ?thesis by (meson rtranclp_trans)
qed

section \<open>Two runs\<close>

text \<open>
  A shutdown that is asked for before the bridge thread looks: it returns true between the load of
  the event and the call of \<open>SetEvent\<close>, which then gets a handle that is closed.
\<close>

definition early_shutdown :: "'s bridge" where
  "early_shutdown = bridge_prepared\<lparr>br_stop_requested := True, br_finished := True,
     br_run := Setting_Event 0, br_shutdown := Returned True\<rparr>"

lemma early_shutdown_reached: "(bridge_step expected E)\<^sup>*\<^sup>* bridge_prepared early_shutdown"
proof -
  have [simp]: "b\<lparr>br_event := False\<rparr> = b" if "\<not> br_event b" for b :: "'a bridge" using that by simp
  let ?c = "bridge_prepared\<lparr>br_run := Checking, br_event := True, br_open := True\<rparr> :: 'a bridge"
  let ?s = "?c\<lparr>br_shutdown := Poll_Finished, br_stop_requested := True\<rparr>"
  let ?k = "?s\<lparr>br_run := Finishing 0\<rparr>"
  let ?f = "?k\<lparr>br_run := Loading_Event 0, br_finished := True\<rparr>"
  let ?e = "?f\<lparr>br_run := Setting_Event 0\<rparr>"
  let ?t = "?e\<lparr>br_shutdown := Taking\<rparr>"
  let ?x = "?t\<lparr>br_shutdown := Closing, br_event := False\<rparr>"
  have "bridge_step expected E bridge_prepared ?c"
    by (rule bridge_step.create) (simp add: bridge_prepared_def)
  moreover have "bridge_step expected E ?c ?s"
    by (rule bridge_step.shutdown) (simp add: bridge_prepared_def)
  moreover have "bridge_step expected E ?s ?k" using bridge_step.check [of ?s] by simp
  moreover have "bridge_step expected E ?k ?f" using bridge_step.finish [of ?k 0] by simp
  moreover have "bridge_step expected E ?f ?e" using bridge_step.load_event [of ?f 0] by simp
  moreover have "bridge_step expected E ?e ?t" using bridge_step.poll_finished [of ?e] by simp
  moreover have "bridge_step expected E ?t ?x" using bridge_step.take_event [of ?t] by simp
  moreover have "bridge_step expected E ?x early_shutdown"
    using bridge_step.close_event [of ?x] by (simp add: early_shutdown_def bridge_prepared_def)
  ultimately show ?thesis by (meson converse_rtranclp_into_rtranclp rtranclp.rtrancl_refl)
qed

lemma set_event_on_a_closed_handle:
  "\<exists>b. (bridge_step expected E)\<^sup>*\<^sup>* bridge_prepared b \<and> br_shutdown b = Returned True \<and> br_misused b"
proof -
  have "bridge_step expected E early_shutdown ((set_event early_shutdown)\<lparr>br_run := Exited 0\<rparr>)"
    by (rule bridge_step.signal) (simp add: early_shutdown_def)
  with early_shutdown_reached
  have "(bridge_step expected E)\<^sup>*\<^sup>* bridge_prepared ((set_event early_shutdown)\<lparr>br_run := Exited 0\<rparr>)"
    by (rule rtranclp.rtrancl_into_rtrancl)
  moreover have "br_shutdown (set_event early_shutdown) = Returned True" "br_misused (set_event early_shutdown)"
    by (simp_all add: set_event_def early_shutdown_def bridge_prepared_def)
  ultimately show ?thesis
    by (intro exI [of _ "(set_event early_shutdown)\<lparr>br_run := Exited 0\<rparr>"]) simp
qed

text \<open>A client that sends an empty line to the bridge.\<close>

definition bridge_serving :: "'s canonical_host \<Rightarrow> 's bridge" where
  "bridge_serving h = bridge_prepared\<lparr>br_run := Looping, br_event := True, br_open := True,
     br_server := start_server ((server_new host_new)\<lparr>sv_session := h\<rparr>)\<rparr>"

lemma bridge_serving_reached:
  assumes "host_start expected E host_new = (True, h)"
  shows "(bridge_step expected E)\<^sup>*\<^sup>* bridge_prepared (bridge_serving h)"
proof -
  let ?c = "bridge_prepared\<lparr>br_run := Checking, br_event := True, br_open := True\<rparr> :: 'a bridge"
  let ?k = "?c\<lparr>br_run := Starting_Host\<rparr>"
  let ?h = "(with_host h ?k)\<lparr>br_run := Recording\<rparr>"
  let ?r = "?h\<lparr>br_run := Starting_Server\<rparr>"
  have "bridge_step expected E bridge_prepared ?c"
    by (rule bridge_step.create) (simp add: bridge_prepared_def)
  moreover have "bridge_step expected E ?c ?k" using bridge_step.check [of ?c] by (simp add: bridge_prepared_def)
  moreover have "bridge_step expected E ?k ?h"
    using bridge_step.host [of ?k expected E True h] assms by (simp add: bridge_prepared_def server_new_def)
  moreover have "bridge_step expected E ?h ?r" using bridge_step.recorded [of ?h] by simp
  moreover have "bridge_step expected E ?r (bridge_serving h)"
    using bridge_step.serve [of ?r] by (simp add: bridge_serving_def with_host_def bridge_prepared_def)
  ultimately show ?thesis by (meson converse_rtranclp_into_rtranclp rtranclp.rtrancl_refl)
qed

lemma blank_line_wedges_the_bridge:
  assumes "host_start expected E host_new = (True, h)"
  shows "\<exists>b. (bridge_step expected E)\<^sup>*\<^sup>* bridge_prepared b \<and> spinning (br_server b)"
proof -
  let ?with = "\<lambda>s. (bridge_serving h)\<lparr>br_server := s\<rparr>"
  let ?a = "(br_server (bridge_serving h))\<lparr>sv_worker := In_Accept\<rparr>"
  let ?o = "open_client ?a"
  let ?i = "?o\<lparr>sv_worker := In_Receive\<rparr>"
  let ?s = "after_receive [10] ?i"
  have run: "sv_running (br_server (bridge_serving h))" "sv_worker (br_server (bridge_serving h)) = Accept_Check"
    by (simp_all add: bridge_serving_def start_server_def)
  have spins: "spinning ?s" "sv_game ?s = sv_game ?i"
    using blank_line_spins [of ?i "[10]" "[]"] by (simp_all add: open_client_def)
  have same: "sv_running ?s = sv_running ?i" by (simp add: after_receive_def Let_def send_line_def)
  have "bridge_step expected E (bridge_serving h) (?with ?a)"
    using server_step.accept_check [OF run(2), of "host_evaluate E"] run(1)
    by (intro bridge_step.socket) simp_all
  moreover have "bridge_step expected E (?with ?a) (?with ?o)"
    using bridge_step.socket [of E "?with ?a" ?o] server_step.accept [of ?a] by (simp add: open_client_def)
  moreover have "bridge_step expected E (?with ?o) (?with ?i)"
    using bridge_step.socket [of E "?with ?o" ?i] server_step.receive_check [of ?o] run(1) by (simp add: open_client_def)
  moreover have "bridge_step expected E (?with ?i) (?with ?s)"
    using bridge_step.socket [of E "?with ?i" ?s] server_step.receive [of ?i "[10]"] spins(2) same by simp
  ultimately have "(bridge_step expected E)\<^sup>*\<^sup>* (bridge_serving h) (?with ?s)"
    by (meson converse_rtranclp_into_rtranclp rtranclp.rtrancl_refl)
  then show ?thesis
    using bridge_serving_reached [OF assms] spins(1) by (intro exI [of _ "?with ?s"] conjI) (auto intro: rtranclp_trans)
qed

end
