(* ===== verification/Build_Registry.thy ===== *)
theory Build_Registry
  imports Rust_Text
begin

text \<open>
  \<open>host-runtime/build.rs\<close>: the build script that reads my-lisp's registry of surface spellings
  (a file of the submodule \<open>external/sens\<close>, hence the parameter \<open>source\<close>) and generates the
  constants of \<open>canon_spellings.rs\<close> that the evaluator includes. A panic of the script fails the
  build; it is an error value here.
\<close>

section \<open>The script\<close>

datatype build_panic =
    Unbalanced
  | Unexpected_Close
  | Unexpected_End
  | Not_A_List
  | Slice_Out_Of_Range
  | No_Entry rstring
  | No_Spellings rstring
  | Parser_Out_Of_Fuel

datatype sexpr = SAtom rstring | SList "sexpr list"

definition registry_delimiter :: "rchar \<Rightarrow> bool" where
  "registry_delimiter c \<longleftrightarrow> is_whitespace c \<or> c = 40 \<or> c = 41 \<or> c = 59"

function registry_tokens :: "rstring \<Rightarrow> rstring list" where
  "registry_tokens [] = []"
| "registry_tokens (c # cs) =
     (if is_whitespace c then registry_tokens cs
      else if c = 59 then registry_tokens (dropWhile (\<lambda>x. x \<noteq> 10) cs)
      else if c = 40 \<or> c = 41 then [c] # registry_tokens cs
      else (c # takeWhile (\<lambda>x. \<not> registry_delimiter x) cs)
             # registry_tokens (dropWhile (\<lambda>x. \<not> registry_delimiter x) cs))"
  by pat_completeness auto
termination
  by (relation "measure length") (simp_all add: length_dropWhile_le less_Suc_eq_le)

fun parse_sexpr :: "nat \<Rightarrow> rstring list \<Rightarrow> build_panic + (sexpr \<times> rstring list)"
  and parse_items :: "nat \<Rightarrow> rstring list \<Rightarrow> build_panic + (sexpr list \<times> rstring list)" where
  "parse_sexpr 0 tokens = Inl Parser_Out_Of_Fuel"
| "parse_sexpr (Suc n) tokens =
     (case tokens of
        [] \<Rightarrow> Inl Unexpected_End
      | t # r \<Rightarrow>
          if t = [40] then and_then (parse_items n r) (\<lambda>(items, r'). Inr (SList items, r'))
          else if t = [41] then Inl Unexpected_Close
          else Inr (SAtom t, r))"
| "parse_items 0 tokens = Inl Parser_Out_Of_Fuel"
| "parse_items (Suc n) tokens =
     (case tokens of
        [] \<Rightarrow> Inl Unbalanced
      | t # r \<Rightarrow>
          if t = [41] then Inr ([], r)
          else and_then (parse_sexpr n tokens) (\<lambda>(item, r1).
               and_then (parse_items n r1) (\<lambda>(items, r2). Inr (item # items, r2))))"

text \<open>One surface form of an entry: \<open>(lang word)\<close> or \<open>(lang word status ...)\<close>.\<close>

definition surface_spelling :: "sexpr \<Rightarrow> rstring option" where
  "surface_spelling surface =
     (case surface of
        SList (lang # SAtom word # rest) \<Rightarrow>
          (case rest of
             SAtom status # _ \<Rightarrow> if status = lit ''missing'' then None else Some word
           | _ \<Rightarrow> Some word)
      | _ \<Rightarrow> None)"

fun surface_spellings :: "sexpr list \<Rightarrow> rstring list" where
  "surface_spellings [] = []"
| "surface_spellings (surface # rest) =
     (case surface_spelling surface of
        None \<Rightarrow> surface_spellings rest
      | Some word \<Rightarrow> word # surface_spellings rest)"

fun search_entries :: "rstring \<Rightarrow> sexpr list \<Rightarrow> build_panic + rstring list" where
  "search_entries target_id [] = Inl (No_Entry target_id)"
| "search_entries target_id (entry # rest) =
     (case entry of
        SList (SAtom eid # fields) \<Rightarrow>
          if eid \<noteq> target_id then search_entries target_id rest
          else Inr (surface_spellings fields)
      | _ \<Rightarrow> search_entries target_id rest)"

definition spellings_for_id :: "sexpr \<Rightarrow> rstring \<Rightarrow> build_panic + rstring list" where
  "spellings_for_id root target_id =
     (case root of
        SAtom _ \<Rightarrow> Inl Not_A_List
      | SList [] \<Rightarrow> Inl Slice_Out_Of_Range
      | SList (version # entries) \<Rightarrow> search_entries target_id entries)"

definition emit_entry :: "(rchar \<Rightarrow> bool) \<Rightarrow> rstring \<Rightarrow> sexpr \<Rightarrow> rstring \<Rightarrow> build_panic + rstring" where
  "emit_entry unprintable const_name root target_id =
     and_then (spellings_for_id root target_id) (\<lambda>spellings.
       if spellings = [] then Inl (No_Spellings target_id)
       else Inr (lit ''pub const '' @ const_name @ lit '': &[&str] = &[''
              @ concat (map (\<lambda>word. str_debug unprintable word @ lit '', '') spellings)
              @ lit ''];'' @ [10]))"

definition registry_fuel :: "rstring list \<Rightarrow> nat" where
  "registry_fuel tokens = 2 * length tokens + 2"

text \<open>\<open>main\<close>, from the text of the registry to the text of the generated file.\<close>

definition build_main :: "(rchar \<Rightarrow> bool) \<Rightarrow> rstring \<Rightarrow> build_panic + rstring" where
  "build_main unprintable source =
     (let tokens = registry_tokens source
      in and_then (parse_sexpr (registry_fuel tokens) tokens) (\<lambda>(root, _).
         and_then (emit_entry unprintable (lit ''QUOTE_SPELLINGS'') root (lit ''00000001'')) (\<lambda>q.
         and_then (emit_entry unprintable (lit ''CAR_SPELLINGS'') root (lit ''00000101'')) (\<lambda>a.
         and_then (emit_entry unprintable (lit ''CDR_SPELLINGS'') root (lit ''00000110'')) (\<lambda>d.
         and_then (emit_entry unprintable (lit ''COND_SPELLINGS'') root (lit ''00000111'')) (\<lambda>c.
           Inr (lit ''// Generated by dll/build.rs from external/sens/lib/surface/semantic-registry.wsm.'' @ [10]
             @ lit ''// DO NOT EDIT BY HAND -- see build.rs'' @ [39] @ lit ''s own module doc for why this exists.'' @ [10]
             @ q @ a @ d @ c)))))))"

section \<open>Parsing what was written\<close>

text \<open>The tokens of an expression, and the expressions whose atoms are tokens.\<close>

fun sexpr_tokens :: "sexpr \<Rightarrow> rstring list" where
  "sexpr_tokens (SAtom a) = [a]"
| "sexpr_tokens (SList es) = [40] # concat (map sexpr_tokens es) @ [[41]]"

fun sexpr_ok :: "sexpr \<Rightarrow> bool" where
  "sexpr_ok (SAtom a) \<longleftrightarrow> a \<noteq> [40] \<and> a \<noteq> [41]"
| "sexpr_ok (SList es) \<longleftrightarrow> list_all sexpr_ok es"

lemma sexpr_tokens_hd: "sexpr_ok e \<Longrightarrow> \<exists>t ts. sexpr_tokens e = t # ts \<and> t \<noteq> [41]"
  by (cases e) auto

lemma parse_items_tokens:
  assumes "\<And>e n r. e \<in> set es \<Longrightarrow> sexpr_ok e \<Longrightarrow> 2 * length (sexpr_tokens e) \<le> Suc n \<Longrightarrow>
      parse_sexpr n (sexpr_tokens e @ r) = Inr (e, r)"
    and "list_all sexpr_ok es" and "2 * length (concat (map sexpr_tokens es)) < n"
  shows "parse_items n (concat (map sexpr_tokens es) @ [41] # r) = Inr (es, r)"
  using assms
proof (induction es arbitrary: n)
  case Nil
  then show ?case by (cases n) simp_all
next
  case (Cons e es)
  then obtain m where m: "n = Suc m" by (cases n) auto
  obtain t ts where t: "sexpr_tokens e = t # ts" "t \<noteq> [41]"
    using sexpr_tokens_hd [of e] Cons.prems(2) by auto
  have "parse_sexpr m (sexpr_tokens e @ concat (map sexpr_tokens es) @ [41] # r)
      = Inr (e, concat (map sexpr_tokens es) @ [41] # r)"
    using Cons.prems(1) [of e m] Cons.prems(2,3) m by simp
  moreover have "parse_items m (concat (map sexpr_tokens es) @ [41] # r) = Inr (es, r)"
    by (rule Cons.IH) (use Cons.prems m t(1) in auto)
  ultimately show ?case using t by (simp add: m)
qed

lemma parse_sexpr_tokens:
  "sexpr_ok e \<Longrightarrow> 2 * length (sexpr_tokens e) \<le> Suc n \<Longrightarrow>
     parse_sexpr n (sexpr_tokens e @ r) = Inr (e, r)"
proof (induction e arbitrary: n r)
  case (SAtom a)
  then show ?case by (cases n) auto
next
  case (SList es)
  then obtain m where m: "n = Suc m" by (cases n) auto
  have "parse_items m (concat (map sexpr_tokens es) @ [41] # r) = Inr (es, r)"
    by (rule parse_items_tokens) (use SList m in auto)
  then show ?case by (simp add: m)
qed

lemma parse_sexpr_sound:
  "parse_sexpr n ts = Inr (e, r) \<Longrightarrow> ts = sexpr_tokens e @ r \<and> sexpr_ok e"
  "parse_items n ts = Inr (es, r) \<Longrightarrow> ts = concat (map sexpr_tokens es) @ [41] # r \<and> list_all sexpr_ok es"
proof (induction n arbitrary: ts e es r)
  case (Suc n)
  {
    case 1
    then show ?case
      by (auto simp: and_then_Inr_iff dest!: Suc.IH(2) split: list.splits if_splits)
  next
    case 2
    then show ?case
      by (fastforce simp: and_then_Inr_iff dest!: Suc.IH split: list.splits if_splits)
  }
qed simp_all

lemma parse_shorter_registry:
  "parse_sexpr n ts = Inr (e, r) \<Longrightarrow> length r < length ts"
  using parse_sexpr_sound(1) [of n ts e r] sexpr_tokens_hd [of e] by auto

lemma parse_registry_fuel:
  "2 * length ts + 1 \<le> n \<Longrightarrow> parse_sexpr n ts \<noteq> Inl Parser_Out_Of_Fuel"
  "2 * length ts + 2 \<le> n \<Longrightarrow> parse_items n ts \<noteq> Inl Parser_Out_Of_Fuel"
proof (induction n arbitrary: ts)
  case (Suc n)
  {
    case 1
    then show ?case using Suc.IH(2) [of "tl ts"] by (cases ts) (auto simp: and_then_Inl_iff)
  next
    case 2
    have "parse_items n r \<noteq> Inl Parser_Out_Of_Fuel" if "parse_sexpr n ts = Inr (e, r)" for e r
      using parse_shorter_registry [OF that] Suc.IH(2) [of r] 2 by simp
    then show ?case
      using Suc.IH(1) [of ts] 2 by (cases ts) (auto simp: and_then_Inl_iff)
  }
qed simp_all

lemma sexpr_tokens_inj:
  assumes "sexpr_ok e" and "sexpr_ok e'" and "sexpr_tokens e @ r = sexpr_tokens e' @ r'"
  shows "e = e' \<and> r = r'"
proof -
  let ?n = "2 * (length (sexpr_tokens e) + length (sexpr_tokens e'))"
  have "parse_sexpr ?n (sexpr_tokens e @ r) = Inr (e, r)" by (rule parse_sexpr_tokens) (use assms in simp_all)
  moreover have "parse_sexpr ?n (sexpr_tokens e' @ r') = Inr (e', r')" by (rule parse_sexpr_tokens) (use assms in simp_all)
  ultimately show ?thesis using assms(3) by simp
qed

section \<open>The spellings of an id\<close>

text \<open>The first entry whose head is the id decides, and its spellings come in order.\<close>

definition is_entry :: "rstring \<Rightarrow> sexpr \<Rightarrow> bool" where
  "is_entry target_id e \<longleftrightarrow> (case e of SList (SAtom eid # _) \<Rightarrow> eid = target_id | _ \<Rightarrow> False)"

lemma surface_spellings_filter:
  "surface_spellings fs = map the (filter (\<lambda>w. w \<noteq> None) (map surface_spelling fs))"
  by (induction fs) (auto split: option.splits)

lemma search_entries_find:
  "search_entries target_id es =
     (case find (is_entry target_id) es of
        Some (SList (h # fields)) \<Rightarrow> Inr (surface_spellings fields)
      | _ \<Rightarrow> Inl (No_Entry target_id))"
  by (induction es) (auto simp: is_entry_def split: sexpr.split list.split)

lemma spelling_not_missing:
  "surface_spelling s = Some w \<Longrightarrow> \<exists>lang rest. s = SList (lang # SAtom w # rest)
     \<and> (\<forall>st more. rest = SAtom st # more \<longrightarrow> st \<noteq> lit ''missing'')"
  by (auto simp: surface_spelling_def split: sexpr.splits list.splits if_splits)

text \<open>A build that goes through has generated four non-empty constants.\<close>

lemma build_main_nonempty:
  assumes "build_main unprintable source = Inr out"
  obtains root rest where "registry_tokens source = sexpr_tokens root @ rest"
    "\<And>i. i \<in> {lit ''00000001'', lit ''00000101'', lit ''00000110'', lit ''00000111''} \<Longrightarrow>
       \<exists>ws. spellings_for_id root i = Inr ws \<and> ws \<noteq> []"
proof -
  obtain root rest where p: "parse_sexpr (registry_fuel (registry_tokens source)) (registry_tokens source)
      = Inr (root, rest)"
    and e: "\<And>i. i \<in> {lit ''00000001'', lit ''00000101'', lit ''00000110'', lit ''00000111''} \<Longrightarrow>
       \<exists>n x. emit_entry unprintable n root i = Inr x"
    using assms by (fastforce simp: build_main_def Let_def and_then_Inr_iff simp del: lit_simps)
  show thesis
  proof (rule that)
    show "registry_tokens source = sexpr_tokens root @ rest"
      using parse_sexpr_sound(1) [OF p] by simp
    show "\<exists>ws. spellings_for_id root i = Inr ws \<and> ws \<noteq> []"
      if "i \<in> {lit ''00000001'', lit ''00000101'', lit ''00000110'', lit ''00000111''}" for i
      using e [OF that] by (auto simp: emit_entry_def and_then_Inr_iff split: if_splits)
  qed
qed

lemma build_needs_all_four_entries:
  assumes "build_main unprintable source = Inr out"
    and "i \<in> {lit ''00000001'', lit ''00000101'', lit ''00000110'', lit ''00000111''}"
  shows "\<exists>version entries h fields rest surface w.
    registry_tokens source = sexpr_tokens (SList (version # entries)) @ rest
    \<and> find (is_entry i) entries = Some (SList (h # fields))
    \<and> spellings_for_id (SList (version # entries)) i = Inr (surface_spellings fields)
    \<and> surface \<in> set fields \<and> surface_spelling surface = Some w"
proof -
  obtain root rest where root: "registry_tokens source = sexpr_tokens root @ rest"
    and "\<And>i. i \<in> {lit ''00000001'', lit ''00000101'', lit ''00000110'', lit ''00000111''} \<Longrightarrow>
       \<exists>ws. spellings_for_id root i = Inr ws \<and> ws \<noteq> []"
    using build_main_nonempty [OF assms(1)] by blast
  from this(2) [OF assms(2)] obtain ws where ws: "spellings_for_id root i = Inr ws" "ws \<noteq> []" by blast
  then obtain version entries where r: "root = SList (version # entries)"
      and search: "search_entries i entries = Inr ws"
    by (auto simp: spellings_for_id_def split: sexpr.splits list.splits)
  then obtain h fields where f: "find (is_entry i) entries = Some (SList (h # fields))"
      "ws = surface_spellings fields"
    by (auto simp: search_entries_find split: option.splits sexpr.splits list.splits)
  then obtain surface w where "surface \<in> set fields" "surface_spelling surface = Some w"
    using ws(2) by (fastforce simp: surface_spellings_filter filter_empty_conv)
  then show ?thesis using root r f ws(1) by blast
qed

text \<open>A comment runs to the end of its line and separates tokens.\<close>

lemma registry_comment:
  assumes "10 \<notin> set cm"
  shows "registry_tokens (59 # cm @ 10 # r) = registry_tokens r"
proof -
  have "dropWhile (\<lambda>x. x \<noteq> 10) (cm @ 10 # r) = 10 # r"
    using assms by (induction cm) auto
  then show ?thesis by (simp add: is_whitespace_def)
qed

end
