(* ===== verification/Canon_Spellings.thy ===== *)
theory Canon_Spellings
  imports Build_Registry Semantics
begin

text \<open>
  The line of \<open>host-runtime/src/eval.rs\<close> that includes the file which the build script generated:
  the compiler's reading of that file, up to the string literals with the escapes that \<open>{:?}\<close>
  writes, and the proof that the constants are the registry's spellings, so that the evaluator
  dispatches on the words of the registry.
\<close>

section \<open>The generated file as the compiler reads it\<close>

definition hex_digit :: "rchar \<Rightarrow> nat option" where
  "hex_digit c =
     (if 48 \<le> c \<and> c \<le> 57 then Some (c - 48)
      else if 97 \<le> c \<and> c \<le> 102 then Some (c - 87)
      else if 65 \<le> c \<and> c \<le> 70 then Some (c - 55)
      else None)"

fun hex_value :: "nat \<Rightarrow> rstring \<Rightarrow> nat option" where
  "hex_value acc [] = Some acc"
| "hex_value acc (c # cs) =
     (case hex_digit c of None \<Rightarrow> None | Some d \<Rightarrow> hex_value (16 * acc + d) cs)"

text \<open>\<open>\u{...}\<close>: one to six hexadecimal digits of a scalar value.\<close>

definition unicode_escape :: "rstring \<Rightarrow> (rchar \<times> rstring) option" where
  "unicode_escape cs =
     (case cs of
        [] \<Rightarrow> None
      | b # r \<Rightarrow>
          (let h = takeWhile (\<lambda>x. x \<noteq> 125) r; t = dropWhile (\<lambda>x. x \<noteq> 125) r
           in if b \<noteq> 123 \<or> t = [] \<or> h = [] \<or> 6 < length h then None
              else case hex_value 0 h of
                     None \<Rightarrow> None
                   | Some c \<Rightarrow> if valid_scalar c then Some (c, tl t) else None))"

text \<open>One escape, entered after its backslash, and a literal, entered after its opening quote.\<close>

definition escape_at :: "rstring \<Rightarrow> (rchar \<times> rstring) option" where
  "escape_at cs =
     (case cs of
        [] \<Rightarrow> None
      | e # r \<Rightarrow>
          if e = 48 then Some (0, r)
          else if e = 116 then Some (9, r)
          else if e = 114 then Some (13, r)
          else if e = 110 then Some (10, r)
          else if e = 34 \<or> e = 92 then Some (e, r)
          else if e = 117 then unicode_escape r
          else None)"

lemma unicode_escape_shorter: "unicode_escape cs = Some (c, r) \<Longrightarrow> length r < length cs"
proof -
  assume "unicode_escape cs = Some (c, r)"
  then obtain b r' where "cs = b # r'" "r = tl (dropWhile (\<lambda>x. x \<noteq> 125) r')"
    by (auto simp: unicode_escape_def Let_def split: list.splits option.splits if_splits)
  then show ?thesis using length_dropWhile_le [of "\<lambda>x. x \<noteq> 125" r'] by simp
qed

lemma escape_at_shorter: "escape_at cs = Some (c, r) \<Longrightarrow> length r < length cs"
  by (auto simp: escape_at_def split: list.splits if_splits dest: unicode_escape_shorter)

function literal_body :: "rstring \<Rightarrow> (rstring \<times> rstring) option" where
  "literal_body [] = None"
| "literal_body (c # cs) =
     (if c = 34 then Some ([], cs)
      else if c = 13 then None
      else if c = 92 then
        (case escape_at cs of
           None \<Rightarrow> None
         | Some (x, r) \<Rightarrow> map_option (\<lambda>(s, t). (x # s, t)) (literal_body r))
      else map_option (\<lambda>(s, t). (c # s, t)) (literal_body cs))"
  by pat_completeness auto
termination
  by (relation "measure length") (auto dest!: sym [of "Some _"] escape_at_shorter)

lemma literal_body_shorter: "literal_body cs = Some (s, r) \<Longrightarrow> length r < length cs"
  by (induction cs arbitrary: s rule: literal_body.induct)
    (fastforce split: if_splits option.splits dest: escape_at_shorter)+

text \<open>The elements of a slice, each followed by a comma and a blank, up to the closing bracket.\<close>

function slice_items :: "rstring \<Rightarrow> (rstring list \<times> rstring) option" where
  "slice_items [] = None"
| "slice_items (c # cs) =
     (if c = 93 then Some ([], cs)
      else if c \<noteq> 34 then None
      else case literal_body cs of
             None \<Rightarrow> None
           | Some (s, r) \<Rightarrow>
               (if take 2 r = lit '', ''
                then map_option (\<lambda>(ss, t). (s # ss, t)) (slice_items (drop 2 r)) else None))"
  by pat_completeness auto
termination
  by (relation "measure length") (auto dest!: sym [of "Some _"] dest: literal_body_shorter)

lemma slice_items_shorter: "slice_items cs = Some (ss, r) \<Longrightarrow> length r < length cs"
proof (induction cs arbitrary: ss rule: slice_items.induct)
  case (2 c cs)
  show ?case
  proof (cases "c = 93")
    case False
    then obtain s r' ss' where l: "literal_body cs = Some (s, r')" "take 2 r' = lit '', ''"
        and "slice_items (drop 2 r') = Some (ss', r)" "c = 34"
      using "2.prems" by (auto simp del: lit_simps split: if_splits option.splits)
    with "2.IH" [OF False _ l(1) refl l(2)] literal_body_shorter [OF l(1)] show ?thesis by simp
  qed (use "2.prems" in simp)
qed simp

definition strip_prefix :: "rstring \<Rightarrow> rstring \<Rightarrow> rstring option" where
  "strip_prefix p s = (if take (length p) s = p then Some (drop (length p) s) else None)"

lemma strip_prefix_append [simp]: "strip_prefix p (p @ s) = Some s"
  by (simp add: strip_prefix_def)

text \<open>The items of the file: line comments and constants of type \<open>&[&str]\<close>.\<close>

definition const_item :: "rstring \<Rightarrow> ((rstring \<times> rstring list) \<times> rstring) option" where
  "const_item s =
     (case strip_prefix (lit ''pub const '') s of
        None \<Rightarrow> None
      | Some r \<Rightarrow>
          (case strip_prefix (lit '': &[&str] = &['') (dropWhile (\<lambda>x. x \<noteq> 58) r) of
             None \<Rightarrow> None
           | Some body \<Rightarrow>
               (case slice_items body of
                  None \<Rightarrow> None
                | Some (ss, r') \<Rightarrow>
                    map_option (\<lambda>r''. ((takeWhile (\<lambda>x. x \<noteq> 58) r, ss), r'')) (strip_prefix [59, 10] r'))))"

lemma strip_prefix_shorter: "strip_prefix p s = Some r \<Longrightarrow> length r \<le> length s"
  by (auto simp: strip_prefix_def split: if_splits)

lemma const_item_shorter: "const_item s = Some (i, r) \<Longrightarrow> length r < length s"
proof -
  assume "const_item s = Some (i, r)"
  then obtain a b d e where "strip_prefix (lit ''pub const '') s = Some a"
      "strip_prefix (lit '': &[&str] = &['') (dropWhile (\<lambda>x. x \<noteq> 58) a) = Some b"
      "slice_items b = Some (d, e)" "strip_prefix [59, 10] e = Some r"
    by (auto simp: const_item_def simp del: lit_simps split: option.splits)
  then show ?thesis
    using length_dropWhile_le [of "\<lambda>x. x \<noteq> 58" a]
    by (auto dest!: strip_prefix_shorter slice_items_shorter simp del: lit_simps)
qed

function file_items :: "rstring \<Rightarrow> (rstring \<times> rstring list) list option" where
  "file_items s =
     (if s = [] then Some []
      else if take 2 s = lit ''//'' then file_items (drop 1 (dropWhile (\<lambda>x. x \<noteq> 10) s))
      else case const_item s of
             None \<Rightarrow> None
           | Some (i, r) \<Rightarrow> map_option ((#) i) (file_items r))"
  by pat_completeness auto
termination
proof (relation "measure length")
  fix s :: rstring
  assume "s \<noteq> []" "take 2 s = lit ''//''"
  then show "(drop 1 (dropWhile (\<lambda>x. x \<noteq> 10) s), s) \<in> measure length"
    using length_dropWhile_le [of "\<lambda>x. x \<noteq> 10" s] by (cases s) auto
qed (auto dest!: sym [of "Some _"] const_item_shorter)

declare file_items.simps [simp del]

text \<open>
  The constants that \<open>eval.rs\<close> refers to; a name that is missing or declared twice does not
  compile.
\<close>

definition include_spellings :: "rstring \<Rightarrow> spellings option" where
  "include_spellings text =
     (case file_items text of
        None \<Rightarrow> None
      | Some consts \<Rightarrow>
          if \<not> distinct (map fst consts) then None
          else (case (map_of consts (lit ''QUOTE_SPELLINGS''), map_of consts (lit ''CAR_SPELLINGS''),
                 map_of consts (lit ''CDR_SPELLINGS''), map_of consts (lit ''COND_SPELLINGS'')) of
             (Some q, Some a, Some d, Some c) \<Rightarrow>
               Some \<lparr>QUOTE_SPELLINGS = q, CAR_SPELLINGS = a, CDR_SPELLINGS = d, COND_SPELLINGS = c\<rparr>
           | _ \<Rightarrow> None))"

section \<open>Reading what was generated\<close>

lemma length_digits_of: "n < base ^ Suc k \<Longrightarrow> 2 \<le> base \<Longrightarrow> length (digits_of base n) \<le> Suc k"
proof (induction k arbitrary: n)
  case 0
  then show ?case by (simp add: digits_of.simps [of base n])
next
  case (Suc k)
  have "n div base < base ^ Suc k" using Suc.prems by (simp add: div_less_iff_less_mult mult.commute)
  from Suc.IH [OF this Suc.prems(2)] show ?case by (simp add: digits_of.simps [of base n])
qed

lemma hex_digit_char: "d < 16 \<Longrightarrow> hex_digit (digit_char d) = Some d"
  by (simp add: hex_digit_def digit_char_def)

lemma hex_value_append:
  "hex_value acc (xs @ ys) = (case hex_value acc xs of None \<Rightarrow> None | Some n \<Rightarrow> hex_value n ys)"
  by (induction acc xs rule: hex_value.induct) (auto split: option.splits)

lemma hex_value_digits: "hex_value 0 (map digit_char (digits_of 16 n)) = Some n"
proof (induction n rule: less_induct)
  case (less n)
  show ?case
  proof (cases "n < 16")
    case True
    then show ?thesis by (simp add: digits_of.simps [of 16 n] hex_digit_char)
  next
    case False
    then have "hex_value 0 (map digit_char (digits_of 16 (n div 16))) = Some (n div 16)"
      by (intro less.IH) simp
    with False show ?thesis
      by (simp add: digits_of.simps [of 16 n] hex_value_append hex_digit_char)
  qed
qed

lemma digits_no_brace: "x \<in> set (digits_of 16 n) \<Longrightarrow> digit_char x \<noteq> 125"
  using digits_of_less [of 16 x n] by (simp add: digit_char_def)

lemma take_up_to:
  "k \<notin> set xs \<Longrightarrow> takeWhile (\<lambda>x. x \<noteq> k) (xs @ k # r) = xs"
  "k \<notin> set xs \<Longrightarrow> dropWhile (\<lambda>x. x \<noteq> k) (xs @ k # r) = k # r"
  by (induction xs) auto

lemma unicode_escape_written:
  assumes "valid_scalar c"
  shows "unicode_escape (123 # map digit_char (digits_of 16 c) @ 125 # r) = Some (c, r)"
proof -
  let ?h = "map digit_char (digits_of 16 c)"
  have "125 \<notin> set ?h" using digits_no_brace [of _ c] by force
  note this [THEN take_up_to(1)] this [THEN take_up_to(2)]
  moreover have "length (digits_of 16 c) \<le> 6"
    using length_digits_of [of c 16 5] assms by (auto simp: valid_scalar_def)
  ultimately show ?thesis using assms by (simp add: unicode_escape_def hex_value_digits del: map_append)
qed

lemma escape_written:
  assumes "valid_scalar c"
  shows "literal_body (escape_debug unprintable c @ r) = map_option (\<lambda>(s, t). (c # s, t)) (literal_body r)"
  using unicode_escape_written [OF assms, of r] by (simp add: escape_debug_def escape_at_def)

lemma literal_written:
  "list_all valid_scalar s \<Longrightarrow>
     literal_body (concat (map (escape_debug unprintable) s) @ 34 # r) = Some (s, r)"
  by (induction s) (simp_all add: escape_written)

lemma slice_written:
  "list_all (list_all valid_scalar) ss \<Longrightarrow>
     slice_items (concat (map (\<lambda>w. str_debug unprintable w @ lit '', '') ss) @ 93 # r) = Some (ss, r)"
proof (induction ss)
  case (Cons w ss)
  then show ?case by (simp add: str_debug_def literal_written)
qed simp

definition const_text :: "(rchar \<Rightarrow> bool) \<Rightarrow> rstring \<Rightarrow> rstring list \<Rightarrow> rstring" where
  "const_text unprintable name ss =
     lit ''pub const '' @ name @ lit '': &[&str] = &[''
       @ concat (map (\<lambda>w. str_debug unprintable w @ lit '', '') ss) @ lit ''];'' @ [10]"

lemma const_written:
  assumes "58 \<notin> set name" and "list_all (list_all valid_scalar) ss"
  shows "const_item (const_text unprintable name ss @ r) = Some ((name, ss), r)"
proof -
  let ?tail = "lit '': &[&str] = &['' @ (concat (map (\<lambda>w. str_debug unprintable w @ lit '', '') ss) @ 93 # [59, 10] @ r)"
  have t: "?tail = 58 # tl ?tail" by simp
  note assms(1) [THEN take_up_to(1)] assms(1) [THEN take_up_to(2)]
  then have n: "takeWhile (\<lambda>x. x \<noteq> 58) (name @ ?tail) = name" "dropWhile (\<lambda>x. x \<noteq> 58) (name @ ?tail) = ?tail"
    using t by metis+
  have e: "const_text unprintable name ss @ r = lit ''pub const '' @ (name @ ?tail)"
    by (simp add: const_text_def)
  show ?thesis
    unfolding const_item_def e strip_prefix_append option.case n
    using slice_written [OF assms(2), of unprintable "[59, 10] @ r"]
    by (simp del: lit_simps append.simps)
qed

lemma items_comment:
  assumes "10 \<notin> set cm"
  shows "file_items (lit ''//'' @ cm @ 10 # r) = file_items r"
  using take_up_to(2) [OF assms, of r] by (subst file_items.simps) simp

lemma items_const:
  assumes "58 \<notin> set name" and "list_all (list_all valid_scalar) ss"
  shows "file_items (const_text unprintable name ss @ r) = map_option ((#) (name, ss)) (file_items r)"
  using const_written [OF assms, of unprintable r]
  by (subst file_items.simps) (simp add: const_text_def)

lemma items_end [simp]: "file_items [] = Some []"
  by (simp add: file_items.simps)

lemma emit_entry_written:
  "emit_entry unprintable name root i = Inr x \<Longrightarrow>
     \<exists>ws. spellings_for_id root i = Inr ws \<and> ws \<noteq> [] \<and> x = const_text unprintable name ws"
  by (auto simp: emit_entry_def const_text_def and_then_Inr_iff simp del: lit_simps split: if_splits)

section \<open>The words of the registry\<close>

lemma registry_token_chars: "t \<in> set (registry_tokens s) \<Longrightarrow> set t \<subseteq> set s"
  by (induction s rule: registry_tokens.induct)
    (auto split: if_splits dest!: set_dropWhileD set_takeWhileD subsetD)

lemma spelling_token:
  "w \<in> set (surface_spellings fs) \<Longrightarrow> \<exists>f \<in> set fs. w \<in> set (sexpr_tokens f)"
  by (induction fs) (auto split: option.splits dest!: spelling_not_missing)

lemma spellings_are_tokens:
  assumes "spellings_for_id root i = Inr ws" and "w \<in> set ws"
  shows "w \<in> set (sexpr_tokens root)"
proof -
  obtain version entries h fields where "root = SList (version # entries)"
      "find (is_entry i) entries = Some (SList (h # fields))" "ws = surface_spellings fields"
    using assms(1) by (auto simp: spellings_for_id_def search_entries_find
        split: sexpr.splits list.splits option.splits)
  then have "SList (h # fields) \<in> set entries" "\<exists>f \<in> set fields. w \<in> set (sexpr_tokens f)"
    "root = SList (version # entries)"
    using spelling_token assms(2) by (auto simp: find_Some_iff)
  then show ?thesis by force
qed

text \<open>
  A build that goes through has found the four entries, and what the evaluator includes are their
  spellings.
\<close>

lemma build_spellings:
  assumes "build_main unprintable source = Inr out" and "list_all valid_scalar source"
  obtains root rest s where "registry_tokens source = sexpr_tokens root @ rest"
    and "sexpr_ok root" and "include_spellings out = Some s"
    and "spellings_for_id root (lit ''00000001'') = Inr (QUOTE_SPELLINGS s)" "QUOTE_SPELLINGS s \<noteq> []"
    and "spellings_for_id root (lit ''00000101'') = Inr (CAR_SPELLINGS s)" "CAR_SPELLINGS s \<noteq> []"
    and "spellings_for_id root (lit ''00000110'') = Inr (CDR_SPELLINGS s)" "CDR_SPELLINGS s \<noteq> []"
    and "spellings_for_id root (lit ''00000111'') = Inr (COND_SPELLINGS s)" "COND_SPELLINGS s \<noteq> []"
proof -
  let ?A = "lit '' Generated by dll/build.rs from external/sens/lib/surface/semantic-registry.wsm.''"
  let ?B = "lit '' DO NOT EDIT BY HAND -- see build.rs'' @ [39] @ lit ''s own module doc for why this exists.''"
  let ?head = "lit ''//'' @ ?A @ 10 # lit ''//'' @ ?B @ 10 # []"
  obtain root rest q a d c where p: "parse_sexpr (registry_fuel (registry_tokens source)) (registry_tokens source)
      = Inr (root, rest)"
    and "emit_entry unprintable (lit ''QUOTE_SPELLINGS'') root (lit ''00000001'') = Inr q"
      "emit_entry unprintable (lit ''CAR_SPELLINGS'') root (lit ''00000101'') = Inr a"
      "emit_entry unprintable (lit ''CDR_SPELLINGS'') root (lit ''00000110'') = Inr d"
      "emit_entry unprintable (lit ''COND_SPELLINGS'') root (lit ''00000111'') = Inr c"
    and out: "out = ?head @ q @ a @ d @ c"
    using assms(1) by (fastforce simp: build_main_def Let_def and_then_Inr_iff lit_def)
  then obtain qs as ds cs where ids: "spellings_for_id root (lit ''00000001'') = Inr qs"
      "spellings_for_id root (lit ''00000101'') = Inr as" "spellings_for_id root (lit ''00000110'') = Inr ds"
      "spellings_for_id root (lit ''00000111'') = Inr cs" "qs \<noteq> []" "as \<noteq> []" "ds \<noteq> []" "cs \<noteq> []"
    and texts: "q = const_text unprintable (lit ''QUOTE_SPELLINGS'') qs" "a = const_text unprintable (lit ''CAR_SPELLINGS'') as"
      "d = const_text unprintable (lit ''CDR_SPELLINGS'') ds" "c = const_text unprintable (lit ''COND_SPELLINGS'') cs"
    by (auto dest!: emit_entry_written simp del: lit_simps)
  have t: "registry_tokens source = sexpr_tokens root @ rest" "sexpr_ok root" using parse_sexpr_sound(1) [OF p] by simp_all
  have scalars: "list_all (list_all valid_scalar) ws" if "spellings_for_id root i = Inr ws" for i ws
  proof -
    have "set w \<subseteq> set source" if "w \<in> set ws" for w
      by (rule registry_token_chars) (use spellings_are_tokens [OF \<open>spellings_for_id root i = Inr ws\<close> that] t(1) in simp)
    then show ?thesis using assms(2) by (auto simp: list_all_iff)
  qed
  note written = items_const [OF _ scalars [OF ids(1)]] items_const [OF _ scalars [OF ids(2)]]
    items_const [OF _ scalars [OF ids(3)]] items_const [OF _ scalars [OF ids(4)]]
      items_const [OF _ scalars [OF ids(4)], of _ _ "[]", simplified]
  have one_line: "10 \<notin> set ?A" "10 \<notin> set ?B" by simp_all
  have "file_items out = file_items (q @ a @ d @ c)"
    unfolding out using items_comment [of ?A "lit ''//'' @ ?B @ 10 # q @ a @ d @ c"]
      items_comment [of ?B "q @ a @ d @ c"] one_line by (simp del: lit_simps)
  also have "\<dots> = Some [(lit ''QUOTE_SPELLINGS'', qs), (lit ''CAR_SPELLINGS'', as), (lit ''CDR_SPELLINGS'', ds),
      (lit ''COND_SPELLINGS'', cs)]"
    unfolding texts by (simp add: written lit_def)
  finally have "include_spellings out = Some \<lparr>QUOTE_SPELLINGS = qs, CAR_SPELLINGS = as, CDR_SPELLINGS = ds, COND_SPELLINGS = cs\<rparr>"
    by (simp add: include_spellings_def)
  from that [OF t this] show thesis using ids by simp
qed

section \<open>The evaluator's dispatch\<close>

text \<open>A word that the registry lists under an id, and the operator that the registry gives a name.\<close>

definition registered :: "sexpr \<Rightarrow> rstring \<Rightarrow> rstring \<Rightarrow> bool" where
  "registered root i w \<longleftrightarrow> (\<exists>version entries h fields. root = SList (version # entries)
     \<and> find (is_entry i) entries = Some (SList (h # fields))
     \<and> (\<exists>surface \<in> set fields. surface_spelling surface = Some w))"

definition registry_operator :: "sexpr \<Rightarrow> rstring \<Rightarrow> operator" where
  "registry_operator root name =
     (if registered root (lit ''00000111'') name then Op_Cond
      else if registered root (lit ''00000001'') name then Op_Quote
      else if registered root (lit ''00000101'') name then Op_Accessor (lit ''car'') wsm_car
      else if registered root (lit ''00000110'') name then Op_Accessor (lit ''cdr'') wsm_cdr
      else Op_Call name)"

lemma spellings_registered:
  assumes "spellings_for_id root i = Inr ws"
  shows "w \<in> set ws \<longleftrightarrow> registered root i w"
proof -
  obtain version entries h fields where "root = SList (version # entries)"
      "find (is_entry i) entries = Some (SList (h # fields))" "ws = surface_spellings fields"
    using assms by (auto simp: spellings_for_id_def search_entries_find
        split: sexpr.splits list.splits option.splits)
  then show ?thesis by (force simp: registered_def surface_spellings_filter image_iff)
qed

lemma spelled_registry:
  assumes "spellings_for_id root (lit ''00000001'') = Inr (QUOTE_SPELLINGS s)"
    and "spellings_for_id root (lit ''00000101'') = Inr (CAR_SPELLINGS s)"
    and "spellings_for_id root (lit ''00000110'') = Inr (CDR_SPELLINGS s)"
    and "spellings_for_id root (lit ''00000111'') = Inr (COND_SPELLINGS s)"
  shows "spelled s = registry_operator root"
  using assms [THEN spellings_registered]
  by (intro ext) (simp add: spelled_def registry_operator_def del: lit_simps)

end
