(* ===== verification/Isolation.thy ===== *)
theory Isolation
  imports C_Strings
begin

text \<open>
  What an evaluation does not depend on: the arena is one for all sessions and is not cleared by
  the reset, and the tables of all sessions are in the process. The answer, the session and the
  host's state after an evaluation are nevertheless a function of the text, the session and the
  host's state before it (and the arena's address).
\<close>

section \<open>Arenas that hold the same cells\<close>

definition same_cells :: "arena \<Rightarrow> arena \<Rightarrow> bool" where
  "same_cells A B \<longleftrightarrow> arena_ok A \<and> arena_ok B \<and> arena_base A = arena_base B \<and> arena_next A = arena_next B
     \<and> (\<forall>q. is_cell A q \<longrightarrow> wsm_car A q = wsm_car B q \<and> wsm_cdr A q = wsm_cdr B q)"

lemma same_cells_okD: "same_cells A B \<Longrightarrow> arena_ok A \<and> arena_ok B \<and> arena_base A = arena_base B"
  by (simp add: same_cells_def)

lemma same_cells_cell: "same_cells A B \<Longrightarrow> is_cell A q = is_cell B q"
  by (simp add: same_cells_def is_cell_def)

lemma same_reset:
  assumes "arena_ok A" and "arena_ok B" and "arena_base A = arena_base B"
  shows "same_cells (wsm_arena_reset A) (wsm_arena_reset B)"
proof -
  have "\<not> is_cell (wsm_arena_reset A) q" for q
    by (auto simp: is_cell_def wsm_arena_reset_def)
  then show ?thesis using assms by (simp add: same_cells_def wsm_arena_reset_def arena_ok_def arena_used_def)
qed

lemma same_cons:
  assumes "same_cells A B"
  shows "(\<exists>f. wsm_cons A a d = Inl f \<and> wsm_cons B a d = Inl f)
    \<or> (\<exists>p A' B'. wsm_cons A a d = Inr (p, A') \<and> wsm_cons B a d = Inr (p, B') \<and> same_cells A' B')"
proof (cases "wsm_cons A a d")
  case (Inl f)
  then have "wsm_cons B a d = Inl f"
    using assms by (auto simp: same_cells_def wsm_cons_def arena_end_def Let_def split: if_splits)
  then show ?thesis using Inl by blast
next
  case (Inr pA)
  obtain p A' where A: "wsm_cons A a d = Inr (p, A')" using Inr by (cases pA) simp
  then obtain B' where B: "wsm_cons B a d = Inr (p, B')" and bump: "arena_next A' = arena_next B'"
    using assms by (auto simp: same_cells_def wsm_cons_def arena_end_def Let_def split: if_splits)
  have ok: "arena_ok A" "arena_ok B" and base: "arena_base A = arena_base B"
    using assms by (simp_all add: same_cells_def)
  note stateA = wsm_cons_state [OF ok(1) A] and stateB = wsm_cons_state [OF ok(2) B]
  have "wsm_car A' q = wsm_car B' q \<and> wsm_cdr A' q = wsm_cdr B' q" if q: "is_cell A' q" for q
  proof (cases "is_cell A q")
    case True
    then have "is_cell B q" using same_cells_cell [OF assms] by simp
    then show ?thesis
      using wsm_cons_frame [OF ok(1) A True] wsm_cons_frame [OF ok(2) B] assms True
      by (simp add: same_cells_def)
  next
    case False
    have "q = p"
    proof -
      obtain k where k: "k < arena_used A'" "unat q = unat (arena_base A') + 16 * k"
        using q is_cell_index [OF stateA(1)] by blast
      have "\<not> k < arena_used A" using False k(2) is_cell_index [OF ok(1)] stateA(3) by auto
      then have "unat q = unat (arena_next A)"
        using k stateA(2,3) arena_okD(5) [OF ok(1)] by simp
      moreover have "p = arena_next A"
        using A by (auto simp: wsm_cons_def Let_def split: if_splits)
      ultimately show ?thesis by (simp add: word_unat_eq_iff)
    qed
    then show ?thesis using stateA(5,6) stateB(5,6) by simp
  qed
  then have "same_cells A' B'" using stateA(1,3) stateB(1,3) base bump by (simp add: same_cells_def)
  then show ?thesis using A B by blast
qed

lemma same_repr: "same_cells A B \<Longrightarrow> repr A t \<Longrightarrow> repr B t"
  by (erule rep_by_mono) (auto simp: same_cells_def is_cell_def)

section \<open>Reading\<close>

definition same_read :: "read_state \<Rightarrow> read_state \<Rightarrow> bool" where
  "same_read s u \<longleftrightarrow> rs_symbols s = rs_symbols u \<and> rs_boxed s = rs_boxed u \<and> same_cells (rs_arena s) (rs_arena u)"

text \<open>Two runs with the same result and states that are related.\<close>

definition same_run :: "('w \<Rightarrow> 'w \<Rightarrow> bool) \<Rightarrow> 'a \<times> 'w \<Rightarrow> 'a \<times> 'w \<Rightarrow> bool" where
  "same_run R r r' \<longleftrightarrow> fst r = fst r' \<and> R (snd r) (snd r')"

lemma same_run_simps [simp]: "same_run R (r, w) (r', w') \<longleftrightarrow> r = r' \<and> R w w'"
  by (simp add: same_run_def)

lemma same_runE: "same_run R (r, w) q \<Longrightarrow> (\<And>w'. q = (r, w') \<Longrightarrow> R w w' \<Longrightarrow> thesis) \<Longrightarrow> thesis"
  by (cases q) simp

lemma same_parse:
  "same_read s u \<Longrightarrow> same_run same_read (parse_form c n ts s) (parse_form c n ts u)"
  "same_read s u \<Longrightarrow> same_run same_read (parse_list c n ts s) (parse_list c n ts u)"
proof (induction n arbitrary: ts s u and ts s u)
  case (Suc n)
  {
    case 1
    then show ?case
      using Suc.IH(2) [OF 1]
      by (cases ts) (auto simp: same_read_def split: token.split prod.split sum.split)
  next
    case 2
    show ?case
    proof (cases "ts = [] \<or> (\<exists>us. ts = Close # us)")
      case True
      then show ?thesis using 2 by auto
    next
      case False
      then have step: "parse_list c (Suc n) ts s = (case parse_form c n ts s of
             (Inl e, s1) \<Rightarrow> (Inl e, s1)
           | (Inr (head, r1), s1) \<Rightarrow>
               (case parse_list c n r1 s1 of
                  (Inl e, s2) \<Rightarrow> (Inl e, s2)
                | (Inr (tail, r2), s2) \<Rightarrow>
                    (case wsm_cons (rs_arena s2) head tail of
                       Inl f \<Rightarrow> (Inl (Abort f), s2)
                     | Inr (p, A) \<Rightarrow> (Inr (p, r2), s2\<lparr>rs_arena := A\<rparr>))))" for s
        by (cases ts) (auto split: token.split)
      obtain r s1 where r: "parse_form c n ts s = (r, s1)" by fastforce
      obtain u1 where u1: "parse_form c n ts u = (r, u1)" "same_read s1 u1"
        using Suc.IH(1) [OF 2, of ts] unfolding r by (rule same_runE)
      show ?thesis
      proof (cases r)
        case (Inl e)
        then show ?thesis using r u1 by (simp only: step) simp
      next
        case (Inr hr)
        obtain h r1 where h: "r = Inr (h, r1)" using Inr by (cases hr) simp
        obtain q s2 where q: "parse_list c n r1 s1 = (q, s2)" by fastforce
        obtain u2 where u2: "parse_list c n r1 u1 = (q, u2)" "same_read s2 u2"
          using Suc.IH(2) [OF u1(2), of r1] unfolding q by (rule same_runE)
        show ?thesis
        proof (cases q)
          case (Inl e)
          then show ?thesis using r u1 h q u2 by (simp only: step) simp
        next
          case (Inr tr)
          obtain tl r2 where t: "q = Inr (tl, r2)" using Inr by (cases tr) simp
          have "same_cells (rs_arena s2) (rs_arena u2)" using u2(2) by (simp add: same_read_def)
          then show ?thesis
            using same_cons [of "rs_arena s2" "rs_arena u2" h tl] r u1(1) h q u2 t
            by (simp only: step) (auto simp: same_read_def)
        qed
      qed
    qed
  }
qed simp_all

lemma same_read_one:
  assumes "same_read s u"
  shows "same_run same_read (read_one c unprintable source s) (read_one c unprintable source u)"
proof (cases "tokenize source")
  case (Inr ts)
  have "same_run same_read (parse_form c (parse_fuel ts) ts s) (parse_form c (parse_fuel ts) ts u)"
    by (rule same_parse(1) [OF assms])
  then show ?thesis
    using Inr assms by (cases "parse_form c (parse_fuel ts) ts s"; cases "parse_form c (parse_fuel ts) ts u")
      (auto simp: read_one_def wsm_arena_capacity_def Let_def split: option.split sum.split if_splits)
qed (use assms in \<open>simp add: read_one_def\<close>)

section \<open>Evaluating\<close>

text \<open>The same context with another arena.\<close>

abbreviation over :: "'w eval_context \<Rightarrow> arena \<Rightarrow> 'w eval_context" where
  "over X B \<equiv> X\<lparr>ctx_arena := B\<rparr>"

lemma over_simps [simp]:
  "eval_symbol (over X B) v = eval_symbol X v" "operator_of (over X B) n = operator_of X n"
  "call_primitive (over X B) = call_primitive X"
  by (simp_all add: fun_eq_iff eval_symbol_def call_primitive_def operator_of_def is_cond_spelling_def
      is_quote_spelling_def is_car_spelling_def is_cdr_spelling_def split: option.split)

text \<open>What a host may look at: primitives give the same answers in related worlds.\<close>

definition host_blind :: "('w \<Rightarrow> bool) \<Rightarrow> ('w \<Rightarrow> 'w \<Rightarrow> bool) \<Rightarrow> 'w eval_context \<Rightarrow> bool" where
  "host_blind I R X \<longleftrightarrow> (\<forall>name f args w w'. primitives (ctx_env X) name = Some f \<longrightarrow> I w \<longrightarrow> R w w' \<longrightarrow>
     same_run R (f args w) (f args w'))"

lemma same_step:
  assumes "same_run R r r'" and "no_abort I E P r"
    and "\<And>a w w'. r = (Inr a, w) \<Longrightarrow> I w \<Longrightarrow> P a \<Longrightarrow> R w w' \<Longrightarrow> same_run R (f a w) (g a w')"
  shows "same_run R (step_then r f) (step_then r' g)"
proof -
  obtain q w where r: "r = (q, w)" by (cases r)
  then obtain w' where r': "r' = (q, w')" "R w w'" using assms(1) by (auto elim: same_runE)
  show ?thesis using r r' assms(2,3) by (cases q) (auto simp: no_abort_def)
qed

lemma same_step_value:
  "R w w' \<Longrightarrow> (\<And>a. x = Inr a \<Longrightarrow> same_run R (f a w) (g a w')) \<Longrightarrow>
     same_run R (step_then (x, w) f) (step_then (x, w') g)"
  by (cases x) simp_all

lemma same_accessor:
  assumes "same_cells (ctx_arena X) B" and "safe (ctx_arena X) v"
    and "accessor = wsm_car \<or> accessor = wsm_cdr"
  shows "accessor_result (over X B) form accessor v = accessor_result X form accessor v"
proof -
  have "accessor B v = accessor (ctx_arena X) v" if "tag_of v = TAG_CONS"
  proof -
    obtain t where "repr (ctx_arena X) t" "word_of t = v" using assms(2) by (auto simp: safe_def)
    then have "is_cell (ctx_arena X) v" using that by (cases t) auto
    then show ?thesis using assms(1,3) by (auto simp: same_cells_def)
  qed
  then show ?thesis by (simp add: accessor_result_def)
qed

lemma same_call:
  assumes "host_blind I R X" and "I w" and "R w w'"
  shows "same_run R (call_primitive X name args w) (call_primitive X name args w')"
proof (cases "primitives (ctx_env X) name")
  case (Some f)
  then have "same_run R (f args w) (f args w')" using assms by (auto simp: host_blind_def)
  moreover obtain q v where "f args w = (q, v)" by fastforce
  ultimately show ?thesis
    using Some by (cases q) (auto simp: call_primitive_def elim!: same_runE split: stop.split)
qed (use assms in \<open>simp add: call_primitive_def\<close>)

lemma same_eval:
  assumes "same_cells (ctx_arena X) B"
  shows "host_safe I X \<Longrightarrow> host_blind I R X \<Longrightarrow> repr (ctx_arena X) t \<Longrightarrow> code_tree (ctx_symbols X) t \<Longrightarrow>
      I w \<Longrightarrow> R w w' \<Longrightarrow> same_run R (eval_tree X t w) (eval_tree (over X B) t w')"
    and "host_safe I X \<Longrightarrow> host_blind I R X \<Longrightarrow> repr (ctx_arena X) t \<Longrightarrow> code_tree (ctx_symbols X) t \<Longrightarrow>
      proper t \<Longrightarrow> I w \<Longrightarrow> R w w' \<Longrightarrow> same_run R (args_tree X t w) (args_tree (over X B) t w')"
    and "host_safe I X \<Longrightarrow> host_blind I R X \<Longrightarrow> repr (ctx_arena X) t \<Longrightarrow> code_tree (ctx_symbols X) t \<Longrightarrow>
      I w \<Longrightarrow> R w w' \<Longrightarrow> same_run R (cond_tree X t w) (cond_tree (over X B) t w')"
  using assms
proof (induction X t w and X t w and X t w arbitrary: w' and w' and w' rule: eval_tree_args_tree_cond_tree.induct)
  case (1 X v w)
  then show ?case by simp
next
  case (2 X p l r w)
  have r: "repr (ctx_arena X) r" "code_tree (ctx_symbols X) r" "proper r" using 2(6,7) by simp_all
  show ?case
  proof (cases "tag_of (word_of l) \<noteq> TAG_SYMBOL \<or> name_of (ctx_symbols X) (word_of l) = None")
    case True
    then show ?thesis using 2(9) by auto
  next
    case False
    then obtain name where l: "tag_of (word_of l) = TAG_SYMBOL" "name_of (ctx_symbols X) (word_of l) = Some name"
      by auto
    show ?thesis
    proof (cases "operator_of X name")
      case Op_Cond
      then show ?thesis using 2(1) [OF _ l(2) Op_Cond 2(4,5) r(1,2) 2(8-10)] l by simp
    next
      case Op_Quote
      then show ?thesis using l 2(9) by simp
    next
      case (Op_Accessor form accessor)
      have acc: "accessor = wsm_car \<or> accessor = wsm_cdr"
        using Op_Accessor by (auto simp: operator_of_def split: if_splits)
      have "same_run R (step_then (argument_tree r form, w) (\<lambda>t w.
            step_then (eval_tree X t w) (\<lambda>v w. (accessor_result X form accessor v, w))))
          (step_then (argument_tree r form, w') (\<lambda>t w.
            step_then (eval_tree (over X B) t w) (\<lambda>v w. (accessor_result (over X B) form accessor v, w))))"
      proof (rule same_step_value [of R, OF 2(9)])
        fix t
        assume t: "argument_tree r form = Inr t"
        have sub: "repr (ctx_arena X) t" "code_tree (ctx_symbols X) t"
          using argument_tree_repr [OF r(1) t] argument_tree_code [OF r(2) t] by simp_all
        have "same_run R (eval_tree X t w) (eval_tree (over X B) t w')"
          using 2(2) [OF _ l(2) Op_Accessor _ 2(4,5) sub 2(8-10)] t l(1) by simp
        moreover have "no_abort I error_text_ok (safe (ctx_arena X)) (eval_tree X t w)"
          by (rule eval_tree_safe(1) [OF 2(4) sub 2(8)])
        ultimately show "same_run R (step_then (eval_tree X t w) (\<lambda>v w. (accessor_result X form accessor v, w)))
            (step_then (eval_tree (over X B) t w') (\<lambda>v w. (accessor_result (over X B) form accessor v, w)))"
          by (rule same_step) (simp add: same_accessor [OF 2(10) _ acc])
      qed
      then show ?thesis using l Op_Accessor by simp
    next
      case (Op_Call f)
      have "same_run R (args_tree X r w) (args_tree (over X B) r w')"
        using 2(3) [OF _ l(2) Op_Call 2(4,5) r 2(8-10)] l(1) by simp
      moreover have "no_abort I error_text_ok (list_all (safe (ctx_arena X))) (args_tree X r w)"
        by (rule eval_tree_safe(2) [OF 2(4) r 2(8)])
      ultimately have "same_run R (step_then (args_tree X r w) (\<lambda>args w. call_primitive X f args w))
          (step_then (args_tree (over X B) r w') (\<lambda>args w. call_primitive (over X B) f args w))"
        by (rule same_step) (simp add: same_call [OF 2(5)])
      then show ?thesis using l Op_Call by simp
    qed
  qed
next
  case (3 X v w)
  then show ?case by simp
next
  case (4 X p l r w)
  have sub: "repr (ctx_arena X) l" "code_tree (ctx_symbols X) l" "repr (ctx_arena X) r"
    "code_tree (ctx_symbols X) r" "proper r" using 4(5-7) by simp_all
  have "same_run R (eval_tree X l w) (eval_tree (over X B) l w')" by (rule 4(1) [OF 4(3,4) sub(1,2) 4(8-10)])
  moreover have "no_abort I error_text_ok (safe (ctx_arena X)) (eval_tree X l w)"
    by (rule eval_tree_safe(1) [OF 4(3) sub(1,2) 4(8)])
  ultimately have "same_run R (step_then (eval_tree X l w) (\<lambda>v w. step_then (args_tree X r w) (\<lambda>vs w. (Inr (v # vs), w))))
      (step_then (eval_tree (over X B) l w') (\<lambda>v w. step_then (args_tree (over X B) r w) (\<lambda>vs w. (Inr (v # vs), w))))"
  proof (rule same_step)
    fix v w1 w1'
    assume v: "eval_tree X l w = (Inr v, w1)" "I w1" "R w1 w1'"
    have "same_run R (args_tree X r w1) (args_tree (over X B) r w1')"
      by (rule 4(2) [OF v(1) 4(3,4) sub(3-5) v(2,3) 4(10)])
    moreover have "no_abort I error_text_ok (list_all (safe (ctx_arena X))) (args_tree X r w1)"
      by (rule eval_tree_safe(2) [OF 4(3) sub(3-5) v(2)])
    ultimately show "same_run R (step_then (args_tree X r w1) (\<lambda>vs w. (Inr (v # vs), w)))
        (step_then (args_tree (over X B) r w1') (\<lambda>vs w. (Inr (v # vs), w)))"
      by (rule same_step) simp
  qed
  then show ?case by simp
next
  case (5 X v w)
  then show ?case by simp
next
  case (6 X p c r w)
  have c: "repr (ctx_arena X) c" "code_tree (ctx_symbols X) c" "repr (ctx_arena X) r" "code_tree (ctx_symbols X) r"
    using 6(6,7) by simp_all
  show ?case
  proof (cases "clause_tree c")
    case (Inr tb)
    obtain test body where clause: "clause_tree c = Inr (test, body)" using Inr by (cases tb) simp
    note sub = clause_tree_repr [OF c(1) clause] clause_tree_code [OF c(2) clause]
    have "same_run R (eval_tree X test w) (eval_tree (over X B) test w')"
      using 6(1) [OF _ refl 6(4,5) _ _ 6(8-10)] clause sub by simp
    moreover have "no_abort I error_text_ok (safe (ctx_arena X)) (eval_tree X test w)"
      using eval_tree_safe(1) [OF 6(4) _ _ 6(8)] sub by simp
    ultimately have "same_run R
        (step_then (eval_tree X test w) (\<lambda>v w. if is_truthy v then eval_tree X body w else cond_tree X r w))
        (step_then (eval_tree (over X B) test w')
          (\<lambda>v w. if is_truthy v then eval_tree (over X B) body w else cond_tree (over X B) r w))"
      by (rule same_step) (use 6(2,3) [OF _ refl _ _ 6(4,5)] clause sub c 6(10) in auto)
    then show ?thesis by (simp add: clause)
  qed (use 6(9) in simp)
qed

section \<open>Callbacks\<close>

text \<open>Worlds that agree on the host's state and on the table of the session at \<open>p\<close>.\<close>

definition agree :: "u64 \<Rightarrow> 'h world \<Rightarrow> 'h world \<Rightarrow> bool" where
  "agree p w w' \<longleftrightarrow> w_tables w p = w_tables w' p \<and> w_host w = w_host w'"

lemma same_wrap:
  "T p = T' p \<Longrightarrow> same_run (\<lambda>T T'. T p = T' p) (wrap_into T p add) (wrap_into T' p add)"
  by (auto simp: wrap_into_def split: option.split prod.split)

lemma same_boundary:
  assumes "call_session q = 0 \<or> call_session q = p" and "T p = T' p"
  shows "same_run (\<lambda>T T'. T p = T' p) (boundary pl q T) (boundary pl q T')"
  using assms(1)
  by (cases q)
    (auto simp: wsm_wrap_game_handle_def wsm_wrap_transient_string_def wsm_wrap_rational_def
      wsm_wrap_transient_rational_def wsm_unwrap_game_handle_def wsm_unwrap_rational_def assms(2)
      intro!: same_wrap split: option.split)

lemma same_program:
  assumes "codec_ok (pl_codec pl)" and "answers p args prog" and "T p = Some b" and "T p = T' p"
  shows "same_run (\<lambda>T T'. T p = T' p) (run_program pl prog T) (run_program pl prog T')"
  using assms(2-4)
proof (induction prog arbitrary: T T' b)
  case (Call q k)
  have own: "call_session q = 0 \<or> call_session q = p" using Call.prems(1) by simp
  obtain r es where r: "boundary pl q T = (Inr r, T(p \<mapsto> b @ es))" "plausible q r"
    using boundary_outcome [of pl T p b q] assms(1) Call.prems(2) own by auto
  obtain U where U: "boundary pl q T' = (Inr r, U)" "(T(p \<mapsto> b @ es)) p = U p"
    using same_boundary [of q p T T' pl, OF own Call.prems(3)] unfolding r(1) by (rule same_runE)
  have "answers p args (k r)" using Call.prems(1) r(2) by (cases r) simp
  then have "same_run (\<lambda>T T'. T p = T' p) (run_program pl (k r) (T(p \<mapsto> b @ es))) (run_program pl (k r) U)"
    by (rule Call.IH [where b = "b @ es", OF rangeI]) (use U(2) in simp_all)
  then show ?case using r(1) U(1) by simp
qed simp_all

lemma same_closure:
  assumes "codec_ok (pl_codec pl)" and "callback_ok p f" and "world_ok p T0 w" and "agree p w w'"
  shows "same_run (agree p) (host_closure pl f args w) (host_closure pl f args w')"
proof -
  obtain b where b: "w_tables w p = Some b" using assms(3) by (auto simp: world_ok_def)
  have host: "w_host w' = w_host w" and tables: "w_tables w p = w_tables w' p"
    using assms(4) by (simp_all add: agree_def)
  have "answers p (set args) (f args (w_host w))" using assms(2) by (simp add: callback_ok_def)
  from same_program [where T = "w_tables w" and T' = "w_tables w'", OF assms(1) this b tables]
  show ?thesis
    by (cases "run_program pl (f args (w_host w)) (w_tables w)";
        cases "run_program pl (f args (w_host w)) (w_tables w')")
      (auto simp: host_closure_def host agree_def split: sum.split)
qed

section \<open>Processes\<close>

definition alike :: "u64 \<Rightarrow> 'h process \<Rightarrow> 'h process \<Rightarrow> bool" where
  "alike p P Q \<longleftrightarrow> p_sessions P p = p_sessions Q p \<and> p_host P = p_host Q
     \<and> same_cells (p_arena P) (p_arena Q)"

lemma alike_clear: "alike p P Q \<Longrightarrow> alike p (clear_stage P p) (clear_stage Q p)"
  by (auto simp: alike_def clear_stage_def put_session_def split: option.split)

lemma alike_print:
  assumes "alike p P Q" and "safe (p_arena P) v"
  shows "print_stage pl P p v = print_stage pl Q p v"
proof -
  obtain t where t: "repr (p_arena P) t" "word_of t = v" using assms(2) by (auto simp: safe_def)
  have "same_cells (p_arena P) (p_arena Q)" using assms(1) by (simp add: alike_def)
  then have "arena_ok (p_arena P)" "arena_ok (p_arena Q)" "repr (p_arena Q) t"
    using same_repr t(1) same_cells_okD by blast+
  then show ?thesis
    using assms(1) t value_to_string_tree [of "p_arena P" t] value_to_string_tree [of "p_arena Q" t]
    by (auto simp: print_stage_def alike_def split: option.split)
qed

lemma alike_eval:
  assumes "codec_ok (pl_codec pl)" and "session_ok pl p S" and "alike p P Q" and "p_sessions P p = Some S"
    and "repr (p_arena P) t" and "code_tree (s_symbols S) t"
  shows "same_run (alike p) (eval_stage pl P S (word_of t)) (eval_stage pl Q S (word_of t))"
proof -
  let ?X = "\<lparr>ctx_spellings = pl_spellings pl, ctx_arena = p_arena P, ctx_env = s_env S,
    ctx_symbols = s_symbols S\<rparr>" and ?w = "\<lambda>P. \<lparr>w_tables = tables_of P, w_host = p_host P\<rparr>"
  have cells: "same_cells (p_arena P) (p_arena Q)" using assms(3) by (simp add: alike_def)
  have T: "tables_of P p = Some (s_boxed S)" using assms(4) by (simp add: tables_of_def)
  have start: "agree p (?w P) (?w Q)" using assms(3) by (simp add: agree_def alike_def tables_of_def)
  have world: "world_ok p (tables_of P) (?w P)"
    unfolding world_ok_def using T by (intro exI [of _ "s_boxed S"] exI [of _ "[]"]) (simp add: fun_upd_idem)
  have "host_safe (world_ok p (tables_of P)) ?X"
    using assms(1,2) host_closure_safe [of pl p]
    by (fastforce simp: host_safe_def session_ok_def intro: safe_atomic)
  moreover have "host_blind (world_ok p (tables_of P)) (agree p) ?X"
    using assms(1,2) same_closure [of pl p] by (fastforce simp: host_blind_def session_ok_def)
  ultimately have run: "same_run (agree p) (eval_tree ?X t (?w P)) (eval_tree (over ?X (p_arena Q)) t (?w Q))"
    using same_eval(1) [of ?X "p_arena Q" "world_ok p (tables_of P)" "agree p" t "?w P" "?w Q"] cells world start
      assms(5,6) by simp
  have "eval ?X eval_fuel (word_of t) (?w P) = eval_tree ?X t (?w P)"
    "eval (over ?X (p_arena Q)) eval_fuel (word_of t) (?w Q) = eval_tree (over ?X (p_arena Q)) t (?w Q)"
    using eval_fuel_enough [of ?X t] eval_fuel_enough [of "over ?X (p_arena Q)" t] assms(5)
      same_cells_okD [OF cells] same_repr [OF cells] by simp_all
  then show ?thesis
    using run assms(3)
    by (cases "eval_tree ?X t (?w P)"; cases "eval_tree (over ?X (p_arena Q)) t (?w Q)")
      (auto simp: eval_stage_def with_tables_def agree_def alike_def split: option.split)
qed

lemma alike_read:
  assumes "process_ok pl P" and "process_ok pl Q" and "arena_base (p_arena P) = arena_base (p_arena Q)"
    and "p_sessions P p = p_sessions Q p" and "p_host P = p_host Q"
  shows "same_run (alike p) (read_stage pl P p S text) (read_stage pl Q p S text)"
proof -
  let ?s = "\<lambda>P. \<lparr>rs_symbols = s_symbols S, rs_boxed = clear_transient (s_boxed S),
    rs_arena = wsm_arena_reset (p_arena P)\<rparr>"
  have "same_cells (wsm_arena_reset (p_arena P)) (wsm_arena_reset (p_arena Q))"
    using assms(1-3) by (intro same_reset) (simp_all add: process_ok_def)
  then have "same_read (?s P) (?s Q)" by (simp add: same_read_def)
  from same_read_one [OF this, of "pl_codec pl" "pl_unprintable pl" "text"] show ?thesis
    using assms(5) by (cases "read_one (pl_codec pl) (pl_unprintable pl) text (?s P)";
        cases "read_one (pl_codec pl) (pl_unprintable pl) text (?s Q)")
      (auto simp: read_stage_def same_read_def alike_def)
qed

text \<open>The whole evaluation, whatever its outcome.\<close>

lemma eval_str_alike:
  assumes "process_ok pl P" and "process_ok pl Q" and "arena_base (p_arena P) = arena_base (p_arena Q)"
    and "p_sessions P p = Some S" and "p_sessions Q p = Some S" and "p_host P = p_host Q"
    and "text_ok text" and "session_room pl S (length text)"
  shows "same_run (alike p) (eval_str pl P p S text) (eval_str pl Q p S text)"
proof -
  let ?s0 = "\<lparr>rs_symbols = s_symbols S, rs_boxed = clear_transient (s_boxed S),
    rs_arena = wsm_arena_reset (p_arena P)\<rparr>"
  have codec: "codec_ok (pl_codec pl)" using assms(1) by (simp add: process_ok_def)
  obtain r s where read: "read_stage pl P p S text = (r, put_session (P\<lparr>p_arena := rs_arena s\<rparr>) p
      (S\<lparr>s_symbols := rs_symbols s, s_boxed := rs_boxed s\<rparr>))"
    and reading: "reading (pl_codec pl) ?s0 [] s"
    and tree: "\<forall>w. r = Inr w \<longrightarrow> (\<exists>t. word_of t = w \<and> repr (rs_arena s) t \<and> code_tree (rs_symbols s) t)"
    by (rule read_stage_outcome [OF assms(1,4,7,8)])
  let ?S1 = "S\<lparr>s_symbols := rs_symbols s, s_boxed := rs_boxed s\<rparr>"
  let ?P1 = "put_session (P\<lparr>p_arena := rs_arena s\<rparr>) p ?S1"
  note after = session_after_reading [OF assms(1,4) reading]
  have "p_sessions P p = p_sessions Q p" using assms(4,5) by simp
  from alike_read [OF assms(1-3) this assms(6), of S "text"] obtain Q1 where
    Q1: "read_stage pl Q p S text = (r, Q1)" "alike p ?P1 Q1"
    unfolding read by (rule same_runE)
  show ?thesis
  proof (cases r)
    case (Inl e)
    then show ?thesis
      using read Q1 alike_clear by (cases e) (auto simp: eval_str_def)
  next
    case (Inr w)
    then obtain t where t: "word_of t = w" "repr (rs_arena s) t" "code_tree (rs_symbols s) t"
      using tree by blast
    have sess: "p_sessions ?P1 p = Some ?S1" "p_sessions Q1 p = Some ?S1"
      using Q1(2) by (simp_all add: alike_def)
    have rep: "repr (p_arena ?P1) t" "code_tree (s_symbols ?S1) t" "arena_ok (p_arena ?P1)"
      using t(2,3) after(2) by simp_all
    obtain q h es where q: "eval_stage pl ?P1 ?S1 w
        = (q, put_session (?P1\<lparr>p_host := h\<rparr>) p (?S1\<lparr>s_boxed := s_boxed ?S1 @ es\<rparr>))"
        "\<And>f. q \<noteq> Inl (Abort f)" "\<And>v. q = Inr v \<Longrightarrow> safe (p_arena ?P1) v"
      using eval_stage_outcome [OF codec after(1) sess(1) rep(3,1,2)] unfolding t(1) by metis
    let ?P2 = "put_session (?P1\<lparr>p_host := h\<rparr>) p (?S1\<lparr>s_boxed := s_boxed ?S1 @ es\<rparr>)"
    obtain Q2 where Q2: "eval_stage pl Q1 ?S1 w = (q, Q2)" "alike p ?P2 Q2"
      using alike_eval [OF codec after(1) Q1(2) sess(1) rep(1,2)] unfolding t(1) q(1) by (rule same_runE)
    show ?thesis
    proof (cases q)
      case (Inl e)
      then show ?thesis
        using read Q1 Inr sess q(1,2) Q2 alike_clear by (cases e) (auto simp: eval_str_def)
    next
      case (Inr v)
      have "print_stage pl ?P2 p v = print_stage pl Q2 p v"
        by (rule alike_print [OF Q2(2)]) (use q(3) Inr in simp)
      then show ?thesis
        using read Q1 \<open>r = Inr w\<close> sess q(1) Q2 alike_clear Inr
        by (auto simp: eval_str_def split: sum.split)
    qed
  qed
qed

text \<open>From the bytes of a C string.\<close>

lemma eval_string_alike:
  assumes "process_ok pl P" and "process_ok pl Q" and "arena_base (p_arena P) = arena_base (p_arena Q)"
    and "p_sessions P p = Some S" and "p_sessions Q p = Some S" and "p_host P = p_host Q"
    and "bytes_room pl S bytes"
  obtains r P' Q' where "wsm_eval_string pl P p (Some bytes) = (r, P')"
    "wsm_eval_string pl Q p (Some bytes) = (r, Q')"
    "p_sessions P' p = p_sessions Q' p" "p_host P' = p_host Q'"
proof (cases "c_to_str bytes")
  case None
  have "p \<noteq> 0" using assms(1,4) by (auto simp: process_ok_def)
  then show thesis
    by (intro that [of "and_then (catch_unwind_or (lit ''error: internal panic during eval'')
          (Inr (lit ''error: source is not valid UTF-8''))) (\<lambda>message. Inr (into_c_string message))" P Q])
      (simp_all add: wsm_eval_string_def None assms(4-6))
next
  case (Some t)
  have p: "p \<noteq> 0" using assms(1,4) by (auto simp: process_ok_def)
  have "session_room pl S (length t)" using assms(7) Some by (simp add: bytes_room_def)
  note same = eval_str_alike [OF assms(1-6) c_to_str_text [OF Some] this]
  obtain r P' where P': "eval_str pl P p S t = (r, P')" by fastforce
  obtain Q' where Q': "eval_str pl Q p S t = (r, Q')" "alike p P' Q'"
    using same unfolding P' by (rule same_runE)
  show thesis
    by (rule that [of "and_then (catch_unwind_or (lit ''error: internal panic during eval'') r)
          (\<lambda>message. Inr (into_c_string message))" P' Q'])
      (use P' Q' p Some assms(4,5) in \<open>simp_all add: wsm_eval_string_def alike_def\<close>)
qed

end
