(* ===== verification/Callers.thy ===== *)
theory Callers
  imports C_Strings
begin

text \<open>
  Every sequence of calls that a C caller can make, the strings included that evaluations hand
  out and \<open>wsm_free_string\<close> takes back: what the caller owns after a sequence is a function of the
  sequence alone, and all of it is readable text.
\<close>

section \<open>Actions and steps\<close>

datatype c_action = Enters | Hands_Out u64 | Takes_Back u64

text \<open>
  \<open>enters\<close>: an entry point without a string in its result. \<open>null\<close>: an evaluation with a null
  pointer for the session or the source, which answers with an error text. The allocator's
  addresses \<open>q\<close> are new and not null.
\<close>

inductive c_step :: "platform \<Rightarrow> 'h c_side \<Rightarrow> c_action \<Rightarrow> 'h c_side \<Rightarrow> bool" for pl where
  enters: "api_step pl (c_process C) P \<Longrightarrow> c_step pl C Enters (C\<lparr>c_process := P\<rparr>)"
| eval: "p_sessions (c_process C) p = Some S \<Longrightarrow> bytes_room pl S bytes \<Longrightarrow> q \<noteq> 0 \<Longrightarrow> c_strings C q = None \<Longrightarrow>
    wsm_eval_string_raw pl q C p (Some bytes) = (Inr r, D) \<Longrightarrow> c_step pl C (Hands_Out q) D"
| null: "p = 0 \<or> source = None \<Longrightarrow> q \<noteq> 0 \<Longrightarrow> c_strings C q = None \<Longrightarrow>
    wsm_eval_string_raw pl q C p source = (Inr r, D) \<Longrightarrow> c_step pl C (Hands_Out q) D"
| free: "wsm_free_string C s = (Inr (), D) \<Longrightarrow> c_step pl C (Takes_Back s) D"

inductive_cases takes_back: "c_step pl C (Takes_Back s) D"

text \<open>Runs, the last action at the end of the list.\<close>

inductive c_run :: "platform \<Rightarrow> 'h c_side \<Rightarrow> c_action list \<Rightarrow> 'h c_side \<Rightarrow> bool" for pl C where
  start: "c_run pl C [] C"
| step: "c_run pl C as D \<Longrightarrow> c_step pl D a E \<Longrightarrow> c_run pl C (as @ [a]) E"

inductive_cases c_run_last: "c_run pl C (as @ [a]) E"

section \<open>Ownership\<close>

fun own :: "u64 set \<Rightarrow> c_action \<Rightarrow> u64 set" where
  "own X Enters = X"
| "own X (Hands_Out q) = insert q X"
| "own X (Takes_Back q) = X - {q}"

definition owned :: "c_action list \<Rightarrow> u64 set" where
  "owned as = foldl own {} as"

lemma owned_simps [simp]: "owned [] = {}" "owned (as @ [a]) = own (owned as) a"
  by (simp_all add: owned_def)

definition caller_ok :: "platform \<Rightarrow> u64 set \<Rightarrow> 'h c_side \<Rightarrow> bool" where
  "caller_ok pl X C \<longleftrightarrow> process_ok pl (c_process C) \<and> dom (c_strings C) = X \<and> 0 \<notin> X
     \<and> (\<forall>q bytes. c_strings C q = Some bytes \<longrightarrow> (\<exists>m. text_ok m \<and> bytes = utf8_encode m))"

lemma hand_out:
  assumes "caller_ok pl X C" and "q \<noteq> 0" and "process_ok pl P" and "text_ok m"
  shows "caller_ok pl (insert q X) \<lparr>c_process = P, c_strings = (c_strings C)(q \<mapsto> utf8_encode m)\<rparr>"
  using assms by (auto simp: caller_ok_def)

lemma eval_raw_cases:
  assumes "wsm_eval_string_raw pl q C p source = (Inr r, D)"
  obtains bytes P where "wsm_eval_string pl (c_process C) p source = (Inr bytes, P)"
    "D = \<lparr>c_process = P, c_strings = (c_strings C)(q \<mapsto> bytes)\<rparr>"
  using assms by (auto simp: wsm_eval_string_raw_def split: prod.splits sum.splits)

lemma null_text: "p = 0 \<or> source = None \<Longrightarrow> \<exists>m. text_ok m \<and> wsm_eval_string pl P p source = (Inr (utf8_encode m), P)"
proof -
  assume "p = 0 \<or> source = None"
  moreover have "text_ok (lit ''error: null session or source pointer'')" by simp
  ultimately show ?thesis
    using into_c_string_text by (intro exI [of _ "lit ''error: null session or source pointer''"])
      (auto simp: wsm_eval_string_def split: option.split simp del: lit_simps)
qed

lemma c_step_ok:
  assumes "c_step pl C a D" and "caller_ok pl X C"
  shows "caller_ok pl (own X a) D"
  using assms(1)
proof (cases rule: c_step.cases)
  case (enters P)
  then show ?thesis using assms(2) api_step_ok by (auto simp: caller_ok_def)
next
  case (eval p S bytes q r)
  have ok: "process_ok pl (c_process C)" using assms(2) by (simp add: caller_ok_def)
  obtain out P where e: "wsm_eval_string pl (c_process C) p (Some bytes) = (Inr out, P)"
      "D = \<lparr>c_process = P, c_strings = (c_strings C)(q \<mapsto> out)\<rparr>"
    by (rule eval_raw_cases [OF eval(6)])
  obtain m where "out = utf8_encode m" "text_ok m" "process_ok pl P"
    using ok eval(2,3) by (cases rule: eval_string_outcome) (use e(1) in auto)
  then show ?thesis using hand_out [OF assms(2) eval(4)] e(2) eval(1) by simp
next
  case (null p source q r)
  obtain m where m: "text_ok m" "wsm_eval_string pl (c_process C) p source = (Inr (utf8_encode m), c_process C)"
    using null_text [OF null(2)] by blast
  obtain out P where e: "wsm_eval_string pl (c_process C) p source = (Inr out, P)"
      "D = \<lparr>c_process = P, c_strings = (c_strings C)(q \<mapsto> out)\<rparr>"
    by (rule eval_raw_cases [OF null(5)])
  have "process_ok pl P" using assms(2) m(2) e(1) by (simp add: caller_ok_def)
  then show ?thesis using hand_out [OF assms(2) null(3) _ m(1)] m(2) e null(1) by simp
next
  case (free s)
  then show ?thesis
    using assms(2) by (auto simp: wsm_free_string_def caller_ok_def split: if_splits option.splits)
qed

lemma c_run_ok: "c_run pl C as D \<Longrightarrow> caller_ok pl {} C \<Longrightarrow> caller_ok pl (owned as) D"
  by (induction rule: c_run.induct) (simp_all add: c_step_ok)

lemma caller_ok_reads:
  assumes "caller_ok pl X C"
  shows "q \<in> X \<Longrightarrow> \<exists>m. text_ok m \<and> read_c_string C q = Inr m"
    and "q \<noteq> 0 \<Longrightarrow> q \<notin> X \<Longrightarrow> wsm_free_string C q = (Inl (Dangling_String q), C)"
    and "q \<in> X \<Longrightarrow> \<exists>D. wsm_free_string C q = (Inr (), D) \<and> c_process D = c_process C"
proof -
  show "\<exists>m. text_ok m \<and> read_c_string C q = Inr m" if "q \<in> X"
  proof -
    obtain bytes where "c_strings C q = Some bytes" using assms \<open>q \<in> X\<close> by (auto simp: caller_ok_def)
    moreover from this obtain m where "text_ok m" "bytes = utf8_encode m"
      using assms unfolding caller_ok_def by blast
    ultimately show ?thesis by (simp add: read_c_string_def c_to_str_encode)
  qed
  show "wsm_free_string C q = (Inl (Dangling_String q), C)" if "q \<noteq> 0" "q \<notin> X"
    using assms that by (auto simp: caller_ok_def wsm_free_string_def split: option.split)
  show "\<exists>D. wsm_free_string C q = (Inr (), D) \<and> c_process D = c_process C" if "q \<in> X"
    using assms that by (auto simp: caller_ok_def wsm_free_string_def split: option.split)
qed

text \<open>In a run that goes through, only strings that are owned are given back.\<close>

lemma c_run_frees:
  assumes "c_run pl C (as @ [Takes_Back q]) E" and "caller_ok pl {} C"
  shows "q = 0 \<or> q \<in> owned as"
proof -
  obtain D where D: "c_run pl C as D" "c_step pl D (Takes_Back q) E" using assms(1) by (rule c_run_last) auto
  from D(2) have "wsm_free_string D q = (Inr (), E)" by (rule takes_back)
  then show ?thesis using caller_ok_reads(2) [OF c_run_ok [OF D(1) assms(2)], of q] by auto
qed

text \<open>The caller at the start of the process.\<close>

definition caller_start :: "u64 \<Rightarrow> 'h \<Rightarrow> 'h c_side" where
  "caller_start base h = \<lparr>c_process = process_start base h, c_strings = (\<lambda>_. None)\<rparr>"

lemma caller_start_ok: "codec_ok (pl_codec pl) \<Longrightarrow> base_ok base \<Longrightarrow> caller_ok pl {} (caller_start base h)"
  by (simp add: caller_ok_def caller_start_def process_start_ok)

text \<open>One call, followed by its \<open>wsm_free_string\<close>.\<close>

lemma result_string_owned:
  assumes "process_ok pl (c_process C)" and "p_sessions (c_process C) p = Some S"
    and "bytes_room pl S bytes" and "\<not> overflowing bytes" and "q \<noteq> 0" and "c_strings C q = None"
  shows "\<exists>m D E. wsm_eval_string_raw pl q C p (Some bytes) = (Inr q, D) \<and> read_c_string D q = Inr m
    \<and> (\<forall>s. s \<noteq> q \<longrightarrow> c_strings D s = c_strings C s)
    \<and> wsm_free_string D q = (Inr (), E) \<and> c_strings E = c_strings C
    \<and> wsm_free_string E q = (Inl (Dangling_String q), E)"
proof -
  obtain m P where m: "wsm_eval_string pl (c_process C) p (Some bytes) = (Inr (utf8_encode m), P)" "text_ok m"
    using assms(1-3) by (cases rule: eval_string_outcome) (use assms(4) in auto)
  obtain D where D: "wsm_eval_string_raw pl q C p (Some bytes) = (Inr q, D)" "read_c_string D q = Inr m"
      "c_process D = P" "wsm_free_string D q = (Inr (), C\<lparr>c_process := P\<rparr>)"
      "\<And>s. s \<noteq> q \<Longrightarrow> c_strings D s = c_strings C s"
    by (rule string_owned [OF m assms(5,6)]) blast
  then show ?thesis using freed_twice [OF assms(5) D(4)] by auto
qed

end
