(* ===== verification/Triggers.thy ===== *)
theory Triggers
  imports Cell_Store
begin

text \<open>
  The two programs of \<open>host-runtime/src/bin\<close> that provoke a fatal exit of the nucleus on
  purpose, as the subprocess tests \<open>tests/oom_path.rs\<close> and \<open>tests/car_cdr_type_check.rs\<close> run
  them (\<open>Subprocesses\<close>): what the process does when the program starts with a freshly loaded arena.
\<close>

text \<open>\<open>oom_trigger.rs\<close>: \<open>for i in 0..300 { last = wsm_cons(null, i, last) }\<close> from \<open>last = 1\<close>.\<close>

fun oom_loop :: "nat \<Rightarrow> nat \<Rightarrow> arena \<Rightarrow> u64 \<Rightarrow> fatal + (u64 \<times> arena)" where
  "oom_loop i 0 A prev = Inr (prev, A)"
| "oom_loop i (Suc n) A prev =
     and_then (wsm_cons A (of_nat i) prev) (\<lambda>(p, A'). oom_loop (Suc i) n A' p)"

definition oom_trigger_main :: "u64 \<Rightarrow> fatal + u64" where
  "oom_trigger_main base = and_then (oom_loop 0 300 (arena_load base) 1) (\<lambda>(p, A). Inr p)"

definition car_type_error_trigger_main :: "u64 \<Rightarrow> fatal + u64" where
  "car_type_error_trigger_main base = wsm_car (arena_load base) (encode_fixnum 5)"

text \<open>The loop is the store's list of words, built from its end.\<close>

lemma oom_loop_alloc_words:
  "oom_loop i n A prev = and_then (cells.alloc_words A prev (map of_nat [i..<i + n])) Inr"
proof (induction n arbitrary: i A prev)
  case (Suc n)
  have "[i..<i + Suc n] = i # [Suc i..<Suc i + n]" by (simp add: upt_conv_Cons)
  then show ?case
    using Suc.IH by (cases "wsm_cons A (of_nat i) prev") auto
qed simp

lemma oom_loop_full:
  assumes "arena_ok A" and "arena_free A < n"
  shows "oom_loop i n A prev = Inl (Process_Exit 97 1 0 0)"
  using cells.alloc_words_full [OF assms(1), of "map of_nat [i..<i + n]" prev] assms(2)
  by (simp add: oom_loop_alloc_words)

lemma oom_loop_ok:
  assumes "arena_ok A" and "n \<le> arena_free A"
  shows "\<exists>p A'. oom_loop i n A prev = Inr (p, A') \<and> arena_ok A' \<and> arena_free A = arena_free A' + n"
  using cells.alloc_words_ok [OF assms(1), of "map of_nat [i..<i + n]" prev] assms(2)
  by (auto simp: oom_loop_alloc_words)

end
