(* ===== verification/Subprocesses.thy ===== *)
theory Subprocesses
  imports Recovery Bench Triggers
begin

text \<open>
  The integration tests of \<open>host-runtime/tests\<close> that run a program of \<open>src/bin\<close> as a subprocess and
  look at its exit status and at what it printed (\<open>oom_path.rs\<close>, \<open>car_cdr_type_check.rs\<close>,
  \<open>reader_capacity_error.rs\<close>), the guard over the names of the product scripts
  (\<open>ukrainian_surface_guard.rs\<close>), and the part of \<open>bench.rs\<close> that runs every section as a
  subprocess.
\<close>

section \<open>Processes and what they print\<close>

record process_result =
  out_status :: "int option"
  out_stdout :: rstring
  out_stderr :: rstring

definition newline :: rstring where "newline = [10]"

text \<open>
  \<open>eprintln!\<close> in \<open>wsm_fail_win64\<close>, and how a program ends: with what it printed, with the exit of
  the nucleus, with a panic (status 101 and the panic's own report, a parameter), or killed without
  a status. The programs print to stdout only at their end.
\<close>

definition fail_report :: "u32 \<Rightarrow> u64 \<Rightarrow> u64 \<Rightarrow> rstring" where
  "fail_report code a b =
     lit ''wsm-my-lisp-cyberpunk-dll: unrecoverable condition (code='' @ dec_nat (unat code)
       @ lit '', a='' @ dec_nat (unat a) @ lit '', b='' @ dec_nat (unat b) @ lit '')'' @ newline"

definition process_output :: "rstring \<Rightarrow> fatal + rstring \<Rightarrow> process_result" where
  "process_output panic_report r =
     (case r of
        Inr printed \<Rightarrow> \<lparr>out_status = Some 0, out_stdout = printed, out_stderr = []\<rparr>
      | Inl (Process_Exit status code a b) \<Rightarrow>
          \<lparr>out_status = Some status, out_stdout = [], out_stderr = fail_report code a b\<rparr>
      | Inl Rust_Panic \<Rightarrow> \<lparr>out_status = Some 101, out_stdout = [], out_stderr = panic_report\<rparr>
      | Inl _ \<Rightarrow> \<lparr>out_status = None, out_stdout = [], out_stderr = []\<rparr>)"

text \<open>The programs with their last line, \<open>println!\<close>.\<close>

definition oom_trigger :: "u64 \<Rightarrow> fatal + rstring" where
  "oom_trigger base = and_then (oom_trigger_main base) (\<lambda>last_word.
     Inr (lit ''did not exhaust the arena after 300 allocations: '' @ dec_nat (unat last_word) @ newline))"

definition car_type_error_trigger :: "u64 \<Rightarrow> fatal + rstring" where
  "car_type_error_trigger base = and_then (car_type_error_trigger_main base) (\<lambda>result.
     Inr (lit ''did not hit wsm_car'' @ [39] @ lit ''s type check, got raw word: '' @ dec_nat (unat result) @ newline))"

definition reader_capacity_trigger :: "platform \<Rightarrow> u64 \<Rightarrow> u64 \<Rightarrow> 'h c_side \<Rightarrow> fatal + rstring" where
  "reader_capacity_trigger pl p q C = and_then (fst (reader_capacity_trigger_main pl p q C)) (\<lambda>_.
     Inr (lit ''safe-eval-boundary-recovered'' @ newline))"

section \<open>The tests that run them\<close>

fun contains :: "rstring \<Rightarrow> rstring \<Rightarrow> bool" where
  "contains [] part \<longleftrightarrow> part = []"
| "contains (c # cs) part \<longleftrightarrow> take (length part) (c # cs) = part \<or> contains cs part"

definition trim :: "rstring \<Rightarrow> rstring" where
  "trim s = rev (dropWhile is_whitespace (rev (dropWhile is_whitespace s)))"

definition arena_exhaustion_exits_97 :: "process_result \<Rightarrow> fatal + unit" where
  "arena_exhaustion_exits_97 result =
     and_then (panic_unless (out_status result = Some 97)) (\<lambda>_.
     and_then (panic_unless (contains (out_stderr result) (lit ''unrecoverable condition''))) (\<lambda>_.
     and_then (panic_unless (contains (out_stderr result) (lit ''code=1''))) (\<lambda>_.
       panic_unless (out_stdout result = []))))"

definition car_of_non_cons_exits_97 :: "process_result \<Rightarrow> fatal + unit" where
  "car_of_non_cons_exits_97 result =
     and_then (panic_unless (out_status result = Some 97)) (\<lambda>_.
     and_then (panic_unless (contains (out_stderr result) (lit ''unrecoverable condition''))) (\<lambda>_.
     and_then (panic_unless (contains (out_stderr result) (lit ''code=2''))) (\<lambda>_.
       panic_unless (out_stdout result = []))))"

definition malformed_lisp_cannot_terminate :: "process_result \<Rightarrow> fatal + unit" where
  "malformed_lisp_cannot_terminate result =
     and_then (panic_unless (out_status result = Some 0)) (\<lambda>_.
       panic_unless (trim (out_stdout result) = lit ''safe-eval-boundary-recovered''))"

lemma contains_prefix: "take (length part) s = part \<Longrightarrow> contains s part"
  by (cases s) auto

lemma contains_append: "contains s part \<Longrightarrow> contains (x @ s) part"
  by (induction x) auto

lemma contains_in: "contains (x @ part @ y) part"
  by (rule contains_append) (simp add: contains_prefix)

lemma fail_report_contains:
  "contains (fail_report code a b) (lit ''unrecoverable condition'')"
  "contains (fail_report code a b) (lit ''code='' @ dec_nat (unat code))"
proof -
  let ?rest = "lit '', a='' @ dec_nat (unat a) @ lit '', b='' @ dec_nat (unat b) @ lit '')'' @ newline"
  have "fail_report code a b = lit ''wsm-my-lisp-cyberpunk-dll: '' @ lit ''unrecoverable condition''
      @ (lit '' (code='' @ dec_nat (unat code) @ ?rest)" by (simp add: fail_report_def)
  then show "contains (fail_report code a b) (lit ''unrecoverable condition'')"
    by (simp only: contains_in)
  have "fail_report code a b = lit ''wsm-my-lisp-cyberpunk-dll: unrecoverable condition (''
      @ (lit ''code='' @ dec_nat (unat code)) @ ?rest" by (simp add: fail_report_def)
  then show "contains (fail_report code a b) (lit ''code='' @ dec_nat (unat code))"
    by (simp only: contains_in)
qed

lemma digit_words: "dec_nat (unat (1 :: u32)) = lit ''1''" "dec_nat (unat (2 :: u32)) = lit ''2''"
  by (simp_all add: dec_nat_def digits_of.simps digit_char_def)

lemma oom_path_test:
  assumes "base_ok base"
  shows "arena_exhaustion_exits_97 (process_output r (oom_trigger base)) = Inr ()"
proof -
  have "oom_loop 0 300 (arena_load base) 1 = Inl (Process_Exit 97 1 0 0)"
    by (rule oom_loop_full [OF arena_load_ok [OF assms]])
      (simp add: arena_free_def arena_used_def arena_load_def)
  then have "process_output r (oom_trigger base)
      = \<lparr>out_status = Some 97, out_stdout = [], out_stderr = fail_report 1 0 0\<rparr>"
    by (simp add: oom_trigger_def oom_trigger_main_def process_output_def)
  then show ?thesis
    using fail_report_contains(1) [of 1 0 0] fail_report_contains(2) [of 1 0 0]
    by (simp add: arena_exhaustion_exits_97_def panic_unless_def digit_words [simplified] del: contains.simps)
qed

lemma car_type_error_test:
  "car_of_non_cons_exits_97 (process_output r (car_type_error_trigger base)) = Inr ()"
proof -
  have "tag_of (encode_fixnum 5) \<noteq> 0" by (simp add: tag_defs)
  then have "wsm_car (arena_load base) (encode_fixnum 5) = Inl (Process_Exit 97 2 0 0)"
    by (simp add: wsm_car_def wsm_fail_win64_def tag_of_def)
  then have "process_output r (car_type_error_trigger base)
      = \<lparr>out_status = Some 97, out_stdout = [], out_stderr = fail_report 2 0 0\<rparr>"
    by (simp add: car_type_error_trigger_def car_type_error_trigger_main_def process_output_def)
  then show ?thesis
    using fail_report_contains(1) [of 2 0 0] fail_report_contains(2) [of 2 0 0]
    by (simp add: car_of_non_cons_exits_97_def panic_unless_def digit_words [simplified] del: contains.simps)
qed

lemma reader_capacity_test:
  assumes "trigger_spellings (pl_spellings pl)" and "can_open pl p q 300 C"
  shows "malformed_lisp_cannot_terminate (process_output r (reader_capacity_trigger pl p q C)) = Inr ()"
proof -
  have "fst (reader_capacity_trigger_main pl p q C) = Inr ()" using trigger_run [OF assms] by auto
  moreover have "trim (lit ''safe-eval-boundary-recovered'' @ newline) = lit ''safe-eval-boundary-recovered''"
    by (simp add: trim_def newline_def is_whitespace_def)
  ultimately show ?thesis
    by (simp add: malformed_lisp_cannot_terminate_def reader_capacity_trigger_def process_output_def
        panic_unless_def del: lit_simps)
qed

section \<open>The guard over script names\<close>

text \<open>
  \<open>Path::extension\<close> and \<open>Path::file_stem\<close> of a directory entry: the parts after and before the last
  dot; a name without a dot, or with its only dot in front, has no extension.
\<close>

definition split_name :: "rstring \<Rightarrow> rstring \<times> rstring option" where
  "split_name name =
     (let r = rev name; ext = takeWhile (\<lambda>c. c \<noteq> 46) r; before = dropWhile (\<lambda>c. c \<noteq> 46) r
      in if length before \<le> 1 then (name, None) else (rev (tl before), Some (rev ext)))"

definition is_ascii_only_stem :: "rstring \<Rightarrow> bool" where
  "is_ascii_only_stem stem \<longleftrightarrow> list_all (\<lambda>c. c < 128) stem"

definition mii :: rstring where "mii = [0x43C, 0x456, 0x439]"

text \<open>One turn of the loop: the offending name, or nothing.\<close>

definition offender :: "rstring \<Rightarrow> rstring list" where
  "offender name =
     (case split_name name of
        (stem, None) \<Rightarrow> []
      | (stem, Some ext) \<Rightarrow>
          if ext \<noteq> lit ''my'' \<and> ext \<noteq> mii then []
          else if is_ascii_only_stem stem then [name] else [])"

definition product_scripts_have_ukrainian_names :: "rstring list \<Rightarrow> fatal + unit" where
  "product_scripts_have_ukrainian_names entries =
     (let offenders = concat (map offender entries) in panic_unless (offenders = []))"

lemma offender_Nil:
  "offender name = [] \<longleftrightarrow> (\<forall>stem ext. split_name name = (stem, Some ext) \<longrightarrow>
     ext = lit ''my'' \<or> ext = mii \<longrightarrow> \<not> is_ascii_only_stem stem)"
proof (cases "split_name name")
  case (Pair stem ext)
  then show ?thesis by (cases ext) (simp_all add: offender_def del: lit_simps)
qed

lemma guard_exact:
  "product_scripts_have_ukrainian_names entries = Inr () \<longleftrightarrow>
     (\<forall>name \<in> set entries. \<forall>stem ext. split_name name = (stem, Some ext) \<longrightarrow>
        ext = lit ''my'' \<or> ext = mii \<longrightarrow> \<not> is_ascii_only_stem stem)"
  by (simp add: product_scripts_have_ukrainian_names_def panic_unless_def Let_def offender_Nil del: lit_simps)

text \<open>The directory \<open>scripts/\<close> of the repository: every script is English, and none is looked at.\<close>

definition repository_scripts :: "rstring list" where
  "repository_scripts = map lit [''benchmark-dispatch-empty.lisp'', ''benchmark-dispatch-player-absent.lisp'',
     ''benchmark-dispatch-player-present-log.lisp'', ''benchmark-dispatch-player-present-silent.lisp'',
     ''dispatcher.lisp'', ''first-slice.lisp'', ''scenario-child.lisp'', ''scenario-log.lisp'',
     ''scenario-player-class.lisp'', ''scenario-position.lisp'', ''scenario-silent.lisp'']"

lemma guard_skips_the_scripts:
  "product_scripts_have_ukrainian_names repository_scripts = Inr ()"
  "list_all is_ascii_only_stem repository_scripts"
proof -
  have "split_name name = (stem, Some ext) \<Longrightarrow> name \<in> set repository_scripts \<Longrightarrow> ext = lit ''lisp''" for name stem ext
    by (auto simp: repository_scripts_def split_name_def Let_def)
  moreover have "lit ''lisp'' \<noteq> lit ''my''" "lit ''lisp'' \<noteq> mii" by (simp_all add: mii_def)
  ultimately show "product_scripts_have_ukrainian_names repository_scripts = Inr ()"
    unfolding guard_exact by metis
  show "list_all is_ascii_only_stem repository_scripts"
    by (simp add: repository_scripts_def is_ascii_only_stem_def)
qed

section \<open>All sections of the benchmark\<close>

text \<open>
  \<open>Command::status\<close> of a section: no process, or whether it succeeded and the \<open>{:?}\<close> of its status.
  A section that fails is reported on stderr and the others still run.
\<close>

fun drive_sections :: "(rstring \<Rightarrow> (bool \<times> rstring) option) \<Rightarrow> rstring list \<Rightarrow> fatal + rstring list" where
  "drive_sections spawn [] = Inr []"
| "drive_sections spawn (s # ss) =
     (case spawn s of
        None \<Rightarrow> Inl Rust_Panic
      | Some (success, status) \<Rightarrow>
          and_then (drive_sections spawn ss) (\<lambda>reports.
            Inr (if success then reports
                 else (lit ''section '' @ s @ lit '' exited with '' @ status @ lit '' -- see output above'') # reports)))"

definition bench_entry ::
  "platform \<Rightarrow> u64 \<Rightarrow> u64 \<Rightarrow> (rstring \<Rightarrow> (bool \<times> rstring) option) \<Rightarrow> rstring option \<Rightarrow> 'h c_side \<Rightarrow>
     fatal + rstring list" where
  "bench_entry pl p q spawn argument C =
     (let arg = (case argument of None \<Rightarrow> lit ''all'' | Some a \<Rightarrow> a)
      in if arg = lit ''all''
         then drive_sections spawn [lit ''a'', lit ''b'', lit ''c'', lit ''boxed'']
         else and_then (bench_main pl p q arg C) (\<lambda>_. Inr []))"

text \<open>A subprocess starts the same program from a start of its own.\<close>

definition subprocess ::
  "(rstring \<Rightarrow> process_result) \<Rightarrow> (int option \<Rightarrow> rstring) \<Rightarrow> rstring \<Rightarrow> (bool \<times> rstring) option" where
  "subprocess program show_status s =
     Some (out_status (program s) = Some 0, show_status (out_status (program s)))"

definition bench_program :: "platform \<Rightarrow> u64 \<Rightarrow> u64 \<Rightarrow> rstring \<Rightarrow> 'h c_side \<Rightarrow> rstring \<Rightarrow> process_result" where
  "bench_program pl p q panic_report C arg =
     process_output panic_report (and_then (bench_main pl p q arg C) (\<lambda>_. Inr []))"

lemma sections_differ:
  "lit ''all'' \<notin> {lit ''a'', lit ''b'', lit ''c'', lit ''boxed''}"
  by simp

lemma drive_all_succeed:
  "(\<And>s. s \<in> set ss \<Longrightarrow> \<exists>x. spawn s = Some (True, x)) \<Longrightarrow> drive_sections spawn ss = Inr []"
  by (induction ss) fastforce+

lemma bench_all_runs:
  assumes "spelled (pl_spellings pl) (lit ''noop'') = Op_Call (lit ''noop'')"
    and "can_open pl p q 1200 C" and "1000000 \<le> boxed_room (pl_codec pl) []"
  shows "bench_entry pl p q (subprocess (bench_program pl p q report C) show_status) None D = Inr []"
proof -
  have "drive_sections (subprocess (bench_program pl p q report C) show_status)
      [lit ''a'', lit ''b'', lit ''c'', lit ''boxed''] = Inr []"
    by (rule drive_all_succeed)
      (auto simp: subprocess_def bench_program_def process_output_def bench_runs [OF assms] simp del: lit_simps)
  then show ?thesis by (simp add: bench_entry_def Let_def del: lit_simps drive_sections.simps)
qed

end
