(* ===== verification/Spec2Isabelle.thy ===== *)
theory Spec2Isabelle
  imports Examples_Adapter Bridge Canon_Spellings Isolation Callers Asserting Subprocesses
begin

text \<open>
  A model of the host runtime of my-lisp-cyberpunk, the Rust crate \<open>host-runtime/\<close> with its
  assembly nucleus: a small Lisp evaluator that a game process embeds through a C interface.
  Text comes in through \<open>wsm_eval_string\<close>, is read into cons cells of one fixed arena, evaluated
  with host callbacks as primitives, printed, and returned as text. The crate's claim
  (\<open>docs/safe-eval-boundary.md\<close>) is that no malformed form ends the process; C1, C2 and C9 say
  exactly which texts it holds for.

  \<^bold>\<open>Theories and code.\<close>
  \<^item> \<open>Prelude\<close>: machine types, the ways to stop without a value (\<open>fatal\<close>, \<open>stop\<close>), \<open>and_then\<close>.
  \<^item> \<open>Word_Encoding\<close> (\<open>word.rs\<close>, tags and fixnums), \<open>Symbols\<close> (\<open>SymbolTable\<close>), \<open>Boxed\<close>
    (\<open>BoxedTable\<close>), \<open>Rationals\<close> (\<open>reduce\<close> and the fractions of the table).
  \<^item> \<open>Rust_Text\<close>, \<open>Utf8\<close>: what the code uses of Rust's standard library on text, and C strings.
  \<^item> \<open>Nucleus\<close> (\<open>asm/nucleus-win64.s\<close>, \<open>lib.rs\<close>): the arena of 256 cells and its primitives;
    \<open>Cell_Store\<close>: words as trees (\<open>node\<close>, \<open>repr\<close>) and the locale \<open>pair_store\<close>.
  \<^item> \<open>Reader\<close> (\<open>reader.rs\<close>); \<open>Forms\<close>: the abstract syntax, its tokens, text and cells, and
    \<open>denotes\<close>; \<open>Reader_Correct\<close>, \<open>Reader_Safe\<close>, \<open>Reader_Exact\<close>: correctness on forms, the invariant on any
    text, and the exact verdict (\<open>verdict\<close>) that the shape of the tokens gives every text.
  \<^item> \<open>Evaluator\<close> (\<open>eval.rs\<close>); \<open>Evaluator_Correct\<close>: the meaning \<open>eval_tree\<close>, the refinement, safety.
  \<^item> \<open>Printer\<close> (\<open>printer.rs\<close>); \<open>Printer_Correct\<close>: the text of a tree, round trip, opacity.
  \<^item> \<open>Host\<close> (\<open>ffi.rs\<close>, wrapping, unwrapping, the closure around a callback), \<open>Host_Correct\<close>;
    \<open>Ffi\<close> (\<open>ffi.rs\<close>, sessions and evaluation), \<open>Ffi_Correct\<close>, \<open>Eval_String\<close>: the invariant of the
    process, the outcome of an evaluation, reachable processes.
  \<^item> \<open>Semantics\<close>: the language without words, tags, tables and cells (\<open>lisp\<close> values, \<open>feval\<close> over
    an abstract host, \<open>show_lisp\<close>), and the proof that evaluator and printer implement it;
    \<open>Session_Semantics\<close>: the same from text to text, through \<open>eval_str\<close>.
  \<^item> \<open>Isolation\<close>: two processes that differ in other sessions and in the cells that are not in use
    evaluate alike (\<open>alike\<close>), stage by stage.
  \<^item> \<open>C_Strings\<close> (\<open>ffi.rs\<close>): who owns a result string, \<open>wsm_free_string\<close>, and the state of a C caller
    between two evaluations (\<open>ready\<close>); \<open>Callers\<close>: all sequences of calls and what they leave owned; \<open>Callbacks\<close>: callbacks that realize primitives on values.
  \<^item> \<open>Recovery\<close> (\<open>src/bin/reader_capacity_trigger.rs\<close>), \<open>Bench\<close> (\<open>src/bin/bench.rs\<close>), \<open>Ffi_Tests\<close>
    (the unit tests of \<open>ffi.rs\<close>): whole programs over the boundary, proved to run through.
    \<open>Asserting\<close>: the two tests whose callbacks assert; an evaluation whose answer is not a refusal
    is the same with a callback that refuses where the other aborts (\<open>eval_str_twin\<close>).
  \<^item> \<open>Subprocesses\<close> (\<open>tests/oom_path.rs\<close>, \<open>tests/car_cdr_type_check.rs\<close>,
    \<open>tests/reader_capacity_error.rs\<close>, \<open>tests/ukrainian_surface_guard.rs\<close>, \<open>main\<close> of \<open>bench.rs\<close>):
    programs with their exit status and output, and the tests that look at them.
  \<^item> \<open>Unit_Tests\<close> (the unit tests of \<open>lib.rs\<close>, \<open>word.rs\<close>, \<open>reader.rs\<close> and \<open>printer.rs\<close>), \<open>Eval_Tests\<close>
    (those of \<open>eval.rs\<close>, with a host that logs its calls) and \<open>Fixture_Tests\<close>
    (\<open>tests/my_lisp_fixture_parity.rs\<close>): the expectations of the code's authors, and of the language's
    reference implementation, as theorems that follow from the general ones.
  \<^item> \<open>Build_Registry\<close> (\<open>build.rs\<close>); \<open>Canon_Spellings\<close>: the generated file as \<open>eval.rs\<close> includes it;
    \<open>Triggers\<close> (\<open>src/bin/oom_trigger.rs\<close>,
    \<open>src/bin/car_type_error_trigger.rs\<close>), \<open>Examples\<close>, \<open>Examples_Boundary\<close>: concrete inputs for the
    witnesses.

  \<^bold>\<open>The adapter\<close> (\<open>adapter/src/\<close>), the C++ plug-in that embeds the runtime in the game.
  \<^item> \<open>Repl_Queue\<close> (\<open>LocalReplQueue.hpp\<close>): the bounded request queue between socket worker and game
    thread; \<open>Repl_Server\<close> (\<open>LocalReplServer.cpp\<close>): the two threads as a step relation \<open>server_step\<close>,
    with the invariants of all runs, what a client is told, and the hang after a blank line;
    \<open>Repl_Session\<close>: the server over a session of the runtime, from lines to meanings.
  \<^item> \<open>Neural_Deck\<close> (\<open>NeuralDeckState.hpp\<close>, \<open>NeuralDeckInput.hpp\<close>, \<open>NeuralDeckRepl.hpp\<close>): the in-game
    terminal, its limits, and what its transcript shows.
  \<^item> \<open>Game_Handles\<close> (\<open>GameHandleTable.cpp\<close>, \<open>PlayerHandleEpoch.hpp\<close>, \<open>AdapterRuntimeState.hpp\<close>) and
    \<open>Adapter\<close> (\<open>Main.cpp\<close>, the three host primitives): the invariant \<open>epoch_ok\<close> of the player's handle
    over any series of observations; \<open>Adapter_Session\<close>: the adapter as an abstract host, and what
    forms over its primitives are answered, one after the other (\<open>game_ready\<close>).
  \<^item> \<open>Plugin\<close> (\<open>Main.cpp\<close>, \<open>Main\<close> with its reasons \<open>Load\<close> and \<open>Unload\<close>, \<open>DispatchRunningTick\<close>;
    \<open>SurfaceExt.hpp\<close>): the whole life of the plug-in over the boundary; \<open>Plugin_Correct\<close>: loading on
    every outcome of the search for a dispatch file, ticks against the meaning of the dispatch form,
    the log, what unloading leaves, and the repository's own \<open>scripts/dispatcher.lisp\<close>;
    \<open>Examples_Adapter\<close>: concrete inputs.
  \<^item> \<open>Bridge\<close> (\<open>bridge/src/CanonicalReplHost.cpp\<close>, \<open>bridge/src/BridgeRuntime.cpp\<close>): the same server over an
    embedded session of the upstream language, its thread and a thread that shuts it down as the step
    relation \<open>bridge_step\<close>; what holds in all runs (\<open>bridge_ok\<close>), when \<open>Shutdown\<close> can return true, and
    the run in which \<open>SetEvent\<close> gets a closed handle.

  \<^bold>\<open>State.\<close> A \<open>process\<close> has the arena, the live sessions by address, and the host's own state. A
  \<open>session\<close> has its environment, symbol table and boxed table. During an evaluation the boxed
  tables and the host state are the \<open>world\<close> that the evaluator threads, because callbacks reach
  them through the wrapping functions. A callback is C++ outside the crate: it is a
  \<open>host_program\<close>, the sequence of its boundary calls with continuations on the replies. The
  contract it has to keep is \<open>callback_ok\<close>: it uses only its own session pointer, and when it
  reports success it has written a word that is not a cons, or one of its arguments, and it does
  not end the process.

  \<^bold>\<open>Abstract specification.\<close> A \<open>lisp_host\<close> says what the names of a session are bound to and what its
  primitives do on values; its state is a lower bound on the handles that are left, and a result
  counts while that bound is not below 0. \<open>served_by\<close> says that a session's environment implements
  such a host; registration and binding extend it (\<open>ready_registered\<close>, \<open>ready_bound\<close>). Texts that
  read as a form are then answered with \<open>answer_text\<close> of the form's meaning.

  \<^bold>\<open>Interfaces.\<close> \<open>interner\<close> (symbols), \<open>handle_table\<close> and \<open>reclaiming_table\<close> (boxed values),
  \<open>pair_store\<close> (the arena), \<open>parser_invariant\<close> (what the parser keeps), \<open>bounded_fifo\<close> (the
  request queue) and \<open>line_evaluator\<close> (what the server needs of the evaluator behind it) are locales,
  interpreted on the model's own definitions as \<open>sym\<close>, \<open>boxes\<close>, \<open>cells\<close>, \<open>reader\<close>, \<open>rq\<close>, and as
  \<open>repl\<close> (any session that serves a host) and \<open>game_lines\<close> (the session of the game).

  \<^bold>\<open>Parameters.\<close> The handle codec of the crate \<open>wsm_os_target\<close> (\<open>codec_ok\<close> states its documented
  contract), the build profile's overflow checks, the standard library's table of unprintable
  scalars, the spellings that the build script takes from the registry of the submodule
  \<open>external/sens\<close> (C40 ties them to its text), the load address of the arena (\<open>base_ok\<close>) and the allocator's addresses. Of the game engine: the class
  name of an instance (\<open>gm_class_of\<close>) and what a lookup of the player observes; of the file system,
  what each file holds (\<open>files\<close>); of the bridge, the embedded language (\<open>embed\<close>).

  \<^bold>\<open>Bounds.\<close> Recursion on pointers is counted with fuel. \<open>parse_fuel\<close> is two calls for each token
  and is never used up (\<open>parse_fuel_enough\<close>). \<open>eval_fuel\<close> (513) and \<open>print_fuel\<close> (773) follow
  from the height of a tree in the arena, at most 256 because the cells of a path differ
  (\<open>repr_height\<close>), even with shared structure. The tables have room for about \<open>2^61\<close> names and
  values; the theorems ask for room for the text that is read.

  \<^bold>\<open>Not modelled.\<close> The native stack (a long run of opening parentheses recurses once for each),
  memory exhaustion of the Rust heap, the clock and the figures of the benchmark, and entry points
  that a callback calls while an evaluation runs: where the primitive that observes the player binds
  a new handle, it is modelled as a step of the process between two evaluations (\<open>bind_new\<close>), and
  inside an evaluation that branch is a parameter (\<open>gm_rebind\<close>) that the theorems keep out of play.
  Of the adapter, the ahead-of-time dispatch, \<open>ResolveAndRead\<close> of \<open>SurfaceExt.hpp\<close>, which nothing
  calls, and Winsock itself (the environment of \<open>server_step\<close>); of the bridge, \<open>DllMain\<close>, the
  forwarding of \<open>version.dll\<close> and the file of observations (a step that succeeds or fails); scripts
  other than the dispatch file, and tools.
\<close>

section \<open>The boundary\<close>

text \<open>
  C1. Safe evaluation boundary: on every C string that is not an overflowing run of unclosed
  lists, whatever else it contains, \<open>wsm_eval_string\<close> on a live session returns a message that
  is NUL-free UTF-8, keeps every session well formed and touches no other session.
\<close>

theorem eval_string_never_ends_the_process:
  assumes "process_ok pl P" and "p_sessions P p = Some S" and "bytes_room pl S bytes"
    and "\<not> overflowing bytes"
  shows "\<exists>m P'. wsm_eval_string pl P p (Some bytes) = (Inr (utf8_encode m), P')
    \<and> text_ok m \<and> process_ok pl P' \<and> only_session p P P'"
  using assms(1-3) by (cases rule: eval_string_outcome) (use assms(4) in auto)

lemma demo_call_fits:
  "\<not> overflowing (utf8_encode (render (FList [FAtom (lit ''pos'')])))"
  "text_ok (render (FList [FAtom (lit ''pos'')]))"
proof -
  let ?f = "FList [FAtom (lit ''pos'')]"
  show t: "text_ok (render ?f)" by simp
  have "form_ok ?f" by (simp del: lit_simps)
  moreover have "toks ?f \<noteq> pending_toks fss" for fss
    using pending_not_form [of fss ?f "[]"] by (metis append_Nil2)
  ultimately show "\<not> overflowing (utf8_encode (render ?f))"
    using c_to_str_encode [OF t] tokenize_render [of ?f]
    by (simp add: overflowing_def del: lit_simps render.simps toks.simps)
qed

theorem eval_string_never_ends_the_process_witness:
  "\<exists>m P'. wsm_eval_string demo_platform demo_process 64
      (Some (utf8_encode (render (FList [FAtom (lit ''pos'')])))) = (Inr (utf8_encode m), P')
    \<and> text_ok m \<and> process_ok demo_platform P' \<and> only_session 64 demo_process P'"
  by (rule eval_string_never_ends_the_process [OF demo_process_ok demo_process_session
        demo_bytes_room [OF demo_call_fits(2)] demo_call_fits(1)]) simp

text \<open>
  C2. The boundary's guarantee is broken on exactly one kind of input: on any C string
  \<open>wsm_eval_string\<close> ends the process, with status 97 for a full arena, when the text breaks off
  inside open lists whose complete parts need more cells than the arena has; on every other C
  string it returns text.
\<close>

theorem eval_string_only_fatal_outcome:
  assumes "process_ok pl P" and "p_sessions P p = Some S" and "bytes_room pl S bytes"
  shows "if overflowing bytes then fst (wsm_eval_string pl P p (Some bytes)) = Inl (Process_Exit 97 1 0 0)
    else \<exists>m. fst (wsm_eval_string pl P p (Some bytes)) = Inr (utf8_encode m) \<and> text_ok m"
proof (cases "overflowing bytes")
  case True
  then show ?thesis using eval_string_overflowing [OF assms] by simp
next
  case False
  from assms show ?thesis by (cases rule: eval_string_outcome) (use False in auto)
qed

definition demo_long :: form where
  "demo_long = FList (replicate 257 (FAtom (lit ''a'')))"

lemma demo_long_ok: "form_ok demo_long" "cells_of demo_long = 257"
  by (simp_all add: demo_long_def list_all_iff sum_list_replicate del: lit_simps)

lemma join_replicate_text: "text_ok (join_spaces (replicate n (lit ''a'')))"
  by (rule join_spaces_text) (simp add: list_all_iff)

lemma join_replicate_length: "length (join_spaces (replicate n (lit ''a''))) \<le> 2 * n"
proof (induction n)
  case (Suc n)
  then show ?case by (cases n) simp_all
qed simp

lemma demo_long_text: "text_ok (render demo_long)" "length (render demo_long) \<le> 516"
  using join_replicate_text [of 257] join_replicate_length [of 257]
  by (simp_all add: demo_long_def del: lit_simps)

theorem eval_string_only_fatal_outcome_witness:
  "fst (wsm_eval_string demo_platform demo_process 64 (Some (utf8_encode (40 # render demo_long))))
     = Inl (Process_Exit 97 1 0 0)"
proof -
  let ?s = "40 # render demo_long"
  have t: "text_ok ?s" using demo_long_text(1) by simp
  have "tokenize ?s = Inr (pending_toks [[demo_long]])"
    using tokenize_render [OF demo_long_ok(1)] by (simp del: tokenize.simps)
  then have "overflowing (utf8_encode ?s)"
    unfolding overflowing_def using c_to_str_encode [OF t] demo_long_ok(2)
    by (intro exI [of _ ?s] exI [of _ "[[demo_long]]"]) simp
  moreover have "bytes_room demo_platform demo_session (utf8_encode ?s)"
    using c_to_str_encode [OF t] demo_long_text(2) by (simp add: bytes_room_def)
  ultimately show ?thesis
    using eval_string_only_fatal_outcome [OF demo_process_ok demo_process_session] by auto
qed

text \<open>
  C3. Whatever sequence of entry points the host calls from the start of the process, with
  callbacks and bindings that keep the contract, every session stays well formed.
\<close>

theorem reachable_processes_ok:
  assumes "codec_ok (pl_codec pl)" and "base_ok base"
    and "(api_step pl)\<^sup>*\<^sup>* (process_start base h) P"
  shows "process_ok pl P"
  by (rule reachable_ok [OF assms])

theorem reachable_processes_ok_witness:
  "process_ok demo_platform (snd (wsm_session_init 64 (process_start 65536 (0::nat))))"
  by (rule reachable_processes_ok [of demo_platform 65536 0])
    (simp_all add: r_into_rtranclp api_step.init process_start_def)

text \<open>
  C4. After an evaluation that returns, no transient value of the session is alive, every
  persistent value and every symbol still resolves, the environment and all other sessions are
  what they were.
\<close>

theorem evaluation_settles_the_session:
  assumes "process_ok pl P" and "p_sessions P p = Some S" and "text_ok text"
    and "session_room pl S (length text)" and "eval_str pl P p S text = (Inr m, P')"
  shows "\<exists>S'. p_sessions P' p = Some S' \<and> s_env S' = s_env S \<and> transient_len (s_boxed S') = 0
    \<and> (\<forall>w e. boxed_get_entry (pl_codec pl) (s_boxed S) w = Some e \<and> entry_lifetime e = Persistent \<longrightarrow>
         boxed_get_entry (pl_codec pl) (s_boxed S') w = Some e)
    \<and> (\<forall>v n. name_of (s_symbols S) v = Some n \<longrightarrow> name_of (s_symbols S') v = Some n)
    \<and> (\<forall>q. q \<noteq> p \<longrightarrow> p_sessions P' q = p_sessions P q)"
  using assms(1-4)
  by (cases rule: eval_str_outcome)
    (use assms(2,5) in \<open>auto simp: evaluated_def settled_def only_session_def\<close>)

theorem evaluation_settles_the_session_witness:
  "\<exists>P' S'. p_sessions P' 64 = Some S' \<and> transient_len (s_boxed S') = 0 \<and> s_env S' = s_env demo_session
    \<and> snd (eval_str demo_platform demo_process 64 demo_session (lit ''(pos)'')) = P'"
proof -
  obtain m P' where e: "eval_str demo_platform demo_process 64 demo_session (lit ''(pos)'') = (Inr m, P')"
  proof (cases rule: eval_str_outcome [OF demo_process_ok demo_process_session, of "lit ''(pos)''"])
    case (4 P')
    have "form_ok (FList [FAtom (lit ''pos'')])" by (simp del: lit_simps)
    from tokenize_render [OF this] have "tokenize (lit ''(pos)'') = Inr (toks (FList [FAtom (lit ''pos'')]))"
      by simp
    then show thesis using 4 required_complete [of "FList [FAtom (lit ''pos'')]" "[]"] by simp
  qed simp_all
  show ?thesis
    using evaluation_settles_the_session [OF demo_process_ok demo_process_session _ _ e] e by auto
qed

section \<open>The evaluator\<close>

text \<open>
  C5. The evaluator, reading code from raw cells with bounded recursion, computes the structural
  meaning of every form that fits the arena.
\<close>

theorem evaluator_implements_meaning:
  assumes "arena_ok (ctx_arena X)" and "repr (ctx_arena X) t"
  shows "eval X eval_fuel (word_of t) w = eval_tree X t w"
  by (rule eval_fuel_enough [OF assms])

theorem evaluator_implements_meaning_witness:
  "\<forall>w. eval (context_of demo_platform (demo_arena (encode_fixnum 5)) demo_session) eval_fuel 65536 w
     = (Inl (Raise NotCallable), w)"
  using evaluator_implements_meaning [of "context_of demo_platform (demo_arena (encode_fixnum 5)) demo_session"
      "Pair 65536 (Leaf (encode_fixnum 5)) (Leaf WORD_NIL)"] demo_tree [of "encode_fixnum 5"]
  by (simp add: context_of_def)

text \<open>
  C6. On code the reader produces, with a host that keeps its contract, evaluation never fails
  fatally: it ends with a safe word or with an error value whose text is valid.
\<close>

theorem evaluation_is_safe:
  assumes "arena_ok (ctx_arena X)" and "host_safe I X" and "repr (ctx_arena X) t"
    and "code_tree (ctx_symbols X) t" and "I w"
  shows "no_abort I error_text_ok (safe (ctx_arena X)) (eval X eval_fuel (word_of t) w)"
  unfolding eval_fuel_enough [OF assms(1,3)] by (rule eval_tree_safe(1) [OF assms(2-5)])

theorem evaluation_is_safe_witness:
  "no_abort (\<lambda>_::unit. True) error_text_ok (safe (demo_arena (encode_fixnum 5)))
    (eval \<lparr>ctx_spellings = pl_spellings demo_platform, ctx_arena = demo_arena (encode_fixnum 5),
       ctx_env = env_new, ctx_symbols = symbols_new\<rparr> eval_fuel 65536 ())"
  using evaluation_is_safe [of "\<lparr>ctx_spellings = pl_spellings demo_platform, ctx_arena = demo_arena (encode_fixnum 5),
       ctx_env = env_new, ctx_symbols = symbols_new\<rparr>" "\<lambda>_. True"
      "Pair 65536 (Leaf (encode_fixnum 5)) (Leaf WORD_NIL)" "()"] demo_tree [of "encode_fixnum 5"]
  by (simp add: host_safe_def env_new_def tag_nil)

text \<open>
  C7. A call evaluates its arguments from left to right, each once, stops at the first error,
  and looks the primitive up only after them.
\<close>

theorem call_evaluates_arguments_in_order:
  assumes "arena_ok (ctx_arena X)" and "repr (ctx_arena X) (Pair p (Leaf v) r)" and "proper r"
    and "tag_of v = TAG_SYMBOL" and "name_of (ctx_symbols X) v = Some name"
    and "operator_of X name = Op_Call name"
  shows "eval X eval_fuel p w = step_then (in_order (eval_tree X) (items r) w) (call_primitive X name)"
  using eval_fuel_enough [OF assms(1,2), of w] args_left_to_right [OF assms(3), of X w] assms(4-6) by simp

definition demo_call_context :: "arena \<Rightarrow> unit eval_context" where
  "demo_call_context A = \<lparr>ctx_spellings = pl_spellings demo_platform, ctx_arena = A,
     ctx_env = env_new, ctx_symbols = snd (intern symbols_new (lit ''pos''))\<rparr>"

lemma demo_symbol:
  "tag_of 12 = TAG_SYMBOL" "name_of (snd (intern symbols_new (lit ''pos''))) 12 = Some (lit ''pos'')"
proof -
  have "intern symbols_new (lit ''pos'') = (12, snd (intern symbols_new (lit ''pos'')))"
    by (simp add: intern_def symbols_new_def tag_defs Let_def)
  from intern_name [OF symbols_new_ok _ this] show "tag_of 12 = TAG_SYMBOL"
    "name_of (snd (intern symbols_new (lit ''pos''))) 12 = Some (lit ''pos'')" by simp_all
qed

theorem call_evaluates_arguments_in_order_witness:
  "eval (demo_call_context (demo_arena 12)) eval_fuel 65536 ()
     = (Inl (Raise (UnknownSymbol (lit ''pos''))), ())"
proof -
  have "operator_of (demo_call_context (demo_arena 12)) (lit ''pos'') = Op_Call (lit ''pos'')"
    by (simp add: operator_of_def demo_call_context_def is_cond_spelling_def is_quote_spelling_def
        is_car_spelling_def is_cdr_spelling_def)
  from call_evaluates_arguments_in_order [OF _ _ _ _ _ this, of 65536 12 "Leaf WORD_NIL" "()"] demo_tree [of 12] demo_symbol
  show ?thesis by (simp add: demo_call_context_def call_primitive_def env_new_def del: lit_simps)
qed

text \<open>
  C8. \<open>cond\<close> takes the clauses in order: clauses before the first truthy test contribute their
  test only, the body of that clause is the result, later clauses are never looked at, and
  without a truthy test the result is the empty list.
\<close>

theorem cond_takes_the_first_truthy_clause:
  assumes "arena_ok (ctx_arena X)" and "repr (ctx_arena X) (Pair p (Leaf v) r)" and "proper r"
    and "tag_of v = TAG_SYMBOL" and "name_of (ctx_symbols X) v = Some name"
    and "operator_of X name = Op_Cond"
  shows "eval X eval_fuel p w = first_truthy (eval_tree X) (items r) w"
  using eval_fuel_enough [OF assms(1,2), of w] cond_first_truthy [OF assms(3), of X w] assms(4-6) by simp

theorem cond_takes_the_first_truthy_clause_witness:
  "eval ((demo_call_context (demo_arena 12))\<lparr>ctx_spellings := (pl_spellings demo_platform)
     \<lparr>COND_SPELLINGS := [lit ''pos'']\<rparr>\<rparr>) eval_fuel 65536 () = (Inr WORD_NIL, ())"
proof -
  let ?X = "(demo_call_context (demo_arena 12))\<lparr>ctx_spellings := (pl_spellings demo_platform)
     \<lparr>COND_SPELLINGS := [lit ''pos'']\<rparr>\<rparr>"
  have "operator_of ?X (lit ''pos'') = Op_Cond"
    by (simp add: operator_of_def is_cond_spelling_def)
  from cond_takes_the_first_truthy_clause [OF _ _ _ _ _ this, of 65536 12 "Leaf WORD_NIL" "()"] demo_tree [of 12] demo_symbol
  show ?thesis by (simp add: demo_call_context_def del: lit_simps)
qed

section \<open>The reader\<close>

text \<open>
  C9. The reader, told exactly: every text has one verdict, which follows from the shape of its
  tokens (a form that fits, a form that does not, a form and a rest, a stray closing parenthesis,
  open lists that break off with few or with too many cells, an unterminated string), and the
  reader gives it: a word that denotes the form, or that error, or the exit.
\<close>

theorem reader_gives_the_verdict:
  assumes "text_ok source" and "read_ok c s" and "read_room c s (length source)"
    and "arena_used (rs_arena s) = 0"
  shows "\<exists>v. (\<forall>v'. verdict unprintable (tokenize source) v' \<longleftrightarrow> v' = v)
    \<and> (case v of
         Inl e \<Rightarrow> fst (read_one c unprintable source s) = Inl e
       | Inr f \<Rightarrow> \<exists>t s'. read_one c unprintable source s = (Inr (word_of t), s')
           \<and> repr (rs_arena s') t \<and> denotes c (rs_symbols s') (rs_boxed s') t f)"
proof -
  obtain v where v: "verdict unprintable (tokenize source) v" using verdict_total by blast
  then have "\<forall>v'. verdict unprintable (tokenize source) v' \<longleftrightarrow> v' = v" using verdict_unique by blast
  then show ?thesis
    using read_one_verdict [OF assms v]
    by (intro exI [of _ v]) (auto simp: read_result_def split: sum.splits)
qed

definition demo_read_state :: read_state where
  "demo_read_state = \<lparr>rs_symbols = symbols_new, rs_boxed = [], rs_arena = arena_load 65536\<rparr>"

lemma demo_read_state_ok [simp]:
  "read_ok demo_codec demo_read_state" "n \<le> 1000 \<Longrightarrow> read_room demo_codec demo_read_state n"
  "arena_used (rs_arena demo_read_state) = 0" "names_text_ok (rs_symbols demo_read_state)"
  by (simp_all add: read_ok_def read_room_def demo_read_state_def arena_load_ok)
    (simp add: arena_used_def arena_load_def)

theorem reader_gives_the_verdict_witness:
  "fst (read_one demo_codec (\<lambda>_. False) (lit ''(a'') demo_read_state) = Inl (Raise UnexpectedEof)"
proof -
  have "tokenize (lit ''(a'') = Inr (pending_toks [[FAtom (lit ''a'')]])"
    by (simp add: is_whitespace_def is_delimiter_def)
  then have v: "verdict (\<lambda>_. False) (tokenize (lit ''(a'')) (Inl (Raise UnexpectedEof))"
    using verdict.end_of_input [of "[[FAtom (lit ''a'')]]"] by (simp del: lit_simps)
  have "text_ok (lit ''(a'')" "read_room demo_codec demo_read_state (length (lit ''(a''))" by simp_all
  from reader_gives_the_verdict [OF this(1) demo_read_state_ok(1) this(2) demo_read_state_ok(3), of "\<lambda>_. False"]
  show ?thesis
  proof (elim exE conjE)
    fix v'
    assume "\<forall>u. verdict (\<lambda>_. False) (tokenize (lit ''(a'')) u \<longleftrightarrow> u = v'"
    with v have "v' = Inl (Raise UnexpectedEof)" by metis
    moreover assume "case v' of Inl e \<Rightarrow> fst (read_one demo_codec (\<lambda>_. False) (lit ''(a'') demo_read_state) = Inl e
       | Inr f \<Rightarrow> \<exists>t s'. read_one demo_codec (\<lambda>_. False) (lit ''(a'') demo_read_state = (Inr (word_of t), s')
           \<and> repr (rs_arena s') t \<and> denotes demo_codec (rs_symbols s') (rs_boxed s') t f"
    ultimately show ?thesis by (simp del: lit_simps)
  qed
qed

text \<open>
  C10. What it returns for a form is the word of a tree that denotes the form: its symbols
  resolve to the names, its strings to the texts, its integers to fixnums; it takes exactly
  \<open>cells_of\<close> cells and leaves everything that could be read before as it was.
\<close>

theorem reader_denotes_the_form:
  assumes "tokenize source = Inr (toks f)" and "read_ok c s" and "read_room c s (length (toks f) + k)"
    and "arena_used (rs_arena s) = 0" and "cells_of f \<le> ARENA_CELLS"
  shows "\<exists>t s'. read_one c unprintable source s = (Inr (word_of t), s')
    \<and> repr (rs_arena s') t \<and> denotes c (rs_symbols s') (rs_boxed s') t f
    \<and> arena_used (rs_arena s') = cells_of f \<and> extends c s s' \<and> read_ok c s' \<and> read_room c s' k"
proof -
  obtain t s' where r: "read_one c unprintable source s = (Inr (word_of t), s')"
      "read_result c s s' k (cells_of f) t" "denotes c (rs_symbols s') (rs_boxed s') t f"
    using read_one_ok [OF assms] by blast
  have "arena_used (rs_arena s') \<le> 256"
    using r(2) arena_okD(4) by (auto simp: read_result_def read_ok_def)
  then have "arena_used (rs_arena s') = cells_of f"
    using r(2) assms(4,5) by (auto simp: read_result_def arena_free_def)
  then show ?thesis using r by (auto simp: read_result_def)
qed

theorem reader_denotes_the_form_witness:
  "\<exists>t s'. read_one demo_codec (\<lambda>_. False) (lit ''(a 5)'') demo_read_state = (Inr (word_of t), s')
    \<and> repr (rs_arena s') t
    \<and> denotes demo_codec (rs_symbols s') (rs_boxed s') t (FList [FAtom (lit ''a''), FAtom (lit ''5'')])
    \<and> arena_used (rs_arena s') = 2"
proof -
  let ?f = "FList [FAtom (lit ''a''), FAtom (lit ''5'')]"
  have "form_ok ?f" by (simp add: atom_ok_def is_delimiter_def is_whitespace_def)
  from tokenize_render [OF this] have "tokenize (lit ''(a 5)'') = Inr (toks ?f)" by simp
  from reader_denotes_the_form [OF this demo_read_state_ok(1) _ demo_read_state_ok(3), of 0]
  show ?thesis by (fastforce simp del: lit_simps)
qed



text \<open>
  C12. The preflight is exact on complete forms: what it counts is the number of cells that
  reading the form allocates.
\<close>

theorem preflight_is_exact: "required_cons_cells (toks f @ r) = Some (cells_of f)"
  by (rule required_complete)

section \<open>From text to text\<close>

text \<open>
  C13. A quoted form comes back as its own text: reading, evaluating and printing agree on every
  form, with integers in canonical decimal and strings without escapes.
\<close>

theorem quoted_form_is_printed:
  assumes "process_ok pl P" and "p_sessions P p = Some S" and "text_ok text"
    and "session_room pl S (length text)"
    and "tokenize text = Inr (toks (FList [FAtom q, f]))" and "cells_of f + 2 \<le> ARENA_CELLS"
    and "form_ok f" and "plain_symbol q"
    and "q \<in> set (QUOTE_SPELLINGS (pl_spellings pl))" and "q \<notin> set (COND_SPELLINGS (pl_spellings pl))"
  shows "fst (eval_str pl P p S text) = Inr (shown f)"
  by (rule quote_shows [OF assms(1-7) _ _ assms(9,10)]) (use assms(8) in \<open>simp_all add: plain_symbol_def\<close>)

theorem quoted_form_is_printed_witness:
  "fst (eval_str demo_platform demo_process 64 demo_session (lit ''(quote (a (b 5)))''))
     = Inr (lit ''(a (b 5))'')"
proof -
  let ?f = "FList [FAtom (lit ''a''), FList [FAtom (lit ''b''), FAtom (lit ''5'')]]"
  have five: "atom_ok (lit ''5'')" "parse_i64 (lit ''5'') = Some 5"
    by (simp_all add: atom_ok_def is_delimiter_def is_whitespace_def parse_i64_def)
  have f: "form_ok ?f" and qf: "form_ok (FList [FAtom (lit ''quote''), ?f])"
    using five(1) by (simp_all del: lit_simps)
  have sh: "shown ?f = lit ''(a (b 5))''"
    using decode_encode_iff [of 5]
    by (simp add: parse_i64_def dec_int_def dec_nat_def digits_of.simps [of 10 5] digit_char_def)
  have "tokenize (lit ''(quote (a (b 5)))'') = Inr (toks (FList [FAtom (lit ''quote''), ?f]))"
    using tokenize_render [OF qf] by simp
  from quoted_form_is_printed [OF demo_process_ok demo_process_session _ _ this _ f plain_symbols(1)]
  show ?thesis unfolding sh by simp
qed

text \<open>
  C14. Printing is the inverse of reading on canonical forms: the text of the tree that denotes
  a canonical form is the form's own text, which reads as the same tokens.
\<close>

theorem printing_inverts_reading:
  assumes "arena_ok A" and "repr A t" and "denotes c st b t f" and "canonical f"
  shows "value_to_string c st b A (word_of t) = Inr (render f) \<and> tokenize (render f) = Inr (toks f)"
proof -
  have f: "shown f = render f" "form_ok f" using canonical_shown [OF assms(4)] by simp_all
  show ?thesis
    using value_to_string_tree [OF assms(1,2)] print_denotes(1) [OF assms(3) f(2)] f tokenize_render [OF f(2)]
    by simp
qed

theorem printing_inverts_reading_witness:
  "value_to_string demo_codec (snd (intern symbols_new (lit ''pos''))) [] (demo_arena 12) 65536
     = Inr (lit ''(pos)'')"
proof -
  let ?st = "snd (intern symbols_new (lit ''pos''))"
  have "canonical (FList [FAtom (lit ''pos'')])"
    using plain_symbols by (simp add: plain_symbol_def del: lit_simps)
  moreover have "denotes demo_codec ?st [] (Pair 65536 (Leaf 12) (Leaf WORD_NIL)) (FList [FAtom (lit ''pos'')])"
    using demo_symbol plain_symbols by (simp add: atom_denotes_def plain_symbol_def del: lit_simps) (simp add: lit_def)
  moreover have "repr (demo_arena 12) (Pair 65536 (Leaf 12) (Leaf WORD_NIL))"
    by (rule demo_tree) (simp add: demo_symbol)
  ultimately show ?thesis
    using printing_inverts_reading [OF demo_arena_ok, of 12 "Pair 65536 (Leaf 12) (Leaf WORD_NIL)" demo_codec ?st "[]"
        "FList [FAtom (lit ''pos'')]"]
    by (simp del: tokenize.simps canonical.simps)
qed

text \<open>
  C15. Sessions share the arena, which the reset does not clear, and yet an evaluation does not
  depend on what other sessions there are or on what the arena held: in two well-formed processes
  with the arena at the same address, the same session and the same host state, the same text
  gives the same result, the same session and the same host state.
\<close>

theorem evaluation_is_isolated:
  assumes "process_ok pl P" and "process_ok pl Q" and "arena_base (p_arena P) = arena_base (p_arena Q)"
    and "p_sessions P p = Some S" and "p_sessions Q p = Some S" and "p_host P = p_host Q"
    and "bytes_room pl S bytes"
    and "wsm_eval_string pl P p (Some bytes) = (r, P')" and "wsm_eval_string pl Q p (Some bytes) = (r', Q')"
  shows "r = r' \<and> p_sessions P' p = p_sessions Q' p \<and> p_host P' = p_host Q'"
  by (rule eval_string_alike [OF assms(1-7)]) (use assms(8,9) in simp)

theorem evaluation_is_isolated_witness:
  "let P = demo_process; Q = put_session (P\<lparr>p_arena := (p_arena P)\<lparr>arena_mem := (\<lambda>_. 7)\<rparr>\<rparr>) 128 session_new;
     bytes = utf8_encode (render (FList [FAtom (lit ''pos'')])) in
   fst (wsm_eval_string demo_platform P 64 (Some bytes)) = fst (wsm_eval_string demo_platform Q 64 (Some bytes))"
proof -
  let ?Q = "put_session (demo_process\<lparr>p_arena := (p_arena demo_process)\<lparr>arena_mem := (\<lambda>_. 7)\<rparr>\<rparr>) 128 session_new"
  have "process_ok demo_platform (demo_process\<lparr>p_arena := (p_arena demo_process)\<lparr>arena_mem := (\<lambda>_. 7)\<rparr>\<rparr>)"
    using demo_process_ok by (simp add: process_ok_def arena_ok_def arena_used_def del: demo_process_ok)
  then have Q: "process_ok demo_platform ?Q" by (rule put_session_ok) (simp_all add: session_new_ok)
  have "p_sessions ?Q 64 = Some demo_session" "p_host demo_process = p_host ?Q"
    "arena_base (p_arena demo_process) = arena_base (p_arena ?Q)" by (simp_all add: put_session_def)
  from evaluation_is_isolated [OF demo_process_ok Q this(3) demo_process_session this(1,2)
      demo_bytes_room [OF demo_call_fits(2)] prod.collapse [symmetric] prod.collapse [symmetric]]
  show ?thesis by (simp add: Let_def)
qed

text \<open>
  C16. What the text means is what comes back: over the abstract host that the session's
  environment implements, callbacks included, \<open>wsm_eval_string\<close> answers with the text of the
  value or error that the form means, and the session goes on serving that host with the room
  that the form has left.
\<close>

theorem eval_string_answers_the_meaning:
  assumes "process_ok pl P" and "p_sessions P p = Some S" and "text_ok text"
    and "session_room pl S (length text + k)"
    and "tokenize text = Inr (toks f)" and "cells_of f \<le> ARENA_CELLS"
    and "served_by pl p H S" and "feval (pl_spellings pl) H f (int k) = (r, int j)" and "j \<le> k"
  shows "\<exists>P' S'. wsm_eval_string pl P p (Some (utf8_encode text)) = (Inr (utf8_encode (answer_text r)), P')
    \<and> p_sessions P' p = Some S' \<and> served_by pl p H S' \<and> session_room pl S' j
    \<and> process_ok pl P' \<and> only_session p P P'"
  using eval_string_means [OF assms] by (auto simp: evaluated_def)

theorem eval_string_answers_the_meaning_witness:
  "fst (wsm_eval_string test_platform position_process 64 (Some (utf8_encode (lit ''(cond (() 1) (t (pos)))''))))
     = Inr (utf8_encode (lit ''5/336''))"
proof -
  let ?f = "FList [FAtom (lit ''cond''), FList [FList [], FAtom (lit ''1'')],
    FList [FAtom (lit ''t''), FList [FAtom (lit ''pos'')]]]"
  let ?s = "lit ''(cond (() 1) (t (pos)))''"
  have cond: "plain_symbol (lit ''cond'')" by (rule plain_names)
  note names = cond [THEN plain_symbol_value] plain_symbols(6) [THEN plain_symbol_value]
    test_platform_spellings(4,5)
  have "tokenize (render ?f) = Inr (toks ?f)"
    by (rule tokenize_render) (simp add: cond [THEN plain_symbol_atom, simplified] atom_ok_words [simplified]
        atoms [simplified])
  then have tokens: "tokenize ?s = Inr (toks ?f)" by simp
  have cells: "cells_of ?f \<le> ARENA_CELLS" by (simp add: ARENA_CELLS_def)
  have t: "atom_value (lit ''t'') = LSym (lit ''t'')" by (simp add: atom_value_def parse_i64_def)
  have means: "feval (pl_spellings test_platform) position_host ?f (int 1) = (Inr (LBox (Rational 5 336)), int 0)"
    using t by (simp add: names form_operator_def clause_parts_def call_host_def position_host_def symbol_value_def
        del: test_platform_simps lit_simps)
  have "answer_text (Inr (LBox (Rational 5 336))) = lit ''5/336''"
    by (simp add: dec_int_def dec_nat_def digit_char_def digits_of.simps)
  then show ?thesis
    using eval_string_answers_the_meaning [OF position_process_ok position_process_session _ _ tokens cells
        position_served means] by (auto simp del: lit_simps simp add: lit_def)
qed

text \<open>
  C17. A form that needs more cells than the arena has is refused with a message that says how
  many, before anything is allocated or interned.
\<close>

theorem oversized_form_is_refused:
  assumes "p_sessions P p = Some S" and "tokenize text = Inr (toks f)" and "ARENA_CELLS < cells_of f"
  shows "eval_str pl P p S text =
    (Inr (lit ''error: form needs '' @ dec_nat (cells_of f) @ lit '' cons cells; arena capacity is '' @ dec_nat ARENA_CELLS),
     put_session (P\<lparr>p_arena := wsm_arena_reset (p_arena P)\<rparr>) p (S\<lparr>s_boxed := clear_transient (s_boxed S)\<rparr>))"
  by (rule capacity_refused [OF assms])

theorem oversized_form_is_refused_witness:
  "fst (eval_str demo_platform demo_process 64 demo_session (render demo_long))
     = Inr (lit ''error: form needs '' @ dec_nat 257 @ lit '' cons cells; arena capacity is '' @ dec_nat ARENA_CELLS)"
  using oversized_form_is_refused [OF demo_process_session tokenize_render [OF demo_long_ok(1)], of demo_platform]
    demo_long_ok(2) by (simp del: lit_simps)

text \<open>
  C18. Text that is not a form is answered with the message of its verdict, or ends the process
  where the verdict is the exit.
\<close>

theorem malformed_text_is_answered:
  assumes "process_ok pl P" and "p_sessions P p = Some S" and "text_ok text"
    and "session_room pl S (length text)"
    and "verdict (pl_unprintable pl) (tokenize text) (Inl v)"
  shows "fst (wsm_eval_string pl P p (Some (utf8_encode text))) =
    (case v of Raise e \<Rightarrow> Inr (utf8_encode (read_error_message e)) | Abort x \<Rightarrow> Inl x)"
  by (rule eval_string_verdict [OF assms])

theorem malformed_text_is_answered_witness:
  "fst (wsm_eval_string demo_platform demo_process 64 (Some (utf8_encode (lit ''a b)''))))
     = Inr (utf8_encode (lit ''error: trailing input: b )''))"
proof -
  have "tokenize (lit ''a b)'') = Inr (toks (FAtom (lit ''a'')) @ [Atom (lit ''b''), Close])"
    by (simp add: is_whitespace_def is_delimiter_def)
  then have v: "verdict (pl_unprintable demo_platform) (tokenize (lit ''a b)''))
      (Inl (Raise (TrailingInput (lit ''b )''))))"
    using verdict.trailing [of "FAtom (lit ''a'')" "[Atom (lit ''b''), Close]"] by (simp add: lit_def)
  from malformed_text_is_answered [OF demo_process_ok demo_process_session _ _ v]
  show ?thesis by (simp add: lit_def)
qed

text \<open>
  C19. An integer literal is printed as its value reduced to the 61 bits of a fixnum: outside
  that range the runtime silently shows another number.
\<close>

theorem integer_literal_is_reduced:
  assumes "process_ok pl P" and "p_sessions P p = Some S"
    and "session_room pl S (length (dec_int v))" and "- (2 ^ 63) \<le> v" and "v < 2 ^ 63"
  shows "fst (eval_str pl P p S (dec_int v)) = Inr (dec_int (signed_take_bit 60 v))"
  by (rule integer_shows [OF assms])

theorem integer_literal_is_reduced_witness:
  "fst (eval_str demo_platform demo_process 64 demo_session (dec_int (2 ^ 60))) = Inr (dec_int (- (2 ^ 60)))"
proof -
  have len: "length (dec_int (2 ^ 60)) \<le> 1000"
    by (simp add: dec_int_def dec_nat_def digits_of.simps [of 10])
  show ?thesis
    using integer_literal_is_reduced [OF demo_process_ok demo_process_session demo_room [OF len]]
    by (simp add: signed_take_bit_eq_if_positive signed_take_bit_int_eq_self_iff)
qed

section \<open>The printer\<close>

text \<open>
  C20. The integration tests pass: exhausting the arena and taking the car of an integer end their
  processes with status 97, the diagnostic on stderr and nothing on stdout; and the recovery
  program, in every well-formed process, sees each malformed, ill-typed and oversized form refused
  with the expected message and the session answering after each, and leaves nothing behind.
\<close>

theorem integration_tests_pass:
  assumes "base_ok base" and "trigger_spellings (pl_spellings pl)" and "can_open pl p q 300 C"
  shows "arena_exhaustion_exits_97 (process_output report (oom_trigger base)) = Inr ()
    \<and> car_of_non_cons_exits_97 (process_output report (car_type_error_trigger base)) = Inr ()
    \<and> malformed_lisp_cannot_terminate (process_output report (reader_capacity_trigger pl p q C)) = Inr ()
    \<and> (\<exists>D. reader_capacity_trigger_main pl p q C = (Inr (), D) \<and> left_clean pl C D)"
  using oom_path_test [OF assms(1)] car_type_error_test reader_capacity_test [OF assms(2,3)]
    trigger_run [OF assms(2,3)] by simp

theorem integration_tests_pass_witness:
  "out_stdout (process_output [] (reader_capacity_trigger test_platform 64 128 test_side))
     = lit ''safe-eval-boundary-recovered'' @ newline"
proof -
  have "can_open test_platform 64 128 300 test_side" by simp
  from integration_tests_pass [OF demo_base_ok test_platform_spellings(1) this]
  obtain D where "reader_capacity_trigger_main test_platform 64 128 test_side = (Inr (), D)" by blast
  then show ?thesis by (simp add: reader_capacity_trigger_def process_output_def del: lit_simps)
qed

text \<open>
  C21. Opaque handles: what is printed for any word does not depend on the handles that the
  host stored in the table.
\<close>

theorem game_handles_stay_hidden:
  "value_to_string c st (hide_handles b) A v = value_to_string c st b A v"
  by (simp add: value_to_string_def write_hides)

section \<open>Host values and callbacks\<close>

text \<open>
  The closure around a callback that keeps the contract never fails fatally, gives the
  evaluator a safe word or a message, and changes nothing but the table of its own session,
  which only grows.
\<close>

lemma contracted_callback_is_safe:
  assumes "codec_ok (pl_codec pl)" and "callback_ok p f" and "world_ok p T0 w"
    and "list_all (safe A) args"
  shows "no_abort (world_ok p T0) text_ok (safe A) (host_closure pl f args w)"
  by (rule host_closure_safe [OF assms])

lemma contracted_callback_is_safe_witness:
  "no_abort (world_ok 64 [64 \<mapsto> []]) text_ok (safe (demo_arena 12))
     (host_closure demo_platform demo_callback [] \<lparr>w_tables = [64 \<mapsto> []], w_host = 0\<rparr>)"
  by (rule contracted_callback_is_safe) (simp_all add: world_ok_def exI [of _ "[]"])

text \<open>
  A host handle goes through the language: handed out by one callback, passed as an argument
  to another in the same form, it is found there as the same bit pattern, and told from others.
\<close>

lemma handle_reaches_another_callback:
  assumes "can_open pl p q (length check_name + length get_name + 6) C" and "out \<noteq> 0"
    and "get_name \<noteq> check_name" and "plain_symbol get_name" and "plain_symbol check_name"
    and "text_ok get_name" and "text_ok check_name"
    and "spelled (pl_spellings pl) get_name = Op_Call get_name"
    and "spelled (pl_spellings pl) check_name = Op_Call check_name"
  shows "\<exists>D. handle_pair pl p q out get_name check_name h k C = (Inr (), D) \<and> left_clean pl C D"
  by (rule handle_pair_runs [OF assms])

lemma handle_reaches_another_callback_witness:
  "fst (handle_pair test_platform 64 128 8 (lit ''pos'') (lit ''noop'') 0xDEADBEEF 0xDEADBEEF test_side) = Inr ()"
proof -
  have "can_open test_platform 64 128 (length (lit ''noop'') + length (lit ''pos'') + 6) test_side"
    by (rule test_can_open) simp
  from handle_reaches_another_callback [OF this _ _ plain_symbols(6) noop_atom(1) _ _
      test_platform_spellings(4,3), of 8 "0xDEADBEEF" "0xDEADBEEF"]
  show ?thesis by auto
qed

text \<open>
  C24. A wrapped fraction (numerator and denominator other than \<open>i64::MIN\<close>) is read back in
  lowest terms with a positive denominator and the same value, in both build profiles.
\<close>

theorem rational_survives_wrapping:
  assumes "codec_ok (pl_codec pl)" and "T p = Some b" and "0 < boxed_room (pl_codec pl) b"
    and "p \<noteq> 0" and "out \<noteq> 0" and "out_n \<noteq> 0" and "out_d \<noteq> 0"
    and "d \<noteq> 0" and "sint n \<noteq> - (2 ^ 63)" and "sint d \<noteq> - (2 ^ 63)"
  shows "\<exists>w T' n' d'. wsm_wrap_rational pl T p n d out = (Inr (0, [w]), T')
    \<and> wsm_unwrap_rational pl T' p w out_n out_d = Inr (0, [n', d'])
    \<and> 0 < sint d' \<and> coprime (sint n') (sint d') \<and> sint n' * sint d = sint n * sint d'"
proof -
  obtain n' d' where r: "reduce (pl_overflow_checks pl) n d = Inr (n', d')" "0 < sint d'"
      "coprime (sint n') (sint d')" "sint n' * sint d = sint n * sint d'"
    by (rule reduce_in_range_props [OF assms(8-10)])
  have "\<exists>w T'. wsm_wrap_rational pl T p n d out = (Inr (0, [w]), T')
      \<and> wsm_unwrap_rational pl T' p w out_n out_d = Inr (0, [n', d'])"
    by (rule rational_roundtrip [where b = b]) (use assms r(1) in simp_all)
  then show ?thesis using r(2-4) by blast
qed

theorem rational_survives_wrapping_witness:
  "\<exists>w T' n' d'. wsm_wrap_rational demo_platform [64 \<mapsto> []] 64 3 (- 4) 8 = (Inr (0, [w]), T')
    \<and> wsm_unwrap_rational demo_platform T' 64 w 8 8 = Inr (0, [n', d']) \<and> 0 < sint d'"
  using rational_survives_wrapping [of demo_platform "[64 \<mapsto> []]" 64 "[]" 8 8 8 "- 4" 3] by fastforce

section \<open>The tables\<close>

text \<open>
  Interned names resolve, now and after any further interning; what resolved before goes
  on to.
\<close>

lemma interned_names_resolve:
  assumes "symbols_ok st" and "length ns \<le> symbols_room st" and "sym.issue_all st ns = (ws, st')"
  shows "symbols_ok st' \<and> map (name_of st') ws = map Some ns
    \<and> (\<forall>v m. name_of st v = Some m \<longrightarrow> name_of st' v = Some m)"
  by (rule sym.issue_all_resolves [OF assms])

lemma interned_names_resolve_witness:
  "map (name_of (snd (sym.issue_all symbols_new [lit ''a'', lit ''b'', lit ''a''])))
     (fst (sym.issue_all symbols_new [lit ''a'', lit ''b'', lit ''a'']))
   = map Some [lit ''a'', lit ''b'', lit ''a'']"
  using interned_names_resolve [OF symbols_new_ok, of "[lit ''a'', lit ''b'', lit ''a'']",
      OF _ surjective_pairing] by (simp del: lit_simps sym.issue_all.simps)

text \<open>
  C26. The boundary's own tests, those with asserting callbacks included, pass in every well-formed process, and for any number of
  repetitions that the tables have room for: repeated evaluations never use up the arena or keep
  a transient value alive, and every result is the text that the test asserts.
\<close>

theorem boundary_tests_pass:
  assumes "test_spellings (pl_spellings pl)" and "asserting_test_spellings (pl_spellings pl)" and "can_open pl p q (n * 12 + 200) C" and "out \<noteq> 0"
    and "test \<in> {string_literal_round_trips pl p q, unknown_symbol_is_not_mangled pl p q,
      game_handle_wraps_and_unwraps pl p out, rational_wraps_unwraps_and_reduces pl p out,
      transient_rationals_are_reclaimed pl p q out n, transient_host_strings_are_reclaimed pl p q out n,
      rational_prints_as_n_slash_d pl p q out, repeated_eval_string_calls_survive pl p q n,
      host_primitive_error_code_surfaces pl p q, malformed_forms_return_errors pl p q,
      repeated_string_eval_reclaims pl p q n, end_to_end_register_bind_eval_print_free pl p q,
      game_handle_round_trips_through_a_host_primitive_pair pl p q out}"
  shows "\<exists>D. test C = (Inr (), D) \<and> left_clean pl C D"
proof -
  have room: "can_open pl p q k C" if "k \<le> n * 12 + 200" for k
    using assms(3) that unfolding can_open_def by auto
  have spellings: "trigger_spellings (pl_spellings pl)" using assms(1) by (simp add: test_spellings_def)
  show ?thesis
    using assms(5) string_literal_test [OF room] unknown_symbol_test [OF assms(1) room]
      game_handle_test [OF room assms(4)] rational_test [OF room assms(4)]
      transient_rationals_test [OF assms(1) room assms(4)] transient_strings_test [OF assms(1) room assms(4)]
      rational_prints_test [OF assms(1) room assms(4)] repeated_calls_test [OF spellings room]
      error_code_test [OF assms(1) room] malformed_forms_test [OF spellings room] repeated_string_test [OF room]
      end_to_end_test [OF assms(2) room] handle_pair_test [OF assms(2) room assms(4)]
    by auto
qed

theorem boundary_tests_pass_witness:
  "fst (repeated_eval_string_calls_survive test_platform 64 128 500 test_side) = Inr ()"
proof -
  have "can_open test_platform 64 128 (500 * 12 + 200) test_side" by simp
  from boundary_tests_pass [OF test_platform_spellings(2) test_platform_asserting this, of 8
      "repeated_eval_string_calls_survive test_platform 64 128 500"]
  show ?thesis by auto
qed

text \<open>
  C27. Values put into the boxed table get pairwise distinct fresh words, every word resolves to
  its value, and no older word changes.
\<close>

theorem boxed_values_resolve:
  assumes "codec_ok c" and "length es \<le> boxed_room c b" and "boxes.put_all c b es = (Inr ws, b')"
  shows "map (boxed_get_entry c b') ws = map Some es \<and> distinct ws
    \<and> (\<forall>w \<in> set ws. boxed_get_entry c b w = None)
    \<and> (\<forall>w e. boxed_get_entry c b w = Some e \<longrightarrow> boxed_get_entry c b' w = Some e)"
  by (rule boxes.put_all_resolves [OF assms])

definition demo_entry :: boxed_entry where
  "demo_entry = \<lparr>entry_value = Str (lit ''a''), entry_lifetime = Transient\<rparr>"

lemma demo_put: "boxed_add demo_codec [] demo_entry = (Inr 15, [Some demo_entry])"
  by (simp add: boxed_add_def demo_codec_def TAG_BOXED_def Let_def)

lemma demo_put_all: "boxes.put_all demo_codec [] [demo_entry] = (Inr [15], [Some demo_entry])"
  by (simp add: demo_put)

theorem boxed_values_resolve_witness:
  "boxed_get_entry demo_codec [Some demo_entry] 15 = Some demo_entry"
  using boxed_values_resolve [OF demo_codec_ok _ demo_put_all] by simp

text \<open>
  Once the transient values are cleared, their words stay dead: whatever is put into the
  table later, a stale word never resolves to it.
\<close>

lemma stale_words_stay_dead:
  assumes "codec_ok c" and "boxed_get_entry c b w = Some e" and "entry_lifetime e = Transient"
    and "length es \<le> boxed_room c b" and "boxes.put_all c (clear_transient b) es = (Inr ws, b')"
  shows "boxed_get_entry c b' w = None"
  by (rule boxes.dropped_word_stays_dead [OF assms])

lemma demo_put_again:
  "boxes.put_all demo_codec (clear_transient [Some demo_entry]) [demo_entry] = (Inr [23], [None, Some demo_entry])"
  by (simp add: clear_transient_def is_transient_def demo_entry_def boxed_add_def demo_codec_def
      TAG_BOXED_def Let_def)

lemma demo_entry_found: "boxed_get_entry demo_codec [Some demo_entry] 15 = Some demo_entry"
  using boxed_add_Inr(3) [OF demo_codec_ok _ demo_put] by simp

lemma stale_words_stay_dead_witness:
  "boxed_get_entry demo_codec [None, Some demo_entry] 15 = None"
  by (rule stale_words_stay_dead [OF demo_codec_ok demo_entry_found _ _ demo_put_again])
    (simp_all add: demo_entry_def boxed_room_def demo_codec_def)

text \<open>
  When the handle space is used up, adding a value is a caught panic, and the status of
  the wrapping call is -2.
\<close>

lemma exhausted_handles_are_reported:
  assumes "codec_ok (pl_codec pl)" and "T p = Some b" and "length b < 2 ^ 64 - 1"
    and "boxed_room (pl_codec pl) b = 0" and "p \<noteq> 0" and "out \<noteq> 0"
  shows "fst (wsm_wrap_game_handle pl T p h out) = Inr (- 2, [])"
  using boxed_add_full [OF assms(1,3,4)] assms(2,5,6)
  by (simp add: wsm_wrap_game_handle_def wrap_into_def add_game_handle_def catch_unwind_or_def)

definition tiny_codec :: codec where
  "tiny_codec = \<lparr>encode_boxed = (\<lambda>_. None), decode_boxed = (\<lambda>_. None), boxed_handle_max = 0\<rparr>"

lemma exhausted_handles_are_reported_witness:
  "fst (wsm_wrap_game_handle (demo_platform\<lparr>pl_codec := tiny_codec\<rparr>) [64 \<mapsto> []] 64 1 8) = Inr (- 2, [])"
  by (rule exhausted_handles_are_reported) (auto simp: tiny_codec_def codec_ok_def boxed_room_def)

text \<open>
  C30. \<open>reduce\<close> computes the fraction in lowest terms with a positive denominator whenever
  neither argument is \<open>i64::MIN\<close>.
\<close>

theorem reduce_gives_lowest_terms:
  assumes "d \<noteq> 0" and "sint n \<noteq> - (2 ^ 63)" and "sint d \<noteq> - (2 ^ 63)"
  shows "reduce oc n d = Inr (word_of_int (sgn (sint d) * sint n div gcd (sint n) (sint d)),
    word_of_int (\<bar>sint d\<bar> div gcd (sint n) (sint d)))"
  by (rule reduce_in_range [OF assms])

theorem reduce_gives_lowest_terms_witness: "reduce True 10 (- 20) = Inr (- 1, 2)"
proof -
  have "gcd 10 (- 20 :: int) = 10" using gcd_proj1_iff [of 10 "- 20 :: int"] by simp
  then show ?thesis using reduce_gives_lowest_terms [of "- 20" 10 True] by simp
qed

text \<open>
  With \<open>i64::MIN\<close> as denominator the debug build panics and the release build stores a
  fraction with a negative denominator.
\<close>

lemma reduce_breaks_at_the_minimum:
  "reduce True 1 0x8000000000000000 = Inl Rust_Panic
   \<and> reduce False 1 0x8000000000000000 = Inr (- 1, 0x8000000000000000)"
proof -
  have m: "sint (0x8000000000000000 :: i64) = - (2 ^ 63)" by simp
  show ?thesis
    by (simp add: reduce_def checked_i64_def fits_i64_def gcd_i64.simps rem_i64_def div_i64_def Let_def
        m signed_modulo_int_def signed_divide_int_def)
qed

section \<open>The arena\<close>

text \<open>
  A new cell holds what was stored in it, the arena stays well formed with one cell fewer
  free, and every older cell reads as before.
\<close>

lemma cons_stores_and_keeps:
  assumes "arena_ok A" and "wsm_cons A a d = Inr (p, A')"
  shows "arena_ok A' \<and> arena_free A = Suc (arena_free A') \<and> is_cell A' p
    \<and> wsm_car A' p = Inr a \<and> wsm_cdr A' p = Inr d \<and> \<not> is_cell A p
    \<and> (\<forall>q. is_cell A q \<longrightarrow> is_cell A' q \<and> wsm_car A' q = wsm_car A q \<and> wsm_cdr A' q = wsm_cdr A q)"
proof -
  have "\<not> is_cell A p" using wsm_cons_Inr(2) [OF assms] by (simp add: is_cell_def)
  then show ?thesis
    using wsm_cons_state [OF assms] wsm_cons_frame [OF assms] cells.alloc_free [OF assms] by blast
qed

lemma cons_stores_and_keeps_witness: "wsm_car (demo_arena 12) 65536 = Inr 12"
  using cons_stores_and_keeps [OF arena_load_ok [OF demo_base_ok] demo_cons [of 12]] by simp

text \<open>
  A freshly loaded arena has 256 cells: the loop of \<open>oom_trigger\<close> completes for up to 256
  allocations, and ends the process with status 97 for more, as the program itself does.
\<close>

lemma arena_has_256_cells:
  assumes "base_ok base"
  shows "((\<exists>p A. oom_loop 0 n (arena_load base) prev = Inr (p, A)) \<longleftrightarrow> n \<le> 256)
    \<and> oom_trigger_main base = Inl (Process_Exit 97 1 0 0)"
proof -
  have ok: "arena_ok (arena_load base)" and free: "arena_free (arena_load base) = 256"
    using arena_load_ok [OF assms] by (simp_all add: arena_free_def arena_used_def arena_load_def)
  have "n \<le> 256" if "oom_loop 0 n (arena_load base) prev = Inr (p, A)" for p A
    using that oom_loop_full [OF ok, of n 0 prev] free by (cases "n \<le> 256") auto
  moreover have "oom_loop 0 300 (arena_load base) 1 = Inl (Process_Exit 97 1 0 0)"
    by (rule oom_loop_full [OF ok]) (simp add: free)
  ultimately show ?thesis
    using oom_loop_ok [OF ok, of n 0 prev] free by (auto simp: oom_trigger_main_def)
qed

lemma arena_has_256_cells_witness: "oom_trigger_main 65536 = Inl (Process_Exit 97 1 0 0)"
  using arena_has_256_cells [OF demo_base_ok] by blast

text \<open>
  Without the reset that \<open>wsm_eval_string\<close> does, reading shares one arena: the benchmark's
  raw loop over the one-cell form \<open>(noop)\<close> goes through for up to 256 rounds and ends the process
  with status 97 in the next.
\<close>

lemma raw_loop_has_256_rounds:
  assumes "spelled (pl_spellings pl) (lit ''noop'') = Op_Call (lit ''noop'')"
    and "codec_ok (pl_codec pl)" and "base_ok base"
    and "n * 3 \<le> symbols_room symbols_new" and "n * 3 \<le> boxed_room (pl_codec pl) []"
  shows "fst (section_b_loop pl n (bench_start base)) =
    (if n \<le> 256 then Inr () else Inl (Process_Exit 97 1 0 0))"
  using section_b_runs [OF assms(1,2) arena_load_ok [OF assms(3)] assms(4,5)] by (simp add: ARENA_CELLS_def)

lemma raw_loop_has_256_rounds_witness:
  "fst (section_b_loop test_platform 257 (bench_start 65536)) = Inl (Process_Exit 97 1 0 0)"
  using raw_loop_has_256_rounds [of test_platform 65536 257] test_platform_spellings(3)
  by (simp del: lit_simps)

text \<open>
  C35. After any sequence of calls from the start of the process, the strings that the caller owns
  are those that the sequence handed out and did not take back; each of them is readable text and
  can be freed once, and freeing any other pointer is undefined behaviour.
\<close>

theorem strings_belong_to_the_caller:
  assumes "codec_ok (pl_codec pl)" and "base_ok base" and "c_run pl (caller_start base h) as C"
  shows "process_ok pl (c_process C) \<and> dom (c_strings C) = owned as
    \<and> (\<forall>q \<in> owned as. \<exists>m D. text_ok m \<and> read_c_string C q = Inr m
        \<and> wsm_free_string C q = (Inr (), D) \<and> c_process D = c_process C)
    \<and> (\<forall>q. q \<noteq> 0 \<longrightarrow> q \<notin> owned as \<longrightarrow> wsm_free_string C q = (Inl (Dangling_String q), C))"
proof -
  have ok: "caller_ok pl (owned as) C" by (rule c_run_ok [OF assms(3) caller_start_ok [OF assms(1,2)]])
  then have "process_ok pl (c_process C)" "dom (c_strings C) = owned as" by (simp_all add: caller_ok_def)
  then show ?thesis using caller_ok_reads [OF ok] by blast
qed

theorem strings_belong_to_the_caller_witness:
  "\<exists>C. c_run demo_platform (caller_start 65536 (0 :: nat)) [Enters, Hands_Out 128, Hands_Out 192, Takes_Back 128] C
    \<and> dom (c_strings C) = {192} \<and> wsm_free_string C 128 = (Inl (Dangling_String 128), C)"
proof -
  let ?S = "caller_start 65536 (0 :: nat)" and ?bytes = "utf8_encode (render (FList [FAtom (lit ''pos'')]))"
  let ?P = "snd (wsm_session_init 64 (c_process ?S))"
  have ok: "process_ok demo_platform ?P"
    using put_session_ok [OF process_start_ok [of demo_platform 65536 0] _ session_new_ok, of 64]
    by (simp add: wsm_session_init_def caller_start_def)
  have live: "p_sessions ?P 64 = Some session_new" by (simp add: wsm_session_init_def)
  have room: "bytes_room demo_platform session_new ?bytes"
    using c_to_str_encode [OF demo_call_fits(2)]
    by (simp add: bytes_room_def session_room_def session_new_def boxed_new_def)
  obtain m Q where e: "wsm_eval_string demo_platform ?P 64 (Some ?bytes) = (Inr (utf8_encode m), Q)"
    by (cases rule: eval_string_outcome [OF ok live room]) (use demo_call_fits(1) in auto)
  let ?C1 = "?S\<lparr>c_process := ?P\<rparr>" and ?C2 = "\<lparr>c_process = Q, c_strings = [128 \<mapsto> utf8_encode m]\<rparr>"
  obtain D where D: "wsm_eval_string_raw demo_platform 192 ?C2 0 None = (Inr 192, D)"
      "c_strings D = [128 \<mapsto> utf8_encode m, 192 \<mapsto> into_c_string (lit ''error: null session or source pointer'')]"
    by (simp add: wsm_eval_string_raw_def wsm_eval_string_def del: lit_simps)
  have "c_step demo_platform ?S Enters ?C1"
    by (rule c_step.enters, rule api_step.init) (simp_all add: caller_start_def process_start_def)
  moreover have "c_step demo_platform ?C1 (Hands_Out 128) ?C2"
    by (rule c_step.eval [OF _ room, of _ 64])
      (use live e in \<open>simp_all add: wsm_eval_string_raw_def caller_start_def\<close>)
  moreover have "c_step demo_platform ?C2 (Hands_Out 192) D"
    by (rule c_step.null [OF _ _ _ D(1)]) simp_all
  moreover have "c_step demo_platform D (Takes_Back 128) (D\<lparr>c_strings := (c_strings D)(128 := None)\<rparr>)"
    by (rule c_step.free) (simp add: wsm_free_string_def D(2))
  ultimately have "c_run demo_platform ?S ((([] @ [Enters]) @ [Hands_Out 128]) @ [Hands_Out 192]) D"
    "c_step demo_platform D (Takes_Back 128) (D\<lparr>c_strings := (c_strings D)(128 := None)\<rparr>)"
    by (blast intro: c_run.intros)+
  then obtain C where run: "c_run demo_platform ?S [Enters, Hands_Out 128, Hands_Out 192, Takes_Back 128] C"
    using c_run.step by fastforce
  have "owned [Enters, Hands_Out 128, Hands_Out 192, Takes_Back 128] = {192}" by (auto simp: owned_def)
  then have "dom (c_strings C) = {192}" "wsm_free_string C 128 = (Inl (Dangling_String 128), C)"
    using strings_belong_to_the_caller [OF _ _ run] by simp_all
  then show ?thesis using run by blast
qed

text \<open>
  Outside the contract of callbacks: one that reports success and writes nothing leaves the word 0,
  the null pointer with the tag of a cons, which the printer dereferences. And a string with a
  quote in it is printed without an escape, so the text does not read back.
\<close>

lemma unwritten_result_is_a_wild_read:
  assumes "arena_ok A"
  shows "host_closure pl (\<lambda>args h. Done 0 None h) args w = (Inr 0, w)"
    and "value_to_string c st b A 0 = Inl (Wild_Read 0)"
proof -
  show "host_closure pl (\<lambda>args h. Done 0 None h) args w = (Inr 0, w)" by (simp add: host_closure_def)
  have "\<not> arena_base A \<le> 0" using arena_okD(3) [OF assms] by (auto simp: word_le_nat_alt)
  then have "wsm_car A 0 = Inl (Wild_Read 0)" by (simp add: wsm_car_def load_slot_def)
  moreover have "tag_of 0 = TAG_CONS" by (simp add: tag_of_def TAG_CONS_def)
  ultimately have "write_value c st b A (Suc (Suc (Suc n))) 0 = Inl (Wild_Read 0)" for n
    using tags_distinct by simp
  from this [of 770] show "value_to_string c st b A 0 = Inl (Wild_Read 0)"
    by (simp add: value_to_string_def print_fuel_def)
qed
lemma unescaped_quote: "tokenize (show_boxed (Str [34])) = Inl UnterminatedString"
  by (simp add: is_delimiter_def is_whitespace_def)

section \<open>Text and words\<close>

text \<open>
  C36. The unit tests of the modules and the fixtures of the language's reference implementation
  pass in every arena with 16 free cells.
\<close>

theorem module_tests_pass:
  assumes "test_room pl A" and "fixture_spellings (pl_spellings pl)"
  shows "list_all (\<lambda>test. test A = Inr ()) (nucleus_test_list pl @ reader_and_printer_test_list pl
    @ evaluator_test_list pl @ fixture_list pl)"
  using module_tests [OF assms] by simp

theorem module_tests_pass_witness:
  "nested_call_argument_evaluates_before_dispatch test_platform (arena_load 65536) = Inr ()"
  using module_tests_pass [OF test_platform_room test_platform_fixture_spellings]
  by (simp add: evaluator_test_list_def)

text \<open>
  C37. Each section of the benchmark runs to its end at the source's iteration counts, any
  other section name is a panic, and without an argument the program runs every section as a
  subprocess and none of them is reported as failed.
\<close>

theorem bench_sections_run:
  assumes "spelled (pl_spellings pl) (lit ''noop'') = Op_Call (lit ''noop'')"
    and "can_open pl p q 1200 C" and "1000000 \<le> boxed_room (pl_codec pl) []"
  shows "bench_main pl p q arg C =
      (if arg \<in> {lit ''a'', lit ''b'', lit ''c'', lit ''boxed''} then Inr () else Inl Rust_Panic)
    \<and> bench_entry pl p q (subprocess (bench_program pl p q report C) show_status) None D = Inr []"
  using bench_runs [OF assms] bench_all_runs [OF assms] by blast

theorem bench_sections_run_witness:
  "bench_main test_platform 64 128 (lit ''a'') test_side = Inr ()
   \<and> bench_main test_platform 64 128 (lit ''d'') test_side = Inl Rust_Panic"
proof -
  have "can_open test_platform 64 128 1200 test_side" by simp
  note run = bench_sections_run [OF test_platform_spellings(3) this, THEN conjunct1]
  show ?thesis using run [of "lit ''a''"] run [of "lit ''d''"] by (simp add: lit_def)
qed

text \<open>C38. A fixnum survives the word encoding exactly when it fits in 61 bits.\<close>

theorem fixnum_roundtrip_iff:
  "decode_fixnum (encode_fixnum v) = v \<longleftrightarrow> - (2 ^ 60) \<le> sint v \<and> sint v < 2 ^ 60"
  by (rule decode_encode_iff)

section \<open>The build script\<close>

text \<open>
  C39. The registry parser reads back exactly the expressions whose tokens it is given, and
  never runs out of its bound.
\<close>

theorem registry_parser_is_exact:
  "parse_sexpr (registry_fuel ts) ts = Inr (e, r) \<longleftrightarrow> ts = sexpr_tokens e @ r \<and> sexpr_ok e"
proof
  assume "parse_sexpr (registry_fuel ts) ts = Inr (e, r)"
  then show "ts = sexpr_tokens e @ r \<and> sexpr_ok e" by (rule parse_sexpr_sound(1))
next
  assume "ts = sexpr_tokens e @ r \<and> sexpr_ok e"
  then show "parse_sexpr (registry_fuel ts) ts = Inr (e, r)"
    using parse_sexpr_tokens [of e "registry_fuel ts" r] by (simp add: registry_fuel_def)
qed

text \<open>
  C40. From the registry to the evaluator: when the build goes through, the file it generates is
  one that compiles, its four constants are non-empty, and the operator on which the evaluator
  dispatches for any name at all is the one that the registry's entries give that name, spellings
  marked missing left out.
\<close>

theorem evaluator_dispatches_on_the_registry:
  assumes "build_main unprintable source = Inr out" and "list_all valid_scalar source"
  shows "\<exists>root rest s. registry_tokens source = sexpr_tokens root @ rest \<and> sexpr_ok root
    \<and> include_spellings out = Some s
    \<and> [] \<notin> {QUOTE_SPELLINGS s, CAR_SPELLINGS s, CDR_SPELLINGS s, COND_SPELLINGS s}
    \<and> (\<forall>name. spelled s name = registry_operator root name)"
proof (rule build_spellings [OF assms])
  fix root rest s
  assume "registry_tokens source = sexpr_tokens root @ rest" "sexpr_ok root" "include_spellings out = Some s"
    and q: "spellings_for_id root (lit ''00000001'') = Inr (QUOTE_SPELLINGS s)" "QUOTE_SPELLINGS s \<noteq> []"
    and a: "spellings_for_id root (lit ''00000101'') = Inr (CAR_SPELLINGS s)" "CAR_SPELLINGS s \<noteq> []"
    and d: "spellings_for_id root (lit ''00000110'') = Inr (CDR_SPELLINGS s)" "CDR_SPELLINGS s \<noteq> []"
    and c: "spellings_for_id root (lit ''00000111'') = Inr (COND_SPELLINGS s)" "COND_SPELLINGS s \<noteq> []"
  then show ?thesis using spelled_registry [OF q(1) a(1) d(1) c(1)] by fastforce
qed

definition demo_registry :: sexpr where
  "demo_registry = SList [SAtom (lit ''sr/1''),
     SList [SAtom (lit ''00000001''), SList [SAtom (lit ''en''), SAtom (lit ''quote''), SAtom (lit ''ok'')]],
     SList [SAtom (lit ''00000101''), SList [SAtom (lit ''en''), SAtom (lit ''car'')]],
     SList [SAtom (lit ''00000110''), SList [SAtom (lit ''sa''), SAtom (lit ''-''), SAtom (lit ''missing'')],
       SList [SAtom (lit ''en''), SAtom (lit ''cdr'')]],
     SList [SAtom (lit ''00000111''), SList [SAtom (lit ''en''), SAtom (lit ''cond'')]]]"

definition demo_registry_text :: rstring where
  "demo_registry_text = lit ''(sr/1 (00000001 (en quote ok)) (00000101 (en car)) (00000110 (sa - missing) (en cdr)) (00000111 (en cond)))''"

lemma demo_registry_tokens: "registry_tokens demo_registry_text = sexpr_tokens demo_registry @ []"
  by (simp add: demo_registry_text_def demo_registry_def registry_delimiter_def is_whitespace_def)

lemma demo_build: "\<exists>out. build_main (\<lambda>_. False) demo_registry_text = Inr out"
proof -
  have "sexpr_ok demo_registry" by (simp add: demo_registry_def)
  then have p: "parse_sexpr (registry_fuel (registry_tokens demo_registry_text)) (registry_tokens demo_registry_text)
      = Inr (demo_registry, [])"
    unfolding demo_registry_tokens by (intro parse_sexpr_tokens) (simp_all add: registry_fuel_def)
  have "\<exists>ws. spellings_for_id demo_registry i = Inr ws \<and> ws \<noteq> []"
    if "i \<in> {lit ''00000001'', lit ''00000101'', lit ''00000110'', lit ''00000111''}" for i
    using that by (auto simp: demo_registry_def spellings_for_id_def surface_spelling_def)
  then have emit: "\<exists>x. emit_entry (\<lambda>_. False) n demo_registry i = Inr x"
    if "i \<in> {lit ''00000001'', lit ''00000101'', lit ''00000110'', lit ''00000111''}" for i n
  proof -
    assume "\<And>i. i \<in> {lit ''00000001'', lit ''00000101'', lit ''00000110'', lit ''00000111''} \<Longrightarrow>
      \<exists>ws. spellings_for_id demo_registry i = Inr ws \<and> ws \<noteq> []"
    from this [OF that] obtain ws where "spellings_for_id demo_registry i = Inr ws" "ws \<noteq> []" by blast
    then show ?thesis by (simp add: emit_entry_def del: lit_simps)
  qed
  obtain q a d c where
    "emit_entry (\<lambda>_. False) (lit ''QUOTE_SPELLINGS'') demo_registry (lit ''00000001'') = Inr q"
    "emit_entry (\<lambda>_. False) (lit ''CAR_SPELLINGS'') demo_registry (lit ''00000101'') = Inr a"
    "emit_entry (\<lambda>_. False) (lit ''CDR_SPELLINGS'') demo_registry (lit ''00000110'') = Inr d"
    "emit_entry (\<lambda>_. False) (lit ''COND_SPELLINGS'') demo_registry (lit ''00000111'') = Inr c"
    using emit [of "lit ''00000001''"] emit [of "lit ''00000101''"] emit [of "lit ''00000110''"]
      emit [of "lit ''00000111''"] by blast
  then show ?thesis
    using p by (simp add: build_main_def Let_def del: lit_simps)
qed

theorem evaluator_dispatches_on_the_registry_witness:
  "\<exists>out s. build_main (\<lambda>_. False) demo_registry_text = Inr out \<and> include_spellings out = Some s
    \<and> (\<forall>name. spelled s name = Op_Quote \<longleftrightarrow> name = lit ''quote'')"
proof -
  obtain out where out: "build_main (\<lambda>_. False) demo_registry_text = Inr out" using demo_build by blast
  have "list_all valid_scalar demo_registry_text" by (simp add: demo_registry_text_def)
  from evaluator_dispatches_on_the_registry [OF out this] obtain root rest s where
    "sexpr_tokens demo_registry @ [] = sexpr_tokens root @ rest" "sexpr_ok root" "include_spellings out = Some s"
    and s: "\<forall>name. spelled s name = registry_operator root name"
    unfolding demo_registry_tokens by blast
  moreover from this(1,2) have "root = demo_registry"
    using sexpr_tokens_inj [of demo_registry root "[]" rest] by (simp add: demo_registry_def)
  moreover have "registry_operator demo_registry name = Op_Quote \<longleftrightarrow> name = lit ''quote''" for name
    by (auto simp: registry_operator_def registered_def demo_registry_def is_entry_def surface_spelling_def)
  ultimately show ?thesis using out by simp
qed

section \<open>The adapter\<close>



text \<open>
  C23. The player's handle follows the game: whatever the engine answers, call by call, each call
  reports it, the bound token stands for the last player that a lookup gave, every other token for
  nothing, and after a change of player no handle that Lisp kept from before leads anywhere.
\<close>

theorem player_handle_follows_the_game:
  assumes "epoch_ok pl n p (length obs) P" and "p \<noteq> 0" and "text_ok n" and "out \<noteq> 0"
  shows "\<exists>P'. observe_all pl (utf8_encode n) p out obs P = (Inr (map (\<lambda>ob. (0, Some (presence_word ob))) obs), P')
    \<and> epoch_ok pl n p 0 P'
    \<and> resolve (a_handles (p_host P')) (a_player (p_host P')) = last_observed (p_host P) obs
    \<and> (\<forall>t. t \<noteq> a_player (p_host P') \<longrightarrow> resolve (a_handles (p_host P')) t = 0)
    \<and> (a_player (p_host P') \<noteq> a_player (p_host P) \<longrightarrow> (\<forall>S w t. p_sessions P p = Some S \<longrightarrow>
         get_game_handle (pl_codec pl) (s_boxed S) w = Some t \<longrightarrow> resolve (a_handles (p_host P')) t = 0))"
proof -
  obtain P' where P': "observe_all pl (utf8_encode n) p out obs P = (Inr (map (\<lambda>ob. (0, Some (presence_word ob))) obs), P')"
      "epoch_ok pl n p 0 P'"
      "resolve (a_handles (p_host P')) (a_player (p_host P')) = last_observed (p_host P) obs"
      "a_player (p_host P') \<in> {0, a_player (p_host P)} \<or> m_nextToken (a_handles (p_host P)) \<le> a_player (p_host P')"
    by (rule observe_all_runs [OF assms]) blast
  have only: "resolve (a_handles (p_host P')) t = 0" if "t \<noteq> a_player (p_host P')" for t
    using P'(2) that by (intro only_player) (simp_all add: epoch_ok_def)
  have "resolve (a_handles (p_host P')) t = 0"
    if "a_player (p_host P') \<noteq> a_player (p_host P)" "p_sessions P p = Some S"
      "get_game_handle (pl_codec pl) (s_boxed S) w = Some t" for S w t
  proof -
    have "t < m_nextToken (a_handles (p_host P))"
      using assms(1) that(2,3) by (auto simp: epoch_ok_def session_epoch_def)
    then show ?thesis using P'(4) that(1) only [of t] by (cases "t = 0") auto
  qed
  then show ?thesis using P'(1-3) only by blast
qed

theorem player_handle_follows_the_game_witness:
  "\<exists>P'. observe_all demo_platform (utf8_encode CPB_0001) 64 8 [(True, 8192), (False, 0)] game_process
      = (Inr [(0, Some wsm_word_true), (0, Some wsm_word_nil)], P')
    \<and> resolve (a_handles (p_host P')) (a_player (p_host P')) = 8192"
proof -
  have "epoch_ok demo_platform CPB_0001 64 (length [(True, 8192), (False, 0)]) game_process"
    by (rule game_epoch) simp
  from player_handle_follows_the_game [OF this _ surface_names(8), of 8]
  show ?thesis by (auto simp: presence_word_def last_observed_def)
qed





text \<open>
  C28. What \<open>ShutdownCanonicalRepl\<close> promises: once it has returned true, the session is freed, the socket
  worker is not there, nothing is queued; from the loop of the bridge thread, with no request in hand and
  a worker that is not at work on a buffer, it can return true; and while the worker spins over a blank
  line it never does.
\<close>

theorem shutdown_means_stopped:
  assumes "(bridge_step expected E)\<^sup>*\<^sup>* bridge_prepared b"
  shows "(br_shutdown b = Returned True \<longrightarrow> session_free b \<and> server_off (br_server b))
    \<and> (br_run b = Looping \<and> sv_game (br_server b) = Playing \<and> br_shutdown b = Poll_Finished
        \<and> sv_worker (br_server b) \<noteq> Splitting \<longrightarrow>
       (\<exists>b'. (bridge_step expected E)\<^sup>*\<^sup>* b b' \<and> br_shutdown b' = Returned True))
    \<and> (spinning (br_server b) \<longrightarrow>
       (\<forall>b'. (bridge_step expected E)\<^sup>*\<^sup>* b b' \<longrightarrow> br_shutdown b' \<noteq> Returned True))"
proof -
  have ok: "bridge_ok b" using assms by (rule bridge_reachable)
  have "br_shutdown b' \<noteq> Returned True" if "(bridge_step expected E)\<^sup>*\<^sup>* b b'" "spinning (br_server b)" for b'
    using spinning_bridge [OF that(1) ok that(2)] spinning_not_finished returned_finished by blast
  moreover have "\<exists>b'. (bridge_step expected E)\<^sup>*\<^sup>* b b' \<and> br_shutdown b' = Returned True"
    if "br_run b = Looping" "sv_game (br_server b) = Playing" "br_shutdown b = Poll_Finished" "sv_worker (br_server b) \<noteq> Splitting"
    using looping_returns [OF that(1,2,4,3)] shutdown_requests_stop [OF ok] that(3) by simp
  ultimately show ?thesis using finished_means_stopped [OF ok] returned_finished [OF ok] by blast
qed

definition demo_embed :: "nat embed" where
  "demo_embed = \<lparr>em_abi_version = 1, em_session_new = Some 0, em_eval = (\<lambda>n source. (Some source, n + 1))\<rparr>"

theorem shutdown_means_stopped_witness:
  "(\<exists>b. (bridge_step 1 demo_embed)\<^sup>*\<^sup>* bridge_prepared b \<and> br_shutdown b = Returned True \<and> session_free b)
   \<and> (\<exists>b. (bridge_step 1 demo_embed)\<^sup>*\<^sup>* bridge_prepared b
      \<and> (\<forall>b'. (bridge_step 1 demo_embed)\<^sup>*\<^sup>* b b' \<longrightarrow> br_shutdown b' \<noteq> Returned True))"
proof -
  have "host_start 1 demo_embed host_new = (True, \<lparr>m_session = Some 0, m_abiVersion = 1\<rparr>)"
    by (simp add: host_start_def host_stop_def host_new_def demo_embed_def)
  then obtain b where "(bridge_step 1 demo_embed)\<^sup>*\<^sup>* bridge_prepared b" "spinning (br_server b)"
    using blank_line_wedges_the_bridge by blast
  moreover have "br_shutdown early_shutdown = Returned True" by (simp add: early_shutdown_def)
  ultimately show ?thesis
    using shutdown_means_stopped early_shutdown_reached by blast
qed

text \<open>
  C29. A blank line hangs the server: when a chunk that is received with an empty buffer begins with
  a newline, or is a carriage return and a newline, the worker never leaves the loop over the buffer
  again, answers nothing more, and a \<open>Stop\<close> that has begun to join it never returns.
\<close>

theorem blank_line_hangs_the_server:
  assumes "sv_worker s = In_Receive" and "sv_buffered s = []" and "length chunk \<le> 1024"
    and "chunk = 10 # c \<or> chunk = [13, 10]"
  shows "server_step evaluator s (after_receive chunk s)
    \<and> (\<forall>s'. (server_step evaluator)\<^sup>*\<^sup>* (after_receive chunk s) s' \<longrightarrow>
        sv_worker s' = Splitting \<and> sv_sent s' = sv_sent s
      \<and> (\<forall>s''. (server_step evaluator)\<^sup>*\<^sup>* s' s'' \<longrightarrow> sv_game s' = Joining \<longrightarrow> sv_game s'' = Joining))"
proof (intro conjI allI impI)
  show "server_step evaluator s (after_receive chunk s)"
    using assms by (intro server_step.receive) auto
  note spin = blank_line_spins [OF assms]
  fix s'
  assume "(server_step evaluator)\<^sup>*\<^sup>* (after_receive chunk s) s'"
  note later = spinning_for_ever [OF this spin(1)]
  then show "sv_worker s' = Splitting" "sv_sent s' = sv_sent s" using spin(3) by (auto simp: spinning_def)
  fix s''
  assume "(server_step evaluator)\<^sup>*\<^sup>* s' s''" "sv_game s' = Joining"
  then show "sv_game s'' = Joining" using later spinning_for_ever by blast
qed

theorem blank_line_hangs_the_server_witness:
  "\<exists>s. (server_step (\<lambda>source g. (source, g)))\<^sup>*\<^sup>* (server_new (0 :: nat)) s \<and> sv_game s = Joining
    \<and> (\<forall>s'. (server_step (\<lambda>source g. (source, g)))\<^sup>*\<^sup>* s s' \<longrightarrow> sv_game s' = Joining \<and> sv_worker s' = Splitting)"
proof -
  let ?step = "server_step (\<lambda>source (g :: nat). (source, g))" and ?s = "demo_listening (0 :: nat)"
  let ?r = "after_receive [10] ?s"
  have s: "sv_worker ?s = In_Receive" "sv_buffered ?s = []" "sv_game ?s = Playing"
    by (rule demo_listening_at)+
  have hangs: "?step ?s ?r" "?step\<^sup>*\<^sup>* ?r s' \<Longrightarrow> sv_worker s' = Splitting
      \<and> (\<forall>s''. ?step\<^sup>*\<^sup>* s' s'' \<longrightarrow> sv_game s' = Joining \<longrightarrow> sv_game s'' = Joining)" for s'
    using blank_line_hangs_the_server [OF s(1,2), of "[10]" "[]"] by auto
  have "sv_game ?r = Playing" using blank_line_spins(2) [OF s(1,2), of "[10]" "[]"] s(3) by simp
  then have stop: "?step ?r (stop_begin ?r)" by (rule server_step.stop)
  have "?step\<^sup>*\<^sup>* (server_new 0) (stop_begin ?r)"
    using demo_listening_reached [of "\<lambda>source g. (source, g)" 0] hangs(1) stop by (meson rtranclp.rtrancl_into_rtrancl)
  moreover have "sv_game s' = Joining \<and> sv_worker s' = Splitting" if "?step\<^sup>*\<^sup>* (stop_begin ?r) s'" for s'
    using hangs(2) [of "stop_begin ?r"] hangs(2) [of s'] stop that
    by (auto simp: stop_begin_def intro: converse_rtranclp_into_rtranclp)
  ultimately show ?thesis by (intro exI [of _ "stop_begin ?r"]) (auto simp: stop_begin_def)
qed

text \<open>
  C33. However the in-game terminal is used, its history and transcript and the request queue stay
  within their limits, no two entries of the history in a row are equal, the entries of the
  transcript are numbered in a row, and unless it is cleared it shows the last 512 of the sources
  that came back, in the order in which they were submitted, the others still waiting.
\<close>

theorem deck_shows_what_was_submitted:
  assumes "fold use_deck us (deck_new, empty_queue) = (d, Q)"
  shows "length (d_history d) \<le> kMaxHistoryEntries \<and> distinct_adj (d_history d)
    \<and> length (d_transcript d) \<le> kMaxTranscriptEntries \<and> numbered d \<and> pending Q \<le> kMaxPendingRequests
    \<and> (Clear_Transcript \<notin> set us \<longrightarrow> (\<exists>recorded.
         submitted us (deck_new, empty_queue) = recorded @ map rq_source (m_requests Q)
       \<and> map te_source (d_transcript d) = drop (length recorded - kMaxTranscriptEntries) recorded
       \<and> d_nextSequence d = 1 + word_of_nat (length recorded)))"
proof -
  have empty: "queue_ok empty_queue" "entered [] deck_new"
    by (simp_all add: queue_ok_def empty_queue_def entered_def deck_new_def)
  have "deck_ok d \<and> queue_ok Q" by (rule uses_ok [OF deck_new_ok empty(1) assms])
  then show ?thesis
    using uses_enter [OF deck_new_ok empty _ assms]
    by (auto simp: deck_ok_def queue_ok_def pending_def entered_def empty_queue_def)
qed

theorem deck_shows_what_was_submitted_witness:
  "\<exists>d Q. fold use_deck [Toggle, Set_Input [53], Submit, Set_Input [54], Submit, Reply [53]] (deck_new, empty_queue) = (d, Q)
    \<and> map te_source (d_transcript d) = [[53]] \<and> map rq_source (m_requests Q) = [[54]]
    \<and> length (d_history d) \<le> kMaxHistoryEntries"
proof -
  let ?us = "[Toggle, Set_Input [53], Submit, Set_Input [54], Submit, Reply [53]]"
  obtain d Q where run: "fold use_deck ?us (deck_new, empty_queue) = (d, Q)" by fastforce
  have "map te_source (d_transcript d) = [[53]] \<and> map rq_source (m_requests Q) = [[54]]"
    using run by (auto simp: toggle_def set_input_def submit_def take_input_def remember_def push_cases pop_def
        deck_reply_def record_entry_def make_room_def deck_new_def empty_queue_def Let_def
        kMaxHistoryEntries_def kMaxTranscriptEntries_def kMaxRequestBytes_def kMaxPendingRequests_def)
  moreover have "length (d_history d) \<le> kMaxHistoryEntries" using deck_shows_what_was_submitted [OF run] by simp
  ultimately show ?thesis using run by (intro exI [of _ d] exI [of _ Q]) simp
qed

text \<open>
  C34. From the socket to the language and back: a client whose connection is the first of a fresh
  session and whose lines are forms gets, line by line, what its forms mean there, never anything
  else; and from every state in which the worker has begun on its lines the two threads can go on
  until it has all the answers.
\<close>

theorem repl_client_gets_the_meanings:
  assumes "(server_step (drain_evaluate pl q p))\<^sup>*\<^sup>* (server_new (Inr C)) s" and "serving s" and "sv_base s = 0"
    and "sv_received s = transmission fs" and "list_all line_form fs"
    and "ready pl H p q C0 k C" and "means_all (pl_spellings pl) H k fs = Some rs"
  shows "(\<exists>n \<le> length fs. sv_sent s = map (\<lambda>r. utf8_encode (answer_text r)) (take n rs)
      \<and> (sv_worker s \<in> {Receive_Check, In_Receive} \<longrightarrow> n = length fs))
    \<and> (sv_worker s = Splitting \<and> sv_running s \<and> sv_game s \<in> {Playing, Draining} \<longrightarrow>
      (\<exists>s'. (server_step (drain_evaluate pl q p))\<^sup>*\<^sup>* s s'
        \<and> sv_sent s' = map (\<lambda>r. utf8_encode (answer_text r)) rs))"
  by (rule repl.serves [OF assms(1-5) _ assms(7)]) (use assms(6) in blast)

theorem repl_client_gets_the_meanings_witness:
  "\<exists>s. (server_step (drain_evaluate test_platform 128 64))\<^sup>*\<^sup>*
       (server_new (Inr (test_side\<lparr>c_process := put_session (c_process test_side) 64 session_new\<rparr>))) s
     \<and> sv_sent s = [utf8_encode (lit ''5'')]"
proof -
  let ?C = "test_side\<lparr>c_process := put_session (c_process test_side) 64 session_new\<rparr>"
  let ?f = "FAtom (lit ''5'')" and ?ev = "drain_evaluate test_platform 128 64"
  let ?s = "after_receive (transmission [?f]) (demo_listening (Inr ?C))"
  have bytes: "transmission [?f] = [53, 10]"
    by (simp add: transmission_def utf8_encode_def utf8_char_def)
  have "form_ok ?f" by (simp add: atom_ok_words [simplified] atoms [simplified])
  then have f: "list_all line_form [?f]"
    using bytes by (simp add: line_form_def ARENA_CELLS_def transmission_def kMaxRequestBytes_def)
  have means: "means_all (pl_spellings test_platform) empty_host 1 [?f] = Some [Inr (LInt 5)]"
    using eval_integers(5) by (simp add: symbol_value_def)
  have "can_open test_platform 64 128 1 test_side" by simp
  then have ready: "ready test_platform empty_host 64 128 test_side 1 ?C"
    unfolding can_open_def by (intro ready_init) simp_all
  have chunk: "transmission [?f] \<noteq> []" "length (transmission [?f]) \<le> 1024" unfolding bytes by simp_all
  note s = demo_receives [OF chunk(2), of "Inr ?C"]
  have "server_step ?ev (demo_listening (Inr ?C)) ?s"
    by (rule server_step.receive) (simp_all only: chunk demo_listening_at not_False_eq_True)
  with demo_listening_reached have run: "(server_step ?ev)\<^sup>*\<^sup>* (server_new (Inr ?C)) ?s"
    by (rule rtranclp.rtrancl_into_rtrancl)
  have go: "sv_worker ?s = Splitting \<and> sv_running ?s \<and> sv_game ?s \<in> {Playing, Draining}"
    using s(1-3) by blast
  obtain s' where s': "(server_step ?ev)\<^sup>*\<^sup>* ?s s'"
      "sv_sent s' = map (\<lambda>r. utf8_encode (answer_text r)) [Inr (LInt 5)]"
    using repl_client_gets_the_meanings [OF run s(6,4,5) f ready means, THEN conjunct2, THEN mp, OF go] by blast
  have "answer_text (Inr (LInt 5)) = lit ''5''"
    by (simp add: dec_int_def dec_nat_def digit_char_def digits_of.simps)
  with s'(2) have "sv_sent s' = [utf8_encode (lit ''5'')]" by (simp only: list.map)
  then show ?thesis using rtranclp_trans [OF run s'(1)] by blast
qed



end
